(* ===== verification/Prelude.thy ===== *)
theory Prelude
  imports Complex_Main "HOL-Library.Word" "HOL-Library.Signed_Division" "HOL-Library.AList"
begin

text \<open>
  Shared material of the development: the machine integers of the Go sources (\<open>int64\<close>, modelled
  as 64-bit words read with \<^const>\<open>sint\<close>), Go's truncating \<open>/\<close> and \<open>%\<close>, source positions, and the
  generic lemmas on words and lists that the component theories use.
\<close>

unbundle bit_operations_syntax

named_theorems go_arith \<open>Go's integer operators read as operations on \<^typ>\<open>int\<close>\<close>
named_theorems frame_simps \<open>how the operations of an environment act on its frames\<close>

section \<open>Go integers\<close>

type_synonym int64 = "64 word"

text \<open>Source positions: file, line and column, as embedded in every AST node.\<close>

record pos =
  File :: string
  Line :: int
  Col :: int

definition minInt64 :: int64 where
  "minInt64 = word_of_int (- (2 ^ 63))"

text \<open>Go's \<open>/\<close> and \<open>%\<close> on \<open>int64\<close> truncate towards zero and wrap (\<open>MinInt64 / -1\<close> is
  \<open>MinInt64\<close>); a zero divisor panics, so every caller checks it first.\<close>

definition go_quot :: "int64 \<Rightarrow> int64 \<Rightarrow> int64" where
  "go_quot a b = word_of_int (sint a sdiv sint b)"

definition go_rem :: "int64 \<Rightarrow> int64 \<Rightarrow> int64" where
  "go_rem a b = word_of_int (sint a smod sint b)"

definition in_int64 :: "int \<Rightarrow> bool" where
  "in_int64 z \<longleftrightarrow> - (2 ^ 63) \<le> z \<and> z < 2 ^ 63"

lemma sint64_lower: "- 9223372036854775808 \<le> sint (a :: int64)"
  using sint_ge [of a] by simp

lemma sint64_upper: "sint (a :: int64) < 9223372036854775808"
  using sint_lt [of a] by simp

lemma in_int64_sint [simp]: "in_int64 (sint (a :: int64))"
  using sint_ge [of a] sint_lt [of a] by (simp add: in_int64_def)

lemma sint_word_of_int64 [go_arith]:
  "in_int64 z \<Longrightarrow> sint (word_of_int z :: int64) = z"
  by (simp add: in_int64_def sint_sbintrunc' signed_take_bit_int_eq_self)

lemma sint64_inject: "sint (a :: int64) = sint b \<longleftrightarrow> a = b"
  by (rule word_eq_iff_signed [symmetric])

lemma sint_minInt64 [simp]: "sint minInt64 = - (2 ^ 63)"
  by (simp add: minInt64_def in_int64_def sint_word_of_int64)

lemma word64_arith_sint:
  "(a :: int64) + b = word_of_int (sint a + sint b)"
  "a - b = word_of_int (sint a - sint b)"
  "a * b = word_of_int (sint a * sint b)"
  "- a = word_of_int (- sint a)"
  by simp_all

text \<open>Where the mathematical result fits, the machine operation computes it; otherwise it is off
  by a multiple of \<open>2 ^ 64\<close>.\<close>

lemma sint_wrap64: "\<exists>k. sint (word_of_int z :: int64) = z + k * 2 ^ 64"
proof -
  have "sint (word_of_int z :: int64) = (z + 2 ^ 63) mod 2 ^ 64 - 2 ^ 63"
    by (simp add: sint_sbintrunc' signed_take_bit_eq_take_bit_shift take_bit_eq_mod)
  also have "\<dots> = z + (- ((z + 2 ^ 63) div 2 ^ 64)) * 2 ^ 64"
    using div_mult_mod_eq [of "z + 2 ^ 63" "2 ^ 64"] by (simp add: algebra_simps)
  finally show ?thesis by blast
qed

lemma sint_wrap64_iff: "sint (word_of_int z :: int64) = z \<longleftrightarrow> in_int64 z"
  by (metis in_int64_sint sint_word_of_int64)

lemma word_of_int_period64: "(word_of_int (z + k * 2 ^ 64) :: int64) = word_of_int z"
  unfolding word_of_int_eq_iff by (simp add: take_bit_eq_mod del: of_int_add)

lemma sint_wrap64_if:
  assumes "- (3 * 2 ^ 63) \<le> z" and "z < 3 * 2 ^ 63"
  shows "sint (word_of_int z :: int64) =
     (if z < - (2 ^ 63) then z + 2 ^ 64 else if z \<ge> 2 ^ 63 then z - 2 ^ 64 else z)"
  using assms sint_word_of_int64 [of z] sint_word_of_int64 [of "z + 2 ^ 64"] sint_word_of_int64 [of "z - 2 ^ 64"]
    word_of_int_period64 [of z 1] word_of_int_period64 [of z "-1"]
  by (auto simp: in_int64_def simp del: of_int_add of_int_diff)

lemma sint_add_if64:
  "sint ((a :: int64) + b) =
     (if sint a + sint b < - (2 ^ 63) then sint a + sint b + 2 ^ 64
      else if sint a + sint b \<ge> 2 ^ 63 then sint a + sint b - 2 ^ 64
      else sint a + sint b)"
  unfolding word64_arith_sint(1)
  using sint64_lower [of a] sint64_upper [of a] sint64_lower [of b] sint64_upper [of b]
  by (intro sint_wrap64_if) simp_all

lemma sint_sub_if64:
  "sint ((a :: int64) - b) =
     (if sint a - sint b < - (2 ^ 63) then sint a - sint b + 2 ^ 64
      else if sint a - sint b \<ge> 2 ^ 63 then sint a - sint b - 2 ^ 64
      else sint a - sint b)"
  unfolding word64_arith_sint(2)
  using sint64_lower [of a] sint64_upper [of a] sint64_lower [of b] sint64_upper [of b]
  by (intro sint_wrap64_if) simp_all

section \<open>Truncating division\<close>

lemma sdiv_abs_div: "\<bar>(a :: int) sdiv b\<bar> \<le> \<bar>a\<bar> div \<bar>b\<bar>"
  by (simp add: signed_divide_int_def abs_mult sgn_if pos_imp_zdiv_nonneg_iff)

lemma sdiv_abs_le: "\<bar>(a :: int) sdiv b\<bar> \<le> \<bar>a\<bar>"
proof -
  have "\<bar>a sdiv b\<bar> \<le> \<bar>a\<bar> div \<bar>b\<bar>" by (rule sdiv_abs_div)
  also have "\<dots> \<le> \<bar>a\<bar>"
  proof (cases "b = 0")
    case False
    then have "\<bar>a\<bar> div \<bar>b\<bar> \<le> \<bar>a\<bar> div 1" by (intro zdiv_mono2) auto
    then show ?thesis by simp
  qed simp
  finally show ?thesis .
qed

lemma in_int64_sdiv:
  assumes "\<not> (sint (a :: int64) = - (2 ^ 63) \<and> sint (b :: int64) = -1)"
  shows "in_int64 (sint a sdiv sint b)"
proof (cases "sint a = - (2 ^ 63)")
  case False
  with sdiv_abs_le [of "sint a" "sint b"] sint64_lower [of a] sint64_upper [of a] show ?thesis
    by (simp add: in_int64_def) linarith
next
  case True
  have "sint b \<noteq> 0 \<Longrightarrow> \<bar>sint b\<bar> \<noteq> 1 \<Longrightarrow> \<bar>sint a\<bar> div \<bar>sint b\<bar> < 2 ^ 63"
    using True int_div_less_self [of "2 ^ 63" "\<bar>sint b\<bar>"] by simp
  then have "\<bar>sint b\<bar> \<noteq> 1 \<Longrightarrow> sint a sdiv sint b < 2 ^ 63"
    using sdiv_abs_div [of "sint a" "sint b"] by (cases "sint b = 0") auto
  moreover have "\<bar>sint b\<bar> = 1 \<Longrightarrow> sint a sdiv sint b < 2 ^ 63"
    using assms True by (auto simp: abs_if split: if_splits)
  ultimately have "sint a sdiv sint b < 2 ^ 63" by blast
  with sdiv_abs_le [of "sint a" "sint b"] True show ?thesis
    by (auto simp: in_int64_def abs_le_iff)
qed

end
