(* ===== verification/Types.thy ===== *)
theory Types
  imports Prelude
begin

text \<open>
  The declared types and operators of the language (\<open>internal/parser/ast.go\<close>): \<open>Type\<close> with its
  structural equality, \<open>BinaryOp\<close> and \<open>UnaryOp\<close> with their classification.
\<close>

section \<open>Declared types\<close>

text \<open>One constructor per \<open>TypeKind\<close>; the pointer fields of the Go struct that may be \<open>nil\<close> are options.
  A struct type carries its name, display namespace and module path.\<close>

datatype ty =
    TypeInvalid
  | TypeInt
  | TypeFloat
  | TypeString
  | TypeBool
  | TypeNull
  | TypeBytes
  | TypeList "ty option"
  | TypeMap "ty option" "ty option"
  | TypeStruct (tyName: string) (tyNS: string) (tyModPath: string)
  | TypeTask "ty option"
  | TypeFunc
  | TypeChannel "ty option"

text \<open>\<open>Type.Equal\<close>. For maps a missing key type on both sides decides at once, as in the source; the
  parser sets key and value type together, so a key type without a value type does not occur (the
  source would dereference \<open>nil\<close>).\<close>

fun tyEqual :: "ty \<Rightarrow> ty \<Rightarrow> bool" where
  "tyEqual (TypeList a) (TypeList b) = (case (a, b) of
       (None, None) \<Rightarrow> True | (Some x, Some y) \<Rightarrow> tyEqual x y | _ \<Rightarrow> False)"
| "tyEqual (TypeMap k v) (TypeMap k' v') =
     (if (k = None) \<noteq> (k' = None) \<or> (v = None) \<noteq> (v' = None) then False
      else case (k, k') of
        (Some x, Some y) \<Rightarrow> tyEqual x y \<and> (case (v, v') of (Some p, Some q) \<Rightarrow> tyEqual p q | _ \<Rightarrow> True)
      | _ \<Rightarrow> True)"
| "tyEqual (TypeStruct n ns p) (TypeStruct n' ns' p') \<longleftrightarrow> n = n' \<and> ns = ns' \<and> p = p'"
| "tyEqual (TypeTask a) (TypeTask b) = (case (a, b) of
       (None, None) \<Rightarrow> True | (Some x, Some y) \<Rightarrow> tyEqual x y | _ \<Rightarrow> False)"
| "tyEqual (TypeChannel a) (TypeChannel b) = (case (a, b) of
       (None, None) \<Rightarrow> True | (Some x, Some y) \<Rightarrow> tyEqual x y | _ \<Rightarrow> False)"
| "tyEqual TypeInvalid t \<longleftrightarrow> t = TypeInvalid"
| "tyEqual TypeInt t \<longleftrightarrow> t = TypeInt"
| "tyEqual TypeFloat t \<longleftrightarrow> t = TypeFloat"
| "tyEqual TypeString t \<longleftrightarrow> t = TypeString"
| "tyEqual TypeBool t \<longleftrightarrow> t = TypeBool"
| "tyEqual TypeNull t \<longleftrightarrow> t = TypeNull"
| "tyEqual TypeBytes t \<longleftrightarrow> t = TypeBytes"
| "tyEqual TypeFunc t \<longleftrightarrow> t = TypeFunc"
| "tyEqual _ _ \<longleftrightarrow> False"

text \<open>\<open>TypeKind\<close> tests used by the interpreter.\<close>

fun is_compound_ty :: "ty \<Rightarrow> bool" where
  "is_compound_ty (TypeList _) \<longleftrightarrow> True"
| "is_compound_ty (TypeMap _ _) \<longleftrightarrow> True"
| "is_compound_ty _ \<longleftrightarrow> False"

text \<open>Types as the parser builds them, with the pointer fields of compound types set, and with no list or map
  as the key type of a map.\<close>

fun wf_ty :: "ty \<Rightarrow> bool" where
  "wf_ty (TypeList t) \<longleftrightarrow> (case t of None \<Rightarrow> False | Some u \<Rightarrow> wf_ty u)"
| "wf_ty (TypeTask t) \<longleftrightarrow> (case t of None \<Rightarrow> False | Some u \<Rightarrow> wf_ty u)"
| "wf_ty (TypeChannel t) \<longleftrightarrow> (case t of None \<Rightarrow> False | Some u \<Rightarrow> wf_ty u)"
| "wf_ty (TypeMap k v) \<longleftrightarrow>
     (case k of None \<Rightarrow> False | Some u \<Rightarrow> wf_ty u \<and> \<not> is_compound_ty u) \<and> (case v of None \<Rightarrow> False | Some u \<Rightarrow> wf_ty u)"
| "wf_ty _ \<longleftrightarrow> True"

lemma tyEqual_refl [simp]: "tyEqual t t"
  by (induction t) (auto split: option.splits)

lemma tyEqual_eq: "wf_ty t \<Longrightarrow> tyEqual t u \<longleftrightarrow> t = u"
  by (induction t u rule: tyEqual.induct) (auto split: option.splits)

section \<open>Operators\<close>

datatype binop =
    OpAdd | OpSub | OpMul | OpDiv | OpFloorDiv | OpMod
  | OpLt | OpGt | OpLe | OpGe | OpEq | OpNeq
  | OpAnd | OpOr
  | OpBitOr | OpBitXor | OpBitAnd | OpShl | OpShr

datatype unop = OpNeg | OpNot | OpBitNot

fun IsComparison :: "binop \<Rightarrow> bool" where
  "IsComparison OpLt \<longleftrightarrow> True"
| "IsComparison OpGt \<longleftrightarrow> True"
| "IsComparison OpLe \<longleftrightarrow> True"
| "IsComparison OpGe \<longleftrightarrow> True"
| "IsComparison OpEq \<longleftrightarrow> True"
| "IsComparison OpNeq \<longleftrightarrow> True"
| "IsComparison _ \<longleftrightarrow> False"

definition IsLogical :: "binop \<Rightarrow> bool" where
  "IsLogical op \<longleftrightarrow> op = OpAnd \<or> op = OpOr"

fun isBitOp :: "binop \<Rightarrow> bool" where
  "isBitOp OpBitOr \<longleftrightarrow> True"
| "isBitOp OpBitXor \<longleftrightarrow> True"
| "isBitOp OpBitAnd \<longleftrightarrow> True"
| "isBitOp OpShl \<longleftrightarrow> True"
| "isBitOp OpShr \<longleftrightarrow> True"
| "isBitOp _ \<longleftrightarrow> False"

fun binopString :: "binop \<Rightarrow> string" where
  "binopString OpAdd = ''+''"
| "binopString OpSub = ''-''"
| "binopString OpMul = ''*''"
| "binopString OpDiv = ''/''"
| "binopString OpFloorDiv = ''//''"
| "binopString OpMod = ''%''"
| "binopString OpLt = ''<''"
| "binopString OpGt = ''>''"
| "binopString OpLe = ''<=''"
| "binopString OpGe = ''>=''"
| "binopString OpEq = ''==''"
| "binopString OpNeq = ''!=''"
| "binopString OpAnd = ''and''"
| "binopString OpOr = ''or''"
| "binopString OpBitOr = ''|''"
| "binopString OpBitXor = ''^''"
| "binopString OpBitAnd = ''&''"
| "binopString OpShl = ''<<''"
| "binopString OpShr = ''>>''"

fun unopString :: "unop \<Rightarrow> string" where
  "unopString OpNeg = ''-''"
| "unopString OpNot = ''not''"
| "unopString OpBitNot = ''~''"

fun tyString :: "ty \<Rightarrow> string" where
  "tyString (TypeList t) = (case t of None \<Rightarrow> ''list of <?>'' | Some u \<Rightarrow> ''list of '' @ tyString u)"
| "tyString (TypeMap k v) = (case (k, v) of
      (Some a, Some b) \<Rightarrow> ''map of '' @ tyString a @ '' to '' @ tyString b
    | _ \<Rightarrow> ''map of <?> to <?>'')"
| "tyString (TypeStruct n ns _) =
     (if n = [] then ''struct'' else if ns \<noteq> [] then ns @ ''.'' @ n else n)"
| "tyString (TypeTask t) = (case t of None \<Rightarrow> ''task of <?>'' | Some u \<Rightarrow> ''task of '' @ tyString u)"
| "tyString (TypeChannel t) = (case t of None \<Rightarrow> ''channel of <?>'' | Some u \<Rightarrow> ''channel of '' @ tyString u)"
| "tyString TypeInt = ''int''"
| "tyString TypeFloat = ''float''"
| "tyString TypeString = ''string''"
| "tyString TypeBool = ''bool''"
| "tyString TypeNull = ''null''"
| "tyString TypeBytes = ''bytes''"
| "tyString TypeFunc = ''func''"
| "tyString TypeInvalid = ''<invalid>''"

end
