(* ===== verification/Float64.thy ===== *)
theory Float64
  imports Prelude
begin

text \<open>
  Go's \<open>float64\<close>: the IEEE 754 binary64 values the interpreter computes with. A value is its 64-bit
  pattern (\<open>math.Float64bits\<close>); \<open>fdec\<close> reads the pattern as a NaN, an infinity or a finite value
  \<open>\<plusminus> m * 2 ^ k\<close> counted in units of \<open>2 ^ -1074\<close>, the smallest positive value, so every finite value is an
  integer number of units (\<open>fz\<close>) and all operations are exact integer arithmetic followed by one
  rounding to nearest, ties to even (\<open>fround\<close>).
\<close>

section \<open>Representation\<close>

datatype float64 = F64 (Float64bits: "64 word")

datatype fclass = CNaN | CInf bool | CFin bool nat nat

definition fbits :: "float64 \<Rightarrow> nat" where
  "fbits x = unat (Float64bits x)"

definition fdec :: "float64 \<Rightarrow> fclass" where
  "fdec x =
     (let b = fbits x; s = b \<ge> 2 ^ 63; e = (b div 2 ^ 52) mod 2048; f = b mod 2 ^ 52
      in if e = 2047 then (if f = 0 then CInf s else CNaN)
         else if e = 0 then CFin s f 0
         else CFin s (2 ^ 52 + f) (e - 1))"

fun fenc :: "fclass \<Rightarrow> float64" where
  "fenc CNaN = F64 (of_nat (2047 * 2 ^ 52 + 2 ^ 51 + 1))"
| "fenc (CInf s) = F64 (of_nat (of_bool s * 2 ^ 63 + 2047 * 2 ^ 52))"
| "fenc (CFin s m k) =
     F64 (of_nat (of_bool s * 2 ^ 63 + (if m < 2 ^ 52 then m else (k + 1) * 2 ^ 52 + (m - 2 ^ 52))))"

text \<open>The canonical finite values: a 53-bit significand, normalised unless the exponent is the
  smallest.\<close>

fun canon :: "fclass \<Rightarrow> bool" where
  "canon (CFin s m k) \<longleftrightarrow> m < 2 ^ 53 \<and> k \<le> 2045 \<and> (2 ^ 52 \<le> m \<or> k = 0)"
| "canon _ \<longleftrightarrow> True"

definition is_nan :: "float64 \<Rightarrow> bool" where
  "is_nan x \<longleftrightarrow> fdec x = CNaN"

definition is_inf :: "float64 \<Rightarrow> bool" where
  "is_inf x \<longleftrightarrow> (\<exists>s. fdec x = CInf s)"

definition is_fin :: "float64 \<Rightarrow> bool" where
  "is_fin x \<longleftrightarrow> \<not> is_nan x \<and> \<not> is_inf x"

text \<open>The number of units of a finite value, and the number of units in \<open>1.0\<close>.\<close>

definition funit :: nat where
  "funit = 2 ^ 1074"

definition fz :: "float64 \<Rightarrow> int" where
  "fz x = (case fdec x of CFin s m k \<Rightarrow> (if s then - 1 else 1) * int (m * 2 ^ k) | _ \<Rightarrow> 0)"

definition fneg_bit :: "float64 \<Rightarrow> bool" where
  "fneg_bit x \<longleftrightarrow> (case fdec x of CNaN \<Rightarrow> False | CInf s \<Rightarrow> s | CFin s _ _ \<Rightarrow> s)"

lemma funit_pos [simp]: "0 < funit" "funit \<noteq> 0"
  by (simp_all add: funit_def)

lemma canon_fdec: "canon (fdec x)"
proof -
  have "fbits x < 2 ^ 64" using unsigned_less [of "Float64bits x"] by (simp add: fbits_def)
  moreover have "fbits x mod 2 ^ 52 < 2 ^ 52" by simp
  moreover have "fbits x div 2 ^ 52 mod 2048 < 2048" by simp
  ultimately show ?thesis by (auto simp: fdec_def Let_def)
qed

lemma fbits_of_nat: "n < 2 ^ 64 \<Longrightarrow> fbits (F64 (of_nat n)) = n"
  by (simp add: fbits_def unat_of_nat)

lemma fdec_fields:
  assumes "e < 2048" and "f < 2 ^ 52"
  shows "fdec (F64 (of_nat (of_bool s * 2 ^ 63 + e * 2 ^ 52 + f))) =
     (if e = 2047 then (if f = 0 then CInf s else CNaN)
      else if e = 0 then CFin s f 0 else CFin s (2 ^ 52 + f) (e - 1))"
proof -
  define n :: nat where "n = of_bool s * 2 ^ 63 + e * 2 ^ 52 + f"
  have n: "n = (of_bool s * 2048 + e) * 2 ^ 52 + f" by (simp add: n_def)
  have lt: "(of_bool s * 2048 + e) < 4096" using assms by (cases s) auto
  have "n < 2 ^ 64" unfolding n using lt assms(2) by (cases s) auto
  then have b: "fbits (F64 (of_nat n)) = n" by (rule fbits_of_nat)
  have d: "n div 2 ^ 52 = of_bool s * 2048 + e" unfolding n using assms(2) by simp
  have m: "n mod 2 ^ 52 = f"
    unfolding n using assms(2) by (simp only: mod_mult_self3 mod_less)
  have g: "n \<ge> 2 ^ 63 \<longleftrightarrow> s" unfolding n using assms by (cases s) auto
  have e: "(of_bool s * 2048 + e) mod 2048 = e" using assms(1) by simp
  have "fdec (F64 (of_nat n)) =
     (if e = 2047 then (if f = 0 then CInf s else CNaN)
      else if e = 0 then CFin s f 0 else CFin s (2 ^ 52 + f) (e - 1))"
    unfolding fdec_def Let_def b d m g e ..
  then show ?thesis by (simp only: n_def)
qed

lemma fdec_fenc: "canon c \<Longrightarrow> fdec (fenc c) = c"
proof (cases c)
  case CNaN
  show ?thesis using fdec_fields [of 2047 "2 ^ 51 + 1" False] CNaN by simp
next
  case (CInf s)
  then show ?thesis using fdec_fields [of 2047 0 s] by simp
next
  case (CFin s m k)
  assume "canon c"
  then show ?thesis
    using CFin fdec_fields [of "if m < 2 ^ 52 then 0 else k + 1" "if m < 2 ^ 52 then m else m - 2 ^ 52" s]
    by (auto split: if_splits simp: algebra_simps)
qed


section \<open>Rounding\<close>

fun flog2 :: "nat \<Rightarrow> nat" where
  "flog2 n = (if n < 2 then 0 else Suc (flog2 (n div 2)))"

declare flog2.simps [simp del]

text \<open>\<open>fround s n d\<close> is the value nearest to \<open>n / d\<close> units with sign \<open>s\<close>, ties to the even
  significand, infinite beyond the largest finite value.\<close>

definition fround :: "bool \<Rightarrow> nat \<Rightarrow> nat \<Rightarrow> fclass" where
  "fround s n d =
     (let k = flog2 (n div d) - 52; D = d * 2 ^ k; q = n div D; r = n mod D;
          m = (if D < 2 * r \<or> (2 * r = D \<and> odd q) then Suc q else q)
      in if m = 2 ^ 53 then (if 2045 \<le> k then CInf s else CFin s (2 ^ 52) (Suc k))
         else if 2045 < k then CInf s else CFin s m k)"

lemma flog2_bounds: "0 < n \<Longrightarrow> 2 ^ flog2 n \<le> n \<and> n < 2 ^ Suc (flog2 n)"
proof (induction n rule: flog2.induct)
  case (1 n)
  show ?case
  proof (cases "n < 2")
    case True
    with 1 show ?thesis by (simp add: flog2.simps [of n])
  next
    case False
    then have "2 ^ flog2 (n div 2) \<le> n div 2 \<and> n div 2 < 2 ^ Suc (flog2 (n div 2))"
      by (intro 1) auto
    with False show ?thesis by (simp add: flog2.simps [of n]) linarith
  qed
qed

lemma flog2_unique: "2 ^ j \<le> n \<Longrightarrow> n < 2 ^ Suc j \<Longrightarrow> flog2 n = j"
proof -
  assume a: "2 ^ j \<le> n" "n < 2 ^ Suc j"
  then have "0 < n" using zero_less_power [of "2::nat" j] by linarith
  from flog2_bounds [OF this] a
  have "(2::nat) ^ flog2 n < 2 ^ Suc j" "(2::nat) ^ j < 2 ^ Suc (flog2 n)" by linarith+
  then have "flog2 n < Suc j" "j < Suc (flog2 n)"
    by (simp_all only: power_strict_increasing_iff one_less_numeral_iff rel_simps)
  then show ?thesis by simp
qed

lemma flog2_0 [simp]: "flog2 0 = 0"
  by (simp add: flog2.simps)

text \<open>The quotient of the rounding step is a 53-bit number, normalised unless \<open>k = 0\<close>.\<close>

lemma fround_quotient:
  fixes n d :: nat
  defines "k \<equiv> flog2 (n div d) - 52"
  assumes "0 < d"
  shows "n div (d * 2 ^ k) < 2 ^ 53" and "2 ^ 52 \<le> n div (d * 2 ^ k) \<or> k = 0"
proof -
  have q: "n div (d * 2 ^ k) = (n div d) div 2 ^ k" by (simp add: div_mult2_eq)
  show "n div (d * 2 ^ k) < 2 ^ 53"
  proof (cases "n div d = 0")
    case True
    then show ?thesis unfolding q True by simp
  next
    case False
    then have "n div d < 2 ^ Suc (flog2 (n div d))" using flog2_bounds by blast
    also have "\<dots> \<le> 2 ^ (53 + k)" by (intro power_increasing) (auto simp: k_def)
    finally have "n div d < 2 ^ 53 * 2 ^ k" by (simp add: power_add)
    then show ?thesis unfolding q by (simp only: less_mult_imp_div_less)
  qed
  show "2 ^ 52 \<le> n div (d * 2 ^ k) \<or> k = 0"
  proof (cases "k = 0")
    case False
    then have "flog2 (n div d) = 52 + k" by (simp add: k_def)
    moreover from False have "0 < n div d" by (cases "n div d") (auto simp: k_def)
    ultimately have "2 ^ 52 * 2 ^ k \<le> n div d" using flog2_bounds by (metis power_add)
    then have "2 ^ 52 * 2 ^ k div 2 ^ k \<le> (n div d) div 2 ^ k" by (rule div_le_mono)
    then show ?thesis unfolding q by (simp del: div_mult_self1_is_m)
  qed simp
qed

text \<open>The two shapes of a rounded value: the quotient or its successor.\<close>

lemma fround_cases:
  assumes "0 < d"
  obtains k q m where "k = flog2 (n div d) - 52" "q = n div (d * 2 ^ k)" "q < 2 ^ 53" "2 ^ 52 \<le> q \<or> k = 0"
    "m = q \<or> m = Suc q"
    "fround s n d = (if m = 2 ^ 53 then (if 2045 \<le> k then CInf s else CFin s (2 ^ 52) (Suc k))
       else if 2045 < k then CInf s else CFin s m k)"
proof -
  define k where "k = flog2 (n div d) - 52"
  define q where "q = n div (d * 2 ^ k)"
  define m where "m = (if d * 2 ^ k < 2 * (n mod (d * 2 ^ k)) \<or> (2 * (n mod (d * 2 ^ k)) = d * 2 ^ k \<and> odd q)
    then Suc q else q)"
  show ?thesis
  proof (rule that [OF k_def q_def])
    show "q < 2 ^ 53" "2 ^ 52 \<le> q \<or> k = 0"
      using fround_quotient [OF assms, of n] by (simp_all only: q_def k_def)
    show "m = q \<or> m = Suc q" by (simp add: m_def)
    show "fround s n d = (if m = 2 ^ 53 then (if 2045 \<le> k then CInf s else CFin s (2 ^ 52) (Suc k))
       else if 2045 < k then CInf s else CFin s m k)"
      unfolding fround_def Let_def m_def q_def k_def ..
  qed
qed

lemma canon_fround: "0 < d \<Longrightarrow> canon (fround s n d)"
  by (erule fround_cases [of d n s]) auto

lemma fround_exact:
  assumes c: "canon (CFin s m k)" and d: "0 < d" and n: "n = m * 2 ^ k * d"
  shows "fround s n d = CFin s m k"
proof -
  have nd: "n div d = m * 2 ^ k" using d by (simp add: n)
  have k: "flog2 (n div d) - 52 = k"
  proof (cases "m < 2 ^ 52")
    case True
    with c have "k = 0" by auto
    moreover have "flog2 m \<le> 51"
    proof (cases "m = 0")
      case False
      then have "2 ^ flog2 m \<le> m" using flog2_bounds by simp
      with True have "(2::nat) ^ flog2 m < 2 ^ 52" by linarith
      then show ?thesis by (simp only: power_strict_increasing_iff one_less_numeral_iff rel_simps)
    qed simp
    ultimately show ?thesis unfolding nd by simp
  next
    case False
    then have "2 ^ (52 + k) \<le> m * 2 ^ k" by (simp add: power_add)
    moreover have "m * 2 ^ k < 2 ^ Suc (52 + k)" using c by (simp add: power_add)
    ultimately have "flog2 (m * 2 ^ k) = 52 + k" by (rule flog2_unique)
    then show ?thesis unfolding nd by simp
  qed
  have "n div (d * 2 ^ k) = m" "n mod (d * 2 ^ k) = 0"
    using d by (simp_all add: n ac_simps)
  with c k show ?thesis by (auto simp: fround_def Let_def)
qed

lemma fround_nonzero: "0 < d \<Longrightarrow> d \<le> n \<Longrightarrow> fround s n d \<noteq> CFin t 0 j"
proof -
  assume d: "0 < d" "d \<le> n"
  let ?k = "flog2 (n div d) - 52"
  have "n div (d * 2 ^ ?k) \<noteq> 0"
  proof (cases "?k = 0")
    case True
    with d show ?thesis by (simp add: div_greater_zero_iff)
  next
    case False
    with fround_quotient(2) [of d n] d show ?thesis by fastforce
  qed
  with d(1) show ?thesis by (auto elim!: fround_cases [of d n s] split: if_splits)
qed


section \<open>The operators of the language\<close>

text \<open>Go leaves the payload of a computed NaN open; the model uses the one of \<open>math.NaN()\<close>. The
  interpreter raises an error before such a value reaches a program.\<close>

text \<open>Negation flips the sign bit: adding \<open>2 ^ 63\<close> modulo \<open>2 ^ 64\<close> toggles the top bit.\<close>

definition fneg :: "float64 \<Rightarrow> float64" where
  "fneg x = F64 (Float64bits x + 2 ^ 63)"

definition fadd_fin :: "float64 \<Rightarrow> float64 \<Rightarrow> fclass" where
  "fadd_fin x y = (let z = fz x + fz y in
     if z = 0 then CFin (fneg_bit x \<and> fneg_bit y) 0 0 else fround (z < 0) (nat \<bar>z\<bar>) 1)"

definition fadd :: "float64 \<Rightarrow> float64 \<Rightarrow> float64" where
  "fadd x y = fenc (case (fdec x, fdec y) of
       (CNaN, _) \<Rightarrow> CNaN
     | (_, CNaN) \<Rightarrow> CNaN
     | (CInf s, CInf t) \<Rightarrow> (if s = t then CInf s else CNaN)
     | (CInf s, _) \<Rightarrow> CInf s
     | (_, CInf t) \<Rightarrow> CInf t
     | (CFin _ _ _, CFin _ _ _) \<Rightarrow> fadd_fin x y)"

definition fsub :: "float64 \<Rightarrow> float64 \<Rightarrow> float64" where
  "fsub x y = fadd x (fneg y)"

definition fmul :: "float64 \<Rightarrow> float64 \<Rightarrow> float64" where
  "fmul x y = fenc (let s = (fneg_bit x \<noteq> fneg_bit y) in case (fdec x, fdec y) of
       (CNaN, _) \<Rightarrow> CNaN
     | (_, CNaN) \<Rightarrow> CNaN
     | (CInf _, CInf _) \<Rightarrow> CInf s
     | (CInf _, _) \<Rightarrow> (if fz y = 0 then CNaN else CInf s)
     | (_, CInf _) \<Rightarrow> (if fz x = 0 then CNaN else CInf s)
     | (CFin _ _ _, CFin _ _ _) \<Rightarrow> fround s (nat \<bar>fz x\<bar> * nat \<bar>fz y\<bar>) funit)"

definition fdiv :: "float64 \<Rightarrow> float64 \<Rightarrow> float64" where
  "fdiv x y = fenc (let s = (fneg_bit x \<noteq> fneg_bit y) in case (fdec x, fdec y) of
       (CNaN, _) \<Rightarrow> CNaN
     | (_, CNaN) \<Rightarrow> CNaN
     | (CInf _, CInf _) \<Rightarrow> CNaN
     | (CInf _, _) \<Rightarrow> CInf s
     | (_, CInf _) \<Rightarrow> CFin s 0 0
     | (CFin _ _ _, CFin _ _ _) \<Rightarrow>
         (if fz y = 0 then (if fz x = 0 then CNaN else CInf s)
          else fround s (nat \<bar>fz x\<bar> * funit) (nat \<bar>fz y\<bar>)))"

text \<open>Comparison: \<open>frank\<close> separates the infinities from the finite values, \<open>fz\<close> orders the latter; a
  NaN is unordered.\<close>

definition frank :: "float64 \<Rightarrow> int" where
  "frank x = (case fdec x of CInf s \<Rightarrow> (if s then - 1 else 1) | _ \<Rightarrow> 0)"

definition flt :: "float64 \<Rightarrow> float64 \<Rightarrow> bool" where
  "flt x y \<longleftrightarrow> \<not> is_nan x \<and> \<not> is_nan y \<and> (frank x < frank y \<or> (frank x = frank y \<and> fz x < fz y))"

definition feq :: "float64 \<Rightarrow> float64 \<Rightarrow> bool" where
  "feq x y \<longleftrightarrow> \<not> is_nan x \<and> \<not> is_nan y \<and> frank x = frank y \<and> fz x = fz y"

definition fle :: "float64 \<Rightarrow> float64 \<Rightarrow> bool" where
  "fle x y \<longleftrightarrow> flt x y \<or> feq x y"

text \<open>The conversions \<open>float64(n)\<close> and \<open>int64(f)\<close>. The latter is only specified by Go when the
  truncated value fits; every caller checks the range first.\<close>

definition float_of_int64 :: "int64 \<Rightarrow> float64" where
  "float_of_int64 n = fenc (fround (sint n < 0) (nat \<bar>sint n\<bar> * funit) 1)"

definition int64_of_float :: "float64 \<Rightarrow> int64" where
  "int64_of_float x = word_of_int (fz x sdiv int funit)"

definition fzero :: float64 where
  "fzero = F64 0"

text \<open>The literal \<open>9223372036854775808.0\<close>, that is \<open>2 ^ 63\<close>.\<close>

definition f2p63 :: float64 where
  "f2p63 = fenc (CFin False (2 ^ 52) 1085)"

subsection \<open>Facts about the operators\<close>

lemma is_fin_dec: "is_fin x \<longleftrightarrow> (\<exists>s m k. fdec x = CFin s m k)"
  by (cases "fdec x") (auto simp: is_fin_def is_nan_def is_inf_def)

lemma is_finE:
  assumes "is_fin x"
  obtains s m k where "fdec x = CFin s m k" "canon (CFin s m k)" "fz x = (if s then - 1 else 1) * int (m * 2 ^ k)"
    "fneg_bit x = s"
  using assms canon_fdec [of x] by (auto simp: is_fin_dec fz_def fneg_bit_def)

lemma fz_fenc:
  "canon (CFin s m k) \<Longrightarrow> fz (fenc (CFin s m k)) = (if s then - 1 else 1) * int (m * 2 ^ k)"
  by (simp add: fz_def fdec_fenc del: fenc.simps)

lemma fin_fenc: "canon (CFin s m k) \<Longrightarrow> is_fin (fenc (CFin s m k))"
  by (auto simp: is_fin_dec fdec_fenc simp del: fenc.simps)

lemma frank_fin [simp]: "is_fin x \<Longrightarrow> frank x = 0"
  by (auto simp: is_fin_dec frank_def)

lemma nan_not_fin [simp]: "is_fin x \<Longrightarrow> \<not> is_nan x"
  by (simp add: is_fin_def)

lemma fdec_fzero: "fdec fzero = CFin False 0 0"
  by (simp add: fzero_def fdec_def fbits_def)

lemma fzero_fin [simp]: "is_fin fzero"
  by (auto simp: is_fin_dec fdec_fzero)

lemma fz_fzero [simp]: "fz fzero = 0"
  by (simp add: fz_def fdec_fzero)

lemma f2p63_fin [simp]: "is_fin f2p63"
  unfolding f2p63_def by (rule fin_fenc) simp

lemma fz_f2p63: "fz f2p63 = 2 ^ 63 * int funit"
proof -
  have "fz f2p63 = int (2 ^ 52 * 2 ^ 1085)"
    unfolding f2p63_def by (subst fz_fenc) simp_all
  also have "\<dots> = 2 ^ (52 + 1085)" by (simp only: of_nat_mult of_nat_power of_nat_numeral power_add)
  also have "(52 + 1085 :: nat) = 63 + 1074" by simp
  finally show ?thesis by (simp only: power_add funit_def of_nat_power of_nat_numeral)
qed

text \<open>Negation flips the sign and nothing else.\<close>

lemma fbits_fneg: "fbits (fneg x) = (fbits x + 2 ^ 63) mod 2 ^ 64"
  by (simp add: fbits_def fneg_def unat_word_ariths)

fun cneg :: "fclass \<Rightarrow> fclass" where
  "cneg CNaN = CNaN"
| "cneg (CInf s) = CInf (\<not> s)"
| "cneg (CFin s m k) = CFin (\<not> s) m k"

lemma fdec_fneg: "fdec (fneg x) = cneg (fdec x)"
proof -
  define b where "b = fbits x"
  define c where "c = (b + 2 ^ 63) mod 2 ^ 64"
  have b: "b < 2 ^ 64" using unsigned_less [of "Float64bits x"] by (simp add: b_def fbits_def)
  have c: "c = (if b \<ge> 2 ^ 63 then b - 2 ^ 63 else b + 2 ^ 63)"
    using b by (simp add: c_def mod_if)
  have g: "c \<ge> 2 ^ 63 \<longleftrightarrow> \<not> b \<ge> 2 ^ 63" using b unfolding c by auto
  have split: "b = 2 ^ 63 + (b - 2 ^ 63)" if "b \<ge> 2 ^ 63" using that by simp
  have m: "c mod 2 ^ 52 = b mod 2 ^ 52"
  proof -
    have p: "(n + 2 ^ 63) mod 2 ^ 52 = n mod 2 ^ 52" for n :: nat
      using mod_mult_self1 [of n "2 ^ 11" "2 ^ 52"] by simp
    show ?thesis using p [of b] p [of "b - 2 ^ 63"] by (auto simp: c)
  qed
  have e: "c div 2 ^ 52 mod 2048 = b div 2 ^ 52 mod 2048"
  proof -
    have p: "(n + 2 ^ 63) div 2 ^ 52 mod 2048 = n div 2 ^ 52 mod 2048" for n :: nat
      using div_mult_self1 [of "2 ^ 52" n "2 ^ 11"] by simp
    show ?thesis using p [of b] p [of "b - 2 ^ 63"] by (auto simp: c)
  qed
  show ?thesis
    unfolding fdec_def fbits_fneg Let_def b_def [symmetric] c_def [symmetric] g m e by simp
qed

lemma fneg_fin [simp]: "is_fin (fneg x) = is_fin x"
  by (cases "fdec x") (auto simp: is_fin_dec fdec_fneg)

lemma fz_fneg [simp]: "fz (fneg x) = - fz x"
  by (cases "fdec x") (simp_all add: fz_def fdec_fneg)

lemma fdec_fadd_fin:
  "is_fin x \<Longrightarrow> is_fin y \<Longrightarrow> fdec (fadd x y) = fadd_fin x y"
proof -
  assume "is_fin x" "is_fin y"
  moreover have "canon (fadd_fin x y)" by (auto simp: fadd_fin_def Let_def intro: canon_fround)
  ultimately show ?thesis by (auto simp: is_fin_dec fadd_def fdec_fenc)
qed

text \<open>Rounding never changes the sign of a sum or difference, and never makes it zero: sums of
  finite values are whole numbers of units.\<close>

lemma fround_sign:
  assumes "0 < d" and "d \<le> n"
  obtains "fround s n d = CInf s" | m k where "fround s n d = CFin s m k" "0 < m"
proof (cases "fround s n d")
  case CNaN
  with assms(1) show ?thesis by (auto elim!: fround_cases [of d n s] split: if_splits)
next
  case (CInf t)
  with assms(1) have "t = s" by (auto elim!: fround_cases [of d n s] split: if_splits)
  with CInf that show ?thesis by simp
next
  case (CFin t m k)
  with assms(1) have "t = s" by (auto elim!: fround_cases [of d n s] split: if_splits)
  moreover have "m \<noteq> 0" using fround_nonzero [OF assms, of s t k] CFin by auto
  ultimately show ?thesis using CFin that by simp
qed

lemma fadd_sign_all:
  assumes "is_fin x" "is_fin y"
  shows "(flt fzero (fadd x y) \<longleftrightarrow> 0 < fz x + fz y) \<and> (flt (fadd x y) fzero \<longleftrightarrow> fz x + fz y < 0)
    \<and> (feq (fadd x y) fzero \<longleftrightarrow> fz x + fz y = 0)"
proof -
  define z where "z = fz x + fz y"
  define r where "r = fadd x y"
  have d: "fdec r = (if z = 0 then CFin (fneg_bit x \<and> fneg_bit y) 0 0 else fround (z < 0) (nat \<bar>z\<bar>) 1)"
    using assms by (simp add: r_def z_def fdec_fadd_fin fadd_fin_def Let_def)
  have zr: "is_nan fzero = False" "frank fzero = 0" "fz fzero = 0"
    by simp_all
  show ?thesis unfolding z_def [symmetric] r_def [symmetric]
  proof (cases "z = 0")
    case True
    then show "(flt fzero r \<longleftrightarrow> 0 < z) \<and> (flt r fzero \<longleftrightarrow> z < 0) \<and> (feq r fzero \<longleftrightarrow> z = 0)"
      using d by (simp add: flt_def feq_def is_nan_def [of r] frank_def [of r] fz_def [of r])
  next
    case False
    show "(flt fzero r \<longleftrightarrow> 0 < z) \<and> (flt r fzero \<longleftrightarrow> z < 0) \<and> (feq r fzero \<longleftrightarrow> z = 0)"
    proof (rule fround_sign [of 1 "nat \<bar>z\<bar>" "z < 0"])
      assume "fround (z < 0) (nat \<bar>z\<bar>) 1 = CInf (z < 0)"
      then show ?thesis
        using d False by (auto simp: flt_def feq_def is_nan_def [of r] frank_def [of r])
    next
      fix m k assume "fround (z < 0) (nat \<bar>z\<bar>) 1 = CFin (z < 0) m k" "0 < m"
      then show ?thesis
        using d False by (auto simp: flt_def feq_def is_nan_def [of r] frank_def [of r] fz_def [of r] mult_less_0_iff)
    qed (use False in auto)
  qed
qed

lemmas fadd_sign = fadd_sign_all [THEN conjunct1] fadd_sign_all [THEN conjunct2, THEN conjunct1]
  fadd_sign_all [THEN conjunct2, THEN conjunct2]

lemma fsub_sign:
  assumes "is_fin x" "is_fin y"
  shows "flt fzero (fsub x y) \<longleftrightarrow> fz y < fz x" and "flt (fsub x y) fzero \<longleftrightarrow> fz x < fz y"
    and "feq (fsub x y) fzero \<longleftrightarrow> fz x = fz y"
  using fadd_sign [of x "fneg y"] assms by (auto simp: fsub_def)

text \<open>A value minus itself is zero exactly when it is finite: the test the interpreter uses.\<close>

lemma feq_self_diff: "feq (fsub x x) fzero \<longleftrightarrow> is_fin x"
proof (cases "is_fin x")
  case False
  then have "fdec (fsub x x) = CNaN"
    by (cases "fdec x") (auto simp: is_fin_dec fsub_def fadd_def fdec_fneg fdec_fenc simp del: fenc.simps)
  with False show ?thesis by (simp add: feq_def is_nan_def)
qed (simp add: fsub_sign)

subsection \<open>Conversions\<close>

lemma float_of_int64_canon:
  assumes "canon (CFin s m k)" and "sint n * int funit = (if s then - 1 else 1) * int (m * 2 ^ k)" and "0 < m \<or> \<not> s"
  shows "fdec (float_of_int64 n) = CFin s m k"
proof -
  have u: "0 < int funit" by simp
  have s: "s = (sint n < 0)"
  proof (cases "m = 0")
    case True
    then show ?thesis using assms u by auto
  next
    case False
    then have "0 < int (m * 2 ^ k)" by simp
    then show ?thesis using assms(2) u zero_less_mult_iff [of "sint n" "int funit"] mult_less_0_iff [of "sint n" "int funit"]
      by (cases s) auto
  qed
  have "int (nat \<bar>sint n\<bar> * funit) = \<bar>sint n * int funit\<bar>" by (simp add: abs_mult)
  also have "\<dots> = int (m * 2 ^ k * 1)" unfolding assms(2) by (simp add: abs_mult)
  finally have "nat \<bar>sint n\<bar> * funit = m * 2 ^ k * 1" by (simp only: of_nat_eq_iff)
  from fround_exact [OF assms(1) _ this] assms(1) show ?thesis
    by (simp add: float_of_int64_def s fdec_fenc del: fenc.simps canon.simps)
qed

lemma small_int_canon:
  assumes "t < 2 ^ 53"
  shows "\<exists>m k. canon (CFin s m k) \<and> m * 2 ^ k = t * funit \<and> (m = 0 \<longleftrightarrow> t = 0)"
proof (cases "t = 0")
  case True
  then show ?thesis by (intro exI [of _ 0]) simp
next
  case False
  then have b: "2 ^ flog2 t \<le> t" "t < 2 ^ Suc (flog2 t)" using flog2_bounds by simp_all
  have "(2::nat) ^ flog2 t < 2 ^ 53" using b(1) assms by linarith
  then have l: "flog2 t \<le> 52" by (simp only: power_strict_increasing_iff one_less_numeral_iff rel_simps)
  define j where "j = 52 - flog2 t"
  have "2 ^ flog2 t * 2 ^ j \<le> t * 2 ^ j" "t * 2 ^ j < 2 ^ Suc (flog2 t) * 2 ^ j" using b by simp_all
  then have "2 ^ 52 \<le> t * 2 ^ j" "t * 2 ^ j < 2 ^ 53"
    using l by (simp_all add: j_def flip: power_add power_Suc)
  moreover have "t * 2 ^ j * 2 ^ (1074 - j) = t * funit"
    by (simp add: funit_def j_def flip: power_add)
  ultimately show ?thesis using False
    by (intro exI [of _ "t * 2 ^ j"] exI [of _ "1074 - j"]) simp
qed

lemma float_of_int64_exact:
  assumes "canon (CFin s m k)" and "\<bar>sint n\<bar> * int funit = int (m * 2 ^ k)" and "s = (sint n < 0)" and "m = 0 \<longleftrightarrow> sint n = 0"
  shows "is_fin (float_of_int64 n) \<and> fz (float_of_int64 n) = sint n * int funit"
proof -
  have "sint n * int funit = (if s then - 1 else 1) * int (m * 2 ^ k)"
    using assms(2,3) by (auto simp: abs_if split: if_splits)
  with assms have "fdec (float_of_int64 n) = CFin s m k" by (intro float_of_int64_canon) auto
  with assms show ?thesis by (auto simp: is_fin_dec fz_def abs_if split: if_splits)
qed

text \<open>Integers of at most 53 bits convert without rounding.\<close>

lemma float_of_int64_small:
  assumes "\<bar>sint n\<bar> < 2 ^ 53"
  shows "is_fin (float_of_int64 n) \<and> fz (float_of_int64 n) = sint n * int funit"
proof -
  have "nat \<bar>sint n\<bar> < 2 ^ 53" using assms by (simp add: nat_less_iff)
  from small_int_canon [OF this, of "sint n < 0"] obtain m k where
    "canon (CFin (sint n < 0) m k)" "m * 2 ^ k = nat \<bar>sint n\<bar> * funit" "m = 0 \<longleftrightarrow> sint n = 0" by auto
  moreover from this(2) have "int (m * 2 ^ k) = \<bar>sint n\<bar> * int funit" by (simp add: abs_mult)
  ultimately show ?thesis by (intro float_of_int64_exact [of _ m k]) simp_all
qed

text \<open>Truncation of a finite value in range, and that converting it back is exact: below \<open>2 ^ 53\<close> every
  integer is representable, above it the value has no fractional part to lose.\<close>

lemma sdiv_pos: "0 < u \<Longrightarrow> (z :: int) sdiv u = (if 0 \<le> z then z div u else - ((- z) div u))"
  by (auto simp: signed_divide_int_def sgn_if)

lemma trunc_abs: "0 < u \<Longrightarrow> \<bar>(z :: int) sdiv u\<bar> = \<bar>z\<bar> div u"
  by (auto simp: sdiv_pos pos_imp_zdiv_nonneg_iff)

lemma sint_int64_of_float:
  assumes "- (2 ^ 63) * int funit \<le> fz x" and "fz x < 2 ^ 63 * int funit"
  shows "sint (int64_of_float x) = fz x sdiv int funit"
proof -
  have u: "0 < int funit" by simp
  have "fz x div int funit * int funit < 2 ^ 63 * int funit"
    using assms(2) u pos_mod_sign [of "int funit" "fz x"] div_mult_mod_eq [of "fz x" "int funit"] by linarith
  then have "fz x div int funit < 2 ^ 63" using u by (simp only: mult_less_cancel_right_pos)
  moreover have "(- fz x) div int funit \<le> 2 ^ 63"
  proof -
    have "(- fz x) div int funit \<le> (2 ^ 63 * int funit) div int funit"
      using assms(1) u by (intro zdiv_mono1) simp_all
    with u show ?thesis by simp
  qed
  moreover have "0 \<le> fz x \<Longrightarrow> 0 \<le> fz x div int funit" "\<not> 0 \<le> fz x \<Longrightarrow> 0 \<le> (- fz x) div int funit"
    using u by (simp_all add: pos_imp_zdiv_nonneg_iff)
  ultimately have "in_int64 (fz x sdiv int funit)"
    using u by (cases "0 \<le> fz x") (simp_all add: sdiv_pos in_int64_def)
  then show ?thesis by (simp add: int64_of_float_def sint_word_of_int64)
qed

lemma float_of_trunc:
  assumes "is_fin x" and r: "- (2 ^ 63) * int funit \<le> fz x" "fz x < 2 ^ 63 * int funit"
  shows "is_fin (float_of_int64 (int64_of_float x)) \<and>
    fz (float_of_int64 (int64_of_float x)) = (fz x sdiv int funit) * int funit"
proof -
  let ?n = "int64_of_float x"
  have n: "sint ?n = fz x sdiv int funit" using r by (rule sint_int64_of_float)
  have u: "0 < int funit" by simp
  obtain s m k where x: "canon (CFin s m k)" "fz x = (if s then - 1 else 1) * int (m * 2 ^ k)"
    using assms(1) by (rule is_finE)
  have a: "\<bar>sint ?n\<bar> = int (m * 2 ^ k div funit)"
    unfolding n trunc_abs [OF u] x(2) by (simp add: abs_mult zdiv_int)
  show ?thesis
  proof (cases "k < 1074")
    case True
    then have "2 ^ k \<le> funit" unfolding funit_def by (intro power_increasing) simp_all
    then have "m * 2 ^ k div funit \<le> m * 2 ^ k div 2 ^ k" by (intro div_le_mono2) simp_all
    then have "\<bar>sint ?n\<bar> < 2 ^ 53" unfolding a using x(1) by simp
    then show ?thesis using float_of_int64_small [of ?n] n by simp
  next
    case False
    then have k: "(2::nat) ^ k = 2 ^ (k - 1074) * funit"
      unfolding funit_def power_add [symmetric] by simp
    have m: "0 < m" using x(1) False by auto
    have q: "m * 2 ^ k div funit = m * 2 ^ (k - 1074)"
      using u by (simp add: k del: of_nat_0_less_iff)
    have "\<bar>sint ?n\<bar> * int funit = int (m * 2 ^ k)" unfolding a q k by simp
    moreover have "s = (sint ?n < 0)"
    proof -
      have "0 < m * 2 ^ (k - 1074)" using m by simp
      then have "0 < int (m * 2 ^ k) div int funit" unfolding zdiv_int [symmetric] q by simp
      moreover have "\<not> int m * 2 ^ k \<le> 0" using m by (simp add: not_le)
      ultimately show ?thesis unfolding n x(2) using u m by (auto simp: sdiv_pos)
    qed
    moreover have "m = 0 \<longleftrightarrow> sint ?n = 0" using m a q by auto
    ultimately show ?thesis using float_of_int64_exact [OF x(1)] n by simp
  qed
qed


section \<open>Equal floats\<close>

lemma fenc_fdec: "fdec x \<noteq> CNaN \<Longrightarrow> fenc (fdec x) = x"
proof -
  define b where "b = fbits x"
  define s :: nat where "s = of_bool (b \<ge> 2 ^ 63)"
  define e where "e = b div 2 ^ 52 mod 2048"
  define f where "f = b mod 2 ^ 52"
  assume nn: "fdec x \<noteq> CNaN"
  have b64: "b < 2 ^ 64" using unsigned_less [of "Float64bits x"] by (simp add: b_def fbits_def)
  have "b div 2 ^ 52 div 2048 = b div 2 ^ 63" by (simp flip: div_mult2_eq)
  also have "\<dots> = s" using b64 by (cases "b \<ge> 2 ^ 63") (simp_all add: s_def div_if)
  finally have "b div 2 ^ 52 = s * 2048 + e"
    using div_mult_mod_eq [of "b div 2 ^ 52" 2048] by (simp add: e_def)
  then have bb: "b = s * 2 ^ 63 + e * 2 ^ 52 + f"
    using div_mult_mod_eq [of b "2 ^ 52"] by (simp add: f_def)
  have w: "F64 (of_nat b) = x" by (cases x) (simp add: b_def fbits_def)
  have lt: "e < 2048" "f < 2 ^ 52" by (simp_all add: e_def f_def)
  have d: "fdec x = (if e = 2047 then (if f = 0 then CInf (b \<ge> 2 ^ 63) else CNaN)
      else if e = 0 then CFin (b \<ge> 2 ^ 63) f 0 else CFin (b \<ge> 2 ^ 63) (2 ^ 52 + f) (e - 1))"
    by (simp only: fdec_def Let_def b_def e_def f_def)
  have "fenc (fdec x) = F64 (of_nat (s * 2 ^ 63 + e * 2 ^ 52 + f))"
  proof (cases "e = 0")
    case True
    then show ?thesis using d lt by (simp add: s_def)
  next
    case False
    then have "Suc (e - 1) = e" by simp
    with False show ?thesis using d nn lt
      by (cases "e = 2047") (simp_all add: s_def add.assoc del: of_nat_add of_nat_mult split: if_splits)
  qed
  then show ?thesis unfolding bb [symmetric] w .
qed

lemma canon_unique:
  assumes "canon (CFin s m k)" "canon (CFin t n j)" "m * 2 ^ k = n * 2 ^ j"
  shows "m = n \<and> k = j"
proof -
  have *: False if "k < j" "m < 2 ^ 53" "2 ^ 52 \<le> n" "m * 2 ^ k = n * 2 ^ j" for m n k j :: nat
  proof -
    have "(2::nat) ^ j = 2 ^ (j - k) * 2 ^ k" using that(1) by (simp flip: power_add)
    with that(4) have m: "m = n * 2 ^ (j - k)" by simp
    have "(2::nat) ^ 1 \<le> 2 ^ (j - k)" using that(1) by (intro power_increasing) auto
    then have "n * 2 \<le> m" unfolding m by (intro mult_le_mono2) simp
    moreover have "2 ^ 53 \<le> n * 2" using that(3) by simp
    ultimately show False using that(2) by linarith
  qed
  from assms *[of k j m n] *[of j k n m] have "k = j" by (cases k j rule: linorder_cases) auto
  with assms show ?thesis by simp
qed

text \<open>Two floats compare equal exactly when they are the same value or both zeros.\<close>

lemma feq_iff:
  "feq x y \<longleftrightarrow> \<not> is_nan x \<and> \<not> is_nan y \<and> (x = y \<or> (is_fin x \<and> is_fin y \<and> fz x = 0 \<and> fz y = 0))"
proof -
  have "x = y" if nx: "\<not> is_nan x" and ny: "\<not> is_nan y" and "feq x y" and z: "\<not> (is_fin x \<and> is_fin y \<and> fz x = 0 \<and> fz y = 0)"
  proof -
    from \<open>feq x y\<close> have e: "frank x = frank y" "fz x = fz y" by (simp_all add: feq_def)
    have "fdec x = fdec y"
    proof (cases "fdec x")
      case CNaN
      with nx show ?thesis by (simp add: is_nan_def)
    next
      case (CInf s)
      with e ny show ?thesis by (cases "fdec y") (auto simp: frank_def is_nan_def split: if_splits)
    next
      case (CFin s m k)
      then have "is_fin y" using e(1) ny by (cases "fdec y") (auto simp: frank_def is_nan_def is_fin_dec split: if_splits)
      then obtain t n j where y: "fdec y = CFin t n j" by (auto simp: is_fin_dec)
      have c: "canon (CFin s m k)" "canon (CFin t n j)" using canon_fdec [of x] canon_fdec [of y] CFin y by simp_all
      have zz: "(if s then - 1 else 1) * int (m * 2 ^ k) = (if t then - 1 else 1) * int (n * 2 ^ j)"
        using e(2) CFin y by (simp add: fz_def)
      have "fz x \<noteq> 0" using z CFin \<open>is_fin y\<close> e(2) by (auto simp: is_fin_dec)
      then have p: "0 < m * 2 ^ k" using CFin by (simp add: fz_def)
      have "int (m * 2 ^ k) = int (n * 2 ^ j) \<and> s = t" using zz p by (cases s; cases t) (auto simp del: of_nat_mult of_nat_power)
      then have "m * 2 ^ k = n * 2 ^ j" "s = t" by (simp_all only: of_nat_eq_iff)
      with canon_unique [OF c] CFin y show ?thesis by simp
    qed
    then show ?thesis using fenc_fdec [of x] fenc_fdec [of y] nx ny by (simp add: is_nan_def)
  qed
  moreover have "feq x y" if "\<not> is_nan x" "\<not> is_nan y" "x = y \<or> (is_fin x \<and> is_fin y \<and> fz x = 0 \<and> fz y = 0)"
    using that by (auto simp: feq_def)
  moreover have "\<not> is_nan x \<and> \<not> is_nan y" if "feq x y" using that by (simp add: feq_def)
  ultimately show ?thesis by blast
qed

end
