(* ===== verification/Values.thy ===== *)
theory Values
  imports Types Float64
begin

text \<open>
  Runtime values (\<open>internal/interpreter/value.go\<close>): the tagged union \<open>Value\<close>, its deep equality, the
  exact int/float comparison, the scalar key encoding behind a map's hash index, and the checks
  and stamps of declared types. Tasks, channels and opaque objects are handles: a \<open>nat\<close> stands for the
  pointer, and the element type recorded in the shared state of a task or channel is read through
  a function \<open>het\<close> from handles to types.
\<close>

section \<open>Decimal and hexadecimal rendering (\<open>strconv\<close>)\<close>

definition digit_char :: "nat \<Rightarrow> char" where
  "digit_char d = (if d < 10 then char_of (48 + d) else char_of (87 + d))"

fun formatBase :: "nat \<Rightarrow> nat \<Rightarrow> string" where
  "formatBase b n = (if b < 2 then [] else if n < b then [digit_char n]
     else formatBase b (n div b) @ [digit_char (n mod b)])"

declare formatBase.simps [simp del]

definition FormatInt :: "int \<Rightarrow> string" where
  "FormatInt z = (if z < 0 then CHR ''-'' # formatBase 10 (nat (- z)) else formatBase 10 (nat z))"

definition FormatUintHex :: "nat \<Rightarrow> string" where
  "FormatUintHex n = formatBase 16 n"

definition char_digit :: "char \<Rightarrow> nat" where
  "char_digit c = (if of_char c < (58 :: nat) then of_char c - 48 else of_char c - 87)"

definition parseBase :: "nat \<Rightarrow> string \<Rightarrow> nat" where
  "parseBase b s = foldl (\<lambda>n c. n * b + char_digit c) 0 s"

lemma char_digit_digit_char: "d < 16 \<Longrightarrow> char_digit (digit_char d) = d"
  by (auto simp: char_digit_def digit_char_def of_char_of)

lemma parse_format: "2 \<le> b \<Longrightarrow> b \<le> 16 \<Longrightarrow> parseBase b (formatBase b n) = n"
proof (induction b n rule: formatBase.induct)
  case (1 b n)
  then have "n mod b < 16" using mod_less_divisor [of b n] by linarith
  with 1 show ?case
    by (subst formatBase.simps) (auto simp: parseBase_def char_digit_digit_char)
qed

lemma formatBase_inject: "2 \<le> b \<Longrightarrow> b \<le> 16 \<Longrightarrow> formatBase b m = formatBase b n \<longleftrightarrow> m = n"
  by (metis parse_format)

lemma formatBase_hd: "2 \<le> b \<Longrightarrow> b \<le> 16 \<Longrightarrow> formatBase b n \<noteq> [] \<and> hd (formatBase b n) \<noteq> CHR ''-''"
proof (induction b n rule: formatBase.induct)
  case (1 b n)
  have dash: "digit_char d \<noteq> CHR ''-''" if "d < 16" for d
  proof
    assume "digit_char d = CHR ''-''"
    then have "of_char (digit_char d) = (45 :: nat)" by simp
    with that show False by (auto simp: digit_char_def of_char_of split: if_splits)
  qed
  show ?case
  proof (cases "n < b")
    case True
    with 1 dash [of n] show ?thesis by (subst (1 2) formatBase.simps) simp
  next
    case False
    with 1 have "formatBase b (n div b) \<noteq> [] \<and> hd (formatBase b (n div b)) \<noteq> CHR ''-''" by simp
    with 1 False show ?thesis by (subst (1 2) formatBase.simps) simp
  qed
qed

lemma FormatInt_inject: "FormatInt x = FormatInt y \<longleftrightarrow> x = y"
proof -
  have "formatBase 10 a \<noteq> CHR ''-'' # s" for a s
    using formatBase_hd [of 10 a] by (cases "formatBase 10 a") auto
  then show ?thesis
    by (auto simp: FormatInt_def formatBase_inject split: if_splits) (metis not_Cons_self2)
qed

lemma FormatUintHex_inject: "FormatUintHex x = FormatUintHex y \<longleftrightarrow> x = y"
  by (simp add: FormatUintHex_def formatBase_inject)

section \<open>Values\<close>

datatype Value =
    VNull
  | VInt int64
  | VFloat float64
  | VString string
  | VBool bool
  | VBytes "8 word list"
  | VList "Value list" "ty option"
  | VMap "(Value \<times> Value) list" "ty option" "ty option" "(string \<times> nat) list option"
  | VStruct string string string "(string \<times> Value) list"
  | VTask "nat option"
  | VObject string string "(nat \<times> (Value + nat)) option"
  | VEnum string string string string "(string \<times> Value) list"
  | VFunc "string option"
  | VChannel "nat option"

datatype kind =
    KindNull | KindInt | KindFloat | KindString | KindBool | KindBytes | KindList | KindMap
  | KindStruct | KindTask | KindObject | KindEnum | KindFunc | KindChannel

fun Kind :: "Value \<Rightarrow> kind" where
  "Kind VNull = KindNull"
| "Kind (VInt _) = KindInt"
| "Kind (VFloat _) = KindFloat"
| "Kind (VString _) = KindString"
| "Kind (VBool _) = KindBool"
| "Kind (VBytes _) = KindBytes"
| "Kind (VList _ _) = KindList"
| "Kind (VMap _ _ _ _) = KindMap"
| "Kind (VStruct _ _ _ _) = KindStruct"
| "Kind (VTask _) = KindTask"
| "Kind (VObject _ _ _) = KindObject"
| "Kind (VEnum _ _ _ _ _) = KindEnum"
| "Kind (VFunc _) = KindFunc"
| "Kind (VChannel _) = KindChannel"

fun kindString :: "kind \<Rightarrow> string" where
  "kindString KindNull = ''null''"
| "kindString KindInt = ''int''"
| "kindString KindFloat = ''float''"
| "kindString KindString = ''string''"
| "kindString KindBool = ''bool''"
| "kindString KindBytes = ''bytes''"
| "kindString KindList = ''list''"
| "kindString KindMap = ''map''"
| "kindString KindStruct = ''struct''"
| "kindString KindTask = ''task''"
| "kindString KindObject = ''object''"
| "kindString KindEnum = ''enum''"
| "kindString KindFunc = ''func''"
| "kindString KindChannel = ''channel''"

section \<open>Exact comparison of an int with a float\<close>

definition compareIntFloat :: "int64 \<Rightarrow> float64 \<Rightarrow> int" where
  "compareIntFloat n f =
     (if is_nan f then 1
      else if fle f2p63 f then - 1
      else if flt f (fneg f2p63) then 1
      else let tf = int64_of_float f in
        if n <s tf then - 1
        else if tf <s n then 1
        else let frac = fsub f (float_of_int64 tf) in
          if flt fzero frac then - 1 else if flt frac fzero then 1 else 0)"

text \<open>The order of the integer \<open>n\<close> and a float, as numbers: \<open>n\<close> is \<open>n * funit\<close> units.\<close>

definition int_float_order :: "int64 \<Rightarrow> float64 \<Rightarrow> int" where
  "int_float_order n f =
     (if frank f > 0 then - 1 else if frank f < 0 then 1 else sgn (sint n * int funit - fz f))"

lemma sdiv_frac: "0 < u \<Longrightarrow> \<bar>z - (z sdiv u) * u\<bar> < (u :: int)"
proof -
  assume u: "0 < u"
  have "z - (z sdiv u) * u = (if 0 \<le> z then z mod u else - ((- z) mod u))"
    using u by (simp add: sdiv_pos minus_div_mult_eq_mod) (simp add: minus_mult_div_eq_mod [symmetric] mult.commute)
  with u show ?thesis by (simp add: pos_mod_sign)
qed

lemma mult_sdiv_cancel: "0 < u \<Longrightarrow> (n * u) sdiv u = (n :: int)"
  by (simp add: signed_divide_int_def sgn_mult abs_mult mult_sgn_abs)

lemma trunc_order:
  fixes n t u z :: int
  assumes "\<bar>z - t * u\<bar> < u"
  shows "n < t \<Longrightarrow> n * u < z" and "t < n \<Longrightarrow> z < n * u"
proof -
  have u: "0 < u" using assms by linarith
  show "n * u < z" if "n < t"
  proof -
    have "n * u \<le> (t - 1) * u" using that u by (intro mult_right_mono) auto
    then show ?thesis using assms by (simp add: left_diff_distrib)
  qed
  show "z < n * u" if "t < n"
  proof -
    have "(t + 1) * u \<le> n * u" using that u by (intro mult_right_mono) auto
    then show ?thesis using assms by (simp add: distrib_right)
  qed
qed

lemma compareIntFloat_order:
  assumes "\<not> is_nan f"
  shows "compareIntFloat n f = int_float_order n f"
proof (cases "is_fin f")
  case False
  with assms obtain s where "fdec f = CInf s" by (auto simp: is_fin_def is_inf_def)
  with assms show ?thesis
    by (cases s) (simp_all add: compareIntFloat_def int_float_order_def fle_def flt_def feq_def frank_def [of f])
next
  case True
  define u where "u = int funit"
  have u: "0 < u" by (simp add: u_def)
  have hi: "fle f2p63 f \<longleftrightarrow> 2 ^ 63 * u \<le> fz f"
    using True by (auto simp: fle_def flt_def feq_def fz_f2p63 u_def)
  have lo: "flt f (fneg f2p63) \<longleftrightarrow> fz f < - (2 ^ 63) * u"
    using True by (simp add: flt_def fz_f2p63 u_def)
  have ord: "int_float_order n f = sgn (sint n * u - fz f)"
    using True by (simp add: int_float_order_def u_def)
  consider "2 ^ 63 * u \<le> fz f" | "fz f < - (2 ^ 63) * u" | "- (2 ^ 63) * u \<le> fz f" "fz f < 2 ^ 63 * u"
    by linarith
  then show ?thesis
  proof cases
    case 1
    have "sint n * u < 2 ^ 63 * u" using u sint_lt [of n] by simp
    with 1 True hi show ?thesis by (simp add: compareIntFloat_def ord)
  next
    case 2
    have "- (2 ^ 63) * u \<le> sint n * u" using u sint_ge [of n] by (intro mult_right_mono) auto
    moreover have "fz f < 2 ^ 63 * u" using 2 u by (intro less_trans [OF 2]) simp
    ultimately show ?thesis using 2 True hi lo by (simp add: compareIntFloat_def ord)
  next
    case 3
    define tf where "tf = int64_of_float f"
    have t: "sint tf = fz f sdiv u" unfolding tf_def u_def using 3 by (intro sint_int64_of_float) (simp_all add: u_def)
    have ft: "is_fin (float_of_int64 tf)" "fz (float_of_int64 tf) = (fz f sdiv u) * u"
      unfolding tf_def u_def using float_of_trunc [OF True] 3 by (simp_all add: u_def)
    note fr = fsub_sign [OF True ft(1), unfolded ft(2)]
    note sd = trunc_order [OF sdiv_frac [OF u, of "fz f"], of "sint n"]
    have "compareIntFloat n f =
      (if sint n < sint tf then - 1 else if sint tf < sint n then 1
       else if sint tf * u < fz f then - 1 else if fz f < sint tf * u then 1 else 0)"
      using 3 True hi lo fr by (simp add: compareIntFloat_def tf_def [symmetric] word_sless_alt t)
    then show ?thesis unfolding ord using sd by (auto simp: t sgn_if)
  qed
qed


section \<open>Map keys\<close>

text \<open>\<open>mapKeyEncode\<close>: the canonical string of a scalar key, \<open>None\<close> for a key the hash index cannot
  hold.\<close>

definition floatIsInt64 :: "float64 \<Rightarrow> bool" where
  "floatIsInt64 f \<longleftrightarrow>
     fle (fneg f2p63) f \<and> flt f f2p63 \<and> feq (float_of_int64 (int64_of_float f)) f"

fun mapKeyEncode :: "Value \<Rightarrow> string option" where
  "mapKeyEncode (VString s) = Some (CHR ''s'' # s)"
| "mapKeyEncode (VInt n) = Some (CHR ''i'' # FormatInt (sint n))"
| "mapKeyEncode (VFloat f) =
     (if is_nan f then None
      else if floatIsInt64 f then Some (CHR ''i'' # FormatInt (sint (int64_of_float f)))
      else Some (CHR ''f'' # FormatUintHex (unat (Float64bits f))))"
| "mapKeyEncode (VBool b) = Some (if b then ''b1'' else ''b0'')"
| "mapKeyEncode VNull = Some ''n''"
| "mapKeyEncode _ = None"

section \<open>Equality\<close>

lemma size_list_mem: "x \<in> set xs \<Longrightarrow> f x < Suc (size_list f xs)"
  by (induction xs) auto

lemma size_entry: "(a, b) \<in> set es \<Longrightarrow> size a + size b < Suc (size_list (size_prod size size) es)"
  using size_list_mem [of "(a, b)" es "size_prod size size"] by simp

lemma size_field: "(n, b) \<in> set fs \<Longrightarrow> size b < Suc (size_list (size_prod (\<lambda>_. 0) size) fs)"
  using size_list_mem [of "(n, b)" fs "size_prod (\<lambda>_. 0) size"] by simp

lemma size_zip_elem:
  "(x, y) \<in> set (zip xs ys) \<Longrightarrow> size x < Suc (size_list size xs) \<and> size y < Suc (size_list size ys)"
  by (auto intro!: size_list_mem dest: set_zip_leftD set_zip_rightD)

lemma size_zip_field:
  "((m, x), (n, y)) \<in> set (zip fs gs) \<Longrightarrow> size x < Suc (size_list (size_prod (\<lambda>_. 0) size) fs) \<and>
     size y < Suc (size_list (size_prod (\<lambda>_. 0) size) gs)"
  by (auto intro!: size_field dest: set_zip_leftD set_zip_rightD)

lemma size_find_entry:
  "List.find P es = Some (a, b) \<Longrightarrow> size a + size b < Suc (size_list (size_prod size size) es)"
  by (rule size_entry) (metis find_Some_iff nth_mem)

text \<open>The keys of a map can be indexed: all hashable, no two alike.\<close>

definition indexable :: "(Value \<times> Value) list \<Rightarrow> bool" where
  "indexable es \<longleftrightarrow> (\<forall>e \<in> set es. mapKeyEncode (fst e) \<noteq> None) \<and> distinct (map (mapKeyEncode \<circ> fst) es)"

text \<open>\<open>Value.Equal\<close>. \<open>N\<close> is the equality of library-native payloads (\<open>EqualNative\<close>). On maps, the index of
  the right operand is used when its keys allow one; \<open>seen[pos]\<close> of the source, which makes each entry of
  the left operand hit a different entry of the right one, is the distinctness of the encoded
  keys of the left operand. Otherwise containment is checked in both directions.\<close>

function Equal :: "(nat \<Rightarrow> nat \<Rightarrow> bool) \<Rightarrow> Value \<Rightarrow> Value \<Rightarrow> bool" where
  "Equal N v w = (case v of
     VNull \<Rightarrow> (case w of VNull \<Rightarrow> True | _ \<Rightarrow> False)
   | VInt a \<Rightarrow> (case w of VInt b \<Rightarrow> a = b | VFloat g \<Rightarrow> compareIntFloat a g = 0 | _ \<Rightarrow> False)
   | VFloat f \<Rightarrow> (case w of VFloat g \<Rightarrow> feq f g | VInt b \<Rightarrow> compareIntFloat b f = 0 | _ \<Rightarrow> False)
   | VString s \<Rightarrow> (case w of VString t \<Rightarrow> s = t | _ \<Rightarrow> False)
   | VBool a \<Rightarrow> (case w of VBool b \<Rightarrow> a = b | _ \<Rightarrow> False)
   | VBytes xs \<Rightarrow> (case w of VBytes ys \<Rightarrow> xs = ys | _ \<Rightarrow> False)
   | VStruct ns n p fs \<Rightarrow> (case w of VStruct ns' n' p' gs \<Rightarrow>
         n = n' \<and> ns = ns' \<and> p = p' \<and> length fs = length gs \<and>
         list_all (\<lambda>q. fst (fst q) = fst (snd q) \<and> Equal N (snd (fst q)) (snd (snd q))) (zip fs gs)
       | _ \<Rightarrow> False)
   | VEnum ns p n a fs \<Rightarrow> (case w of VEnum ns' p' n' b gs \<Rightarrow>
         n = n' \<and> ns = ns' \<and> p = p' \<and> a = b \<and> length fs = length gs \<and>
         list_all (\<lambda>q. fst (fst q) = fst (snd q) \<and> Equal N (snd (fst q)) (snd (snd q))) (zip fs gs)
       | _ \<Rightarrow> False)
   | VFunc m \<Rightarrow> (case w of VFunc m' \<Rightarrow> m = m' | _ \<Rightarrow> False)
   | VTask t \<Rightarrow> (case w of VTask t' \<Rightarrow> t = t' | _ \<Rightarrow> False)
   | VChannel c \<Rightarrow> (case w of VChannel c' \<Rightarrow> c = c' | _ \<Rightarrow> False)
   | VObject ns n b \<Rightarrow> (case w of VObject ns' n' b' \<Rightarrow>
         ns = ns' \<and> n = n' \<and>
         (case b of None \<Rightarrow> b' = None
          | Some (i, p) \<Rightarrow> (case b' of None \<Rightarrow> False
             | Some (i', p') \<Rightarrow> i = i' \<or>
                (case p of Inr x \<Rightarrow> (case p' of Inr y \<Rightarrow> N x y | Inl _ \<Rightarrow> False)
                 | Inl x \<Rightarrow> (case p' of Inr _ \<Rightarrow> False | Inl y \<Rightarrow> Equal N x y))))
       | _ \<Rightarrow> False)
   | VList xs _ \<Rightarrow> (case w of VList ys _ \<Rightarrow>
         length xs = length ys \<and> list_all (\<lambda>q. Equal N (fst q) (snd q)) (zip xs ys)
       | _ \<Rightarrow> False)
   | VMap es _ _ _ \<Rightarrow> (case w of VMap fs _ _ _ \<Rightarrow>
         length es = length fs \<and>
         (if indexable fs then
            distinct (map (mapKeyEncode \<circ> fst) es) \<and>
            list_all (\<lambda>a. mapKeyEncode (fst a) \<noteq> None \<and>
               (case List.find (\<lambda>b. mapKeyEncode (fst b) = mapKeyEncode (fst a)) fs of
                  None \<Rightarrow> False | Some b \<Rightarrow> Equal N (snd a) (snd b))) es
          else
            list_all (\<lambda>a. list_ex (\<lambda>b. Equal N (fst b) (fst a) \<and> Equal N (snd b) (snd a)) fs) es \<and>
            list_all (\<lambda>b. list_ex (\<lambda>a. Equal N (fst a) (fst b) \<and> Equal N (snd a) (snd b)) es) fs)
       | _ \<Rightarrow> False))"
  by pat_completeness auto
termination
  apply (relation "measure (\<lambda>(N, v, w). size v + size w)")
                      apply (auto dest!: size_zip_elem size_zip_field size_find_entry)
     apply (auto dest!: size_entry)
  done

declare Equal.simps [simp del]

text \<open>The equation of \<^const>\<open>Equal\<close>, by the kind of the left operand.\<close>

lemmas Equal_cases = Equal.simps [of N VNull for N] Equal.simps [of N "VInt a" for N a]
  Equal.simps [of N "VFloat a" for N a] Equal.simps [of N "VString a" for N a] Equal.simps [of N "VBool a" for N a]
  Equal.simps [of N "VBytes a" for N a] Equal.simps [of N "VList a b" for N a b]
  Equal.simps [of N "VMap a b c d" for N a b c d] Equal.simps [of N "VStruct a b c d" for N a b c d]
  Equal.simps [of N "VTask a" for N a] Equal.simps [of N "VObject a b c" for N a b c]
  Equal.simps [of N "VEnum a b c d e" for N a b c d e] Equal.simps [of N "VFunc a" for N a]
  Equal.simps [of N "VChannel a" for N a]

lemmas Equal_simps [simp] = Equal_cases [simplified]

section \<open>The key encoding mirrors equality\<close>

lemma int_float_order_0:
  "\<not> is_nan f \<Longrightarrow> int_float_order n f = 0 \<longleftrightarrow> is_fin f \<and> fz f = sint n * int funit"
  by (cases "fdec f")
    (auto simp: int_float_order_def is_fin_def is_nan_def is_inf_def frank_def sgn_if split: if_splits)

text \<open>An integral float in the range of \<open>int64\<close> is the number its truncation is.\<close>

lemma floatIsInt64_iff:
  assumes "\<not> is_nan f"
  shows "floatIsInt64 f \<longleftrightarrow> (\<exists>n :: int64. is_fin f \<and> fz f = sint n * int funit)"
    and "floatIsInt64 f \<Longrightarrow> is_fin f \<and> fz f = sint (int64_of_float f) * int funit"
proof -
  have u: "0 < int funit" by simp
  have range: "fle (fneg f2p63) f \<and> flt f f2p63 \<longleftrightarrow> is_fin f \<and> - (2 ^ 63) * int funit \<le> fz f \<and> fz f < 2 ^ 63 * int funit"
  proof (cases "is_fin f")
    case True
    then show ?thesis by (auto simp: fle_def flt_def feq_def fz_f2p63)
  next
    case False
    with assms obtain s where "fdec f = CInf s" by (auto simp: is_fin_def is_inf_def)
    with False show ?thesis by (cases s) (auto simp: fle_def flt_def feq_def frank_def [of f])
  qed
  have eq: "feq (float_of_int64 (int64_of_float f)) f \<longleftrightarrow> fz f = (fz f sdiv int funit) * int funit"
    if "is_fin f" "- (2 ^ 63) * int funit \<le> fz f" "fz f < 2 ^ 63 * int funit"
    using float_of_trunc [OF that] that(1) by (auto simp: feq_def)
  show i: "floatIsInt64 f \<Longrightarrow> is_fin f \<and> fz f = sint (int64_of_float f) * int funit"
    using range eq sint_int64_of_float [of f] by (auto simp: floatIsInt64_def)
  have "floatIsInt64 f" if f: "is_fin f" and z: "fz f = sint n * int funit" for n :: int64
  proof -
    have "- (2 ^ 63) * int funit \<le> fz f" unfolding z using u sint_ge [of n] by (intro mult_right_mono) auto
    moreover have "fz f < 2 ^ 63 * int funit" unfolding z using u sint_lt [of n] by simp
    moreover have "fz f sdiv int funit = sint n" unfolding z using u by (rule mult_sdiv_cancel)
    ultimately show ?thesis using range eq f z by (auto simp: floatIsInt64_def)
  qed
  with i show "floatIsInt64 f \<longleftrightarrow> (\<exists>n :: int64. is_fin f \<and> fz f = sint n * int funit)" by blast
qed

lemma mapKeyEncode_int_float:
  assumes "\<not> is_nan f"
  shows "compareIntFloat n f = 0 \<longleftrightarrow> mapKeyEncode (VFloat f) = mapKeyEncode (VInt n)"
proof -
  have u: "int funit \<noteq> 0" by simp
  have "compareIntFloat n f = 0 \<longleftrightarrow> is_fin f \<and> fz f = sint n * int funit"
    using assms by (simp add: compareIntFloat_order int_float_order_0)
  also have "\<dots> \<longleftrightarrow> floatIsInt64 f \<and> sint (int64_of_float f) = sint n"
    using floatIsInt64_iff [OF assms] u by (metis mult_right_cancel)
  also have "\<dots> \<longleftrightarrow> mapKeyEncode (VFloat f) = mapKeyEncode (VInt n)"
    using assms by (auto simp: FormatInt_inject)
  finally show ?thesis .
qed

lemma mapKeyEncode_float_float:
  assumes "\<not> is_nan f" "\<not> is_nan g"
  shows "feq f g \<longleftrightarrow> mapKeyEncode (VFloat f) = mapKeyEncode (VFloat g)"
proof -
  have zero: "floatIsInt64 x" if "is_fin x" "fz x = 0" "\<not> is_nan x" for x
    using floatIsInt64_iff(1) [OF that(3)] that by (metis mult_zero_left sint_0)
  have u: "int funit \<noteq> 0" by simp
  show ?thesis
  proof (cases "floatIsInt64 f \<and> floatIsInt64 g")
    case True
    then have "is_fin f" "is_fin g" "fz f = sint (int64_of_float f) * int funit"
      "fz g = sint (int64_of_float g) * int funit" using floatIsInt64_iff(2) assms by blast+
    then have "feq f g \<longleftrightarrow> sint (int64_of_float f) = sint (int64_of_float g)"
      using assms u by (simp add: feq_def)
    with True assms show ?thesis by (auto simp: FormatInt_inject)
  next
    case False
    then have "\<not> (is_fin f \<and> is_fin g \<and> fz f = 0 \<and> fz g = 0)" using zero assms by blast
    then have "feq f g \<longleftrightarrow> f = g" using assms feq_iff by blast
    moreover have "f = g \<longleftrightarrow> unat (Float64bits f) = unat (Float64bits g)"
      by (cases f; cases g) (simp add: word_unat_eq_iff)
    ultimately show ?thesis using False assms by (auto simp: FormatUintHex_inject)
  qed
qed

text \<open>Keys that compare equal encode alike and no others do, whatever their kinds; a value the index
  cannot hold equals no indexable key.\<close>

lemma mapKeyEncode_Equal:
  assumes "mapKeyEncode v = Some k"
  shows "Equal N v w \<longleftrightarrow> mapKeyEncode w = Some k"
proof (cases v)
  case (VInt n)
  show ?thesis
  proof (cases w)
    case (VFloat g)
    then show ?thesis using assms VInt mapKeyEncode_int_float [of g n]
      by (cases "is_nan g") (auto simp: compareIntFloat_def)
  qed (use assms VInt in \<open>auto simp: FormatInt_inject sint64_inject\<close>)
next
  case (VFloat f)
  then have f: "\<not> is_nan f" using assms by (auto split: if_splits)
  show ?thesis
  proof (cases w)
    case (VFloat g)
    then show ?thesis using assms \<open>v = VFloat f\<close> mapKeyEncode_float_float [of f g] f
      by (cases "is_nan g") (auto simp: feq_def)
  next
    case (VInt n)
    then show ?thesis using assms \<open>v = VFloat f\<close> mapKeyEncode_int_float [of f n] f by auto
  qed (use assms \<open>v = VFloat f\<close> in \<open>auto split: if_splits\<close>)
qed (use assms in \<open>auto split: Value.splits if_splits\<close>)

end
