(* ===== verification/MapIndex.thy ===== *)
theory MapIndex
  imports Values
begin

text \<open>
  Ordered maps with an advisory hash index (\<open>internal/interpreter/value.go\<close>): the entries of a \<open>KindMap\<close>
  value in insertion order, and \<open>mapIdx\<close>, the index from encoded scalar keys to positions that lookups
  use when its length says it is complete. The locale \<open>keyed_store\<close> is what the clients of a map rely
  on; it is interpreted on the indexed operations.
\<close>

section \<open>The index\<close>

type_synonym entries = "(Value \<times> Value) list"
type_synonym mapidx = "(string \<times> nat) list option"

text \<open>A Go \<open>map[string]int\<close> is an association list with distinct keys; assignment is \<^const>\<open>AList.update\<close>.\<close>

definition mapIndexUsable :: "entries \<Rightarrow> mapidx \<Rightarrow> bool" where
  "mapIndexUsable es idx \<longleftrightarrow> (case idx of None \<Rightarrow> False | Some al \<Rightarrow> length al = length es)"

fun buildLoop :: "entries \<Rightarrow> nat \<Rightarrow> (string \<times> nat) list \<Rightarrow> (string \<times> nat) list option" where
  "buildLoop [] i al = Some al"
| "buildLoop (e # es) i al = (case mapKeyEncode (fst e) of
     None \<Rightarrow> None
   | Some enc \<Rightarrow> buildLoop es (Suc i) (AList.update enc i al))"

definition buildMapIndex :: "entries \<Rightarrow> mapidx" where
  "buildMapIndex es = (case buildLoop es 0 [] of
     None \<Rightarrow> None
   | Some al \<Rightarrow> if length al \<noteq> length es then None else Some al)"

text \<open>The linear scan: the first position whose key equals \<open>key\<close>.\<close>

fun scanKey :: "(nat \<Rightarrow> nat \<Rightarrow> bool) \<Rightarrow> Value \<Rightarrow> entries \<Rightarrow> nat option" where
  "scanKey N key [] = None"
| "scanKey N key (e # es) = (if Equal N (fst e) key then Some 0 else map_option Suc (scanKey N key es))"

text \<open>\<open>LookupKey\<close> of a map value; \<open>-1\<close> of the source is \<open>None\<close>.\<close>

definition LookupKey :: "(nat \<Rightarrow> nat \<Rightarrow> bool) \<Rightarrow> entries \<Rightarrow> mapidx \<Rightarrow> Value \<Rightarrow> nat option" where
  "LookupKey N es idx key = (case mapKeyEncode key of
     Some enc \<Rightarrow> (case idx of
        Some al \<Rightarrow> if mapIndexUsable es idx then map_of al enc else scanKey N key es
      | None \<Rightarrow> scanKey N key es)
   | None \<Rightarrow> scanKey N key es)"

text \<open>The scan of \<open>UpsertKey\<close> after the index declined. \<open>stored\<close> is the key a new entry gets: the key itself
  here, its copy in \<open>writeIndexedSlot\<close>, which has the same body.\<close>

definition upsertScan :: "(nat \<Rightarrow> nat \<Rightarrow> bool) \<Rightarrow> entries \<Rightarrow> mapidx \<Rightarrow> Value \<Rightarrow> Value \<Rightarrow> Value \<Rightarrow> entries \<times> mapidx" where
  "upsertScan N es idx key stored val = (case scanKey N key es of
     Some i \<Rightarrow> (es[i := (fst (es ! i), val)], idx)
   | None \<Rightarrow> (es @ [(stored, val)], None))"

definition upsertAs :: "(nat \<Rightarrow> nat \<Rightarrow> bool) \<Rightarrow> entries \<Rightarrow> mapidx \<Rightarrow> Value \<Rightarrow> Value \<Rightarrow> Value \<Rightarrow> entries \<times> mapidx" where
  "upsertAs N es idx0 key stored val = (case mapKeyEncode key of
     Some enc \<Rightarrow>
       (let idx = (if mapIndexUsable es idx0 then idx0 else buildMapIndex es) in
        case idx of
          Some al \<Rightarrow>
            if mapIndexUsable es idx then
              (case map_of al enc of
                 Some pos \<Rightarrow> (es[pos := (fst (es ! pos), val)], idx)
               | None \<Rightarrow> (es @ [(stored, val)], Some (AList.update enc (length es) al)))
            else upsertScan N es idx key stored val
        | None \<Rightarrow> upsertScan N es idx key stored val)
   | None \<Rightarrow> upsertScan N es idx0 key stored val)"

definition UpsertKey :: "(nat \<Rightarrow> nat \<Rightarrow> bool) \<Rightarrow> entries \<Rightarrow> mapidx \<Rightarrow> Value \<Rightarrow> Value \<Rightarrow> entries \<times> mapidx" where
  "UpsertKey N es idx0 key val = upsertAs N es idx0 key key val"

definition DropMapIndex :: "mapidx \<Rightarrow> mapidx" where
  "DropMapIndex idx = None"

section \<open>The index invariant\<close>

text \<open>An index that passes the length test is the exact index of the entries: every key is hashable,
  and the encoded keys in order are numbered \<open>0, 1, \<dots>\<close>.\<close>

definition exact_index :: "entries \<Rightarrow> (string \<times> nat) list \<Rightarrow> bool" where
  "exact_index es al \<longleftrightarrow> distinct (map fst al) \<and> length al = length es \<and>
     (\<forall>i < length es. \<exists>enc. mapKeyEncode (fst (es ! i)) = Some enc \<and> map_of al enc = Some i)"

definition idx_inv :: "entries \<Rightarrow> mapidx \<Rightarrow> bool" where
  "idx_inv es idx \<longleftrightarrow> (case idx of None \<Rightarrow> True | Some al \<Rightarrow> length al = length es \<longrightarrow> exact_index es al)"

lemma idx_inv_None [simp]: "idx_inv es None"
  by (simp add: idx_inv_def)

abbreviation keyEnc :: "Value \<times> Value \<Rightarrow> string" where
  "keyEnc e \<equiv> the (mapKeyEncode (fst e))"

lemma card_dom_alist: "distinct (map fst al) \<Longrightarrow> card (dom (map_of al)) = length al"
  by (metis distinct_card dom_map_of_conv_image_fst length_map set_map)

text \<open>In an exact index, the encoded keys are all the keys of the index.\<close>

lemma exact_index_map_of:
  assumes "exact_index es al" "map_of al enc = Some i"
  shows "i < length es \<and> mapKeyEncode (fst (es ! i)) = Some enc"
proof -
  let ?f = "\<lambda>j. keyEnc (es ! j)"
  have f: "map_of al (?f j) = Some j" "mapKeyEncode (fst (es ! j)) = Some (?f j)" if "j < length es" for j
    using assms(1) that by (auto simp: exact_index_def)
  have "inj_on ?f {..<length es}"
    by (rule inj_onI) (metis f(1) lessThan_iff option.inject)
  then have card: "card (?f ` {..<length es}) = length es" by (simp add: card_image)
  have sub: "?f ` {..<length es} \<subseteq> dom (map_of al)" using f(1) by auto
  have "card (dom (map_of al)) = length es"
    using assms(1) by (simp add: exact_index_def card_dom_alist)
  then have "dom (map_of al) = ?f ` {..<length es}"
    using card_subset_eq [OF finite_dom_map_of sub] card by simp
  moreover have "enc \<in> dom (map_of al)" using assms(2) by auto
  ultimately obtain j where j: "j < length es" "enc = ?f j" by auto
  with assms(2) f [OF j(1)] show ?thesis by auto
qed

subsection \<open>Building the index\<close>

definition build_inv :: "entries \<Rightarrow> (string \<times> nat) list \<Rightarrow> bool" where
  "build_inv pre al \<longleftrightarrow> distinct (map fst al) \<and> (\<forall>e \<in> set pre. mapKeyEncode (fst e) \<noteq> None) \<and>
     dom (map_of al) = keyEnc ` set pre \<and>
     (distinct (map keyEnc pre) \<longrightarrow> (\<forall>i < length pre. map_of al (keyEnc (pre ! i)) = Some i))"

lemma build_inv_step:
  assumes "build_inv pre al" "mapKeyEncode (fst e) = Some enc"
  shows "build_inv (pre @ [e]) (AList.update enc (length pre) al)"
proof -
  have "map_of (AList.update enc (length pre) al) (keyEnc ((pre @ [e]) ! i)) = Some i"
    if d: "distinct (map keyEnc (pre @ [e]))" and i: "i < length (pre @ [e])" for i
  proof (cases "i < length pre")
    case True
    then have "keyEnc (pre ! i) \<noteq> enc" using d assms(2) nth_mem [OF True] by (auto simp: image_iff)
    then show ?thesis using True d assms(1) by (simp add: build_inv_def update_conv' nth_append)
  next
    case False
    with i have "i = length pre" by simp
    then show ?thesis by (simp add: update_conv' assms(2))
  qed
  then show ?thesis
    using assms unfolding build_inv_def by (simp add: distinct_update update_conv')
qed

lemma buildLoop_inv:
  "build_inv pre al \<Longrightarrow> buildLoop es (length pre) al = Some al' \<Longrightarrow> build_inv (pre @ es) al'"
proof (induction es arbitrary: pre al)
  case (Cons e es)
  from Cons.prems obtain enc where e: "mapKeyEncode (fst e) = Some enc"
    and l: "buildLoop es (Suc (length pre)) (AList.update enc (length pre) al) = Some al'"
    by (auto split: option.splits)
  have "build_inv ((pre @ [e]) @ es) al'"
    by (rule Cons.IH [OF build_inv_step [OF Cons.prems(1) e]]) (use l in simp)
  then show ?case by simp
qed simp

lemma build_inv_exact:
  assumes "build_inv es al" "length al = length es"
  shows "exact_index es al"
proof -
  have "card (keyEnc ` set es) = length es"
    using assms card_dom_alist [of al] by (auto simp: build_inv_def)
  then have "distinct (map keyEnc es)" by (intro card_distinct) simp
  then have m: "map_of al (keyEnc (es ! i)) = Some i" if "i < length es" for i
    using assms(1) that by (simp add: build_inv_def)
  have k: "mapKeyEncode (fst (es ! i)) = Some (keyEnc (es ! i))" if "i < length es" for i
    using assms(1) nth_mem [OF that] by (auto simp: build_inv_def)
  show ?thesis using assms m k unfolding build_inv_def exact_index_def by blast
qed

lemma buildMapIndex_exact: "buildMapIndex es = Some al \<Longrightarrow> exact_index es al"
  using buildLoop_inv [of "[]" "[]" es al]
  by (auto simp: buildMapIndex_def build_inv_def [of "[]"] split: option.splits if_splits intro: build_inv_exact)

lemma idx_inv_build: "idx_inv es (buildMapIndex es)"
  by (cases "buildMapIndex es") (auto simp: idx_inv_def dest: buildMapIndex_exact)

lemma buildLoop_None: "buildLoop es i al = None \<longleftrightarrow> (\<exists>e \<in> set es. mapKeyEncode (fst e) = None)"
  by (induction es i al rule: buildLoop.induct) (auto split: option.splits)

text \<open>An index is built exactly for the maps that have one.\<close>

lemma buildMapIndex_indexable: "buildMapIndex es \<noteq> None \<longleftrightarrow> indexable es"
proof (cases "buildLoop es 0 []")
  case None
  then show ?thesis using buildLoop_None [of es 0 "[]"] by (auto simp: buildMapIndex_def indexable_def)
next
  case (Some al)
  then have b: "build_inv es al" using buildLoop_inv [of "[]" "[]" es al] by (simp add: build_inv_def [of "[]"])
  then have "\<forall>e \<in> set es. mapKeyEncode (fst e) \<noteq> None" by (simp add: build_inv_def)
  then have "map (mapKeyEncode \<circ> fst) es = map Some (map keyEnc es)" by simp
  then have "distinct (map (mapKeyEncode \<circ> fst) es) \<longleftrightarrow> distinct (map keyEnc es)"
    by (simp only: distinct_map [of Some] inj_Some simp_thms)
  also have "\<dots> \<longleftrightarrow> card (keyEnc ` set es) = length es"
    using card_distinct [of "map keyEnc es"] distinct_card [of "map keyEnc es"] by auto
  also have "\<dots> \<longleftrightarrow> length al = length es"
    using b card_dom_alist [of al] by (simp add: build_inv_def)
  finally show ?thesis using Some \<open>\<forall>e \<in> set es. _\<close> by (simp add: buildMapIndex_def indexable_def)
qed

subsection \<open>Lookups through the index agree with the scan\<close>

lemma scanKey_Some:
  "scanKey N key es = Some i \<Longrightarrow> i < length es \<and> Equal N (fst (es ! i)) key"
  by (induction es arbitrary: i) (auto split: if_splits)

lemma scanKey_None: "scanKey N key es = None \<longleftrightarrow> (\<forall>e \<in> set es. \<not> Equal N (fst e) key)"
  by (induction es) auto

lemma exact_index_Equal:
  assumes x: "exact_index es al" and k: "mapKeyEncode key = Some enc" and i: "i < length es"
  shows "Equal N (fst (es ! i)) key \<longleftrightarrow> map_of al enc = Some i"
proof -
  obtain c where c: "mapKeyEncode (fst (es ! i)) = Some c" "map_of al c = Some i"
    using x i unfolding exact_index_def by blast
  then have "Equal N (fst (es ! i)) key \<longleftrightarrow> c = enc" using mapKeyEncode_Equal [OF c(1)] k by auto
  then show ?thesis using c exact_index_map_of [OF x, of enc i] by auto
qed

lemma scan_exact:
  assumes x: "exact_index es al" and k: "mapKeyEncode key = Some enc"
  shows "scanKey N key es = map_of al enc"
proof (cases "scanKey N key es")
  case None
  have "map_of al enc \<noteq> Some i" for i
    using None exact_index_Equal [OF x k, of i N] exact_index_map_of [OF x, of enc i] scanKey_None [of N key es]
    by (metis nth_mem)
  then show ?thesis using None by (metis option.exhaust)
next
  case (Some j)
  then show ?thesis using scanKey_Some [OF Some] exact_index_Equal [OF x k] by auto
qed

lemma LookupKey_scan: "idx_inv es idx \<Longrightarrow> LookupKey N es idx key = scanKey N key es"
  by (auto simp: LookupKey_def idx_inv_def mapIndexUsable_def scan_exact split: option.splits)


subsection \<open>Insertion\<close>

text \<open>What an upsert does to the entries, without the index: overwrite the value at the first equal
  key, which keeps its position and its key, or append.\<close>

definition upsertEntries :: "(nat \<Rightarrow> nat \<Rightarrow> bool) \<Rightarrow> entries \<Rightarrow> Value \<Rightarrow> Value \<Rightarrow> Value \<Rightarrow> entries" where
  "upsertEntries N es key stored val = (case scanKey N key es of
     Some i \<Rightarrow> es[i := (fst (es ! i), val)]
   | None \<Rightarrow> es @ [(stored, val)])"

lemma upsertScan_entries: "fst (upsertScan N es idx key stored val) = upsertEntries N es key stored val"
  by (simp add: upsertScan_def upsertEntries_def split: option.splits)

lemma fst_set_value: "j < length es \<Longrightarrow> fst (es[i := (fst (es ! i), v)] ! j) = fst (es ! j)"
  by (cases "i = j") auto

lemma exact_index_set_value:
  "exact_index es al \<Longrightarrow> exact_index (es[i := (fst (es ! i), v)]) al"
  unfolding exact_index_def by (metis fst_set_value length_list_update)

lemma exact_index_append:
  assumes "exact_index es al" "mapKeyEncode key = Some enc" "map_of al enc = None"
  shows "exact_index (es @ [(key, v)]) (AList.update enc (length es) al)"
proof -
  have "enc \<notin> fst ` set al" using assms(3) by (simp add: map_of_eq_None_iff)
  then have l: "AList.update enc (length es) al = al @ [(enc, length es)]" by (induction al) auto
  have "\<exists>c. mapKeyEncode (fst (es ! i)) = Some c \<and> map_of (al @ [(enc, length es)]) c = Some i"
    if "i < length es" for i
    using assms(1) that unfolding exact_index_def map_of_append map_add_Some_iff
    by (metis map_of_Cons_code(2) assms(3) map_of.simps(1) option.distinct(1))
  moreover have "map_of (al @ [(enc, length es)]) enc = Some (length es)" using assms(3) by (simp add: map_add_def)
  ultimately have "\<exists>c. mapKeyEncode (fst ((es @ [(key, v)]) ! i)) = Some c \<and> map_of (al @ [(enc, length es)]) c = Some i"
    if "i < length (es @ [(key, v)])" for i
    using assms(2) that by (cases "i < length es") (auto simp: nth_append less_Suc_eq)
  then show ?thesis using assms(1) \<open>enc \<notin> fst ` set al\<close> unfolding exact_index_def l by simp
qed

lemma idx_inv_set_value: "idx_inv es idx \<Longrightarrow> idx_inv (es[i := (fst (es ! i), v)]) idx"
  by (auto simp: idx_inv_def exact_index_set_value split: option.splits)

lemma idx_inv_upsertScan: "idx_inv es idx \<Longrightarrow> case_prod idx_inv (upsertScan N es idx key stored val)"
  by (simp add: upsertScan_def idx_inv_set_value split: option.splits)

lemma idx_inv_usable: "idx_inv es (Some al) \<Longrightarrow> mapIndexUsable es (Some al) \<Longrightarrow> exact_index es al"
  by (simp add: idx_inv_def mapIndexUsable_def)

text \<open>With an index that satisfies its invariant, \<open>upsertAs\<close> is the upsert of the plain entries and
  leaves the invariant true.\<close>

lemma upsertAs_entries:
  assumes "idx_inv es idx0" and st: "mapKeyEncode stored = mapKeyEncode key"
  shows "fst (upsertAs N es idx0 key stored val) = upsertEntries N es key stored val"
    and "case_prod idx_inv (upsertAs N es idx0 key stored val)"
proof -
  have "fst (upsertAs N es idx0 key stored val) = upsertEntries N es key stored val \<and>
    case_prod idx_inv (upsertAs N es idx0 key stored val)"
  proof (cases "mapKeyEncode key")
    case None
    then show ?thesis using assms by (simp add: upsertAs_def upsertScan_entries idx_inv_upsertScan)
  next
    case k: (Some enc)
    define idx where "idx = (if mapIndexUsable es idx0 then idx0 else buildMapIndex es)"
    have inv: "idx_inv es idx" using assms by (simp add: idx_def idx_inv_build)
    note scan = upsertScan_entries [of N es idx key stored val] idx_inv_upsertScan [OF inv, of N key stored val]
    show ?thesis
    proof (cases "\<exists>al. idx = Some al \<and> mapIndexUsable es idx")
      case False
      then show ?thesis using scan k
        by (cases idx) (simp_all add: upsertAs_def idx_def [symmetric] Let_def)
    next
      case True
      then obtain al where al: "idx = Some al" "mapIndexUsable es (Some al)" by blast
      have x: "exact_index es al" using inv al by (simp add: idx_inv_usable)
      have u: "upsertAs N es idx0 key stored val = (case map_of al enc of
          Some pos \<Rightarrow> (es[pos := (fst (es ! pos), val)], Some al)
        | None \<Rightarrow> (es @ [(stored, val)], Some (AList.update enc (length es) al)))"
        using k al by (simp add: upsertAs_def idx_def [symmetric] Let_def)
      have e: "upsertEntries N es key stored val = (case map_of al enc of
          Some pos \<Rightarrow> es[pos := (fst (es ! pos), val)] | None \<Rightarrow> es @ [(stored, val)])"
        by (simp add: upsertEntries_def scan_exact [OF x k])
      show ?thesis unfolding u e
        using exact_index_append [OF x k [folded st], of val] exact_index_set_value [OF x]
        by (cases "map_of al enc") (simp_all add: idx_inv_def)
    qed
  qed
  then show "fst (upsertAs N es idx0 key stored val) = upsertEntries N es key stored val"
    "case_prod idx_inv (upsertAs N es idx0 key stored val)" by simp_all
qed

section \<open>Maps as keyed stores\<close>

text \<open>What a client of a keyed container relies on: an insertion is seen by lookups of keys with the
  same code and by no others.\<close>

locale keyed_store =
  fixes store_ok :: "'m \<Rightarrow> bool"
    and code :: "'k \<Rightarrow> 'c option"
    and look :: "'m \<Rightarrow> 'k \<Rightarrow> 'v option"
    and ups :: "'m \<Rightarrow> 'k \<Rightarrow> 'v \<Rightarrow> 'm"
  assumes ups_ok: "store_ok m \<Longrightarrow> code k \<noteq> None \<Longrightarrow> store_ok (ups m k v)"
    and look_ups: "store_ok m \<Longrightarrow> code k \<noteq> None \<Longrightarrow> code k' \<noteq> None \<Longrightarrow>
      look (ups m k v) k' = (if code k' = code k then Some v else look m k')"
begin

fun ups_all :: "'m \<Rightarrow> ('k \<times> 'v) list \<Rightarrow> 'm" where
  "ups_all m [] = m"
| "ups_all m (e # es) = ups_all (ups m (fst e) (snd e)) es"

lemma ups_all_ok: "store_ok m \<Longrightarrow> (\<forall>e \<in> set es. code (fst e) \<noteq> None) \<Longrightarrow> store_ok (ups_all m es)"
  by (induction es arbitrary: m) (auto intro: ups_ok)

text \<open>After a sequence of insertions a lookup sees the last one with its code, whatever the order of
  the others.\<close>

lemma look_ups_all:
  "store_ok m \<Longrightarrow> (\<forall>e \<in> set es. code (fst e) \<noteq> None) \<Longrightarrow> code k \<noteq> None \<Longrightarrow>
    look (ups_all m es) k = (case List.find (\<lambda>e. code (fst e) = code k) (rev es) of
      Some e \<Rightarrow> Some (snd e) | None \<Rightarrow> look m k)"
proof (induction es rule: rev_induct)
  case (snoc e es)
  have "ups_all m (es @ [e]) = ups (ups_all m es) (fst e) (snd e)" for m
    by (induction es arbitrary: m) auto
  with snoc show ?case by (simp add: look_ups ups_all_ok)
qed simp

lemma ups_commute:
  assumes "store_ok m" "code k \<noteq> None" "code k' \<noteq> None" "code j \<noteq> None" "code k \<noteq> code k'"
  shows "look (ups (ups m k v) k' v') j = look (ups (ups m k' v') k v) j"
  using assms by (simp add: look_ups ups_ok)

end

type_synonym omap = "entries \<times> mapidx"

definition omap_ok :: "omap \<Rightarrow> bool" where
  "omap_ok m \<longleftrightarrow> idx_inv (fst m) (snd m) \<and> indexable (fst m)"

definition omap_look :: "(nat \<Rightarrow> nat \<Rightarrow> bool) \<Rightarrow> omap \<Rightarrow> Value \<Rightarrow> Value option" where
  "omap_look N m k = map_option (\<lambda>i. snd (fst m ! i)) (LookupKey N (fst m) (snd m) k)"

text \<open>On hashable keys a scan compares codes.\<close>

fun scanCode :: "string \<Rightarrow> entries \<Rightarrow> nat option" where
  "scanCode c [] = None"
| "scanCode c (e # es) = (if mapKeyEncode (fst e) = Some c then Some 0 else map_option Suc (scanCode c es))"

lemma scanKey_scanCode:
  "\<forall>e \<in> set es. mapKeyEncode (fst e) \<noteq> None \<Longrightarrow> mapKeyEncode k = Some c \<Longrightarrow> scanKey N k es = scanCode c es"
  by (induction es) (auto simp: mapKeyEncode_Equal)

lemma scanCode_append:
  "scanCode c (es @ [e]) = (case scanCode c es of Some i \<Rightarrow> Some i
     | None \<Rightarrow> if mapKeyEncode (fst e) = Some c then Some (length es) else None)"
  by (induction es) (auto split: option.splits)

lemma scanCode_set: "scanCode c (es[i := (fst (es ! i), v)]) = scanCode c es"
proof (induction es arbitrary: i)
  case (Cons e es)
  then show ?case by (cases i) auto
qed simp

lemma scanCode_Some: "scanCode c es = Some i \<Longrightarrow> i < length es \<and> mapKeyEncode (fst (es ! i)) = Some c"
  by (induction es arbitrary: i) (auto split: if_splits)

lemma scanCode_None: "scanCode c es = None \<longleftrightarrow> Some c \<notin> mapKeyEncode ` fst ` set es"
  by (induction es) auto

definition lookCode :: "string \<Rightarrow> entries \<Rightarrow> Value option" where
  "lookCode c es = map_option (\<lambda>i. snd (es ! i)) (scanCode c es)"

lemma omap_look_code: "omap_ok m \<Longrightarrow> mapKeyEncode k = Some c \<Longrightarrow> omap_look N m k = lookCode c (fst m)"
  by (simp add: omap_look_def omap_ok_def LookupKey_scan indexable_def scanKey_scanCode lookCode_def)

lemma indexable_upsert:
  assumes "indexable es" "mapKeyEncode k = Some c"
  shows "indexable (upsertEntries N es k k v)"
proof (cases "scanCode c es")
  case None
  then have "\<forall>e \<in> set es. mapKeyEncode (fst e) \<noteq> Some c" by (metis scanCode_None image_eqI)
  then show ?thesis using assms None
    by (auto simp: upsertEntries_def scanKey_scanCode indexable_def)
next
  case (Some i)
  have m: "map (mapKeyEncode \<circ> fst) (es[i := (fst (es ! i), v)]) = map (mapKeyEncode \<circ> fst) es"
    by (rule nth_equalityI) (simp_all add: fst_set_value)
  have "(\<forall>e \<in> set xs. mapKeyEncode (fst e) \<noteq> None) \<longleftrightarrow> None \<notin> set (map (mapKeyEncode \<circ> fst) xs)" for xs :: entries
    by (induction xs) auto
  then have "indexable (es[i := (fst (es ! i), v)])" using assms(1) unfolding indexable_def by (simp only: m simp_thms)
  then show ?thesis using assms Some by (simp add: upsertEntries_def scanKey_scanCode indexable_def)
qed

lemma lookCode_upsert:
  assumes "indexable es" "mapKeyEncode k = Some c"
  shows "lookCode c' (upsertEntries N es k k v) = (if c' = c then Some v else lookCode c' es)"
proof (cases "scanCode c es")
  case None
  then show ?thesis using assms
    by (auto simp: upsertEntries_def scanKey_scanCode indexable_def lookCode_def scanCode_append nth_append
        dest: scanCode_Some split: option.splits)
next
  case (Some i)
  then have "i < length es" "mapKeyEncode (fst (es ! i)) = Some c" using scanCode_Some by blast+
  moreover have "j \<noteq> i" if "scanCode c' es = Some j" "c' \<noteq> c" for j
    using scanCode_Some [OF that(1)] that(2) calculation(2) by auto
  ultimately show ?thesis using assms Some
    by (cases "scanCode c' es")
      (auto simp: upsertEntries_def scanKey_scanCode indexable_def lookCode_def scanCode_set nth_list_update)
qed

definition omap_upsert :: "(nat \<Rightarrow> nat \<Rightarrow> bool) \<Rightarrow> omap \<Rightarrow> Value \<Rightarrow> Value \<Rightarrow> omap" where
  "omap_upsert N m k v = UpsertKey N (fst m) (snd m) k v"

lemma omap_upsert_ok: "omap_ok m \<Longrightarrow> mapKeyEncode k \<noteq> None \<Longrightarrow> omap_ok (omap_upsert N m k v)"
  using upsertAs_entries [of "fst m" "snd m" k k N v]
  by (auto simp: omap_ok_def omap_upsert_def UpsertKey_def indexable_upsert case_prod_unfold)

interpretation omap: keyed_store omap_ok mapKeyEncode "omap_look N" "omap_upsert N"
proof
  fix m k v
  assume "omap_ok m" "mapKeyEncode k \<noteq> None"
  then show "omap_ok (omap_upsert N m k v)" by (rule omap_upsert_ok)
next
  fix m k k' v
  assume m: "omap_ok m" and k: "mapKeyEncode k \<noteq> None" and k': "mapKeyEncode k' \<noteq> None"
  then have "fst (omap_upsert N m k v) = upsertEntries N (fst m) k k v"
    by (simp add: omap_upsert_def UpsertKey_def upsertAs_entries omap_ok_def)
  then show "omap_look N (omap_upsert N m k v) k' =
      (if mapKeyEncode k' = mapKeyEncode k then Some v else omap_look N m k')"
    using m k k' omap_look_code [OF omap_upsert_ok [OF m k]] omap_look_code [OF m]
    by (auto simp: lookCode_upsert omap_ok_def)
qed

end
