(* ===== verification/TypeCheck.thy ===== *)
theory TypeCheck
  imports MapIndex
begin

text \<open>
  Values at a binding site (\<open>internal/interpreter/value.go\<close>, \<open>stampDeclaredType\<close> and \<open>bindParamValue\<close> of
  \<open>interpreter.go\<close>): the check against a declared type, the stamp of the declared inner types, the deep
  copy, zero values, numeric views and the rendering of values. The element type in the shared
  state of a task or channel is a set-once cell: \<open>het h\<close> is the cell of the handle \<open>h\<close>.
\<close>

type_synonym handles = "nat \<Rightarrow> ty option"

lemma size_entry_fst: "e \<in> set es \<Longrightarrow> size (fst e) < Suc (size_list (size_prod size size) es)"
  using size_list_mem [of e es "size_prod size size"] by (cases e) simp

lemma size_entry_snd: "e \<in> set es \<Longrightarrow> size (snd e) < Suc (size_list (size_prod size size) es)"
  using size_list_mem [of e es "size_prod size size"] by (cases e) simp

lemma size_field_snd: "f \<in> set fs \<Longrightarrow> size (snd f) < Suc (size_list (size_prod (\<lambda>_. 0) size) fs)"
  using size_list_mem [of f fs "size_prod (\<lambda>_. 0) size"] by (cases f) simp

lemmas value_sizes = size_list_mem size_entry_fst size_entry_snd size_field_snd

section \<open>Operations\<close>

subsection \<open>The declared-type check\<close>

text \<open>The two arms for tasks and channels read the recorded element type of the handle.\<close>

definition handleMatches :: "handles \<Rightarrow> nat option \<Rightarrow> ty option \<Rightarrow> bool" where
  "handleMatches het h el = (case h of
     None \<Rightarrow> True
   | Some a \<Rightarrow> (case het a of None \<Rightarrow> True | Some et \<Rightarrow> (case el of None \<Rightarrow> True | Some t \<Rightarrow> tyEqual t et)))"

fun MatchesDeclared :: "handles \<Rightarrow> Value \<Rightarrow> ty \<Rightarrow> bool" where
  "MatchesDeclared het v TypeInt \<longleftrightarrow> Kind v = KindInt"
| "MatchesDeclared het v TypeFloat \<longleftrightarrow> Kind v = KindFloat"
| "MatchesDeclared het v TypeString \<longleftrightarrow> Kind v = KindString"
| "MatchesDeclared het v TypeBool \<longleftrightarrow> Kind v = KindBool"
| "MatchesDeclared het v TypeNull \<longleftrightarrow> Kind v = KindNull"
| "MatchesDeclared het v TypeBytes \<longleftrightarrow> Kind v = KindBytes"
| "MatchesDeclared het v (TypeStruct n ns p) \<longleftrightarrow> (case v of
      VStruct ns' n' p' _ \<Rightarrow> n' = n \<and> ns' = ns \<and> p' = p
    | VObject ns' n' _ \<Rightarrow> n' = n \<and> ns' = ns \<and> [] = p
    | VEnum ns' p' n' _ _ \<Rightarrow> n' = n \<and> ns' = ns \<and> p' = p
    | _ \<Rightarrow> False)"
| "MatchesDeclared het v (TypeList None) \<longleftrightarrow> Kind v = KindList"
| "MatchesDeclared het v (TypeList (Some t)) \<longleftrightarrow> (case v of
      VList xs None \<Rightarrow> list_all (\<lambda>e. MatchesDeclared het e t) xs
    | VList xs (Some et) \<Rightarrow> tyEqual t et
    | _ \<Rightarrow> False)"
| "MatchesDeclared het v (TypeMap k None) \<longleftrightarrow> (case v of
      VMap es kt vt _ \<Rightarrow>
        if kt \<noteq> None \<and> vt \<noteq> None then (case k of None \<Rightarrow> True | Some t \<Rightarrow> tyEqual t (the kt))
        else (case k of None \<Rightarrow> True | Some t \<Rightarrow> list_all (\<lambda>e. MatchesDeclared het (fst e) t) es)
    | _ \<Rightarrow> False)"
| "MatchesDeclared het v (TypeMap k (Some u)) \<longleftrightarrow> (case v of
      VMap es kt vt _ \<Rightarrow>
        if kt \<noteq> None \<and> vt \<noteq> None
        then (case k of None \<Rightarrow> True | Some t \<Rightarrow> tyEqual t (the kt)) \<and> tyEqual u (the vt)
        else list_all (\<lambda>e. (case k of None \<Rightarrow> True | Some t \<Rightarrow> MatchesDeclared het (fst e) t)
                          \<and> MatchesDeclared het (snd e) u) es
    | _ \<Rightarrow> False)"
| "MatchesDeclared het v (TypeTask el) \<longleftrightarrow> (case v of VTask h \<Rightarrow> handleMatches het h el | _ \<Rightarrow> False)"
| "MatchesDeclared het v (TypeChannel el) \<longleftrightarrow> (case v of VChannel h \<Rightarrow> handleMatches het h el | _ \<Rightarrow> False)"
| "MatchesDeclared het v TypeFunc \<longleftrightarrow> Kind v = KindFunc"
| "MatchesDeclared het v TypeInvalid \<longleftrightarrow> False"

subsection \<open>Stamping the declared type\<close>

text \<open>What \<open>stampDeclaredType\<close> writes into the value: the inner types, recursively through lists and
  map values whose own type is compound.\<close>

fun stampValue :: "Value \<Rightarrow> ty \<Rightarrow> Value" where
  "stampValue v (TypeList None) = (case v of VList xs _ \<Rightarrow> VList xs None | _ \<Rightarrow> v)"
| "stampValue v (TypeList (Some t)) = (case v of
      VList xs _ \<Rightarrow> VList (if is_compound_ty t then map (\<lambda>e. stampValue e t) xs else xs) (Some t)
    | _ \<Rightarrow> v)"
| "stampValue v (TypeMap k None) = (case v of VMap es _ _ idx \<Rightarrow> VMap es k None idx | _ \<Rightarrow> v)"
| "stampValue v (TypeMap k (Some t)) = (case v of
      VMap es _ _ idx \<Rightarrow>
        VMap (if is_compound_ty t then map (\<lambda>e. (fst e, stampValue (snd e) t)) es else es) k (Some t) idx
    | _ \<Rightarrow> v)"
| "stampValue v _ = v"

text \<open>What it writes into the shared cell of a handle: \<open>CompareAndSwap(nil, et)\<close>.\<close>

definition stampHandle :: "handles \<Rightarrow> Value \<Rightarrow> ty \<Rightarrow> handles" where
  "stampHandle het v t = (case (t, v) of
     (TypeTask (Some et), VTask (Some h)) \<Rightarrow> if het h = None then het(h := Some et) else het
   | (TypeChannel (Some et), VChannel (Some h)) \<Rightarrow> if het h = None then het(h := Some et) else het
   | _ \<Rightarrow> het)"

definition stampDeclaredType :: "handles \<Rightarrow> Value \<Rightarrow> ty \<Rightarrow> Value \<times> handles" where
  "stampDeclaredType het v t = (stampValue v t, stampHandle het v t)"

subsection \<open>Deep copies and zero values\<close>

text \<open>A copy shares the handles of tasks, channels, objects and methods; every map of the copy gets a
  fresh index.\<close>

function DeepCopy :: "Value \<Rightarrow> Value" where
  "DeepCopy v = (case v of
     VList xs et \<Rightarrow> VList (map DeepCopy xs) et
   | VMap es kt vt _ \<Rightarrow>
       (let es' = map (\<lambda>e. (DeepCopy (fst e), DeepCopy (snd e))) es in VMap es' kt vt (buildMapIndex es'))
   | VStruct ns n p fs \<Rightarrow> VStruct ns n p (map (\<lambda>f. (fst f, DeepCopy (snd f))) fs)
   | VEnum ns p n a fs \<Rightarrow> VEnum ns p n a (map (\<lambda>f. (fst f, DeepCopy (snd f))) fs)
   | _ \<Rightarrow> v)"
  by pat_completeness auto
termination
  by (relation "measure size") (simp_all add: value_sizes)

declare DeepCopy.simps [simp del]

lemmas DeepCopy_cases = DeepCopy.simps [of VNull] DeepCopy.simps [of "VInt n" for n]
  DeepCopy.simps [of "VFloat f" for f] DeepCopy.simps [of "VString s" for s] DeepCopy.simps [of "VBool b" for b]
  DeepCopy.simps [of "VBytes b" for b] DeepCopy.simps [of "VList xs t" for xs t]
  DeepCopy.simps [of "VMap es k t i" for es k t i] DeepCopy.simps [of "VStruct a b c d" for a b c d]
  DeepCopy.simps [of "VTask h" for h] DeepCopy.simps [of "VObject a b c" for a b c]
  DeepCopy.simps [of "VEnum a b c d e" for a b c d e] DeepCopy.simps [of "VFunc m" for m]
  DeepCopy.simps [of "VChannel h" for h]

lemmas DeepCopy_simps [simp] = DeepCopy_cases [simplified]

fun ZeroFor :: "ty \<Rightarrow> Value" where
  "ZeroFor TypeInt = VInt 0"
| "ZeroFor TypeFloat = VFloat fzero"
| "ZeroFor TypeString = VString []"
| "ZeroFor TypeBool = VBool False"
| "ZeroFor TypeNull = VNull"
| "ZeroFor TypeBytes = VBytes []"
| "ZeroFor (TypeStruct n ns p) = VStruct [] n [] []"
| "ZeroFor (TypeList el) = VList [] (Some (case el of None \<Rightarrow> TypeInvalid | Some t \<Rightarrow> t))"
| "ZeroFor (TypeMap k v) = VMap [] (Some (case k of None \<Rightarrow> TypeInvalid | Some t \<Rightarrow> t))
     (Some (case v of None \<Rightarrow> TypeInvalid | Some t \<Rightarrow> t)) None"
| "ZeroFor TypeFunc = VFunc None"
| "ZeroFor _ = VNull"

text \<open>\<open>bindParamValue\<close>: a scalar is bound as it is, anything else copied and stamped.\<close>

fun bindParamValue :: "handles \<Rightarrow> Value \<Rightarrow> ty \<Rightarrow> Value \<times> handles" where
  "bindParamValue het v t =
     (if Kind v \<in> {KindInt, KindFloat, KindBool, KindNull, KindString, KindFunc} then (v, het)
      else stampDeclaredType het (DeepCopy v) t)"

text \<open>The heap a copy holds, for the recursion memory guard; \<open>cell\<close> is \<open>valueCellBytes\<close>, the size of a
  \<open>Value\<close> in bytes.\<close>

fun shallowValueBytes :: "int \<Rightarrow> Value \<Rightarrow> int" where
  "shallowValueBytes cell (VList xs _) = cell * int (length xs)"
| "shallowValueBytes cell (VMap es _ _ _) = cell * 2 * int (length es)"
| "shallowValueBytes cell (VStruct _ _ _ fs) = cell * int (length fs)"
| "shallowValueBytes cell (VEnum _ _ _ _ fs) = cell * int (length fs)"
| "shallowValueBytes cell (VString s) = int (length s)"
| "shallowValueBytes cell (VBytes b) = int (length b)"
| "shallowValueBytes cell _ = 0"

subsection \<open>Numeric views\<close>

fun AsFloat :: "Value \<Rightarrow> float64 option" where
  "AsFloat (VInt n) = Some (float_of_int64 n)"
| "AsFloat (VFloat f) = Some f"
| "AsFloat _ = None"

definition isNumeric :: "Value \<Rightarrow> bool" where
  "isNumeric v \<longleftrightarrow> Kind v = KindInt \<or> Kind v = KindFloat"

fun CompareNumeric :: "Value \<Rightarrow> Value \<Rightarrow> int" where
  "CompareNumeric (VInt a) (VInt b) = (if a <s b then - 1 else if b <s a then 1 else 0)"
| "CompareNumeric (VFloat a) (VFloat b) = (if flt a b then - 1 else if flt b a then 1 else 0)"
| "CompareNumeric (VInt a) (VFloat b) = compareIntFloat a b"
| "CompareNumeric (VFloat a) (VInt b) = - compareIntFloat b a"
| "CompareNumeric a b =
     (let af = (case AsFloat a of Some f \<Rightarrow> f | None \<Rightarrow> fzero);
          bf = (case AsFloat b of Some f \<Rightarrow> f | None \<Rightarrow> fzero)
      in if flt af bf then - 1 else if flt bf af then 1 else 0)"

subsection \<open>Rendering\<close>

text \<open>What rendering takes from outside the interpreter's values: \<open>strconv.FormatFloat(f, 'g', -1, 64)\<close> and
  \<open>strconv.Quote\<close>, the state of task and channel handles, and the payload renderers that libraries
  register.\<close>

record displayer =
  FormatFloat :: "float64 \<Rightarrow> string"
  Quote :: "string \<Rightarrow> string"
  taskLabel :: "nat \<Rightarrow> string"
  chanClosed :: "nat \<Rightarrow> bool"
  displayNative :: "nat \<Rightarrow> string"
  objectDisplayer :: "string \<Rightarrow> string \<Rightarrow> (Value \<Rightarrow> string) option"

definition DisplayFloat :: "displayer \<Rightarrow> float64 \<Rightarrow> string" where
  "DisplayFloat d f = (let s = FormatFloat d f in
     if s \<in> {''+Inf'', ''-Inf'', ''NaN''} then s
     else if set s \<inter> set ''.eE'' = {} then s @ ''.0'' else s)"

definition hexByte :: "8 word \<Rightarrow> string" where
  "hexByte b = [digit_char (unat b div 16), digit_char (unat b mod 16)]"

text \<open>The namespace tag of a variant payload bound by \<open>match\<close>.\<close>

definition matchPayloadNS :: string where
  "matchPayloadNS = CHR 0x00 # ''payload''"

fun joinWith :: "string \<Rightarrow> string list \<Rightarrow> string" where
  "joinWith sep [] = []"
| "joinWith sep [x] = x"
| "joinWith sep (x # y # xs) = x @ sep @ joinWith sep (y # xs)"

function display :: "displayer \<Rightarrow> Value \<Rightarrow> bool \<Rightarrow> string" where
  "display d v quoted = (case v of
     VNull \<Rightarrow> ''null''
   | VInt n \<Rightarrow> FormatInt (sint n)
   | VFloat f \<Rightarrow> DisplayFloat d f
   | VString s \<Rightarrow> if quoted then Quote d s else s
   | VBool b \<Rightarrow> if b then ''true'' else ''false''
   | VList xs _ \<Rightarrow> ''['' @ joinWith '', '' (map (\<lambda>x. display d x True) xs) @ '']''
   | VMap es _ _ _ \<Rightarrow> ''{'' @ joinWith '', '' (map (\<lambda>e. display d (fst e) True @ '': '' @ display d (snd e) True) es) @ ''}''
   | VBytes bs \<Rightarrow> ''bytes['' @ joinWith '' '' (map hexByte bs) @ '']''
   | VStruct ns n _ fs \<Rightarrow> (if ns \<noteq> [] \<and> ns \<noteq> matchPayloadNS then ns @ ''.'' else []) @ n @
       ''{'' @ joinWith '', '' (map (\<lambda>f. fst f @ '': '' @ display d (snd f) True) fs) @ ''}''
   | VEnum ns _ n a fs \<Rightarrow> (if ns \<noteq> [] then ns @ ''.'' else []) @ n @ ''.'' @ a @
       (if fs \<noteq> [] then ''{'' @ joinWith '', '' (map (\<lambda>f. fst f @ '': '' @ display d (snd f) True) fs) @ ''}'' else [])
   | VTask h \<Rightarrow> (case h of None \<Rightarrow> ''task<?>'' | Some a \<Rightarrow> taskLabel d a)
   | VObject ns n b \<Rightarrow> (case b of
       Some (_, Inr x) \<Rightarrow> displayNative d x
     | _ \<Rightarrow> (case objectDisplayer d ns n of
         Some g \<Rightarrow> g (case b of Some (_, Inl v') \<Rightarrow> v' | _ \<Rightarrow> VNull)
       | None \<Rightarrow> ''<'' @ ns @ ''.'' @ n @ ''>''))
   | VFunc m \<Rightarrow> (case m of None \<Rightarrow> ''<func null>'' | Some f \<Rightarrow> ''<func '' @ f @ ''>'')
   | VChannel h \<Rightarrow> (case h of None \<Rightarrow> ''channel<?>''
       | Some a \<Rightarrow> if chanClosed d a then ''channel<closed>'' else ''channel<open>''))"
  by pat_completeness auto
termination
  by (relation "measure (\<lambda>(d, v, q). size v)") (simp_all add: value_sizes)

declare display.simps [simp del]

definition Display :: "displayer \<Rightarrow> Value \<Rightarrow> string" where
  "Display d v = display d v False"

definition displayElement :: "displayer \<Rightarrow> Value \<Rightarrow> string" where
  "displayElement d v = display d v True"

fun valueTypeLabel :: "Value \<Rightarrow> string" where
  "valueTypeLabel (VStruct ns n p fs) = (if ns \<noteq> [] then ns @ ''.'' @ n else if n \<noteq> [] then n else ''struct'')"
| "valueTypeLabel (VEnum ns p n a fs) = (if ns \<noteq> [] then ns @ ''.'' @ n else if n \<noteq> [] then n else ''enum'')"
| "valueTypeLabel (VObject ns n b) = (if ns \<noteq> [] then ns @ ''.'' @ n else if n \<noteq> [] then n else ''object'')"
| "valueTypeLabel (VList xs (Some t)) = ''list of '' @ tyString t"
| "valueTypeLabel (VMap es (Some k) (Some t) idx) = ''map of '' @ tyString k @ '' to '' @ tyString t"
| "valueTypeLabel v = kindString (Kind v)"

section \<open>Copies are the same value\<close>

text \<open>A value with every index cache dropped.\<close>

function stripIdx :: "Value \<Rightarrow> Value" where
  "stripIdx v = (case v of
     VList xs et \<Rightarrow> VList (map stripIdx xs) et
   | VMap es kt vt _ \<Rightarrow> VMap (map (\<lambda>e. (stripIdx (fst e), stripIdx (snd e))) es) kt vt None
   | VStruct ns n p fs \<Rightarrow> VStruct ns n p (map (\<lambda>f. (fst f, stripIdx (snd f))) fs)
   | VEnum ns p n a fs \<Rightarrow> VEnum ns p n a (map (\<lambda>f. (fst f, stripIdx (snd f))) fs)
   | _ \<Rightarrow> v)"
  by pat_completeness auto
termination
  by (relation "measure size") (simp_all add: value_sizes)

declare stripIdx.simps [simp del]

lemmas stripIdx_cases = stripIdx.simps [of VNull] stripIdx.simps [of "VInt n" for n]
  stripIdx.simps [of "VFloat f" for f] stripIdx.simps [of "VString s" for s] stripIdx.simps [of "VBool b" for b]
  stripIdx.simps [of "VBytes b" for b] stripIdx.simps [of "VList xs t" for xs t]
  stripIdx.simps [of "VMap es k t i" for es k t i] stripIdx.simps [of "VStruct a b c d" for a b c d]
  stripIdx.simps [of "VTask h" for h] stripIdx.simps [of "VObject a b c" for a b c]
  stripIdx.simps [of "VEnum a b c d e" for a b c d e] stripIdx.simps [of "VFunc m" for m]
  stripIdx.simps [of "VChannel h" for h]

lemmas stripIdx_simps [simp] = stripIdx_cases [simplified]

lemma DeepCopy_strip: "stripIdx (DeepCopy v) = stripIdx v"
proof (induction v rule: DeepCopy.induct)
  case (1 v)
  then show ?case by (cases v) (simp_all add: Let_def)
qed

lemma mapKeyEncode_DeepCopy [simp]: "mapKeyEncode (DeepCopy v) = mapKeyEncode v"
  by (cases v) (simp_all add: Let_def)

lemma DeepCopy_idem: "DeepCopy (DeepCopy v) = DeepCopy v"
proof (induction v rule: DeepCopy.induct)
  case (1 v)
  then show ?case by (cases v) (simp_all add: Let_def cong: map_cong)
qed

section \<open>Typed values\<close>

text \<open>The check without the element types of handles, which are shared and can change after the
  check: what a stamped container promises about its elements.\<close>

abbreviation shape :: "Value \<Rightarrow> ty \<Rightarrow> bool" where
  "shape \<equiv> MatchesDeclared (\<lambda>_. None)"

lemma handleMatches_free [simp]: "handleMatches (\<lambda>_. None) h el"
  by (simp add: handleMatches_def split: option.splits)

lemma MatchesDeclared_shape: "MatchesDeclared het v t \<Longrightarrow> shape v t"
  by (induction het v t rule: MatchesDeclared.induct)
    (auto split: Value.splits option.splits if_splits simp: list_all_iff)

text \<open>A container of a declared type that also carries the declared inner types, so that writes into it are
  checked.\<close>

definition stamped :: "Value \<Rightarrow> ty \<Rightarrow> bool" where
  "stamped v t \<longleftrightarrow> (case t of
     TypeList el \<Rightarrow> (case v of VList _ et \<Rightarrow> et = el | _ \<Rightarrow> False)
   | TypeMap k u \<Rightarrow> (case v of VMap _ kt vt _ \<Rightarrow> kt = k \<and> vt = u | _ \<Rightarrow> False)
   | _ \<Rightarrow> True)"

abbreviation typed :: "Value \<Rightarrow> ty \<Rightarrow> bool" where
  "typed v t \<equiv> shape v t \<and> stamped v t"

text \<open>A value is coherent when the element types recorded in its containers hold of the elements, at every
  depth, and the index of every map is sound. Map keys cannot be written into, so they need no stamp.\<close>

function coherent :: "Value \<Rightarrow> bool" where
  "coherent v = (case v of
     VList xs et \<Rightarrow> list_all coherent xs \<and> (case et of None \<Rightarrow> True | Some t \<Rightarrow> wf_ty t \<and> list_all (\<lambda>x. typed x t) xs)
   | VMap es kt vt idx \<Rightarrow> idx_inv es idx \<and> list_all (\<lambda>e. coherent (fst e) \<and> coherent (snd e)) es \<and>
       (case kt of None \<Rightarrow> True | Some t \<Rightarrow> wf_ty t \<and> \<not> is_compound_ty t \<and> list_all (\<lambda>e. shape (fst e) t) es) \<and>
       (case vt of None \<Rightarrow> True | Some t \<Rightarrow> wf_ty t \<and> list_all (\<lambda>e. typed (snd e) t) es)
   | VStruct _ _ _ fs \<Rightarrow> list_all (\<lambda>f. coherent (snd f)) fs
   | VEnum _ _ _ _ fs \<Rightarrow> list_all (\<lambda>f. coherent (snd f)) fs
   | _ \<Rightarrow> True)"
  by pat_completeness auto
termination
  by (relation "measure size") (simp_all add: value_sizes)

declare coherent.simps [simp del]

lemmas coherent_cases = coherent.simps [of VNull] coherent.simps [of "VInt n" for n]
  coherent.simps [of "VFloat f" for f] coherent.simps [of "VString s" for s] coherent.simps [of "VBool b" for b]
  coherent.simps [of "VBytes b" for b] coherent.simps [of "VList xs t" for xs t]
  coherent.simps [of "VMap es k t i" for es k t i] coherent.simps [of "VStruct a b c d" for a b c d]
  coherent.simps [of "VTask h" for h] coherent.simps [of "VObject a b c" for a b c]
  coherent.simps [of "VEnum a b c d e" for a b c d e] coherent.simps [of "VFunc m" for m]
  coherent.simps [of "VChannel h" for h]

lemmas coherent_simps [simp] = coherent_cases [simplified]

lemma Kind_DeepCopy [simp]: "Kind (DeepCopy v) = Kind v"
  by (cases v) (simp_all add: Let_def)

lemma shape_DeepCopy: "MatchesDeclared het (DeepCopy v) t \<longleftrightarrow> MatchesDeclared het v t"
proof (induction t arbitrary: v)
  case (TypeList el)
  then show ?case by (cases el; cases v) (auto simp: list_all_iff Let_def split: option.splits)
next
  case (TypeMap k u)
  then show ?case by (cases k; cases u; cases v) (auto simp: list_all_iff Let_def)
next
  case (TypeStruct n ns p)
  then show ?case by (cases v) (simp_all add: Let_def)
next
  case (TypeTask el)
  then show ?case by (cases v) (simp_all add: Let_def)
next
  case (TypeChannel el)
  then show ?case by (cases v) (simp_all add: Let_def)
qed simp_all

lemma stamped_DeepCopy: "stamped (DeepCopy v) t \<longleftrightarrow> stamped v t"
  by (cases v; cases t) (auto simp: stamped_def Let_def)

lemma DeepCopy_coherent: "coherent v \<Longrightarrow> coherent (DeepCopy v)"
proof (induction v rule: DeepCopy.induct)
  case (1 v)
  then show ?case
    by (cases v) (auto simp: Let_def list_all_iff shape_DeepCopy stamped_DeepCopy idx_inv_build split: option.splits)
qed

lemma idx_inv_map_snd: "idx_inv (map (\<lambda>e. (fst e, f (snd e))) es) idx \<longleftrightarrow> idx_inv es idx"
  by (simp add: idx_inv_def exact_index_def split: option.splits)

lemma idx_inv_stamp: "idx_inv es idx \<Longrightarrow> idx_inv (map (\<lambda>e. (fst e, stampValue (snd e) t)) es) idx"
  using idx_inv_map_snd [of "\<lambda>x. stampValue x t"] by simp

lemma Kind_stampValue [simp]: "Kind (stampValue v t) = Kind v"
  by (cases "(v, t)" rule: stampValue.cases) (auto split: Value.splits)

lemma stamped_stampValue: "wf_ty t \<Longrightarrow> shape v t \<Longrightarrow> stamped (stampValue v t) t"
  by (cases "(v, t)" rule: stampValue.cases) (auto simp: stamped_def split: Value.splits)

lemma stamped_simple: "\<not> is_compound_ty t \<Longrightarrow> stamped v t"
  by (cases t) (simp_all add: stamped_def)

text \<open>Stamping a coherent value with a type it was checked against gives a coherent value of that type;
  the recorded element types that the check trusts are the declared ones.\<close>

lemma stamp_sound:
  "wf_ty t \<Longrightarrow> coherent v \<Longrightarrow> shape v t \<Longrightarrow> coherent (stampValue v t) \<and> typed (stampValue v t) t"
proof (induction t arbitrary: v)
  case (TypeList el)
  then obtain t where el: "el = Some t" and wf: "wf_ty t" by (cases el) auto
  from TypeList.prems(3) obtain xs et where v: "v = VList xs et" by (cases v) (auto simp: el)
  have sh: "shape x t" if "x \<in> set xs" for x
    using TypeList.prems that by (cases et) (auto simp: v el list_all_iff tyEqual_eq [OF wf])
  have co: "coherent x" if "x \<in> set xs" for x using TypeList.prems that by (simp add: v list_all_iff)
  show ?case using sh co TypeList.IH [of t] wf stamped_stampValue [OF TypeList.prems(1,3)]
    by (auto simp: v el list_all_iff stamped_simple)
next
  case (TypeMap k u)
  then obtain s t where kt: "k = Some s" "u = Some t" and wf: "wf_ty s" "wf_ty t" "\<not> is_compound_ty s"
    by (cases k; cases u) auto
  from TypeMap.prems(3) obtain es kt' vt' idx where v: "v = VMap es kt' vt' idx"
    by (cases v) (auto simp: kt)
  have sh: "shape (fst e) s \<and> shape (snd e) t" if "e \<in> set es" for e
    using TypeMap.prems that by (auto simp: v kt list_all_iff tyEqual_eq [OF wf(1)] tyEqual_eq [OF wf(2)] split: if_splits)
  have co: "coherent (fst e) \<and> coherent (snd e)" if "e \<in> set es" for e
    using TypeMap.prems that by (simp add: v list_all_iff)
  show ?case using sh co TypeMap.IH(2) [of t] wf TypeMap.prems(2) stamped_stampValue [OF TypeMap.prems(1,3)]
    by (auto simp: v kt list_all_iff idx_inv_stamp stamped_simple)
qed (simp_all add: stamped_def)

text \<open>The zero value of a type is a coherent value of it; tasks and channels have none (the zero is \<open>null\<close>)
  and struct zeros are built from the definition of the struct.\<close>

fun has_zero :: "ty \<Rightarrow> bool" where
  "has_zero TypeInvalid = False"
| "has_zero (TypeStruct _ _ _) = False"
| "has_zero (TypeTask _) = False"
| "has_zero (TypeChannel _) = False"
| "has_zero _ = True"

lemma ZeroFor_typed:
  "wf_ty t \<Longrightarrow> has_zero t \<Longrightarrow>
    MatchesDeclared het (stampValue (ZeroFor t) t) t \<and> stamped (stampValue (ZeroFor t) t) t \<and> coherent (stampValue (ZeroFor t) t)"
  by (cases "(ZeroFor t, t)" rule: stampValue.cases) (auto simp: stamped_def split: option.splits)

lemma bindParamValue_sound:
  assumes "wf_ty t" "coherent v" "MatchesDeclared het v t"
  shows "coherent (fst (bindParamValue het v t)) \<and> typed (fst (bindParamValue het v t)) t"
proof (cases "Kind v \<in> {KindInt, KindFloat, KindBool, KindNull, KindString, KindFunc}")
  case True
  then have "stamped v t" using assms(1) MatchesDeclared_shape [OF assms(3)]
    by (cases t; cases v) (auto simp: stamped_def split: option.splits)
  then show ?thesis using True assms MatchesDeclared_shape [OF assms(3)] by simp
next
  case False
  then show ?thesis using assms stamp_sound [of t "DeepCopy v"] MatchesDeclared_shape [OF assms(3)]
    by (simp add: stampDeclaredType_def DeepCopy_coherent shape_DeepCopy)
qed

end
