(* ===== verification/Errors.thy ===== *)
theory Errors
  imports TypeCheck
begin

text \<open>
  Errors as values (\<open>internal/interpreter/interpreter.go\<close>): \<open>runtimeError\<close>, \<open>ErrorSignal\<close> and \<open>ExitSignal\<close>, the
  results of fallible operations, and what \<open>try\<close> and \<open>throw\<close> make of an error. The message of a runtime
  error is kept as the format and arguments of its \<open>fmt.Sprintf\<close>; \<open>Sprintf\<close> renders them.
\<close>

section \<open>Messages\<close>

text \<open>The arguments the interpreter's messages take; types with a \<open>String\<close> method keep their value.\<close>

datatype fmtarg =
    AStr string
  | AInt int
  | AFloat float64
  | AKind kind
  | AOp binop
  | AUop unop
  | ATy ty

fun argText :: "displayer \<Rightarrow> fmtarg \<Rightarrow> string" where
  "argText d (AStr s) = s"
| "argText d (AInt n) = FormatInt n"
| "argText d (AFloat f) = FormatFloat d f"
| "argText d (AKind k) = kindString k"
| "argText d (AOp op) = binopString op"
| "argText d (AUop op) = unopString op"
| "argText d (ATy t) = tyString t"

text \<open>\<open>fmt.Sprintf\<close> for the verbs in use: \<open>%d\<close>, \<open>%s\<close>, \<open>%v\<close>, \<open>%q\<close> and the literal \<open>%%\<close>.\<close>

fun Sprintf :: "displayer \<Rightarrow> string \<Rightarrow> fmtarg list \<Rightarrow> string" where
  "Sprintf d [] args = []"
| "Sprintf d [c] args = [c]"
| "Sprintf d (c # v # cs) args =
     (if c \<noteq> CHR ''%'' then c # Sprintf d (v # cs) args
      else if v = CHR ''%'' then CHR ''%'' # Sprintf d cs args
      else case args of
        [] \<Rightarrow> ''%!'' @ v # ''(MISSING)'' @ Sprintf d cs []
      | a # as \<Rightarrow> (if v = CHR ''q'' then Quote d (argText d a) else argText d a) @ Sprintf d cs as)"

section \<open>Error values\<close>

record runtimeError =
  rKind :: string
  rFmt :: string
  rArgs :: "fmtarg list"
  rPos :: pos

datatype err =
    RuntimeError runtimeError
  | ErrorSignal Value pos
  | ExitSignal int64

type_synonym 'a result = "err + 'a"

text \<open>The common shape \<open>&runtimeError{Msg: fmt.Sprintf(...), File: file, Line: line, Col: col}\<close>, and a
  message without a \<open>Sprintf\<close>.\<close>

definition rtErr :: "string \<Rightarrow> fmtarg list \<Rightarrow> pos \<Rightarrow> err" where
  "rtErr f args p = RuntimeError \<lparr>rKind = [], rFmt = f, rArgs = args, rPos = p\<rparr>"

definition rtMsg :: "string \<Rightarrow> pos \<Rightarrow> err" where
  "rtMsg m p = rtErr ''%s'' [AStr m] p"

definition errMsg :: "displayer \<Rightarrow> runtimeError \<Rightarrow> string" where
  "errMsg d e = Sprintf d (rFmt e) (rArgs e)"

definition noPos :: pos where
  "noPos = \<lparr>File = [], Line = 0, Col = 0\<rparr>"

fun isExit :: "err \<Rightarrow> bool" where
  "isExit (ExitSignal _) \<longleftrightarrow> True"
| "isExit _ \<longleftrightarrow> False"

text \<open>Sequencing: the error of the first step is the error of both.\<close>

definition rbind :: "'a result \<Rightarrow> ('a \<Rightarrow> 'b result) \<Rightarrow> 'b result" where
  "rbind r f = (case r of Inl e \<Rightarrow> Inl e | Inr x \<Rightarrow> f x)"

lemma rbind_simps [simp]: "rbind (Inl e) f = Inl e" "rbind (Inr x) f = f x"
  by (simp_all add: rbind_def)

section \<open>Errors caught and thrown\<close>

definition canonicalErrorStructName :: string where
  "canonicalErrorStructName = ''Error''"

definition runtimeErrorToValue :: "displayer \<Rightarrow> runtimeError \<Rightarrow> Value" where
  "runtimeErrorToValue d e = VStruct [] canonicalErrorStructName []
     [(''kind'', VString (if rKind e = [] then ''runtime'' else rKind e)),
      (''message'', VString (errMsg d e)),
      (''file'', VString (File (rPos e))),
      (''line'', VInt (word_of_int (Line (rPos e)))),
      (''col'', VInt (word_of_int (Col (rPos e))))]"

text \<open>Position of the last field of a name, as the loop of \<open>stampThrowSite\<close> leaves it; the location fields
  read as strings or ints give the zero of Go's struct fields for other kinds.\<close>

fun lastFieldIdx :: "string \<Rightarrow> (string \<times> Value) list \<Rightarrow> nat option" where
  "lastFieldIdx n [] = None"
| "lastFieldIdx n (f # fs) = (case lastFieldIdx n fs of
     Some i \<Rightarrow> Some (Suc i)
   | None \<Rightarrow> if fst f = n then Some 0 else None)"

fun valStr :: "Value \<Rightarrow> string" where
  "valStr (VString s) = s"
| "valStr _ = []"

fun valInt :: "Value \<Rightarrow> int64" where
  "valInt (VInt n) = n"
| "valInt _ = 0"

definition setFieldAt :: "nat \<Rightarrow> Value \<Rightarrow> (string \<times> Value) list \<Rightarrow> (string \<times> Value) list" where
  "setFieldAt i v fs = fs[i := (fst (fs ! i), v)]"

fun stampThrowSite :: "Value \<Rightarrow> pos \<Rightarrow> Value" where
  "stampThrowSite (VStruct ns n p fs) site =
     (if ns \<noteq> [] \<or> n \<noteq> canonicalErrorStructName then VStruct ns n p fs
      else case (lastFieldIdx ''file'' fs, lastFieldIdx ''line'' fs, lastFieldIdx ''col'' fs) of
        (Some i, Some j, Some k) \<Rightarrow>
          if valStr (snd (fs ! i)) \<noteq> [] \<or> valInt (snd (fs ! j)) \<noteq> 0 \<or> valInt (snd (fs ! k)) \<noteq> 0
          then VStruct ns n p fs
          else VStruct ns n p
            (setFieldAt k (VInt (word_of_int (Col site)))
              (setFieldAt j (VInt (word_of_int (Line site)))
                (setFieldAt i (VString (File site)) fs)))
      | _ \<Rightarrow> VStruct ns n p fs)"
| "stampThrowSite v site = v"

end
