(* ===== verification/Arith.thy ===== *)
theory Arith
  imports Errors
begin

text \<open>
  The operators on values (\<open>internal/interpreter/interpreter.go\<close>): integer arithmetic that raises on
  overflow, floored division and modulo, float arithmetic that raises on a non-finite result, bitwise
  operators and shifts, comparisons, and the unary operators.
\<close>

unbundle bit_operations_syntax

section \<open>Integer arithmetic\<close>

text \<open>The result and whether it overflowed.\<close>

definition addOverflow :: "int64 \<Rightarrow> int64 \<Rightarrow> int64 \<times> bool" where
  "addOverflow a b = (let s = a + b in
     if (0 <s a \<and> 0 <s b \<and> s <s 0) \<or> (a <s 0 \<and> b <s 0 \<and> 0 \<le>s s) then (0, True) else (s, False))"

definition subOverflow :: "int64 \<Rightarrow> int64 \<Rightarrow> int64 \<times> bool" where
  "subOverflow a b = (let d = a - b in
     if (0 \<le>s a \<and> b <s 0 \<and> d <s 0) \<or> (a <s 0 \<and> 0 <s b \<and> 0 \<le>s d) then (0, True) else (d, False))"

definition mulOverflow :: "int64 \<Rightarrow> int64 \<Rightarrow> int64 \<times> bool" where
  "mulOverflow a b =
     (if a = 0 \<or> b = 0 then (0, False)
      else if (a = minInt64 \<and> b = - 1) \<or> (b = minInt64 \<and> a = - 1) then (0, True)
      else let p = a * b in if go_quot p a \<noteq> b then (0, True) else (p, False))"

definition flooredMod :: "int64 \<Rightarrow> int64 \<Rightarrow> int64" where
  "flooredMod a b = (let r = go_rem a b in if r \<noteq> 0 \<and> (r <s 0) \<noteq> (b <s 0) then r + b else r)"

text \<open>The quotient of the \<open>//\<close> case of \<open>evalArithmetic\<close>.\<close>

definition flooredDiv :: "int64 \<Rightarrow> int64 \<Rightarrow> int64" where
  "flooredDiv a b = (let q = go_quot a b in
     if go_rem a b \<noteq> 0 \<and> (a <s 0) \<noteq> (b <s 0) then q - 1 else q)"

section \<open>Float division\<close>

definition floorDiv :: "float64 \<Rightarrow> float64 \<Rightarrow> float64" where
  "floorDiv a b = (let q = fdiv a b in
     if is_nan q \<or> fle f2p63 q \<or> fle q (fneg f2p63) then q
     else if flt q fzero \<and> \<not> feq q (float_of_int64 (int64_of_float q))
     then float_of_int64 (int64_of_float q - 1)
     else float_of_int64 (int64_of_float q))"

section \<open>The operators\<close>

definition floatOverflowError :: "float64 \<Rightarrow> float64 \<Rightarrow> binop \<Rightarrow> pos \<Rightarrow> err" where
  "floatOverflowError a b op p =
     rtErr ''float overflow: %v %s %v produced a non-finite result'' [AFloat a, AOp op, AFloat b] p"

definition intOverflowError :: "string \<Rightarrow> int64 \<Rightarrow> int64 \<Rightarrow> pos \<Rightarrow> err" where
  "intOverflowError f a b p = rtErr f [AInt (sint a), AInt (sint b)] p"

text \<open>The pure-int switch of \<open>evalArithmetic\<close>; \<open>None\<close> when it falls through to the float section.\<close>

fun intArithmetic :: "binop \<Rightarrow> int64 \<Rightarrow> int64 \<Rightarrow> pos \<Rightarrow> Value result option" where
  "intArithmetic OpAdd a b p = Some (case addOverflow a b of
     (s, ovf) \<Rightarrow> if ovf then Inl (intOverflowError ''integer overflow: %d + %d'' a b p) else Inr (VInt s))"
| "intArithmetic OpSub a b p = Some (case subOverflow a b of
     (s, ovf) \<Rightarrow> if ovf then Inl (intOverflowError ''integer overflow: %d - %d'' a b p) else Inr (VInt s))"
| "intArithmetic OpMul a b p = Some (case mulOverflow a b of
     (s, ovf) \<Rightarrow> if ovf then Inl (intOverflowError ''integer overflow: %d * %d'' a b p) else Inr (VInt s))"
| "intArithmetic OpFloorDiv a b p = Some (
     if b = 0 then Inl (rtMsg ''integer division by zero'' p)
     else if a = minInt64 \<and> b = - 1 then Inl (intOverflowError ''integer overflow: %d // %d'' a b p)
     else Inr (VInt (flooredDiv a b)))"
| "intArithmetic OpMod a b p = Some (
     if b = 0 then Inl (rtMsg ''integer modulo by zero'' p) else Inr (VInt (flooredMod a b)))"
| "intArithmetic _ a b p = None"

fun floatArithmetic :: "binop \<Rightarrow> float64 \<Rightarrow> float64 \<Rightarrow> pos \<Rightarrow> float64 result" where
  "floatArithmetic OpAdd a b p = Inr (fadd a b)"
| "floatArithmetic OpSub a b p = Inr (fsub a b)"
| "floatArithmetic OpMul a b p = Inr (fmul a b)"
| "floatArithmetic OpDiv a b p = (if feq b fzero then Inl (rtMsg ''division by zero'' p) else Inr (fdiv a b))"
| "floatArithmetic OpFloorDiv a b p =
     (if feq b fzero then Inl (rtMsg ''division by zero'' p) else Inr (floorDiv a b))"
| "floatArithmetic OpMod a b p = Inl (rtMsg ''operator % requires int operands, got float'' p)"
| "floatArithmetic op a b p = Inl (rtErr ''unknown binary operator %s'' [AOp op] p)"

definition floatSection :: "binop \<Rightarrow> Value \<Rightarrow> Value \<Rightarrow> pos \<Rightarrow> Value result" where
  "floatSection op lv rv p = (case (AsFloat lv, AsFloat rv) of
     (Some a, Some b) \<Rightarrow> rbind (floatArithmetic op a b p) (\<lambda>r.
        if \<not> feq (fsub r r) fzero then Inl (floatOverflowError a b op p) else Inr (VFloat r))
   | _ \<Rightarrow> Inl (rtErr ''operator %s requires numeric operands, got %s and %s'' [AOp op, AKind (Kind lv), AKind (Kind rv)] p))"

definition evalArithmetic :: "binop \<Rightarrow> Value \<Rightarrow> Value \<Rightarrow> pos \<Rightarrow> Value result" where
  "evalArithmetic op lv rv p = (case (lv, rv) of
     (VString s, VString t) \<Rightarrow> if op = OpAdd then Inr (VString (s @ t)) else floatSection op lv rv p
   | (VInt a, VInt b) \<Rightarrow> (case intArithmetic op a b p of Some r \<Rightarrow> r | None \<Rightarrow> floatSection op lv rv p)
   | _ \<Rightarrow> floatSection op lv rv p)"

definition evalBitOp :: "binop \<Rightarrow> Value \<Rightarrow> Value \<Rightarrow> pos \<Rightarrow> Value result" where
  "evalBitOp op lv rv p = (case (lv, rv) of
     (VInt a, VInt b) \<Rightarrow> (case op of
        OpBitAnd \<Rightarrow> Inr (VInt (a AND b))
      | OpBitOr \<Rightarrow> Inr (VInt (a OR b))
      | OpBitXor \<Rightarrow> Inr (VInt (a XOR b))
      | _ \<Rightarrow>
        if op = OpShl \<or> op = OpShr then
          (if b <s 0 then Inl (rtErr ''shift count must be non-negative, got %d'' [AInt (sint b)] p)
           else if 64 \<le>s b then Inr (VInt (if op = OpShl then 0 else if a <s 0 then - 1 else 0))
           else if op = OpShl then Inr (VInt (push_bit (unat b) a))
           else Inr (VInt (signed_drop_bit (unat b) a)))
        else Inl (rtErr ''unknown bitwise operator %s'' [AOp op] p))
   | _ \<Rightarrow> Inl (rtErr ''operator %s requires int operands, got %s and %s'' [AOp op, AKind (Kind lv), AKind (Kind rv)] p))"

text \<open>Go's \<open><\<close> on strings: lexicographic by bytes.\<close>

fun strLess :: "string \<Rightarrow> string \<Rightarrow> bool" where
  "strLess [] [] \<longleftrightarrow> False"
| "strLess [] (_ # _) \<longleftrightarrow> True"
| "strLess (_ # _) [] \<longleftrightarrow> False"
| "strLess (a # s) (b # t) \<longleftrightarrow>
     (if (of_char a :: nat) = of_char b then strLess s t else (of_char a :: nat) < of_char b)"

fun orderResult :: "binop \<Rightarrow> int \<Rightarrow> pos \<Rightarrow> Value result" where
  "orderResult OpLt s p = Inr (VBool (s < 0))"
| "orderResult OpGt s p = Inr (VBool (s > 0))"
| "orderResult OpLe s p = Inr (VBool (s \<le> 0))"
| "orderResult OpGe s p = Inr (VBool (s \<ge> 0))"
| "orderResult op s p = Inl (rtErr ''unknown comparison %s'' [AOp op] p)"

definition floatSign :: "float64 \<Rightarrow> float64 \<Rightarrow> int" where
  "floatSign a b = (if flt a b then - 1 else if flt b a then 1 else 0)"

text \<open>The four ordering operators over a pair of tests \<open>lt\<close> and \<open>le\<close>.\<close>

fun orderBy :: "('a \<Rightarrow> 'a \<Rightarrow> bool) \<Rightarrow> ('a \<Rightarrow> 'a \<Rightarrow> bool) \<Rightarrow> binop \<Rightarrow> 'a \<Rightarrow> 'a \<Rightarrow> bool option" where
  "orderBy lt le OpLt a b = Some (lt a b)"
| "orderBy lt le OpGt a b = Some (lt b a)"
| "orderBy lt le OpLe a b = Some (le a b)"
| "orderBy lt le OpGe a b = Some (le b a)"
| "orderBy lt le _ a b = None"

definition orderRest :: "binop \<Rightarrow> Value \<Rightarrow> Value \<Rightarrow> pos \<Rightarrow> Value result" where
  "orderRest op lv rv p =
     (if \<not> isNumeric lv \<or> \<not> isNumeric rv
      then Inl (rtErr ''operator %s needs two numbers or two strings, got %s and %s'' [AOp op, AKind (Kind lv), AKind (Kind rv)] p)
      else orderResult op (floatSign (the (AsFloat lv)) (the (AsFloat rv))) p)"

definition orderBool :: "bool option \<Rightarrow> binop \<Rightarrow> Value \<Rightarrow> Value \<Rightarrow> pos \<Rightarrow> Value result" where
  "orderBool r op lv rv p = (case r of Some b \<Rightarrow> Inr (VBool b) | None \<Rightarrow> orderRest op lv rv p)"

definition evalComparison :: "(nat \<Rightarrow> nat \<Rightarrow> bool) \<Rightarrow> binop \<Rightarrow> Value \<Rightarrow> Value \<Rightarrow> pos \<Rightarrow> Value result" where
  "evalComparison N op lv rv p =
     (if op = OpEq then Inr (VBool (Equal N lv rv))
      else if op = OpNeq then Inr (VBool (\<not> Equal N lv rv))
      else case (lv, rv) of
        (VInt a, VInt b) \<Rightarrow> orderBool (orderBy (\<lambda>x y. x <s y) (\<lambda>x y. x \<le>s y) op a b) op lv rv p
      | (VFloat a, VFloat b) \<Rightarrow> orderBool (orderBy flt fle op a b) op lv rv p
      | (VInt a, VFloat b) \<Rightarrow> if is_nan b then Inr (VBool False) else orderResult op (compareIntFloat a b) p
      | (VFloat a, VInt b) \<Rightarrow> if is_nan a then Inr (VBool False) else orderResult op (- compareIntFloat b a) p
      | (VString s, VString t) \<Rightarrow> orderBool (orderBy strLess (\<lambda>x y. \<not> strLess y x) op s t) op lv rv p
      | _ \<Rightarrow> orderRest op lv rv p)"

text \<open>The operator switch of \<open>evalUnary\<close> on the evaluated operand.\<close>

fun unaryOp :: "unop \<Rightarrow> Value \<Rightarrow> pos \<Rightarrow> Value result" where
  "unaryOp OpNeg v p = (case v of
     VInt n \<Rightarrow> if n = minInt64 then Inl (rtErr ''integer overflow: -(%d)'' [AInt (sint n)] p) else Inr (VInt (- n))
   | VFloat f \<Rightarrow> Inr (VFloat (fneg f))
   | _ \<Rightarrow> Inl (rtErr ''unary `-` requires int or float, got %s'' [AKind (Kind v)] p))"
| "unaryOp OpNot v p = (case v of
     VBool b \<Rightarrow> Inr (VBool (\<not> b))
   | _ \<Rightarrow> Inl (rtErr ''unary `not` requires bool, got %s'' [AKind (Kind v)] p))"
| "unaryOp OpBitNot v p = (case v of
     VInt n \<Rightarrow> Inr (VInt (NOT n))
   | _ \<Rightarrow> Inl (rtErr ''unary `~` requires int, got %s'' [AKind (Kind v)] p))"

text \<open>The operator dispatch of \<open>evalBinary\<close> on the evaluated operands.\<close>

definition binaryOp :: "(nat \<Rightarrow> nat \<Rightarrow> bool) \<Rightarrow> binop \<Rightarrow> Value \<Rightarrow> Value \<Rightarrow> pos \<Rightarrow> Value result" where
  "binaryOp N op lv rv p =
     (if IsComparison op then evalComparison N op lv rv p
      else if isBitOp op then evalBitOp op lv rv p
      else evalArithmetic op lv rv p)"

section \<open>Integer arithmetic is exact or raises\<close>

lemma addOverflow_exact:
  "addOverflow a b = (if in_int64 (sint a + sint b) then (word_of_int (sint a + sint b), False) else (0, True))"
  unfolding addOverflow_def Let_def word_sless_alt word_sle_eq sint_add_if64 in_int64_def
  using sint64_lower [of a] sint64_upper [of a] sint64_lower [of b] sint64_upper [of b] by auto

lemma subOverflow_exact:
  "subOverflow a b = (if in_int64 (sint a - sint b) then (word_of_int (sint a - sint b), False) else (0, True))"
  unfolding subOverflow_def Let_def word_sless_alt word_sle_eq sint_sub_if64 in_int64_def
  using sint64_lower [of a] sint64_upper [of a] sint64_lower [of b] sint64_upper [of b] by auto

lemma sdiv_mult_cancel_left: "(a :: int) \<noteq> 0 \<Longrightarrow> (a * b) sdiv a = b"
  by (simp add: signed_divide_int_def sgn_mult abs_mult) (simp add: sgn_if)

lemma smod_abs: "(b :: int) \<noteq> 0 \<Longrightarrow> \<bar>a smod b\<bar> < \<bar>b\<bar>"
  by (simp add: signed_modulo_int_def abs_mult sgn_if)

lemma sdiv_remainder: "(b :: int) \<noteq> 0 \<Longrightarrow> \<bar>a - (a sdiv b) * b\<bar> < \<bar>b\<bar>"
  by (simp add: minus_sdiv_mult_eq_smod smod_abs)

lemma mulOverflow_exact:
  "mulOverflow a b = (if in_int64 (sint a * sint b) then (word_of_int (sint a * sint b), False) else (0, True))"
proof (cases "a = 0 \<or> b = 0")
  case False
  then have nz: "sint a \<noteq> 0" "sint b \<noteq> 0" by (metis sint64_inject sint_0)+
  let ?p = "a * b"
  obtain k where k: "sint ?p = sint a * sint b + k * 2 ^ 64"
    using sint_wrap64 [of "sint a * sint b"] unfolding word64_arith_sint(3) by blast
  have min: "\<not> in_int64 (sint a * sint b)" if "a = minInt64 \<and> b = - 1 \<or> b = minInt64 \<and> a = - 1"
    using that by (auto simp: in_int64_def)
  have "go_quot ?p a = b \<longleftrightarrow> in_int64 (sint a * sint b)" if nm: "\<not> (a = minInt64 \<and> b = - 1 \<or> b = minInt64 \<and> a = - 1)"
  proof
    assume "in_int64 (sint a * sint b)"
    then have "sint ?p = sint a * sint b" unfolding word64_arith_sint(3) by (rule sint_word_of_int64)
    then show "go_quot ?p a = b" using nz by (simp add: go_quot_def sdiv_mult_cancel_left)
  next
    assume q: "go_quot ?p a = b"
    have "\<not> (sint ?p = - (2 ^ 63) \<and> sint a = - 1)"
    proof
      assume m: "sint ?p = - (2 ^ 63) \<and> sint a = - 1"
      then have "a = - 1" by (metis sint64_inject sint_n1)
      moreover have "?p = minInt64" using m by (simp flip: sint64_inject)
      ultimately have "b = - minInt64" by (metis minus_minus mult_minus1)
      also have "- minInt64 = minInt64" by (simp add: minInt64_def)
      finally show False using nm \<open>a = - 1\<close> by simp
    qed
    then have "sint b = sint ?p sdiv sint a"
      using q in_int64_sdiv [of ?p a] by (metis go_quot_def sint_word_of_int64)
    then have "\<bar>sint ?p - sint b * sint a\<bar> < \<bar>sint a\<bar>" using sdiv_remainder [OF nz(1), of "sint ?p"] by simp
    then have "\<bar>k * 2 ^ 64\<bar> < 2 ^ 64" unfolding k using sint64_lower [of a] sint64_upper [of a] by (simp add: mult.commute)
    then have "k = 0" by (simp add: abs_mult)
    then show "in_int64 (sint a * sint b)" using k in_int64_sint [of ?p] by simp
  qed
  then show ?thesis using False min by (auto simp: mulOverflow_def Let_def)
qed (auto simp: mulOverflow_def in_int64_def)

section \<open>Floored division\<close>

lemma sint_nonzero: "(b :: int64) \<noteq> 0 \<Longrightarrow> sint b \<noteq> 0"
  by (metis sint64_inject sint_0)

lemma in_int64_smod: "in_int64 (sint (a :: int64) smod sint (b :: int64))"
proof -
  have "\<bar>sint a smod sint b\<bar> \<le> \<bar>sint a\<bar>"
    by (cases "sint b = 0") (simp_all add: signed_modulo_int_def abs_mult sgn_if zmod_le_nonneg_dividend)
  moreover have "sint a smod sint b \<le> 0" if "sint a < 0"
    using that by (cases "sint b = 0") (simp_all add: signed_modulo_int_def sgn_if)
  ultimately show ?thesis using sint64_lower [of a] sint64_upper [of a]
    by (cases "sint a < 0") (simp_all add: in_int64_def abs_le_iff)
qed

lemma sint_go_rem: "sint (go_rem a b) = sint a smod sint b"
  by (simp add: go_rem_def sint_word_of_int64 in_int64_smod)

lemma go_rem_0: "go_rem a b = 0 \<longleftrightarrow> sint a smod sint b = 0"
  by (metis sint_go_rem sint_0 sint64_inject)

lemma smod_sign: "a smod b \<noteq> 0 \<Longrightarrow> ((a smod b :: int) < 0) = (a < 0)"
  by (cases "b = 0") (auto simp: signed_modulo_int_def sgn_if mult_less_0_iff not_less split: if_splits
      intro: order_antisym)

lemma smod_floor:
  fixes a b :: int
  assumes "b \<noteq> 0"
  defines "adj \<equiv> a smod b \<noteq> 0 \<and> (a smod b < 0) \<noteq> (b < 0)"
  shows "a mod b = (if adj then a smod b + b else a smod b)"
    and "a div b = (if adj then a sdiv b - 1 else a sdiv b)"
proof -
  let ?s = "if adj then a smod b + b else a smod b"
  let ?q = "if adj then a sdiv b - 1 else a sdiv b"
  have e: "a = b * ?q + ?s" using mult_sdiv_smod_eq [of b a] by (simp add: algebra_simps)
  have bound: "if 0 < b then 0 \<le> ?s \<and> ?s < b else ?s \<le> 0 \<and> b < ?s"
    using smod_abs [OF assms(1), of a] assms by (auto simp: adj_def)
  show "a mod b = ?s" using int_mod_pos_eq [OF e] int_mod_neg_eq [OF e] bound by (auto split: if_splits)
  show "a div b = ?q" using int_div_pos_eq [OF e] int_div_neg_eq [OF e] bound by (auto split: if_splits)
qed

lemma in_int64_mod:
  assumes "b \<noteq> 0"
  shows "in_int64 (sint (a :: int64) mod sint (b :: int64))"
proof (cases "sint b < 0")
  case True
  then have "sint a mod sint b \<le> 0" "sint b < sint a mod sint b"
    by (rule neg_mod_sign, intro neg_mod_bound)
  then show ?thesis using sint64_lower [of b] unfolding in_int64_def by simp
next
  case False
  then have "0 < sint b" using sint_nonzero [OF assms] by simp
  then have "0 \<le> sint a mod sint b" "sint a mod sint b < sint b" by simp_all
  then show ?thesis using sint64_upper [of b] unfolding in_int64_def by simp
qed

lemma flooredMod_floor:
  assumes "b \<noteq> 0"
  shows "sint (flooredMod a b) = sint a mod sint b"
proof -
  have "flooredMod a b = word_of_int (sint a mod sint b)"
    unfolding smod_floor(1) [OF sint_nonzero [OF assms]] flooredMod_def Let_def go_rem_0 word_sless_alt sint_go_rem
    by (simp add: word64_arith_sint(1) sint_go_rem go_rem_def del: of_int_add) simp
  then show ?thesis by (simp add: sint_word_of_int64 in_int64_mod [OF assms])
qed

lemma div_pos_bounds:
  fixes c d :: int
  assumes "0 < d"
  shows "0 \<le> c \<Longrightarrow> 0 \<le> c div d \<and> c div d \<le> c" and "c < 0 \<Longrightarrow> c \<le> c div d \<and> c div d < 0"
proof -
  show "0 \<le> c div d \<and> c div d \<le> c" if "0 \<le> c"
    using that assms zdiv_mono2 [of c 1 d] by (simp add: pos_imp_zdiv_nonneg_iff)
  show "c \<le> c div d \<and> c div d < 0" if "c < 0"
  proof -
    have "c * d \<le> c * 1" using that assms by (intro mult_left_mono_neg) auto
    then have "(c * d) div d \<le> c div d" using assms by (intro zdiv_mono1) auto
    then show ?thesis using that assms by (simp add: neg_imp_zdiv_neg_iff pos_imp_zdiv_neg_iff)
  qed
qed

lemma in_int64_div:
  fixes a b :: int64
  assumes "b \<noteq> 0" "\<not> (a = minInt64 \<and> b = - 1)"
  shows "in_int64 (sint a div sint b)"
proof (cases "0 < sint b")
  case True
  then show ?thesis using div_pos_bounds [of "sint b" "sint a"] sint64_lower [of a] sint64_upper [of a]
    by (cases "0 \<le> sint a") (simp_all add: in_int64_def)
next
  case False
  then have d: "0 < - sint b" using sint_nonzero [OF assms(1)] by simp
  have eq: "sint a div sint b = (- sint a) div (- sint b)" by simp
  have "(- sint a) div (- sint b) < 2 ^ 63"
  proof (cases "- sint b = 1")
    case True
    then have "b = - 1" by (metis minus_equation_iff sint64_inject sint_n1)
    then have "sint a \<noteq> - (2 ^ 63)" using assms(2) by (metis sint64_inject sint_minInt64)
    then show ?thesis using True sint64_lower [of a] by simp
  next
    case b: False
    then show ?thesis
    proof (cases "0 < - sint a")
      case True
      then show ?thesis using b d int_div_less_self [of "- sint a" "- sint b"] sint64_lower [of a] by simp
    qed (use div_pos_bounds(2) [OF d, of "- sint a"] in \<open>cases "sint a = 0"; simp\<close>)
  qed
  then show ?thesis using div_pos_bounds [OF d, of "- sint a"] sint64_upper [of a]
    unfolding eq in_int64_def by (cases "0 \<le> - sint a") simp_all
qed

lemma flooredDiv_floor:
  assumes "b \<noteq> 0" "\<not> (a = minInt64 \<and> b = - 1)"
  shows "sint (flooredDiv a b) = sint a div sint b"
proof -
  have q: "sint (go_quot a b) = sint a sdiv sint b"
    using assms(2) in_int64_sdiv [of a b] by (metis go_quot_def sint64_inject sint_minInt64 sint_n1 sint_word_of_int64)
  have "flooredDiv a b = word_of_int (sint a div sint b)"
    unfolding smod_floor(2) [OF sint_nonzero [OF assms(1)]] flooredDiv_def Let_def go_rem_0 word_sless_alt
    using smod_sign [of "sint a" "sint b"] by (auto simp: q [symmetric])
  then show ?thesis by (simp add: sint_word_of_int64 in_int64_div [OF assms])
qed

text \<open>The int cases of \<open>evalArithmetic\<close> against the integers.\<close>

lemma int_add_exact:
  "evalArithmetic OpAdd (VInt a) (VInt b) p =
     (if in_int64 (sint a + sint b) then Inr (VInt (word_of_int (sint a + sint b)))
      else Inl (intOverflowError ''integer overflow: %d + %d'' a b p))"
  by (simp add: evalArithmetic_def addOverflow_exact)

lemma int_sub_exact:
  "evalArithmetic OpSub (VInt a) (VInt b) p =
     (if in_int64 (sint a - sint b) then Inr (VInt (word_of_int (sint a - sint b)))
      else Inl (intOverflowError ''integer overflow: %d - %d'' a b p))"
  by (simp add: evalArithmetic_def subOverflow_exact)

lemma int_mul_exact:
  "evalArithmetic OpMul (VInt a) (VInt b) p =
     (if in_int64 (sint a * sint b) then Inr (VInt (word_of_int (sint a * sint b)))
      else Inl (intOverflowError ''integer overflow: %d * %d'' a b p))"
  by (simp add: evalArithmetic_def mulOverflow_exact)

lemma in_int64_div_iff:
  fixes a b :: int64
  assumes "b \<noteq> 0"
  shows "in_int64 (sint a div sint b) \<longleftrightarrow> \<not> (a = minInt64 \<and> b = - 1)"
proof (cases "a = minInt64 \<and> b = - 1")
  case True
  then show ?thesis by (simp add: in_int64_def)
next
  case False
  then show ?thesis using assms flooredDiv_floor [of b a] in_int64_sint [of "flooredDiv a b"] by simp
qed

lemma int_div_exact:
  "evalArithmetic OpFloorDiv (VInt a) (VInt b) p =
     (if b = 0 then Inl (rtMsg ''integer division by zero'' p)
      else if in_int64 (sint a div sint b) then Inr (VInt (word_of_int (sint a div sint b)))
      else Inl (intOverflowError ''integer overflow: %d // %d'' a b p))"
proof -
  have "flooredDiv a b = word_of_int (sint a div sint b)" if "b \<noteq> 0" "\<not> (a = minInt64 \<and> b = - 1)"
    using arg_cong [OF flooredDiv_floor [OF that], of "word_of_int :: int \<Rightarrow> int64"] by simp
  then show ?thesis by (simp add: evalArithmetic_def in_int64_div_iff)
qed

lemma int_mod_exact:
  "evalArithmetic OpMod (VInt a) (VInt b) p =
     (if b = 0 then Inl (rtMsg ''integer modulo by zero'' p)
      else Inr (VInt (word_of_int (sint a mod sint b))))"
proof -
  have "flooredMod a b = word_of_int (sint a mod sint b)" if "b \<noteq> 0"
    using arg_cong [OF flooredMod_floor [OF that], of "word_of_int :: int \<Rightarrow> int64"] by simp
  then show ?thesis by (simp add: evalArithmetic_def)
qed

end
