(* ===== verification/Ast.thy ===== *)
theory Ast
  imports Arith
begin

text \<open>
  The syntax tree the interpreter walks (\<open>internal/parser/ast.go\<close>): expressions, statements, blocks,
  methods, structs and enums, with the annotations the resolver leaves on them (slots, folded
  constants, borrow and move marks). Every node carries its source position first. A \<open>nil\<close> child is
  \<open>None\<close>; a pointer to a method is its name.
\<close>

datatype expr =
    IntLit pos int64
  | FloatLit pos float64
  | StringLit pos string
  | InterpStringExpr pos "(string + expr) list"
  | BoolLit pos bool
  | NullLit pos
  | ListLit pos "expr list"
  | MapLit pos "(expr \<times> expr) list"
  | IndexExpr pos expr expr
  | RangeExpr pos expr expr
  | SliceExpr pos expr "expr option" "expr option"
  | StructLit pos (slNS: string) (slEnum: string) (slName: string) bool "(string \<times> pos \<times> expr) list"
  | FieldAccessExpr pos expr string
  | VarExpr pos string int int bool
  | ConstRefExpr pos string int int
  | CallExpr pos string "expr list" "string option" nat "bool list"
  | CallValueExpr pos expr "expr list" "bool list"
  | LenExpr pos expr
  | SpawnExpr pos "stmt list"
  | QualifiedCallExpr pos string string "expr list" nat "bool list"
  | QualifiedConstRefExpr pos string string
  | UnaryExpr pos unop expr "expr option"
  | BinaryExpr pos binop expr expr "expr option"
  | PreEval pos Value
and stmt =
    DefineStmt pos bool string ty "expr option" int bool
  | AssignStmt pos string expr int int
  | IndexAssignStmt pos expr expr
  | AppendStmt pos expr expr
  | FieldAssignStmt pos expr expr
  | IfStmt pos expr block "(expr \<times> block) list" "block option"
  | MatchStmt pos expr "matchArm list" "block option" "ty option"
  | WhileStmt pos expr block
  | ForStmt pos "stmt option" "expr option" "stmt option" block nat
  | ForEachStmt pos string expr block int
  | ReturnStmt pos "expr option"
  | BreakStmt pos
  | ContinueStmt pos
  | RepeatStmt pos block expr
  | ExitStmt pos "expr option"
  | TryStmt pos block string block pos int
  | ThrowStmt pos expr
  | DeferStmt pos expr bool
  | ExprStmt pos expr
and block = Block (blockPos: pos) (Stmts: "stmt list") (NumSlots: nat)
and matchArm = MatchArm pos "expr list" block (armVariant: string) (armBind: string) (BindSlot: int)

record param =
  pName :: string
  pType :: ty
  pPos :: pos
  pBorrow :: bool

record structField =
  fName :: string
  fType :: ty
  fPos :: pos

record structDef =
  sPos :: pos
  sName :: string
  sFields :: "structField list"
  sExported :: bool

record enumVariant =
  evName :: string
  evFields :: "structField list"
  evPos :: pos

record enumDef =
  edPos :: pos
  edName :: string
  edVariants :: "enumVariant list"
  edExported :: bool

record methodDef =
  mPos :: pos
  mName :: string
  mParams :: "param list"
  mBody :: block
  mGlobalSafe :: bool
  mReturnsOwned :: bool
  mExported :: bool

record importStmt =
  iPos :: pos
  iName :: string
  iAsName :: string

record moduleImportStmt =
  miPos :: pos
  miPath :: string
  miAsName :: string

text \<open>What the validation of a deferred enum match reads of the match: its position and type, the position, variant and
  binder of each arm, and whether there is an \<open>else\<close>.\<close>

record pendingMatch =
  pmPos :: pos
  pmType :: ty
  pmArms :: "(pos \<times> string \<times> string) list"
  pmElse :: bool

text \<open>A program. The flag beside a top-level statement is its \<open>export\<close> marker.\<close>

record program =
  Imports :: "importStmt list"
  ModuleImports :: "moduleImportStmt list"
  Methods :: "methodDef list"
  Structs :: "structDef list"
  Enums :: "enumDef list"
  TopLevel :: "(bool \<times> stmt) list"
  NumGlobals :: nat
  PendingEnumMatches :: "pendingMatch list"

text \<open>\<open>posFor\<close> of a node.\<close>

fun exprPos :: "expr \<Rightarrow> pos" where
  "exprPos (IntLit p _) = p"
| "exprPos (FloatLit p _) = p"
| "exprPos (StringLit p _) = p"
| "exprPos (InterpStringExpr p _) = p"
| "exprPos (BoolLit p _) = p"
| "exprPos (NullLit p) = p"
| "exprPos (ListLit p _) = p"
| "exprPos (MapLit p _) = p"
| "exprPos (IndexExpr p _ _) = p"
| "exprPos (RangeExpr p _ _) = p"
| "exprPos (SliceExpr p _ _ _) = p"
| "exprPos (StructLit p _ _ _ _ _) = p"
| "exprPos (FieldAccessExpr p _ _) = p"
| "exprPos (VarExpr p _ _ _ _) = p"
| "exprPos (ConstRefExpr p _ _ _) = p"
| "exprPos (CallExpr p _ _ _ _ _) = p"
| "exprPos (CallValueExpr p _ _ _) = p"
| "exprPos (LenExpr p _) = p"
| "exprPos (SpawnExpr p _) = p"
| "exprPos (QualifiedCallExpr p _ _ _ _ _) = p"
| "exprPos (QualifiedConstRefExpr p _ _) = p"
| "exprPos (UnaryExpr p _ _ _) = p"
| "exprPos (BinaryExpr p _ _ _ _) = p"
| "exprPos (PreEval p _) = p"

end
