(* ===== verification/Lvalue.thy ===== *)
theory Lvalue
  imports Ast
begin

text \<open>
  Reads and writes inside a value (\<open>internal/interpreter/interpreter.go\<close>): \<open>indexInto\<close>, \<open>writeIndexedSlot\<close>,
  \<open>appendInto\<close> and the walk of a chained l-value \<open>$p.items[i].name\<close>. A Go pointer into the structure is
  the position of the child; writing through it is \<open>setChild\<close>. Writes check the declared inner types
  and stamp what they store. \<open>N\<close> is the equality of native payloads and \<open>d\<close> renders values in messages.
\<close>

type_synonym structLookup = "string \<Rightarrow> string \<Rightarrow> string \<Rightarrow> structDef option"

section \<open>Indexing\<close>

definition indexListPos :: "nat \<Rightarrow> Value \<Rightarrow> pos \<Rightarrow> nat result" where
  "indexListPos len idx p = (case idx of
     VInt n \<Rightarrow>
       if n <s 0 \<or> sint n \<ge> int len
       then Inl (rtErr ''list index %d out of bounds (len %d)'' [AInt (sint n), AInt (int len)] p)
       else Inr (nat (sint n))
   | _ \<Rightarrow> Inl (rtErr ''list index must be int, got %s'' [AKind (Kind idx)] p))"

text \<open>The position \<open>indexInto\<close> points at.\<close>

definition indexPos :: "(nat \<Rightarrow> nat \<Rightarrow> bool) \<Rightarrow> displayer \<Rightarrow> Value \<Rightarrow> Value \<Rightarrow> pos \<Rightarrow> nat result" where
  "indexPos N d parent idx p = (case parent of
     VList xs _ \<Rightarrow> indexListPos (length xs) idx p
   | VMap es _ _ mi \<Rightarrow> (case LookupKey N es mi idx of
        Some i \<Rightarrow> Inr i
      | None \<Rightarrow> Inl (rtErr ''map has no entry for key %s'' [AStr (Display d idx)] p))
   | _ \<Rightarrow> Inl (rtErr ''cannot index into %s'' [AKind (Kind parent)] p))"

fun childAt :: "Value \<Rightarrow> nat \<Rightarrow> Value" where
  "childAt (VList xs _) i = xs ! i"
| "childAt (VMap es _ _ _) i = snd (es ! i)"
| "childAt (VStruct _ _ _ fs) i = snd (fs ! i)"
| "childAt v i = v"

fun setChild :: "Value \<Rightarrow> nat \<Rightarrow> Value \<Rightarrow> Value" where
  "setChild (VList xs t) i c = VList (xs[i := c]) t"
| "setChild (VMap es kt vt mi) i c = VMap (es[i := (fst (es ! i), c)]) kt vt mi"
| "setChild (VStruct ns n p fs) i c = VStruct ns n p (setFieldAt i c fs)"
| "setChild v i c = v"

definition indexInto :: "(nat \<Rightarrow> nat \<Rightarrow> bool) \<Rightarrow> displayer \<Rightarrow> Value \<Rightarrow> Value \<Rightarrow> pos \<Rightarrow> Value result" where
  "indexInto N d parent idx p = rbind (indexPos N d parent idx p) (\<lambda>i. Inr (childAt parent i))"

definition readByteAt :: "8 word list \<Rightarrow> Value \<Rightarrow> pos \<Rightarrow> Value result" where
  "readByteAt bs idx p = (case idx of
     VInt n \<Rightarrow>
       if n <s 0 \<or> sint n \<ge> int (length bs)
       then Inl (rtErr ''bytes index %d out of bounds (len %d)'' [AInt (sint n), AInt (int (length bs))] p)
       else Inr (VInt (ucast (bs ! nat (sint n))))
   | _ \<Rightarrow> Inl (rtErr ''bytes index must be int, got %s'' [AKind (Kind idx)] p))"

text \<open>\<open>evalIndex\<close> on the evaluated target and index.\<close>

definition indexValue :: "(nat \<Rightarrow> nat \<Rightarrow> bool) \<Rightarrow> displayer \<Rightarrow> Value \<Rightarrow> Value \<Rightarrow> pos \<Rightarrow> Value result" where
  "indexValue N d parent idx p = (case parent of
     VObject ns n _ \<Rightarrow> Inl (rtErr ''a %s.%s is opaque - cannot index with `[ ]`; use %s.get with a JSON pointer'' [AStr ns, AStr n, AStr ns] p)
   | VBytes bs \<Rightarrow> readByteAt bs idx p
   | _ \<Rightarrow> indexInto N d parent idx p)"

fun fieldPos :: "string \<Rightarrow> (string \<times> Value) list \<Rightarrow> nat option" where
  "fieldPos n [] = None"
| "fieldPos n (f # fs) = (if fst f = n then Some 0 else map_option Suc (fieldPos n fs))"

section \<open>Writes\<close>

text \<open>A copy stamped with the declared type of the place it goes to, when there is one.\<close>

definition storedValue :: "handles \<Rightarrow> ty option \<Rightarrow> Value \<Rightarrow> Value \<times> handles" where
  "storedValue het t v = (case t of None \<Rightarrow> (DeepCopy v, het) | Some t \<Rightarrow> stampDeclaredType het (DeepCopy v) t)"

definition matchesOpt :: "handles \<Rightarrow> Value \<Rightarrow> ty option \<Rightarrow> bool" where
  "matchesOpt het v t = (case t of None \<Rightarrow> True | Some t \<Rightarrow> MatchesDeclared het v t)"

definition byteOf :: "Value \<Rightarrow> pos \<Rightarrow> (8 word) result" where
  "byteOf v p = (case v of
     VInt n \<Rightarrow> if n <s 0 \<or> 255 <s n then Inl (rtErr ''bytes element value %d out of range [0, 255]'' [AInt (sint n)] p)
       else Inr (ucast n)
   | _ \<Rightarrow> Inl (rtErr ''bytes element must be int in [0, 255], got %s'' [AKind (Kind v)] p))"

definition writeIndexedSlot ::
  "(nat \<Rightarrow> nat \<Rightarrow> bool) \<Rightarrow> handles \<Rightarrow> Value \<Rightarrow> Value \<Rightarrow> Value \<Rightarrow> pos \<Rightarrow> (Value \<times> handles) result" where
  "writeIndexedSlot N het parent idx newVal p = (case parent of
     VList xs et \<Rightarrow> rbind (indexListPos (length xs) idx p) (\<lambda>i.
       if \<not> matchesOpt het newVal et
       then Inl (rtErr ''cannot assign %s to list element of declared type %s'' [AKind (Kind newVal), ATy (the et)] p)
       else case storedValue het et newVal of (v, het') \<Rightarrow> Inr (VList (xs[i := v]) et, het'))
   | VMap es kt vt mi \<Rightarrow>
       if \<not> matchesOpt het idx kt
       then Inl (rtErr ''map key must be %s, got %s'' [ATy (the kt), AKind (Kind idx)] p)
       else if \<not> matchesOpt het newVal vt
       then Inl (rtErr ''cannot assign %s to map value of declared type %s'' [AKind (Kind newVal), ATy (the vt)] p)
       else (case storedValue het vt newVal of (v, het') \<Rightarrow>
         (case upsertAs N es mi idx (DeepCopy idx) v of (es', mi') \<Rightarrow> Inr (VMap es' kt vt mi', het')))
   | VBytes bs \<Rightarrow> (case idx of
        VInt n \<Rightarrow>
          if n <s 0 \<or> sint n \<ge> int (length bs)
          then Inl (rtErr ''bytes index %d out of bounds (len %d)'' [AInt (sint n), AInt (int (length bs))] p)
          else rbind (byteOf newVal p) (\<lambda>b. Inr (VBytes (bs[nat (sint n) := b]), het))
      | _ \<Rightarrow> Inl (rtErr ''bytes index must be int, got %s'' [AKind (Kind idx)] p))
   | _ \<Rightarrow> Inl (rtErr ''cannot index-assign into %s'' [AKind (Kind parent)] p))"

definition appendInto :: "handles \<Rightarrow> Value \<Rightarrow> Value \<Rightarrow> pos \<Rightarrow> (Value \<times> handles) result" where
  "appendInto het container newVal p = (case container of
     VBytes bs \<Rightarrow> rbind (byteOf newVal p) (\<lambda>b. Inr (VBytes (bs @ [b]), het))
   | VList xs et \<Rightarrow>
       if \<not> matchesOpt het newVal et
       then Inl (rtErr ''cannot append %s to list of declared element type %s'' [AKind (Kind newVal), ATy (the et)] p)
       else (case storedValue het et newVal of (v, het') \<Rightarrow> Inr (VList (xs @ [v]) et, het'))
   | _ \<Rightarrow> Inl (rtErr ''append `[] = ...` requires a list or bytes, got %s'' [AKind (Kind container)] p))"

section \<open>L-value chains\<close>

datatype lvalueStep = FieldStep string pos | IndexStep Value pos

text \<open>The position \<open>lvalueStepInto\<close> descends to.\<close>

fun lvalueStepInto :: "(nat \<Rightarrow> nat \<Rightarrow> bool) \<Rightarrow> displayer \<Rightarrow> Value \<Rightarrow> lvalueStep \<Rightarrow> nat result" where
  "lvalueStepInto N d parent (FieldStep f p) = (case parent of
     VStruct _ n _ fs \<Rightarrow> (case fieldPos f fs of
        Some i \<Rightarrow> Inr i
      | None \<Rightarrow> Inl (rtErr ''struct %q has no field %q'' [AStr n, AStr f] p))
   | _ \<Rightarrow> Inl (rtErr ''field access `.%s` requires a struct, got %s'' [AStr f, AKind (Kind parent)] p))"
| "lvalueStepInto N d parent (IndexStep idx p) = indexPos N d parent idx p"

definition findDecl :: "string \<Rightarrow> structField list \<Rightarrow> structField option" where
  "findDecl f ds = List.find (\<lambda>x. fName x = f) ds"

fun lvalueWriteLeaf ::
  "(nat \<Rightarrow> nat \<Rightarrow> bool) \<Rightarrow> structLookup \<Rightarrow> handles \<Rightarrow> Value \<Rightarrow> lvalueStep \<Rightarrow> Value \<Rightarrow> (Value \<times> handles) result" where
  "lvalueWriteLeaf N look het parent (FieldStep f p) newVal = (case parent of
     VStruct ns n mp fs \<Rightarrow> (case look ns n mp of
        None \<Rightarrow> Inl (rtErr ''internal: struct %q definition missing at assignment'' [AStr n] p)
      | Some def \<Rightarrow> (case findDecl f (sFields def) of
          None \<Rightarrow> Inl (rtErr ''struct %q has no field %q'' [AStr n, AStr f] p)
        | Some decl \<Rightarrow>
            if \<not> MatchesDeclared het newVal (fType decl)
            then Inl (rtErr ''field %q of struct %q expects %s, got %s''
              [AStr (fName decl), AStr n, ATy (fType decl), AStr (valueTypeLabel newVal)] p)
            else (case stampDeclaredType het (DeepCopy newVal) (fType decl) of (v, het') \<Rightarrow>
              (case fieldPos (fName decl) fs of
                 Some i \<Rightarrow> Inr (VStruct ns n mp (setFieldAt i v fs), het')
               | None \<Rightarrow> Inr (VStruct ns n mp (fs @ [(fName decl, v)]), het')))))
   | _ \<Rightarrow> Inl (rtErr ''field access `.%s` requires a struct, got %s'' [AStr f, AKind (Kind parent)] p))"
| "lvalueWriteLeaf N look het parent (IndexStep idx p) newVal = writeIndexedSlot N het parent idx newVal p"

text \<open>Descending through all steps and changing the value the last one points at.\<close>

fun walkInto ::
  "(nat \<Rightarrow> nat \<Rightarrow> bool) \<Rightarrow> displayer \<Rightarrow> Value \<Rightarrow> lvalueStep list \<Rightarrow> (Value \<Rightarrow> (Value \<times> 'h) result) \<Rightarrow> (Value \<times> 'h) result" where
  "walkInto N d v [] leaf = leaf v"
| "walkInto N d v (st # sts) leaf = rbind (lvalueStepInto N d v st) (\<lambda>i.
     rbind (walkInto N d (childAt v i) sts leaf) (\<lambda>(c, h). Inr (setChild v i c, h)))"

definition applyLvalueWrite ::
  "(nat \<Rightarrow> nat \<Rightarrow> bool) \<Rightarrow> displayer \<Rightarrow> structLookup \<Rightarrow> handles \<Rightarrow> Value \<Rightarrow> lvalueStep list \<Rightarrow> Value \<Rightarrow> pos \<Rightarrow>
    (Value \<times> handles) result" where
  "applyLvalueWrite N d look het rt steps newVal p =
     (if steps = [] then Inl (rtMsg ''internal: lvalue write with no steps'' p)
      else walkInto N d rt (butlast steps) (\<lambda>v. lvalueWriteLeaf N look het v (last steps) newVal))"

text \<open>The variable a chain is rooted on: its name and coordinates.\<close>

fun lvalueRootVar :: "expr \<Rightarrow> (string \<times> int \<times> int) option" where
  "lvalueRootVar (VarExpr _ n d s _) = Some (n, d, s)"
| "lvalueRootVar (IndexExpr _ t _) = lvalueRootVar t"
| "lvalueRootVar (FieldAccessExpr _ t _) = lvalueRootVar t"
| "lvalueRootVar _ = None"

section \<open>Writes keep values coherent and in their type\<close>

lemma indexListPos_bound: "indexListPos len idx p = Inr i \<Longrightarrow> i < len"
  by (cases idx) (auto simp: indexListPos_def word_sless_alt split: if_splits)

lemma LookupKey_bound: "idx_inv es mi \<Longrightarrow> LookupKey N es mi k = Some i \<Longrightarrow> i < length es"
  using scanKey_Some by (simp add: LookupKey_scan)

lemma fieldPos_Some: "fieldPos n fs = Some i \<Longrightarrow> i < length fs \<and> fst (fs ! i) = n"
  by (induction fs arbitrary: i) (auto split: if_splits)

text \<open>Two values of the same kind that record the same inner types, or the same struct.\<close>

fun same_header :: "Value \<Rightarrow> Value \<Rightarrow> bool" where
  "same_header (VList _ t) w \<longleftrightarrow> (case w of VList _ t' \<Rightarrow> t' = t | _ \<Rightarrow> False)"
| "same_header (VMap _ k t _) w \<longleftrightarrow> (case w of VMap _ k' t' _ \<Rightarrow> k' = k \<and> t' = t | _ \<Rightarrow> False)"
| "same_header (VStruct ns n p _) w \<longleftrightarrow> (case w of VStruct ns' n' p' _ \<Rightarrow> ns' = ns \<and> n' = n \<and> p' = p | _ \<Rightarrow> False)"
| "same_header v w \<longleftrightarrow> Kind w = Kind v \<and> Kind v = KindBytes"

lemma same_header_typed:
  assumes "same_header v w" "typed v t" "wf_ty t"
  shows "typed w t"
  using assms by (cases t; cases v) (auto simp: stamped_def split: Value.splits option.splits)

lemma storedValue_sound:
  assumes "storedValue het t v = (w, h)" "matchesOpt het v t" "coherent v" "\<And>u. t = Some u \<Longrightarrow> wf_ty u"
  shows "coherent w" "\<And>u. t = Some u \<Longrightarrow> typed w u"
proof -
  have "coherent w \<and> (\<forall>u. t = Some u \<longrightarrow> typed w u)"
  proof (cases t)
    case None
    then show ?thesis using assms(1,3) by (auto simp: storedValue_def DeepCopy_coherent)
  next
    case (Some u)
    then have "shape (DeepCopy v) u" using assms(2) by (simp add: matchesOpt_def shape_DeepCopy MatchesDeclared_shape)
    then show ?thesis using stamp_sound [of u "DeepCopy v"] assms Some
      by (auto simp: storedValue_def stampDeclaredType_def DeepCopy_coherent)
  qed
  then show "coherent w" "\<And>u. t = Some u \<Longrightarrow> typed w u" by simp_all
qed

lemma list_all_update: "list_all P xs \<Longrightarrow> P v \<Longrightarrow> list_all P (xs[i := v])"
  by (auto simp: list_all_iff dest: set_update_subset_insert [THEN subsetD])

lemma coherent_map_upsert:
  assumes "coherent (VMap es kt vt mi)" "coherent k" "coherent v"
    "\<And>t. kt = Some t \<Longrightarrow> shape k t" "\<And>t. vt = Some t \<Longrightarrow> typed v t" "upsertAs N es mi k (DeepCopy k) v = (es', mi')"
  shows "coherent (VMap es' kt vt mi')"
proof -
  have e: "es' = upsertEntries N es k (DeepCopy k) v" and i: "idx_inv es' mi'"
    using upsertAs_entries [of es mi "DeepCopy k" k N v] assms(1,6) by auto
  define P where "P e \<longleftrightarrow> coherent (fst e) \<and> coherent (snd e) \<and>
    (case kt of None \<Rightarrow> True | Some t \<Rightarrow> shape (fst e) t) \<and> (case vt of None \<Rightarrow> True | Some t \<Rightarrow> typed (snd e) t)" for e :: "Value \<times> Value"
  have P: "coherent (VMap xs kt vt j) \<longleftrightarrow> idx_inv xs j \<and> (case vt of None \<Rightarrow> True | Some t \<Rightarrow> wf_ty t) \<and>
      (case kt of None \<Rightarrow> True | Some t \<Rightarrow> wf_ty t \<and> \<not> is_compound_ty t) \<and> list_all P xs" for xs j
    by (auto simp: P_def list_all_iff split: option.splits)
  have new: "P (x, v)" if "coherent x" "\<And>t. kt = Some t \<Longrightarrow> shape x t" for x
    using that assms by (auto simp: P_def split: option.splits)
  have all: "list_all P es" using assms(1) unfolding P by blast
  have "list_all P es'"
  proof (cases "scanKey N k es")
    case None
    then show ?thesis using all assms(2,4) new [of "DeepCopy k"]
      by (simp add: e upsertEntries_def DeepCopy_coherent shape_DeepCopy)
  next
    case (Some j)
    then have "P (es ! j)" using all scanKey_Some [OF Some] by (simp add: list_all_length)
    then have "coherent (fst (es ! j))" "\<And>t. kt = Some t \<Longrightarrow> shape (fst (es ! j)) t" by (simp_all add: P_def)
    then have "P (fst (es ! j), v)" by (rule new)
    then show ?thesis using all Some by (simp add: e upsertEntries_def list_all_update)
  qed
  then show ?thesis using i assms(1) unfolding P by blast
qed

lemma writeIndexedSlot_sound:
  assumes "writeIndexedSlot N het v idx x p = Inr (w, h)" "coherent v" "coherent idx" "coherent x"
  shows "coherent w \<and> same_header v w"
proof (cases v)
  case (VList xs et)
  then obtain i y where y: "storedValue het et x = (y, h)" "w = VList (xs[i := y]) et" "matchesOpt het x et"
    using assms(1) by (cases "indexListPos (length xs) idx p")
      (auto simp: writeIndexedSlot_def split: if_splits prod.splits)
  have wf: "\<And>u. et = Some u \<Longrightarrow> wf_ty u" using assms(2) VList by simp
  show ?thesis using storedValue_sound [OF y(1,3) assms(4) wf] assms(2)
    by (auto simp: VList y(2) list_all_update split: option.splits)
next
  case (VMap es kt vt mi)
  then obtain y es' mi' where y: "storedValue het vt x = (y, h)" "upsertAs N es mi idx (DeepCopy idx) y = (es', mi')"
    "w = VMap es' kt vt mi'" "matchesOpt het x vt" "matchesOpt het idx kt"
    using assms(1) by (auto simp: writeIndexedSlot_def split: if_splits prod.splits)
  have wf: "\<And>u. vt = Some u \<Longrightarrow> wf_ty u" using assms(2) VMap by (auto split: option.splits)
  have k: "\<And>t. kt = Some t \<Longrightarrow> shape idx t" using y(5) by (simp add: matchesOpt_def MatchesDeclared_shape)
  note st = storedValue_sound [OF y(1,4) assms(4) wf]
  have "coherent w" unfolding y(3) by (rule coherent_map_upsert [OF assms(2) [unfolded VMap] assms(3) st(1) k st(2) y(2)])
  then show ?thesis by (simp only: VMap y(3) same_header.simps Value.case simp_thms)
next
  case (VBytes bs)
  then show ?thesis using assms(1)
    by (cases idx; cases "byteOf x p") (auto simp: writeIndexedSlot_def split: if_splits)
qed (use assms in \<open>auto simp: writeIndexedSlot_def\<close>)

lemma appendInto_sound:
  assumes "appendInto het v x p = Inr (w, h)" "coherent v" "coherent x"
  shows "coherent w \<and> same_header v w"
proof (cases v)
  case (VList xs et)
  then obtain y where y: "storedValue het et x = (y, h)" "w = VList (xs @ [y]) et" "matchesOpt het x et"
    using assms(1) by (auto simp: appendInto_def split: if_splits prod.splits)
  have wf: "\<And>u. et = Some u \<Longrightarrow> wf_ty u" using assms(2) VList by simp
  show ?thesis using storedValue_sound [OF y(1,3) assms(3) wf] assms(2) by (auto simp: VList y(2) split: option.splits)
next
  case (VBytes bs)
  then show ?thesis using assms(1) by (cases "byteOf x p") (auto simp: appendInto_def)
qed (use assms in \<open>auto simp: appendInto_def\<close>)

lemma setFieldAt_coherent:
  "list_all (\<lambda>f. coherent (snd f)) fs \<Longrightarrow> coherent v \<Longrightarrow> list_all (\<lambda>f. coherent (snd f)) (setFieldAt i v fs)"
  by (simp add: setFieldAt_def list_all_update)

lemma lvalueWriteLeaf_sound:
  assumes "lvalueWriteLeaf N look het v st x = Inr (w, h)" "coherent v" "coherent x"
    "\<And>i p. st = IndexStep i p \<Longrightarrow> coherent i"
    "\<And>ns n mp def decl. look ns n mp = Some def \<Longrightarrow> decl \<in> set (sFields def) \<Longrightarrow> wf_ty (fType decl)"
  shows "coherent w \<and> same_header v w"
proof (cases st)
  case (FieldStep f p)
  then obtain ns n mp fs def decl where v: "v = VStruct ns n mp fs" "look ns n mp = Some def"
      "findDecl f (sFields def) = Some decl" "MatchesDeclared het x (fType decl)"
    and w: "w = VStruct ns n mp (case fieldPos (fName decl) fs of
       Some i \<Rightarrow> setFieldAt i (stampValue (DeepCopy x) (fType decl)) fs
     | None \<Rightarrow> fs @ [(fName decl, stampValue (DeepCopy x) (fType decl))])"
    using assms(1) by (cases v) (auto simp: stampDeclaredType_def split: option.splits if_splits)
  have "decl \<in> set (sFields def)" using v(3) unfolding findDecl_def by (metis find_Some_iff nth_mem)
  then have "coherent (stampValue (DeepCopy x) (fType decl))"
    using assms(5) [OF v(2)] assms(3) stamp_sound [of "fType decl" "DeepCopy x"] v(4)
    by (simp add: DeepCopy_coherent shape_DeepCopy MatchesDeclared_shape)
  then show ?thesis using assms(2) by (auto simp: v(1) w setFieldAt_coherent split: option.splits)
next
  case (IndexStep i p)
  then show ?thesis using assms writeIndexedSlot_sound by auto
qed

lemma lvalueStepInto_child:
  assumes "lvalueStepInto N d v st = Inr i" "coherent v"
  shows "coherent (childAt v i)"
    and "coherent c \<Longrightarrow> same_header (childAt v i) c \<Longrightarrow> coherent (setChild v i c) \<and> same_header v (setChild v i c)"
proof -
  have "coherent (childAt v i) \<and>
    (coherent c \<longrightarrow> same_header (childAt v i) c \<longrightarrow> coherent (setChild v i c) \<and> same_header v (setChild v i c))"
  proof (cases v)
    case (VList xs et)
    then have i: "i < length xs" using assms(1) indexListPos_bound by (cases st) (auto simp: indexPos_def)
    then have "coherent (xs ! i)" using assms(2) VList by (simp add: list_all_length)
    moreover have "typed c t" if "et = Some t" "same_header (xs ! i) c" for t
      using that assms(2) VList i same_header_typed [of "xs ! i" c t] by (simp add: list_all_length)
    ultimately show ?thesis using assms(2) VList by (auto simp: list_all_update split: option.splits)
  next
    case (VMap es kt vt mi)
    then have i: "i < length es" using assms LookupKey_bound
      by (cases st) (fastforce simp: indexPos_def split: option.splits)+
    have co: "coherent (fst (es ! i))" "coherent (snd (es ! i))" using assms(2) VMap i by (simp_all add: list_all_length)
    have ty: "typed c t" if "vt = Some t" "same_header (snd (es ! i)) c" for t
      using that assms(2) VMap i same_header_typed [of "snd (es ! i)" c t] by (simp add: list_all_length)
    have ky: "shape (fst (es ! i)) t" if "kt = Some t" for t
      using that assms(2) VMap i by (simp add: list_all_length)
    show ?thesis using assms(2) VMap co ty ky
      by (auto simp: list_all_update idx_inv_set_value split: option.splits)
  next
    case (VStruct ns n p fs)
    then have i: "i < length fs" using assms(1) fieldPos_Some
      by (cases st) (fastforce simp: indexPos_def split: option.splits)+
    then have "coherent (snd (fs ! i))" using assms(2) VStruct by (simp add: list_all_length)
    then show ?thesis using assms(2) VStruct by (simp add: setFieldAt_coherent)
  qed (use assms in \<open>cases st; auto simp: indexPos_def\<close>)+
  then show "coherent (childAt v i)" "coherent c \<Longrightarrow> same_header (childAt v i) c \<Longrightarrow> coherent (setChild v i c) \<and> same_header v (setChild v i c)"
    by blast+
qed

text \<open>A write through any chain of fields and indices leaves a coherent value with the header it had, so
  its declared type still holds.\<close>

lemma walkInto_sound:
  assumes "\<And>v w h. leaf v = Inr (w, h) \<Longrightarrow> coherent v \<Longrightarrow> coherent w \<and> same_header v w"
  shows "walkInto N d v steps leaf = Inr (w, h) \<Longrightarrow> coherent v \<Longrightarrow> coherent w \<and> same_header v w"
proof (induction steps arbitrary: v w)
  case (Cons st sts)
  then obtain i c where i: "lvalueStepInto N d v st = Inr i" "walkInto N d (childAt v i) sts leaf = Inr (c, h)" "w = setChild v i c"
    by (cases "lvalueStepInto N d v st"; cases "walkInto N d (childAt v (projr (lvalueStepInto N d v st))) sts leaf") auto
  note ch = lvalueStepInto_child [OF i(1) Cons.prems(2)]
  show ?case using Cons.IH [OF i(2) ch(1)] ch(2) i(3) by simp
qed (use assms in simp)

end
