(* ===== verification/Environ.thy ===== *)
theory Environ
  imports Ast
begin

text \<open>
  Scopes (\<open>internal/interpreter/environment.go\<close>): a frame holds slot-indexed bindings and a name map; an
  environment is the chain of frames from the innermost to the root. Resolved references address a
  binding by the number of frames to walk and a slot; unresolved ones by name. The locale
  \<open>variable_store\<close> is the contract of an assignable store; both ways of addressing satisfy it.
\<close>

section \<open>Frames\<close>

record binding =
  bValue :: Value
  bType :: ty
  bConst :: bool
  bSlot :: int
  bName :: string

record deferredCall =
  dcCall :: expr
  dcArgs :: "Value list"
  dcOnError :: bool

record frame =
  slots :: "binding list"
  vars :: "(string \<times> binding) list"
  deferred :: "deferredCall list"
  frameBytes :: int
  borrowDefs :: bool

type_synonym env = "frame list"

text \<open>The error of an environment operation is a Go error whose text is a format and its arguments.\<close>

type_synonym emsg = "string \<times> fmtarg list"

definition zeroBinding :: binding where
  "zeroBinding = \<lparr>bValue = VNull, bType = TypeInvalid, bConst = False, bSlot = 0, bName = []\<rparr>"

text \<open>\<open>borrowBlockEnv\<close>: a frame from the pool is indistinguishable from a new one, since a released
  frame was cleared.\<close>

definition newFrame :: "env \<Rightarrow> nat \<Rightarrow> frame" where
  "newFrame parent n = \<lparr>slots = replicate n zeroBinding, vars = [], deferred = [], frameBytes = 0,
     borrowDefs = (case parent of [] \<Rightarrow> False | f # _ \<Rightarrow> borrowDefs f)\<rparr>"

definition borrowBlockEnv :: "env \<Rightarrow> nat \<Rightarrow> env" where
  "borrowBlockEnv parent n = newFrame parent n # parent"

section \<open>Lookup\<close>

fun scanSlots :: "string \<Rightarrow> binding list \<Rightarrow> nat option" where
  "scanSlots n [] = None"
| "scanSlots n (b # bs) = (if bName b = n then Some 0 else map_option Suc (scanSlots n bs))"

text \<open>The binding and its slot; \<open>-1\<close> for one of the name map.\<close>

definition lookupLocal :: "frame \<Rightarrow> string \<Rightarrow> (binding \<times> int) option" where
  "lookupLocal f n = (case scanSlots n (slots f) of
     Some i \<Rightarrow> Some (slots f ! i, int i)
   | None \<Rightarrow> (case map_of (vars f) n of Some b \<Rightarrow> Some (b, - 1) | None \<Rightarrow> None))"

fun existsInChain :: "env \<Rightarrow> string \<Rightarrow> bool" where
  "existsInChain [] n = False"
| "existsInChain (f # e) n = (lookupLocal f n \<noteq> None \<or> existsInChain e n)"

fun GetBinding :: "env \<Rightarrow> string \<Rightarrow> emsg + binding" where
  "GetBinding [] n = Inl (''undefined %q'', [AStr n])"
| "GetBinding (f # e) n = (case lookupLocal f n of Some (b, _) \<Rightarrow> Inr b | None \<Rightarrow> GetBinding e n)"

fun Get :: "env \<Rightarrow> string \<Rightarrow> emsg + Value" where
  "Get [] n = Inl (''undefined variable %q'', [AStr n])"
| "Get (f # e) n = (case lookupLocal f n of Some (b, _) \<Rightarrow> Inr (bValue b) | None \<Rightarrow> Get e n)"

text \<open>Walking \<open>depth\<close> parent pointers; a negative depth walks none.\<close>

definition frameAt :: "env \<Rightarrow> int \<Rightarrow> frame option" where
  "frameAt e depth = (if nat depth < length e then Some (e ! nat depth) else None)"

definition inSlots :: "frame \<Rightarrow> int \<Rightarrow> bool" where
  "inSlots f slot \<longleftrightarrow> \<not> (slot < 0 \<or> slot \<ge> int (length (slots f)))"

definition GetAt :: "env \<Rightarrow> int \<Rightarrow> int \<Rightarrow> string \<Rightarrow> emsg + Value" where
  "GetAt e depth slot n = (case frameAt e depth of
     None \<Rightarrow> Inl (''undefined variable %q'', [AStr n])
   | Some f \<Rightarrow>
       if \<not> inSlots f slot then
         (case map_of (vars f) n of Some b \<Rightarrow> Inr (bValue b) | None \<Rightarrow> Inl (''undefined variable %q'', [AStr n]))
       else Inr (bValue (slots f ! nat slot)))"

definition GetBindingAt :: "env \<Rightarrow> int \<Rightarrow> int \<Rightarrow> string \<Rightarrow> emsg + binding" where
  "GetBindingAt e depth slot n = (case frameAt e depth of
     None \<Rightarrow> Inl (''undefined %q'', [AStr n])
   | Some f \<Rightarrow>
       if \<not> inSlots f slot then
         (case map_of (vars f) n of Some b \<Rightarrow> Inr b | None \<Rightarrow> Inl (''undefined %q'', [AStr n]))
       else Inr (slots f ! nat slot))"

section \<open>Definition and assignment\<close>

text \<open>\<open>e.slots[slot] = b\<close> after growing the slice to fit.\<close>

definition setSlot :: "nat \<Rightarrow> binding \<Rightarrow> binding list \<Rightarrow> binding list" where
  "setSlot i b bs = (bs @ replicate (Suc i - length bs) zeroBinding)[i := b]"

fun DefineAt :: "env \<Rightarrow> int \<Rightarrow> string \<Rightarrow> Value \<Rightarrow> ty \<Rightarrow> bool \<Rightarrow> emsg + env" where
  "DefineAt [] slot n v t c = Inl (''no frame'', [])"
| "DefineAt (f # e) slot n v t c =
     (let b = \<lparr>bValue = v, bType = t, bConst = c, bSlot = slot, bName = n\<rparr> in
      if slot < 0 then
        (if existsInChain (f # e) n
         then Inl (''name %q is already defined in an enclosing scope'', [AStr n])
         else Inr (f\<lparr>vars := AList.update n b (vars f)\<rparr> # e))
      else Inr (f\<lparr>slots := setSlot (nat slot) b (slots f)\<rparr> # e))"

fun Define :: "env \<Rightarrow> string \<Rightarrow> Value \<Rightarrow> ty \<Rightarrow> bool \<Rightarrow> emsg + env" where
  "Define [] n v t c = Inl (''no frame'', [])"
| "Define (f # e) n v t c =
     (if existsInChain (f # e) n
      then Inl (''name %q is already defined in an enclosing scope'', [AStr n])
      else Inr (f\<lparr>vars := AList.update n \<lparr>bValue = v, bType = t, bConst = c, bSlot = - 1, bName = []\<rparr> (vars f)\<rparr> # e))"

text \<open>The checks every assignment makes on the binding it found.\<close>

definition checkAssign :: "handles \<Rightarrow> binding \<Rightarrow> string \<Rightarrow> Value \<Rightarrow> emsg option" where
  "checkAssign het b n v =
     (if bConst b then Some (''cannot assign to constant %q'', [AStr n])
      else if \<not> MatchesDeclared het v (bType b)
      then Some (''cannot assign %s to %s variable %q'', [AKind (Kind v), ATy (bType b), AStr n])
      else None)"

fun Assign :: "handles \<Rightarrow> env \<Rightarrow> string \<Rightarrow> Value \<Rightarrow> emsg + env" where
  "Assign het [] n v = Inl (''undefined variable %q'', [AStr n])"
| "Assign het (f # e) n v = (case lookupLocal f n of
     Some (b, si) \<Rightarrow> (case checkAssign het b n v of
        Some m \<Rightarrow> Inl m
      | None \<Rightarrow> Inr ((if si \<ge> 0 then f\<lparr>slots := (slots f)[nat si := b\<lparr>bValue := v\<rparr>]\<rparr>
                      else f\<lparr>vars := AList.update n (b\<lparr>bValue := v\<rparr>) (vars f)\<rparr>) # e))
   | None \<Rightarrow> map_sum id (\<lambda>e'. f # e') (Assign het e n v))"

definition AssignAt :: "handles \<Rightarrow> env \<Rightarrow> int \<Rightarrow> int \<Rightarrow> string \<Rightarrow> Value \<Rightarrow> emsg + env" where
  "AssignAt het e depth slot n v = (case frameAt e depth of
     None \<Rightarrow> Inl (''undefined variable %q'', [AStr n])
   | Some f \<Rightarrow>
       if \<not> inSlots f slot then Assign het e n v
       else let b = slots f ! nat slot in
         (case checkAssign het b n v of
            Some m \<Rightarrow> Inl m
          | None \<Rightarrow> Inr (e[nat depth := f\<lparr>slots := (slots f)[nat slot := b\<lparr>bValue := v\<rparr>]\<rparr>])))"

text \<open>The root variable of an l-value chain: by coordinates when the resolver left them, else by name.\<close>

definition getBindingRoot :: "env \<Rightarrow> string \<Rightarrow> int \<Rightarrow> int \<Rightarrow> emsg + binding" where
  "getBindingRoot e n depth slot = (if slot \<ge> 0 then GetBindingAt e depth slot n else GetBinding e n)"

definition assignRoot :: "handles \<Rightarrow> env \<Rightarrow> string \<Rightarrow> int \<Rightarrow> int \<Rightarrow> Value \<Rightarrow> emsg + env" where
  "assignRoot het e n depth slot v = (if slot \<ge> 0 then AssignAt het e depth slot n v else Assign het e n v)"

section \<open>Stores\<close>

text \<open>What a client of a store of typed bindings relies on.\<close>

locale variable_store =
  fixes look :: "'e \<Rightarrow> 'k \<Rightarrow> binding option"
    and assign :: "handles \<Rightarrow> 'e \<Rightarrow> 'k \<Rightarrow> Value \<Rightarrow> emsg + 'e"
  assumes assign_refused: "look e k = Some b \<Longrightarrow> bConst b \<or> \<not> MatchesDeclared het v (bType b) \<Longrightarrow>
      \<exists>m. assign het e k v = Inl m"
    and assign_done: "look e k = Some b \<Longrightarrow> \<not> bConst b \<Longrightarrow> MatchesDeclared het v (bType b) \<Longrightarrow>
      \<exists>e'. assign het e k v = Inr e' \<and> look e' k = Some (b\<lparr>bValue := v\<rparr>) \<and> (\<forall>k'. k' \<noteq> k \<longrightarrow> look e' k' = look e k')"
begin

text \<open>The assignments of a run, in order: those to a name without a binding are skipped, those refused
  leave the store alone.\<close>

fun assigns :: "handles \<Rightarrow> 'e \<Rightarrow> ('k \<times> Value) list \<Rightarrow> 'e" where
  "assigns het e [] = e"
| "assigns het e (a # as) = (if look e (fst a) = None then assigns het e as
     else case assign het e (fst a) (snd a) of Inl _ \<Rightarrow> assigns het e as | Inr e' \<Rightarrow> assigns het e' as)"

lemma assign_cases:
  assumes "look e k = Some b" "assign het e k v = Inr e'"
  shows "\<not> bConst b" "MatchesDeclared het v (bType b)"
    "look e' = (look e)(k \<mapsto> b\<lparr>bValue := v\<rparr>)"
proof -
  show nc: "\<not> bConst b" using assign_refused [OF assms(1), of het v] assms(2) by auto
  show m: "MatchesDeclared het v (bType b)" using assign_refused [OF assms(1), of het v] assms(2) by auto
  obtain e2 where "assign het e k v = Inr e2" "look e2 k = Some (b\<lparr>bValue := v\<rparr>)" "\<forall>k'. k' \<noteq> k \<longrightarrow> look e2 k' = look e k'"
    using assign_done [OF assms(1) nc m] by blast
  then show "look e' = (look e)(k \<mapsto> b\<lparr>bValue := v\<rparr>)" using assms(2) by auto
qed

text \<open>Whatever is assigned, a constant keeps its value and every binding its type and its constness.\<close>

lemma assigns_const: "look e k = Some b \<Longrightarrow> bConst b \<Longrightarrow> look (assigns het e as) k = Some b"
proof (induction as arbitrary: e)
  case (Cons a as)
  have "look e' k = Some b" if "look e (fst a) = Some b'" "assign het e (fst a) (snd a) = Inr e'" for b' e'
    using assign_cases [OF that] Cons.prems that by (cases "k = fst a") auto
  with Cons show ?case by (auto split: sum.splits)
qed simp

lemma assigns_meta:
  "look e k = Some b \<Longrightarrow> \<exists>v. look (assigns het e as) k = Some (b\<lparr>bValue := v\<rparr>)"
proof (induction as arbitrary: e b)
  case Nil
  then show ?case by (metis assigns.simps(1) binding.surjective binding.update_convs(1))
next
  case (Cons a as)
  show ?case
  proof (cases "\<exists>b' e'. look e (fst a) = Some b' \<and> assign het e (fst a) (snd a) = Inr e'")
    case True
    then obtain b' e' where a: "look e (fst a) = Some b'" "assign het e (fst a) (snd a) = Inr e'" by blast
    then have "look e' = (look e)(fst a \<mapsto> b'\<lparr>bValue := snd a\<rparr>)" by (rule assign_cases)
    then obtain w where "look e' k = Some (b\<lparr>bValue := w\<rparr>)"
      using Cons.prems a(1) by (cases "k = fst a") (auto, metis binding.surjective binding.update_convs(1))
    then show ?thesis using Cons.IH [of e' "b\<lparr>bValue := w\<rparr>"] a by simp
  next
    case False
    then show ?thesis using Cons by (auto split: sum.splits)
  qed
qed

lemma assigns_typed:
  assumes "\<And>k b. look e k = Some b \<Longrightarrow> MatchesDeclared het (bValue b) (bType b)"
  shows "look (assigns het e as) k = Some b \<Longrightarrow> MatchesDeclared het (bValue b) (bType b)"
  using assms
proof (induction as arbitrary: e)
  case (Cons a as)
  show ?case
  proof (cases "\<exists>b' e'. look e (fst a) = Some b' \<and> assign het e (fst a) (snd a) = Inr e'")
    case True
    then obtain b' e' where a: "look e (fst a) = Some b'" "assign het e (fst a) (snd a) = Inr e'" by blast
    note l = assign_cases [OF this]
    have "MatchesDeclared het (bValue c) (bType c)" if "look e' j = Some c" for j c
      using Cons.prems(2) that l by (auto split: if_splits)
    then show ?thesis using Cons.IH [of e'] Cons.prems(1) a by simp
  next
    case False
    then show ?thesis using Cons by (auto split: sum.splits)
  qed
qed simp

end

section \<open>Both addressings are stores\<close>

text \<open>A binding by its coordinates, when the resolver's coordinates are in range.\<close>

definition lookSlot :: "env \<Rightarrow> nat \<times> nat \<Rightarrow> binding option" where
  "lookSlot e k = (if fst k < length e \<and> snd k < length (slots (e ! fst k))
     then Some (slots (e ! fst k) ! snd k) else None)"

definition assignSlot :: "string \<Rightarrow> handles \<Rightarrow> env \<Rightarrow> nat \<times> nat \<Rightarrow> Value \<Rightarrow> emsg + env" where
  "assignSlot n het e k v = AssignAt het e (int (fst k)) (int (snd k)) n v"

lemma checkAssign_None: "checkAssign het b n v = None \<longleftrightarrow> \<not> bConst b \<and> MatchesDeclared het v (bType b)"
  by (simp add: checkAssign_def)

lemma assignSlot_in_range:
  "lookSlot e k = Some b \<Longrightarrow> assignSlot n het e k v = (case checkAssign het b n v of
     Some m \<Rightarrow> Inl m
   | None \<Rightarrow> Inr (e[fst k := (e ! fst k)\<lparr>slots := (slots (e ! fst k))[snd k := b\<lparr>bValue := v\<rparr>]\<rparr>]))"
  by (auto simp: lookSlot_def assignSlot_def AssignAt_def frameAt_def inSlots_def Let_def split: if_splits option.splits)

lemma lookSlot_update:
  "lookSlot e k = Some b \<Longrightarrow>
    lookSlot (e[fst k := (e ! fst k)\<lparr>slots := (slots (e ! fst k))[snd k := c]\<rparr>]) k' =
      (if k' = k then Some c else lookSlot e k')"
  by (cases k; cases k') (auto simp: lookSlot_def nth_list_update split: if_splits)

interpretation slot_store: variable_store lookSlot "assignSlot n"
proof
  fix e k b het v
  assume l: "lookSlot e k = Some b"
  show "\<exists>m. assignSlot n het e k v = Inl m" if "bConst b \<or> \<not> MatchesDeclared het v (bType b)"
    using that checkAssign_None [of het b n v] by (auto simp: assignSlot_in_range [OF l] split: option.splits)
  show "\<exists>e'. assignSlot n het e k v = Inr e' \<and> lookSlot e' k = Some (b\<lparr>bValue := v\<rparr>) \<and>
      (\<forall>k'. k' \<noteq> k \<longrightarrow> lookSlot e' k' = lookSlot e k')" if "\<not> bConst b" "MatchesDeclared het v (bType b)"
    using that checkAssign_None [of het b n v] by (simp add: assignSlot_in_range [OF l] lookSlot_update [OF l])
qed

definition lookName :: "env \<Rightarrow> string \<Rightarrow> binding option" where
  "lookName e n = (case GetBinding e n of Inr b \<Rightarrow> Some b | Inl _ \<Rightarrow> None)"

text \<open>Every slot binding carries its own name: what \<open>DefineAt\<close> writes.\<close>

lemma scanSlots_Some: "scanSlots n bs = Some i \<Longrightarrow> i < length bs \<and> bName (bs ! i) = n"
  by (induction bs arbitrary: i) (auto split: if_splits)

lemma scanSlots_value: "bName c = bName (bs ! i) \<Longrightarrow> scanSlots n (bs[i := c]) = scanSlots n bs"
proof (induction bs arbitrary: i)
  case (Cons b bs)
  then show ?case by (cases i) auto
qed simp

lemma lookupLocal_set:
  fixes v :: Value
  assumes "lookupLocal f n = Some (b, si)"
  defines "f' \<equiv> (if si \<ge> 0 then f\<lparr>slots := (slots f)[nat si := b\<lparr>bValue := v\<rparr>]\<rparr>
                 else f\<lparr>vars := AList.update n (b\<lparr>bValue := v\<rparr>) (vars f)\<rparr>)"
  shows "lookupLocal f' m = (if m = n then Some (b\<lparr>bValue := v\<rparr>, si) else lookupLocal f m)"
proof (cases "scanSlots n (slots f)")
  case None
  then have "si = - 1" "map_of (vars f) n = Some b" using assms(1) by (auto simp: lookupLocal_def split: option.splits)
  then show ?thesis using None by (simp add: lookupLocal_def f'_def update_conv' split: option.splits)
next
  case (Some i)
  then have b: "b = slots f ! i" "si = int i" "i < length (slots f)" "bName b = n"
    using assms(1) scanSlots_Some [OF Some] by (auto simp: lookupLocal_def)
  have s: "scanSlots j ((slots f)[i := b\<lparr>bValue := v\<rparr>]) = scanSlots j (slots f)" for j
    using b by (intro scanSlots_value) simp
  have "scanSlots m (slots f) \<noteq> Some i" if "m \<noteq> n" using that b scanSlots_Some by metis
  then have nth: "(slots f)[i := b\<lparr>bValue := v\<rparr>] ! j = slots f ! j" if "scanSlots m (slots f) = Some j" "m \<noteq> n" for j
    using that by (auto simp: nth_list_update)
  have "lookupLocal f' m = (case scanSlots m (slots f) of
      Some j \<Rightarrow> Some ((slots f)[i := b\<lparr>bValue := v\<rparr>] ! j, int j)
    | None \<Rightarrow> (case map_of (vars f) m of Some c \<Rightarrow> Some (c, - 1) | None \<Rightarrow> None))"
    unfolding lookupLocal_def f'_def using b(2) s [of m] by (simp cong: option.case_cong)
  then show ?thesis
    using Some b(2,3) nth unfolding lookupLocal_def by (cases "m = n"; cases "scanSlots m (slots f)") simp_all
qed

lemma Assign_name:
  "lookName e n = Some b \<Longrightarrow> (case checkAssign het b n v of
     Some m \<Rightarrow> Assign het e n v = Inl m
   | None \<Rightarrow> \<exists>e'. Assign het e n v = Inr e' \<and> length e' = length e \<and>
       (\<forall>m. lookName e' m = (if m = n then Some (b\<lparr>bValue := v\<rparr>) else lookName e m)))"
proof (induction e)
  case (Cons f e)
  show ?case
  proof (cases "lookupLocal f n")
    case None
    then have l: "lookName e n = Some b" using Cons.prems by (simp add: lookName_def)
    note IH = Cons.IH [OF l]
    show ?thesis
    proof (cases "checkAssign het b n v")
      case None
      with IH obtain e' where "Assign het e n v = Inr e'" "length e' = length e"
        "\<forall>m. lookName e' m = (if m = n then Some (b\<lparr>bValue := v\<rparr>) else lookName e m)" by auto
      then show ?thesis using None \<open>lookupLocal f n = None\<close>
        by (auto simp: lookName_def split: option.splits)
    qed (use IH None in simp)
  next
    case (Some p)
    obtain b' si where p: "p = (b', si)" by (cases p)
    then have "b' = b" using Some Cons.prems by (simp add: lookName_def)
    then have loc: "lookupLocal f n = Some (b, si)" using Some p by simp
    show ?thesis using lookupLocal_set [OF loc, of v]
      by (auto simp: loc lookName_def split: option.splits)
  qed
qed (simp add: lookName_def)

interpretation name_store: variable_store lookName "\<lambda>het e n v. Assign het e n v"
proof
  fix e k b het v
  assume l: "lookName e k = Some b"
  note a = Assign_name [OF l, of het v]
  show "\<exists>m. Assign het e k v = Inl m" if "bConst b \<or> \<not> MatchesDeclared het v (bType b)"
    using that a checkAssign_None [of het b k v] by (auto split: option.splits)
  show "\<exists>e'. Assign het e k v = Inr e' \<and> lookName e' k = Some (b\<lparr>bValue := v\<rparr>) \<and>
      (\<forall>k'. k' \<noteq> k \<longrightarrow> lookName e' k' = lookName e k')" if "\<not> bConst b" "MatchesDeclared het v (bType b)"
    using that a checkAssign_None [of het b k v] by auto
qed

section \<open>Resolved and unresolved access\<close>

text \<open>Coordinates that a resolver may leave on a reference to \<open>n\<close>: the first frame, from the inside, that
  binds the name, and its slot there.\<close>

definition resolves_to :: "env \<Rightarrow> string \<Rightarrow> nat \<Rightarrow> nat \<Rightarrow> bool" where
  "resolves_to e n d i \<longleftrightarrow> d < length e \<and> scanSlots n (slots (e ! d)) = Some i \<and>
     (\<forall>j < d. lookupLocal (e ! j) n = None)"

lemma resolves_to_Cons:
  "resolves_to (f # e) n d i \<Longrightarrow>
    (d = 0 \<and> scanSlots n (slots f) = Some i) \<or> (\<exists>d'. d = Suc d' \<and> lookupLocal f n = None \<and> resolves_to e n d' i)"
  by (cases d) (auto simp: resolves_to_def)

lemma resolved_Get: "resolves_to e n d i \<Longrightarrow> GetAt e (int d) (int i) n = Get e n"
proof (induction e arbitrary: d)
  case (Cons f e)
  from resolves_to_Cons [OF Cons.prems] show ?case
  proof (elim disjE exE conjE)
    assume "d = 0" "scanSlots n (slots f) = Some i"
    then show ?thesis using scanSlots_Some [of n "slots f" i]
      by (simp add: GetAt_def frameAt_def inSlots_def lookupLocal_def)
  next
    fix d' assume d: "d = Suc d'" "lookupLocal f n = None" "resolves_to e n d' i"
    then have "GetAt (f # e) (int d) (int i) n = GetAt e (int d') (int i) n"
      by (simp add: GetAt_def frameAt_def nat_add_distrib)
    then show ?thesis using Cons.IH [OF d(3)] d by simp
  qed
qed (simp add: resolves_to_def)

lemma resolved_Assign: "resolves_to e n d i \<Longrightarrow> AssignAt het e (int d) (int i) n v = Assign het e n v"
proof (induction e arbitrary: d)
  case (Cons f e)
  from resolves_to_Cons [OF Cons.prems] show ?case
  proof (elim disjE exE conjE)
    assume "d = 0" "scanSlots n (slots f) = Some i"
    then show ?thesis using scanSlots_Some [of n "slots f" i]
      by (simp add: AssignAt_def frameAt_def inSlots_def lookupLocal_def Let_def split: option.splits)
  next
    fix d' assume d: "d = Suc d'" "lookupLocal f n = None" "resolves_to e n d' i"
    have "d' < length e" "i < length (slots (e ! d'))" using d(3) scanSlots_Some by (auto simp: resolves_to_def)
    then have "AssignAt het (f # e) (int d) (int i) n v = map_sum id (Cons f) (AssignAt het e (int d') (int i) n v)"
      using d(1) by (simp add: AssignAt_def frameAt_def inSlots_def Let_def nat_add_distrib split: option.splits)
    then show ?thesis using Cons.IH [OF d(3)] d by simp
  qed
qed (simp add: resolves_to_def)

end
