(* ===== verification/IntFast.thy ===== *)
theory IntFast
  imports Environ
begin

text \<open>
  The integer fast path (\<open>internal/interpreter/intfast.go\<close>): operands, conditions and assignments that are
  answered straight from literals and slots. Pure functions of the environment; \<open>None\<close> is \<open>ok = false\<close>,
  the case left to the general evaluator. That the fast path changes nothing is shown where the general
  path is defined.
\<close>

definition slotBinding :: "env \<Rightarrow> int \<Rightarrow> int \<Rightarrow> binding option" where
  "slotBinding e depth slot = (case frameAt e depth of
     None \<Rightarrow> None
   | Some f \<Rightarrow> if inSlots f slot then Some (slots f ! nat slot) else None)"

definition varValue :: "int \<Rightarrow> int \<Rightarrow> env \<Rightarrow> Value option" where
  "varValue depth slot e = (if slot < 0 then None else map_option bValue (slotBinding e depth slot))"

definition intArith :: "binop \<Rightarrow> int64 \<Rightarrow> int64 \<Rightarrow> int64 option" where
  "intArith op a b = (case op of
     OpAdd \<Rightarrow> (case addOverflow a b of (s, ovf) \<Rightarrow> if ovf then None else Some s)
   | OpSub \<Rightarrow> (case subOverflow a b of (d, ovf) \<Rightarrow> if ovf then None else Some d)
   | OpMul \<Rightarrow> (case mulOverflow a b of (p, ovf) \<Rightarrow> if ovf then None else Some p)
   | OpFloorDiv \<Rightarrow>
       if b = 0 \<or> (a = minInt64 \<and> b = - 1) then None
       else Some (let q = go_quot a b in if go_rem a b \<noteq> 0 \<and> (a <s 0) \<noteq> (b <s 0) then q - 1 else q)
   | OpMod \<Rightarrow> if b = 0 then None else Some (flooredMod a b)
   | _ \<Rightarrow> None)"

text \<open>The operators \<open>intOperand\<close> descends into.\<close>

fun isIntArith :: "binop \<Rightarrow> bool" where
  "isIntArith OpAdd = True"
| "isIntArith OpSub = True"
| "isIntArith OpMul = True"
| "isIntArith OpFloorDiv = True"
| "isIntArith OpMod = True"
| "isIntArith _ = False"

text \<open>The element arm of \<open>intOperand\<close>: the int at a non-negative index of a bytes or list value.\<close>

definition intElement :: "Value \<Rightarrow> int64 \<Rightarrow> int64 option" where
  "intElement parent idx = (case parent of
     VBytes bs \<Rightarrow> if sint idx < int (length bs) then Some (ucast (bs ! nat (sint idx))) else None
   | VList xs _ \<Rightarrow>
       if sint idx < int (length xs) then (case xs ! nat (sint idx) of VInt n \<Rightarrow> Some n | _ \<Rightarrow> None) else None
   | _ \<Rightarrow> None)"

fun intOperand :: "expr \<Rightarrow> env \<Rightarrow> int64 option" where
  "intOperand (IntLit _ n) e = Some n"
| "intOperand (VarExpr _ _ d s _) e = (case varValue d s e of Some (VInt n) \<Rightarrow> Some n | _ \<Rightarrow> None)"
| "intOperand (IndexExpr _ t i) e = (case t of
     VarExpr _ _ d s _ \<Rightarrow> (case varValue d s e of
        None \<Rightarrow> None
      | Some parent \<Rightarrow> (case intOperand i e of
          None \<Rightarrow> None
        | Some idx \<Rightarrow> if idx <s 0 then None else intElement parent idx))
   | _ \<Rightarrow> None)"
| "intOperand (BinaryExpr _ op l r (Some f)) e = intOperand f e"
| "intOperand (BinaryExpr _ op l r None) e =
     (if isIntArith op then
        (case intOperand l e of None \<Rightarrow> None
         | Some a \<Rightarrow> (case intOperand r e of None \<Rightarrow> None | Some b \<Rightarrow> intArith op a b))
      else None)"
| "intOperand _ e = None"

definition intCompare :: "binop \<Rightarrow> int64 \<Rightarrow> int64 \<Rightarrow> bool option" where
  "intCompare op a b = (case op of
     OpLt \<Rightarrow> Some (a <s b)
   | OpGt \<Rightarrow> Some (b <s a)
   | OpLe \<Rightarrow> Some (a \<le>s b)
   | OpGe \<Rightarrow> Some (b \<le>s a)
   | OpEq \<Rightarrow> Some (a = b)
   | OpNeq \<Rightarrow> Some (a \<noteq> b)
   | _ \<Rightarrow> None)"

fun fastCondition :: "expr \<Rightarrow> env \<Rightarrow> bool option" where
  "fastCondition (BoolLit _ b) e = Some b"
| "fastCondition (VarExpr _ _ d s _) e = (case varValue d s e of Some (VBool b) \<Rightarrow> Some b | _ \<Rightarrow> None)"
| "fastCondition (UnaryExpr _ op x (Some f)) e = fastCondition f e"
| "fastCondition (UnaryExpr _ op x None) e = (if op = OpNot then map_option Not (fastCondition x e) else None)"
| "fastCondition (BinaryExpr _ op l r (Some f)) e = fastCondition f e"
| "fastCondition (BinaryExpr _ op l r None) e =
     (if op = OpAnd \<or> op = OpOr then
        (case fastCondition l e of
           None \<Rightarrow> None
         | Some a \<Rightarrow> if a = (op = OpOr) then Some a else fastCondition r e)
      else if IsComparison op then
        (case intOperand l e of None \<Rightarrow> None
         | Some a \<Rightarrow> (case intOperand r e of None \<Rightarrow> None | Some b \<Rightarrow> intCompare op a b))
      else None)"
| "fastCondition _ e = None"

text \<open>\<open>slotBinding\<close> hands out a pointer; writing through it is \<open>setSlotValue\<close>.\<close>

definition setSlotValue :: "env \<Rightarrow> int \<Rightarrow> int \<Rightarrow> Value \<Rightarrow> env" where
  "setSlotValue e depth slot v = (case frameAt e depth of
     None \<Rightarrow> e
   | Some f \<Rightarrow> e[nat depth := f\<lparr>slots := (slots f)[nat slot := (slots f ! nat slot)\<lparr>bValue := v\<rparr>]\<rparr>])"

definition fastAssign :: "int \<Rightarrow> int \<Rightarrow> expr \<Rightarrow> env \<Rightarrow> env option" where
  "fastAssign depth slot rhs e =
     (if slot < 0 then None
      else case slotBinding e depth slot of
        None \<Rightarrow> None
      | Some b \<Rightarrow>
          if bConst b then None
          else if bType b = TypeInt \<and> Kind (bValue b) = KindInt then
            map_option (\<lambda>n. setSlotValue e depth slot (VInt n)) (intOperand rhs e)
          else if bType b = TypeBool \<and> Kind (bValue b) = KindBool then
            map_option (\<lambda>r. setSlotValue e depth slot (VBool r)) (fastCondition rhs e)
          else None)"

section \<open>The fast operators are the general ones\<close>

lemma intArith_general:
  "intArith op a b = Some n \<Longrightarrow> binaryOp N op (VInt a) (VInt b) p = Inr (VInt n)"
  by (cases op) (auto simp: intArith_def binaryOp_def evalArithmetic_def flooredDiv_def Let_def
      split: prod.splits if_splits)

lemma intCompare_general:
  "intCompare op a b = Some r \<Longrightarrow> binaryOp N op (VInt a) (VInt b) p = Inr (VBool r) \<and> IsComparison op"
  by (cases op) (auto simp: intCompare_def binaryOp_def evalComparison_def orderBool_def)

lemma varValue_GetAt: "varValue d s e = Some v \<Longrightarrow> s \<ge> 0 \<and> GetAt e d s n = Inr v"
  by (auto simp: varValue_def slotBinding_def GetAt_def split: if_splits option.splits)

lemma slotBinding_GetBindingAt: "slotBinding e d s = Some b \<Longrightarrow> GetBindingAt e d s n = Inr b"
  by (auto simp: slotBinding_def GetBindingAt_def split: if_splits option.splits)

text \<open>Writing through the slot pointer is the assignment of \<open>AssignAt\<close>, once its checks hold.\<close>

lemma setSlotValue_AssignAt:
  assumes "slotBinding e d s = Some b" "\<not> bConst b" "MatchesDeclared het v (bType b)"
  shows "AssignAt het e d s n v = Inr (setSlotValue e d s v)"
  using assms
  by (auto simp: slotBinding_def AssignAt_def setSlotValue_def checkAssign_def Let_def split: option.splits if_splits)

end
