(* ===== verification/Utf8.thy ===== *)
theory Utf8
  imports Prelude
begin

text \<open>
  UTF-8 as Go's \<open>unicode/utf8\<close> and its \<open>string\<close>, \<open>[]rune\<close> conversions treat it: a string is a byte sequence,
  decoding yields runes and the width of each, an invalid byte decodes to U+FFFD with width 1, and
  encoding a value that is not a scalar value writes U+FFFD. The lexer reads its source through this
  decoding, and \<open>len\<close> and slices of strings count its runes.
\<close>

definition byte :: "char \<Rightarrow> nat" where
  "byte c = of_char c"

lemma byte_char [simp]: "n < 256 \<Longrightarrow> byte (char_of n) = n"
  by (simp add: byte_def of_char_of)

lemma byte_less: "byte c < 256"
  by (simp add: byte_def)

definition RuneError :: nat where
  "RuneError = 0xFFFD"

section \<open>Decoding\<close>

definition cont :: "nat \<Rightarrow> bool" where
  "cont b \<longleftrightarrow> 0x80 \<le> b \<and> b \<le> 0xBF"

text \<open>The range of the second byte, by the first one.\<close>

definition accept2 :: "nat \<Rightarrow> nat \<Rightarrow> bool" where
  "accept2 b0 b1 \<longleftrightarrow>
     (if b0 = 0xE0 then 0xA0 \<le> b1 \<and> b1 \<le> 0xBF
      else if b0 = 0xED then 0x80 \<le> b1 \<and> b1 \<le> 0x9F
      else if b0 = 0xF0 then 0x90 \<le> b1 \<and> b1 \<le> 0xBF
      else if b0 = 0xF4 then 0x80 \<le> b1 \<and> b1 \<le> 0x8F
      else cont b1)"

text \<open>\<open>DecodeRuneInString\<close> of a non-empty string: the rune and its width.\<close>

fun DecodeRune :: "string \<Rightarrow> nat \<times> nat" where
  "DecodeRune [] = (RuneError, 0)"
| "DecodeRune (c0 # cs) = (let b0 = byte c0 in
     if b0 < 0x80 then (b0, 1)
     else if 0xC2 \<le> b0 \<and> b0 \<le> 0xDF then
       (case cs of c1 # _ \<Rightarrow> if accept2 b0 (byte c1) then ((b0 - 0xC0) * 64 + (byte c1 - 0x80), 2) else (RuneError, 1)
        | _ \<Rightarrow> (RuneError, 1))
     else if 0xE0 \<le> b0 \<and> b0 \<le> 0xEF then
       (case cs of c1 # c2 # _ \<Rightarrow>
          if accept2 b0 (byte c1) \<and> cont (byte c2)
          then ((b0 - 0xE0) * 4096 + (byte c1 - 0x80) * 64 + (byte c2 - 0x80), 3) else (RuneError, 1)
        | _ \<Rightarrow> (RuneError, 1))
     else if 0xF0 \<le> b0 \<and> b0 \<le> 0xF4 then
       (case cs of c1 # c2 # c3 # _ \<Rightarrow>
          if accept2 b0 (byte c1) \<and> cont (byte c2) \<and> cont (byte c3)
          then ((b0 - 0xF0) * 262144 + (byte c1 - 0x80) * 4096 + (byte c2 - 0x80) * 64 + (byte c3 - 0x80), 4)
          else (RuneError, 1)
        | _ \<Rightarrow> (RuneError, 1))
     else (RuneError, 1))"

lemma DecodeRune_width:
  "s \<noteq> [] \<Longrightarrow> 1 \<le> snd (DecodeRune s) \<and> snd (DecodeRune s) \<le> length s"
  by (cases s) (auto simp: Let_def split: list.splits)

text \<open>The runes of a string, each with the bytes it came from; \<open>[]rune(s)\<close> are the first components and
  \<open>utf8.RuneCountInString\<close> is the length.\<close>

function runeChunks :: "string \<Rightarrow> (nat \<times> string) list" where
  "runeChunks s = (if s = [] then [] else
     (fst (DecodeRune s), take (snd (DecodeRune s)) s) # runeChunks (drop (snd (DecodeRune s)) s))"
  by pat_completeness auto
termination
  by (relation "measure length") (use DecodeRune_width in \<open>auto simp: Suc_le_eq\<close>)

declare runeChunks.simps [simp del]

definition toRunes :: "string \<Rightarrow> nat list" where
  "toRunes s = map fst (runeChunks s)"

definition runeLen :: "string \<Rightarrow> nat" where
  "runeLen s = length (runeChunks s)"

lemma runeChunks_concat: "concat (map snd (runeChunks s)) = s"
proof (induction s rule: runeChunks.induct)
  case (1 s)
  then show ?case by (subst runeChunks.simps) simp
qed

text \<open>No rune has width zero.\<close>

lemma runeChunks_nonempty: "x \<in> set (runeChunks s) \<Longrightarrow> snd x \<noteq> []"
proof (induction s rule: runeChunks.induct)
  case (1 s)
  then show ?case using DecodeRune_width [of s] by (subst (asm) (2) runeChunks.simps) (auto split: if_splits)
qed

lemma runeLen_le: "runeLen s \<le> length s"
proof (induction s rule: runeChunks.induct)
  case (1 s)
  show ?case
  proof (cases "s = []")
    case False
    with 1 have "runeLen (drop (snd (DecodeRune s)) s) \<le> length s - snd (DecodeRune s)" by simp
    moreover have "runeLen s = Suc (runeLen (drop (snd (DecodeRune s)) s))"
      using False by (simp add: runeLen_def runeChunks.simps [of s])
    ultimately show ?thesis using DecodeRune_width [OF False] by linarith
  qed (simp add: runeLen_def runeChunks.simps)
qed

section \<open>Encoding\<close>

text \<open>Scalar values: code points that are not surrogates.\<close>

definition scalar :: "nat \<Rightarrow> bool" where
  "scalar r \<longleftrightarrow> r \<le> 0x10FFFF \<and> \<not> (0xD800 \<le> r \<and> r \<le> 0xDFFF)"

definition encodeScalar :: "nat \<Rightarrow> string" where
  "encodeScalar r =
     (if r \<le> 0x7F then [char_of r]
      else if r \<le> 0x7FF then [char_of (0xC0 + r div 64), char_of (0x80 + r mod 64)]
      else if r \<le> 0xFFFF then
        [char_of (0xE0 + r div 4096), char_of (0x80 + r div 64 mod 64), char_of (0x80 + r mod 64)]
      else [char_of (0xF0 + r div 262144), char_of (0x80 + r div 4096 mod 64), char_of (0x80 + r div 64 mod 64),
        char_of (0x80 + r mod 64)])"

text \<open>\<open>WriteRune\<close>.\<close>

definition EncodeRune :: "nat \<Rightarrow> string" where
  "EncodeRune r = encodeScalar (if scalar r then r else RuneError)"

definition ofRunes :: "nat list \<Rightarrow> string" where
  "ofRunes rs = concat (map EncodeRune rs)"

lemma digits64:
  fixes r :: nat
  shows "r = (r div 64) * 64 + r mod 64" "r div 64 = (r div 4096) * 64 + r div 64 mod 64"
    "r div 4096 = (r div 262144) * 64 + r div 4096 mod 64"
proof -
  have e: "r div 4096 = r div 64 div 64" "r div 262144 = r div 4096 div 64" by (simp_all flip: div_mult2_eq)
  show "r = (r div 64) * 64 + r mod 64" by simp
  show "r div 64 = (r div 4096) * 64 + r div 64 mod 64" unfolding e(1) by (rule div_mult_mod_eq [symmetric])
  show "r div 4096 = (r div 262144) * 64 + r div 4096 mod 64" unfolding e(2) by (rule div_mult_mod_eq [symmetric])
qed

lemma decode_encodeScalar:
  assumes "scalar r"
  shows "DecodeRune (encodeScalar r @ s) = (r, length (encodeScalar r))"
proof -
  consider "r \<le> 0x7F" | "0x7F < r" "r \<le> 0x7FF" | "0x7FF < r" "r \<le> 0xFFFF" | "0xFFFF < r" "r \<le> 0x10FFFF"
    using assms unfolding scalar_def by linarith
  then show ?thesis
  proof cases
    case 1
    then show ?thesis by (simp add: encodeScalar_def)
  next
    case 2
    then have "2 \<le> r div 64" "r div 64 \<le> 31" using div_le_mono [of 128 r 64] div_le_mono [of r 2047 64] by simp_all
    then show ?thesis using 2 by (simp add: encodeScalar_def Let_def accept2_def cont_def)
  next
    case 3
    have b: "r div 4096 \<le> 15" using 3(2) div_le_mono [of r 65535 4096] by simp
    have d: "r = (r div 4096) * 4096 + (r div 64 mod 64) * 64 + r mod 64" using digits64 [of r] by linarith
    have "accept2 (0xE0 + r div 4096) (0x80 + r div 64 mod 64)"
      using 3 b d assms mod_less_divisor [of 64 "r div 64"] mod_less_divisor [of 64 r]
      unfolding accept2_def cont_def scalar_def by (simp; linarith)
    then show ?thesis using 3 b d by (simp add: encodeScalar_def Let_def cont_def)
  next
    case 4
    have b: "r div 262144 \<le> 4" using 4(2) div_le_mono [of r 1114111 262144] by simp
    have d: "r = (r div 262144) * 262144 + (r div 4096 mod 64) * 4096 + (r div 64 mod 64) * 64 + r mod 64"
      using digits64 [of r] by linarith
    have "accept2 (0xF0 + r div 262144) (0x80 + r div 4096 mod 64)"
      using 4 b d mod_less_divisor [of 64 "r div 4096"] mod_less_divisor [of 64 "r div 64"] mod_less_divisor [of 64 r]
      unfolding accept2_def cont_def by (simp; linarith)
    moreover have "r div 4096 mod 64 \<le> 63" "r div 64 mod 64 \<le> 63" "r mod 64 \<le> 63" by (simp_all add: mod_less_divisor less_Suc_eq_le [symmetric])
    ultimately show ?thesis using 4 b d by (simp add: encodeScalar_def Let_def cont_def)
  qed
qed

lemma encodeScalar_nonempty: "encodeScalar r \<noteq> []"
  by (simp add: encodeScalar_def)

lemma toRunes_encode: "scalar r \<Longrightarrow> toRunes (encodeScalar r @ s) = r # toRunes s"
  using decode_encodeScalar [of r s] encodeScalar_nonempty [of r]
  by (subst toRunes_def, subst runeChunks.simps) (simp add: toRunes_def)

lemma toRunes_ofRunes: "\<forall>r \<in> set rs. scalar r \<Longrightarrow> toRunes (ofRunes rs) = rs"
proof (induction rs)
  case Nil
  then show ?case by (simp add: ofRunes_def toRunes_def runeChunks.simps)
next
  case (Cons r rs)
  then show ?case by (simp add: ofRunes_def EncodeRune_def toRunes_encode)
qed

end
