(* ===== verification/Folding.thy ===== *)
theory Folding
  imports Ast
begin

text \<open>
  Constant folding at parse time (\<open>internal/parser/fold.go\<close>): \<open>tryFoldUnary\<close> and \<open>tryFoldBinary\<close> apply an
  operator to literal operands and stamp the literal result on the node, or leave the node alone
  where the operator would raise. The lemmas compare the folded literal with the run-time operators
  of \<open>Arith\<close>.
\<close>

section \<open>The folder\<close>

definition maxFoldStringBytes :: nat where
  "maxFoldStringBytes = 64 * 2 ^ 10"

definition foldFloat :: "pos \<Rightarrow> float64 \<Rightarrow> expr option" where
  "foldFloat p v = (if is_inf v \<or> is_nan v then None else Some (FloatLit p v))"

fun asLit :: "expr \<Rightarrow> expr option" where
  "asLit (BinaryExpr _ _ _ _ fld) = (case fld of None \<Rightarrow> None | Some e \<Rightarrow> asLit e)"
| "asLit (UnaryExpr _ _ _ fld) = (case fld of None \<Rightarrow> None | Some e \<Rightarrow> asLit e)"
| "asLit (IntLit p n) = Some (IntLit p n)"
| "asLit (FloatLit p f) = Some (FloatLit p f)"
| "asLit (StringLit p s) = Some (StringLit p s)"
| "asLit (BoolLit p b) = Some (BoolLit p b)"
| "asLit (NullLit p) = Some (NullLit p)"
| "asLit _ = None"

fun litInt :: "expr \<Rightarrow> int64 option" where
  "litInt (IntLit _ n) = Some n"
| "litInt _ = None"

fun litFloat :: "expr \<Rightarrow> float64 option" where
  "litFloat (FloatLit _ f) = Some f"
| "litFloat _ = None"

fun litString :: "expr \<Rightarrow> string option" where
  "litString (StringLit _ s) = Some s"
| "litString _ = None"

fun litBool :: "expr \<Rightarrow> bool option" where
  "litBool (BoolLit _ b) = Some b"
| "litBool _ = None"

fun litIsNull :: "expr \<Rightarrow> bool" where
  "litIsNull (NullLit _) = True"
| "litIsNull _ = False"

definition tryFoldUnary :: "pos \<Rightarrow> unop \<Rightarrow> expr \<Rightarrow> expr option" where
  "tryFoldUnary p op operand0 = (case asLit operand0 of
     None \<Rightarrow> None
   | Some operand \<Rightarrow> (case op of
       OpNeg \<Rightarrow> (case litInt operand of
          Some v \<Rightarrow> if v = minInt64 then None else Some (IntLit p (- v))
        | None \<Rightarrow> (case litFloat operand of Some v \<Rightarrow> Some (FloatLit p (fneg v)) | None \<Rightarrow> None))
     | OpNot \<Rightarrow> (case litBool operand of Some v \<Rightarrow> Some (BoolLit p (\<not> v)) | None \<Rightarrow> None)
     | OpBitNot \<Rightarrow> (case litInt operand of Some v \<Rightarrow> Some (IntLit p (NOT v)) | None \<Rightarrow> None)))"

text \<open>The switches of \<open>tryFoldBinary\<close>, by the kinds of the two literals.\<close>

fun foldBool :: "pos \<Rightarrow> binop \<Rightarrow> bool \<Rightarrow> bool \<Rightarrow> expr option" where
  "foldBool p OpAnd l r = Some (BoolLit p (l \<and> r))"
| "foldBool p OpOr l r = Some (BoolLit p (l \<or> r))"
| "foldBool p OpEq l r = Some (BoolLit p (l = r))"
| "foldBool p OpNeq l r = Some (BoolLit p (l \<noteq> r))"
| "foldBool p _ l r = None"

fun foldString :: "pos \<Rightarrow> binop \<Rightarrow> string \<Rightarrow> string \<Rightarrow> expr option" where
  "foldString p OpEq l r = Some (BoolLit p (l = r))"
| "foldString p OpNeq l r = Some (BoolLit p (l \<noteq> r))"
| "foldString p OpLt l r = Some (BoolLit p (strLess l r))"
| "foldString p OpGt l r = Some (BoolLit p (strLess r l))"
| "foldString p OpLe l r = Some (BoolLit p (\<not> strLess r l))"
| "foldString p OpGe l r = Some (BoolLit p (\<not> strLess l r))"
| "foldString p _ l r = None"

fun foldIntCompare :: "pos \<Rightarrow> binop \<Rightarrow> int64 \<Rightarrow> int64 \<Rightarrow> expr option" where
  "foldIntCompare p OpEq l r = Some (BoolLit p (l = r))"
| "foldIntCompare p OpNeq l r = Some (BoolLit p (l \<noteq> r))"
| "foldIntCompare p OpLt l r = Some (BoolLit p (l <s r))"
| "foldIntCompare p OpGt l r = Some (BoolLit p (r <s l))"
| "foldIntCompare p OpLe l r = Some (BoolLit p (l \<le>s r))"
| "foldIntCompare p OpGe l r = Some (BoolLit p (r \<le>s l))"
| "foldIntCompare p _ l r = None"

fun foldFloatCompare :: "pos \<Rightarrow> binop \<Rightarrow> float64 \<Rightarrow> float64 \<Rightarrow> expr option" where
  "foldFloatCompare p OpEq l r = Some (BoolLit p (feq l r))"
| "foldFloatCompare p OpNeq l r = Some (BoolLit p (\<not> feq l r))"
| "foldFloatCompare p OpLt l r = Some (BoolLit p (flt l r))"
| "foldFloatCompare p OpGt l r = Some (BoolLit p (flt r l))"
| "foldFloatCompare p OpLe l r = Some (BoolLit p (fle l r))"
| "foldFloatCompare p OpGe l r = Some (BoolLit p (fle r l))"
| "foldFloatCompare p _ l r = None"

text \<open>The pure-int switch; \<open>None\<close> falls through to the float switch, \<open>Some None\<close> leaves the node unfolded.\<close>

fun foldIntArith :: "pos \<Rightarrow> binop \<Rightarrow> int64 \<Rightarrow> int64 \<Rightarrow> expr option option" where
  "foldIntArith p OpAdd li ri = Some (let s = li + ri in
     if (0 <s li \<and> 0 <s ri \<and> s <s 0) \<or> (li <s 0 \<and> ri <s 0 \<and> 0 \<le>s s) then None else Some (IntLit p s))"
| "foldIntArith p OpSub li ri = Some (let d = li - ri in
     if (0 \<le>s li \<and> ri <s 0 \<and> d <s 0) \<or> (li <s 0 \<and> 0 <s ri \<and> 0 \<le>s d) then None else Some (IntLit p d))"
| "foldIntArith p OpMul li ri = Some (
     if li = 0 \<or> ri = 0 then Some (IntLit p 0)
     else if (li = minInt64 \<and> ri = - 1) \<or> (ri = minInt64 \<and> li = - 1) then None
     else let q = li * ri in if go_quot q li \<noteq> ri then None else Some (IntLit p q))"
| "foldIntArith p OpFloorDiv li ri = Some (
     if ri = 0 \<or> (li = minInt64 \<and> ri = - 1) then None
     else let q = go_quot li ri in
       Some (IntLit p (if go_rem li ri \<noteq> 0 \<and> (li <s 0) \<noteq> (ri <s 0) then q - 1 else q)))"
| "foldIntArith p OpMod li ri = Some (
     if ri = 0 then None
     else let r = go_rem li ri in Some (IntLit p (if r \<noteq> 0 \<and> (r <s 0) \<noteq> (ri <s 0) then r + ri else r)))"
| "foldIntArith p OpBitAnd li ri = Some (Some (IntLit p (li AND ri)))"
| "foldIntArith p OpBitOr li ri = Some (Some (IntLit p (li OR ri)))"
| "foldIntArith p OpBitXor li ri = Some (Some (IntLit p (li XOR ri)))"
| "foldIntArith p OpShl li ri = Some (
     if ri <s 0 then None
     else if 64 \<le>s ri then Some (IntLit p 0)
     else Some (IntLit p (push_bit (unat ri) li)))"
| "foldIntArith p OpShr li ri = Some (
     if ri <s 0 then None
     else if 64 \<le>s ri then Some (IntLit p (if li <s 0 then - 1 else 0))
     else Some (IntLit p (signed_drop_bit (unat ri) li)))"
| "foldIntArith p _ li ri = None"

fun foldFloatArith :: "pos \<Rightarrow> binop \<Rightarrow> float64 \<Rightarrow> float64 \<Rightarrow> expr option" where
  "foldFloatArith p OpAdd lf rf = foldFloat p (fadd lf rf)"
| "foldFloatArith p OpSub lf rf = foldFloat p (fsub lf rf)"
| "foldFloatArith p OpMul lf rf = foldFloat p (fmul lf rf)"
| "foldFloatArith p OpDiv lf rf = (if feq rf fzero then None else foldFloat p (fdiv lf rf))"
| "foldFloatArith p _ lf rf = None"

text \<open>A numeric literal as a float, an int promoted.\<close>

definition litNum :: "expr \<Rightarrow> float64 option" where
  "litNum e = (case litInt e of Some n \<Rightarrow> Some (float_of_int64 n) | None \<Rightarrow> litFloat e)"

definition foldNumeric :: "pos \<Rightarrow> binop \<Rightarrow> expr \<Rightarrow> expr \<Rightarrow> expr option" where
  "foldNumeric p op left right = (case (litNum left, litNum right) of
     (Some lf, Some rf) \<Rightarrow>
       (case (litInt left, litInt right) of
          (Some li, Some ri) \<Rightarrow>
            (if IsComparison op then foldIntCompare p op li ri
             else case foldIntArith p op li ri of Some r \<Rightarrow> r | None \<Rightarrow> foldFloatArith p op lf rf)
        | _ \<Rightarrow>
            (if IsComparison op then
               (if (litInt left \<noteq> None) \<noteq> (litInt right \<noteq> None) then None else foldFloatCompare p op lf rf)
             else foldFloatArith p op lf rf))
   | _ \<Rightarrow> None)"

definition foldLits :: "pos \<Rightarrow> binop \<Rightarrow> expr \<Rightarrow> expr \<Rightarrow> expr option" where
  "foldLits p op left right =
     (case (litString left, litString right) of
        (Some l, Some r) \<Rightarrow>
          if op = OpAdd then (if length l + length r > maxFoldStringBytes then None else Some (StringLit p (l @ r)))
          else foldString p op l r
      | _ \<Rightarrow> (case (litBool left, litBool right) of
        (Some l, Some r) \<Rightarrow> foldBool p op l r
      | _ \<Rightarrow>
          if litIsNull left \<and> litIsNull right \<and> op = OpEq then Some (BoolLit p True)
          else if litIsNull left \<and> litIsNull right \<and> op = OpNeq then Some (BoolLit p False)
          else foldNumeric p op left right))"

definition tryFoldBinary :: "pos \<Rightarrow> binop \<Rightarrow> expr \<Rightarrow> expr \<Rightarrow> expr option" where
  "tryFoldBinary p op left0 right0 = (case (asLit left0, asLit right0) of
     (Some left, Some right) \<Rightarrow> foldLits p op left right
   | _ \<Rightarrow> None)"

section \<open>Folding agrees with the run-time operators\<close>

fun litValue :: "expr \<Rightarrow> Value option" where
  "litValue (IntLit _ n) = Some (VInt n)"
| "litValue (FloatLit _ f) = Some (VFloat f)"
| "litValue (StringLit _ s) = Some (VString s)"
| "litValue (BoolLit _ b) = Some (VBool b)"
| "litValue (NullLit _) = Some VNull"
| "litValue _ = None"

text \<open>\<open>and\<close> and \<open>or\<close> on evaluated operands, the right one only looked at when the left one does not
  decide (\<open>evalLogical\<close>).\<close>

definition logicalOp :: "binop \<Rightarrow> Value \<Rightarrow> Value \<Rightarrow> pos \<Rightarrow> pos \<Rightarrow> Value result" where
  "logicalOp op lv rv pl pr = (case lv of
     VBool l \<Rightarrow>
       if op = OpAnd \<and> \<not> l then Inr (VBool False)
       else if op = OpOr \<and> l then Inr (VBool True)
       else (case rv of VBool r \<Rightarrow> Inr (VBool r)
         | _ \<Rightarrow> Inl (rtErr ''right operand of `%s` must be bool, got %s'' [AOp op, AKind (Kind rv)] pr))
   | _ \<Rightarrow> Inl (rtErr ''left operand of `%s` must be bool, got %s'' [AOp op, AKind (Kind lv)] pl))"

definition runtimeOp :: "(nat \<Rightarrow> nat \<Rightarrow> bool) \<Rightarrow> binop \<Rightarrow> Value \<Rightarrow> Value \<Rightarrow> pos \<Rightarrow> pos \<Rightarrow> pos \<Rightarrow> Value result" where
  "runtimeOp N op lv rv p pl pr = (if IsLogical op then logicalOp op lv rv pl pr else binaryOp N op lv rv p)"

lemma asLit_is_lit: "asLit e = Some l \<Longrightarrow> litValue l \<noteq> None \<and> asLit l = Some l"
  by (induction e rule: asLit.induct) (auto split: option.splits)

abbreviation folds_to :: "(nat \<Rightarrow> nat \<Rightarrow> bool) \<Rightarrow> binop \<Rightarrow> Value \<Rightarrow> Value \<Rightarrow> pos \<Rightarrow> pos \<Rightarrow> pos \<Rightarrow> expr \<Rightarrow> bool" where
  "folds_to N op lv rv p pl pr e \<equiv> \<exists>v. litValue e = Some v \<and> runtimeOp N op lv rv p pl pr = Inr v"

lemmas runtime_defs = runtimeOp_def IsLogical_def binaryOp_def evalComparison_def evalArithmetic_def evalBitOp_def
  orderBool_def logicalOp_def

lemma foldBool_sound: "foldBool p op l r = Some e \<Longrightarrow> folds_to N op (VBool l) (VBool r) p pl pr e"
  by (cases op) (auto simp: runtime_defs)

lemma foldString_sound: "foldString p op l r = Some e \<Longrightarrow> folds_to N op (VString l) (VString r) p pl pr e"
  by (cases op) (auto simp: runtime_defs)

lemma foldIntCompare_sound: "foldIntCompare p op l r = Some e \<Longrightarrow> folds_to N op (VInt l) (VInt r) p pl pr e"
  by (cases op) (auto simp: runtime_defs)

lemma foldFloatCompare_sound:
  "foldFloatCompare p op l r = Some e \<Longrightarrow> folds_to N op (VFloat l) (VFloat r) p pl pr e"
  by (cases op) (auto simp: runtime_defs)

lemma foldFloat_fin: "foldFloat p v = Some e \<Longrightarrow> e = FloatLit p v \<and> feq (fsub v v) fzero"
  by (auto simp: foldFloat_def feq_self_diff is_fin_def split: if_splits)

lemma foldFloatArith_sound:
  assumes "foldFloatArith p op lf rf = Some e" "AsFloat lv = Some lf" "AsFloat rv = Some rf"
    "op = OpDiv \<or> Kind lv = KindFloat \<or> Kind rv = KindFloat"
  shows "folds_to N op lv rv p pl pr e"
proof -
  have "\<exists>r. e = FloatLit p r \<and> floatSection op lv rv p = Inr (VFloat r)"
    using assms(1-3) by (cases op) (auto simp: floatSection_def dest!: foldFloat_fin split: if_splits)
  moreover have "evalArithmetic op lv rv p = floatSection op lv rv p"
    using assms(2-4) by (cases lv; cases rv) (auto simp: evalArithmetic_def)
  moreover have "\<not> IsComparison op \<and> \<not> isBitOp op \<and> \<not> IsLogical op"
    using assms(1) by (cases op) (auto simp: IsLogical_def)
  ultimately show ?thesis by (auto simp: runtimeOp_def binaryOp_def)
qed

text \<open>The folder's inline integer tests are those of the run-time helpers.\<close>

lemma foldIntArith_helpers:
  "foldIntArith p OpAdd li ri = Some (if snd (addOverflow li ri) then None else Some (IntLit p (fst (addOverflow li ri))))"
  "foldIntArith p OpSub li ri = Some (if snd (subOverflow li ri) then None else Some (IntLit p (fst (subOverflow li ri))))"
  "foldIntArith p OpMul li ri = Some (if snd (mulOverflow li ri) then None else Some (IntLit p (fst (mulOverflow li ri))))"
  "foldIntArith p OpFloorDiv li ri = Some (if ri = 0 \<or> (li = minInt64 \<and> ri = - 1) then None else Some (IntLit p (flooredDiv li ri)))"
  "foldIntArith p OpMod li ri = Some (if ri = 0 then None else Some (IntLit p (flooredMod li ri)))"
  by (simp_all add: addOverflow_def subOverflow_def mulOverflow_def flooredDiv_def flooredMod_def Let_def)

lemma foldIntArith_sound:
  assumes "foldIntArith p op li ri = Some (Some e)"
  shows "folds_to N op (VInt li) (VInt ri) p pl pr e"
proof (cases "isBitOp op")
  case True
  then show ?thesis using assms
    by (cases op) (simp_all add: runtimeOp_def IsLogical_def binaryOp_def evalBitOp_def, (fastforce split: if_splits)+)
next
  case False
  then show ?thesis using assms
    by (cases op) (simp_all only: foldIntArith_helpers foldIntArith.simps isBitOp.simps,
      auto simp: runtimeOp_def IsLogical_def binaryOp_def evalArithmetic_def split: if_splits prod.splits)
qed

lemma foldIntArith_None: "foldIntArith p op li ri = None \<Longrightarrow> foldFloatArith p op lf rf = Some e \<Longrightarrow> op = OpDiv"
  by (cases op) auto

lemma foldNumeric_sound:
  assumes "foldNumeric p op l r = Some e" "litValue l = Some lv" "litValue r = Some rv"
  shows "folds_to N op lv rv p pl pr e"
proof -
  consider (ints) li ri where "lv = VInt li" "rv = VInt ri" "litInt l = Some li" "litInt r = Some ri"
    | (floats) lf rf where "lv = VFloat lf" "rv = VFloat rf" "litInt l = None" "litInt r = None" "litFloat l = Some lf" "litFloat r = Some rf"
    | (intfloat) li rf where "lv = VInt li" "rv = VFloat rf" "litInt l = Some li" "litInt r = None" "litFloat r = Some rf"
    | (floatint) lf ri where "lv = VFloat lf" "rv = VInt ri" "litInt l = None" "litInt r = Some ri" "litFloat l = Some lf"
    using assms by (cases l; cases r) (auto simp: foldNumeric_def litNum_def)
  then show ?thesis
  proof cases
    case ints
    show ?thesis
    proof (cases "IsComparison op")
      case True
      with ints assms show ?thesis by (simp add: foldNumeric_def litNum_def foldIntCompare_sound)
    next
      case False
      show ?thesis
      proof (cases "foldIntArith p op li ri")
        case None
        then have f: "foldFloatArith p op (float_of_int64 li) (float_of_int64 ri) = Some e"
          using ints assms False by (simp add: foldNumeric_def litNum_def)
        show ?thesis using foldIntArith_None [OF None f] ints by (intro foldFloatArith_sound [OF f]) simp_all
      next
        case (Some x)
        then show ?thesis using ints assms False foldIntArith_sound by (auto simp: foldNumeric_def litNum_def)
      qed
    qed
  next
    case floats
    then show ?thesis using assms foldFloatCompare_sound [of p op lf rf e] foldFloatArith_sound [of p op lf rf e lv rv]
      by (auto simp: foldNumeric_def litNum_def split: if_splits)
  next
    case intfloat
    then show ?thesis using assms foldFloatArith_sound [of p op "float_of_int64 li" rf e lv rv]
      by (auto simp: foldNumeric_def litNum_def split: if_splits)
  next
    case floatint
    then show ?thesis using assms foldFloatArith_sound [of p op lf "float_of_int64 ri" e lv rv]
      by (auto simp: foldNumeric_def litNum_def split: if_splits)
  qed
qed

text \<open>A folded node is the literal of the value its operator computes from the literal operands, whatever
  the operator, and only for operands on which it does not raise.\<close>

lemma foldLits_sound:
  assumes "foldLits p op l r = Some e" "litValue l = Some lv" "litValue r = Some rv"
  shows "folds_to N op lv rv p pl pr e"
proof -
  consider (str) q1 q2 s t where "l = StringLit q1 s" "r = StringLit q2 t"
    | (bool) q1 q2 a b where "l = BoolLit q1 a" "r = BoolLit q2 b"
    | (null) "litIsNull l" "litIsNull r" "op = OpEq \<or> op = OpNeq"
    | (num) "foldNumeric p op l r = Some e"
    using assms by (cases l; cases r) (auto simp: foldLits_def split: if_splits)
  then show ?thesis
  proof cases
    case str
    then have [simp]: "litString l = Some s" "litString r = Some t" "lv = VString s" "rv = VString t"
      using assms(2,3) by auto
    show ?thesis
    proof (cases "op = OpAdd")
      case True
      with assms(1) show ?thesis by (auto simp: foldLits_def runtime_defs split: if_splits)
    next
      case False
      with assms(1) have "foldString p op s t = Some e" by (simp add: foldLits_def)
      then show ?thesis by (simp add: foldString_sound)
    qed
  next
    case bool
    then have [simp]: "litString l = None" "litBool l = Some a" "litBool r = Some b" "lv = VBool a" "rv = VBool b"
      using assms(2,3) by auto
    from assms(1) have "foldBool p op a b = Some e" by (simp add: foldLits_def)
    then show ?thesis by (simp add: foldBool_sound)
  next
    case null
    then obtain p1 p2 where "l = NullLit p1" "r = NullLit p2" by (metis litIsNull.elims(2))
    with assms null show ?thesis by (auto simp: foldLits_def runtime_defs)
  next
    case num
    then show ?thesis using assms(2,3) by (rule foldNumeric_sound)
  qed
qed

lemma tryFoldUnary_sound:
  assumes "tryFoldUnary p op e0 = Some e" "asLit e0 = Some l" "litValue l = Some lv"
  shows "\<exists>v. litValue e = Some v \<and> unaryOp op lv p = Inr v"
  using assms by (cases op; cases l) (auto simp: tryFoldUnary_def split: if_splits)

end
