(* ===== verification/Exec.thy ===== *)
theory Exec
  imports Lvalue IntFast Utf8 Folding
begin

text \<open>
  The state the interpreter threads through evaluation and the computations over it. A computation
  returns \<open>None\<close> when the fuel of the evaluator is used up, and otherwise a result or an error with
  the state it leaves behind: errors do not undo effects. The goroutine's call-depth counter
  (\<open>CallChain.n\<close>) and recursion-memory counter (\<open>chainBytes\<close>) are fields of the state, the frames of the
  current scope chain are its environment, and \<open>'w\<close> is whatever library functions act on.
\<close>

section \<open>State\<close>

record 'w state =
  st_env :: env
  st_depth :: int
  st_chain :: int
  st_het :: handles
  st_world :: 'w

text \<open>A library function: it sees the call position and the arguments and acts on the world. Its error is
  a signal of the interpreter or any other Go error, known by its text.\<close>

datatype goErr = Signal err | GoError string

type_synonym 'w builtin = "pos \<Rightarrow> Value list \<Rightarrow> 'w \<Rightarrow> (goErr + Value) \<times> 'w"

text \<open>What the interpreter's tables hold for one program without module imports, with the limits of the
  build.\<close>

record 'w interp =
  methods :: "string \<Rightarrow> methodDef option"
  structs :: "string \<Rightarrow> structDef option"
  enums :: "string \<Rightarrow> enumDef option"
  NSStructs :: "string \<times> string \<Rightarrow> structDef option"
  objectTypes :: "string \<times> string \<Rightarrow> bool"
  objectZeros :: "string \<times> string \<Rightarrow> nat option"
  Builtins :: "string \<Rightarrow> (string \<times> 'w builtin) option"
  imported :: "string \<Rightarrow> bool"
  LibConstants :: "string \<Rightarrow> (string \<times> Value) option"
  NSBuiltins :: "string \<times> string \<Rightarrow> 'w builtin option"
  NSConstants :: "string \<times> string \<Rightarrow> Value option"
  nsPrefixes :: "string \<Rightarrow> string option"
  nsAliasedAway :: "string \<Rightarrow> string option"
  knownNamespaces :: "string \<Rightarrow> bool"
  entryGlobalsImmutable :: bool
  spawnReentry :: bool
  disp :: displayer
  eqNative :: "nat \<Rightarrow> nat \<Rightarrow> bool"
  MaxCallDepth :: int
  copyChainBudget :: int
  MaxRangeElements :: int
  valueCellBytes :: int

text \<open>\<open>blockResult\<close>: at most one of its flags is set.\<close>

datatype flow = FNone | FReturn Value | FBreak pos | FContinue pos

definition flowsOut :: "flow \<Rightarrow> bool" where
  "flowsOut r \<longleftrightarrow> r \<noteq> FNone"

section \<open>Computations\<close>

type_synonym ('w, 'a) M = "'w state \<Rightarrow> ('a result \<times> 'w state) option"

definition retM :: "'a \<Rightarrow> ('w, 'a) M" where
  "retM x = (\<lambda>s. Some (Inr x, s))"

definition failM :: "err \<Rightarrow> ('w, 'a) M" where
  "failM e = (\<lambda>s. Some (Inl e, s))"

definition liftR :: "'a result \<Rightarrow> ('w, 'a) M" where
  "liftR r = (\<lambda>s. Some (r, s))"

definition getsM :: "('w state \<Rightarrow> 'a) \<Rightarrow> ('w, 'a) M" where
  "getsM f = (\<lambda>s. Some (Inr (f s), s))"

definition modM :: "('w state \<Rightarrow> 'w state) \<Rightarrow> ('w, unit) M" where
  "modM f = (\<lambda>s. Some (Inr (), f s))"

definition bindM :: "('w, 'a) M \<Rightarrow> ('a \<Rightarrow> ('w, 'b) M) \<Rightarrow> ('w, 'b) M" where
  "bindM m f = (\<lambda>s. case m s of
     None \<Rightarrow> None
   | Some (r, s') \<Rightarrow> (case r of Inl e \<Rightarrow> Some (Inl e, s') | Inr x \<Rightarrow> f x s'))"

definition thenM :: "('w, 'a) M \<Rightarrow> ('w, 'b) M \<Rightarrow> ('w, 'b) M" where
  "thenM m m' = bindM m (\<lambda>_. m')"

text \<open>The outcome of a computation, error or not, as a value.\<close>

definition attemptM :: "('w, 'a) M \<Rightarrow> ('w, 'a result) M" where
  "attemptM m = (\<lambda>s. case m s of None \<Rightarrow> None | Some (r, s') \<Rightarrow> Some (Inr r, s'))"

definition outOfFuel :: "('w, 'a) M" where
  "outOfFuel = (\<lambda>s. None)"

text \<open>One operand or block deeper: the counter goes up and comes back down whatever happens.\<close>

definition deeperM :: "('w, 'a) M \<Rightarrow> ('w, 'a) M" where
  "deeperM m = (\<lambda>s. case m (s\<lparr>st_depth := st_depth s + 1\<rparr>) of
     None \<Rightarrow> None
   | Some (r, s') \<Rightarrow> Some (r, s'\<lparr>st_depth := st_depth s' - 1\<rparr>))"

text \<open>\<open>releaseBlockEnv\<close> of the innermost frame: its bytes leave the shared counter and the frame the chain.\<close>

definition releaseTop :: "'w state \<Rightarrow> 'w state" where
  "releaseTop s = s\<lparr>st_env := tl (st_env s), st_chain := st_chain s - frameBytes (hd (st_env s))\<rparr>"

text \<open>A computation in a fresh frame of \<open>n\<close> slots on top of the current scope.\<close>

definition scopedM :: "nat \<Rightarrow> ('w, 'a) M \<Rightarrow> ('w, 'a) M" where
  "scopedM n m = (\<lambda>s. case m (s\<lparr>st_env := borrowBlockEnv (st_env s) n\<rparr>) of
     None \<Rightarrow> None
   | Some (r, s') \<Rightarrow> Some (r, releaseTop s'))"

text \<open>A computation in a call frame over the root of the current chain (\<open>effectiveGlobal\<close>).\<close>

definition calledM :: "frame \<Rightarrow> ('w, 'a) M \<Rightarrow> ('w, 'a) M" where
  "calledM cf m = (\<lambda>s. case m (s\<lparr>st_env := [cf, last (st_env s)]\<rparr>) of
     None \<Rightarrow> None
   | Some (r, s') \<Rightarrow> Some (r, (releaseTop s')\<lparr>st_env := butlast (st_env s) @ [last (st_env s')]\<rparr>))"

text \<open>An environment operation that succeeds or raises at \<open>p\<close>.\<close>

definition envM :: "pos \<Rightarrow> (handles \<Rightarrow> env \<Rightarrow> emsg + env) \<Rightarrow> ('w, unit) M" where
  "envM p f = (\<lambda>s. case f (st_het s) (st_env s) of
     Inl (m, args) \<Rightarrow> Some (Inl (rtErr m args p), s)
   | Inr e \<Rightarrow> Some (Inr (), s\<lparr>st_env := e\<rparr>))"

definition lookupM :: "pos \<Rightarrow> (env \<Rightarrow> emsg + 'a) \<Rightarrow> ('w, 'a) M" where
  "lookupM p f = (\<lambda>s. case f (st_env s) of
     Inl (m, args) \<Rightarrow> Some (Inl (rtErr m args p), s)
   | Inr x \<Rightarrow> Some (Inr x, s))"

text \<open>\<open>accountCopy\<close>: what a copy bound in the innermost frame adds to the memory counters.\<close>

definition addBytes :: "int \<Rightarrow> env \<Rightarrow> env" where
  "addBytes n e = (case e of [] \<Rightarrow> [] | f # fs \<Rightarrow> f\<lparr>frameBytes := frameBytes f + n\<rparr> # fs)"

definition accountCopy :: "'w interp \<Rightarrow> Value \<Rightarrow> ('w, unit) M" where
  "accountCopy I v = modM (\<lambda>s. let n = shallowValueBytes (valueCellBytes I) v in
     if n \<noteq> 0 then s\<lparr>st_env := addBytes n (st_env s), st_chain := st_chain s + n\<rparr> else s)"

text \<open>Stamping writes the set-once cells of handles.\<close>

definition stampM :: "Value \<Rightarrow> ty \<Rightarrow> ('w, Value) M" where
  "stampM v t = (\<lambda>s. case stampDeclaredType (st_het s) v t of (v', h) \<Rightarrow> Some (Inr v', s\<lparr>st_het := h\<rparr>))"

text \<open>A loop whose body says \<open>None\<close> to go on and \<open>Some r\<close> to leave with \<open>r\<close>; the fuel bounds the rounds.\<close>

primrec loopM :: "nat \<Rightarrow> ('w, flow option) M \<Rightarrow> ('w, flow) M" where
  "loopM 0 body = outOfFuel"
| "loopM (Suc n) body = bindM body (\<lambda>r. case r of Some x \<Rightarrow> retM x | None \<Rightarrow> loopM n body)"

text \<open>A loop over a list.\<close>

primrec eachM :: "'a list \<Rightarrow> ('a \<Rightarrow> ('w, flow option) M) \<Rightarrow> ('w, flow) M" where
  "eachM [] body = retM FNone"
| "eachM (x # xs) body = bindM (body x) (\<lambda>r. case r of Some y \<Rightarrow> retM y | None \<Rightarrow> eachM xs body)"

text \<open>The evaluation of a list of things, in order.\<close>

primrec mapM :: "('a \<Rightarrow> ('w, 'b) M) \<Rightarrow> 'a list \<Rightarrow> ('w, 'b list) M" where
  "mapM f [] = retM []"
| "mapM f (x # xs) = bindM (f x) (\<lambda>y. bindM (mapM f xs) (\<lambda>ys. retM (y # ys)))"

text \<open>The evaluator being defined, as the interpreter's recursive calls see it.\<close>

record 'w evaluator =
  evE :: "expr \<Rightarrow> ('w, Value) M"
  evS :: "stmt \<Rightarrow> ('w, flow) M"
  fuel :: nat

section \<open>More fuel\<close>

text \<open>\<open>m\<close> with more fuel: every outcome stays.\<close>

definition leM :: "('w, 'a) M \<Rightarrow> ('w, 'a) M \<Rightarrow> bool" where
  "leM m m' \<longleftrightarrow> (\<forall>s x. m s = Some x \<longrightarrow> m' s = Some x)"

lemma leM_refl [simp, intro]: "leM m m"
  by (simp add: leM_def)

lemma leM_bind [intro]: "leM m m' \<Longrightarrow> (\<And>x. leM (f x) (f' x)) \<Longrightarrow> leM (bindM m f) (bindM m' f')"
  by (fastforce simp: leM_def bindM_def split: option.splits sum.splits prod.splits)

lemma leM_then [intro]: "leM m m' \<Longrightarrow> leM n n' \<Longrightarrow> leM (thenM m n) (thenM m' n')"
  unfolding thenM_def by (rule leM_bind)

lemma leM_attempt [intro]: "leM m m' \<Longrightarrow> leM (attemptM m) (attemptM m')"
  by (fastforce simp: leM_def attemptM_def split: option.splits)

lemma leM_deeper [intro]: "leM m m' \<Longrightarrow> leM (deeperM m) (deeperM m')"
  by (fastforce simp: leM_def deeperM_def split: option.splits)

lemma leM_scoped [intro]: "leM m m' \<Longrightarrow> leM (scopedM n m) (scopedM n m')"
  by (fastforce simp: leM_def scopedM_def split: option.splits)

lemma leM_called [intro]: "leM m m' \<Longrightarrow> leM (calledM cf m) (calledM cf m')"
  by (fastforce simp: leM_def calledM_def split: option.splits)

lemma leM_outOfFuel [intro]: "leM outOfFuel m"
  by (simp add: leM_def outOfFuel_def)

lemma leM_loop [intro]: "leM body body' \<Longrightarrow> n \<le> n' \<Longrightarrow> leM (loopM n body) (loopM n' body')"
proof (induction n arbitrary: n')
  case (Suc n)
  then obtain k where k: "n' = Suc k" "n \<le> k" by (cases n') auto
  show ?case unfolding k loopM.simps
    by (rule leM_bind [OF Suc.prems(1)]) (auto split: option.split simp: Suc.IH [OF Suc.prems(1) k(2)])
qed auto

lemma leM_each [intro]: "(\<And>x. leM (body x) (body' x)) \<Longrightarrow> leM (eachM xs body) (eachM xs body')"
  by (induction xs) (auto intro!: leM_bind split: option.split)

lemma leM_map [intro]: "(\<And>x. x \<in> set xs \<Longrightarrow> leM (f x) (f' x)) \<Longrightarrow> leM (mapM f xs) (mapM f' xs)"
  by (induction xs) (auto intro!: leM_bind)

section \<open>Relations between the state before and after\<close>

definition respM :: "('w state \<Rightarrow> 'w state \<Rightarrow> bool) \<Rightarrow> ('w, 'a) M \<Rightarrow> bool" where
  "respM R m \<longleftrightarrow> (\<forall>s r s'. m s = Some (r, s') \<longrightarrow> R s s')"

end
