(* ===== verification/Eval.thy ===== *)
theory Eval
  imports Exec
begin

text \<open>
  The tree-walking evaluator (\<open>internal/interpreter/interpreter.go\<close>): one definition per \<open>eval\<close> and \<open>exec\<close>
  function, over the state and computations of \<open>Exec\<close>. Recursive calls go through the evaluator
  record \<open>ev\<close>; \<open>run\<close> ties the knot with fuel. Module imports, \<open>spawn\<close> and the profiler are left out: the
  module tables of the source are empty here, and evaluating a \<open>spawn\<close> has no outcome.
\<close>

section \<open>Names and definitions\<close>

definition lookupStructDef :: "'w interp \<Rightarrow> string \<Rightarrow> string \<Rightarrow> string \<Rightarrow> structDef option" where
  "lookupStructDef I ns n modPath =
     (if modPath \<noteq> [] then None
      else if ns \<noteq> [] then NSStructs I (ns, n)
      else structs I n)"

definition lookupEnumDef :: "'w interp \<Rightarrow> string \<Rightarrow> string \<Rightarrow> string \<Rightarrow> enumDef option" where
  "lookupEnumDef I ns n modPath = (if modPath \<noteq> [] \<or> ns \<noteq> [] then None else enums I n)"

definition isEnumType :: "'w interp \<Rightarrow> string \<Rightarrow> string \<Rightarrow> string \<Rightarrow> bool" where
  "isEnumType I ns n modPath \<longleftrightarrow> lookupEnumDef I ns n modPath \<noteq> None"

text \<open>The zero of an opaque object type: the payload its library registered, else a wrapped null.\<close>

definition zeroObject :: "'w interp \<Rightarrow> string \<Rightarrow> string \<Rightarrow> Value" where
  "zeroObject I ns n = VObject ns n (Some (0, case objectZeros I (ns, n) of Some z \<Rightarrow> Inr z | None \<Rightarrow> Inl VNull))"

definition resolveNamespacePrefix :: "'w interp \<Rightarrow> string \<Rightarrow> emsg + string" where
  "resolveNamespacePrefix I prefix = (case nsPrefixes I prefix of
     Some ns \<Rightarrow> Inr ns
   | None \<Rightarrow> (case nsAliasedAway I prefix of
        Some alias \<Rightarrow> Inl (''namespace %q is aliased; did you mean `%s`?'', [AStr prefix, AStr alias])
      | None \<Rightarrow>
          if knownNamespaces I prefix then Inl (''namespace %q requires `use %s;`'', [AStr prefix, AStr prefix])
          else Inl (''unknown namespace %q'', [AStr prefix])))"

definition emsgErr :: "pos \<Rightarrow> emsg \<Rightarrow> err" where
  "emsgErr p m = rtErr (fst m) (snd m) p"

text \<open>\<open>resolveDeclaredStructNS\<close>: library aliases in a declared type become canonical namespaces, and every
  struct it names must exist.\<close>

fun resolveDeclaredStructNS :: "'w interp \<Rightarrow> ty \<Rightarrow> pos \<Rightarrow> ty result" where
  "resolveDeclaredStructNS I (TypeStruct n ns mp) p =
     (if ns \<noteq> [] then
        (case resolveNamespacePrefix I ns of
           Inl m \<Rightarrow> Inl (emsgErr p m)
         | Inr canonical \<Rightarrow>
             if NSStructs I (canonical, n) = None
             then Inl (rtErr ''unknown struct type %s.%s'' [AStr ns, AStr n] p)
             else Inr (TypeStruct n canonical mp))
      else if structs I n = None \<and> enums I n = None then Inl (rtErr ''unknown struct type %q'' [AStr n] p)
      else Inr (TypeStruct n ns mp))"
| "resolveDeclaredStructNS I (TypeList (Some t)) p = rbind (resolveDeclaredStructNS I t p) (\<lambda>t'. Inr (TypeList (Some t')))"
| "resolveDeclaredStructNS I (TypeTask (Some t)) p = rbind (resolveDeclaredStructNS I t p) (\<lambda>t'. Inr (TypeTask (Some t')))"
| "resolveDeclaredStructNS I (TypeChannel (Some t)) p = rbind (resolveDeclaredStructNS I t p) (\<lambda>t'. Inr (TypeChannel (Some t')))"
| "resolveDeclaredStructNS I (TypeMap (Some k) (Some v)) p = rbind (resolveDeclaredStructNS I k p) (\<lambda>k'.
     rbind (resolveDeclaredStructNS I v p) (\<lambda>v'. Inr (TypeMap (Some k') (Some v'))))"
| "resolveDeclaredStructNS I t p = Inr t"

section \<open>Zero values of structs and enums\<close>

text \<open>The mutual recursion of \<open>zeroStructFor\<close>, \<open>zeroEnumFor\<close> and \<open>zeroPayload\<close> follows field types; \<open>None\<close>
  when it goes deeper than \<open>k\<close> definitions, which only a cyclic definition can (the program is
  refused at load then).\<close>

fun zeroField :: "'w interp \<Rightarrow> nat \<Rightarrow> pos \<Rightarrow> ty \<Rightarrow> Value result option" and
  zeroPayload :: "'w interp \<Rightarrow> nat \<Rightarrow> pos \<Rightarrow> structField list \<Rightarrow> (string \<times> Value) list result option" and
  zeroStructFor :: "'w interp \<Rightarrow> nat \<Rightarrow> pos \<Rightarrow> string \<Rightarrow> string \<Rightarrow> string \<Rightarrow> Value result option" and
  zeroEnumFor :: "'w interp \<Rightarrow> nat \<Rightarrow> pos \<Rightarrow> string \<Rightarrow> string \<Rightarrow> string \<Rightarrow> Value result option" where
  "zeroField I k p (TypeStruct n ns mp) =
     (if isEnumType I ns n mp then zeroEnumFor I k p ns n mp
      else zeroStructFor I k p (case resolveNamespacePrefix I ns of Inr c \<Rightarrow> if ns \<noteq> [] then c else ns | Inl _ \<Rightarrow> ns) n mp)"
| "zeroField I k p t = Some (Inr (stampValue (ZeroFor t) t))"
| "zeroPayload I k p [] = Some (Inr [])"
| "zeroPayload I k p (f # fs) = (case zeroField I k p (fType f) of
     None \<Rightarrow> None
   | Some (Inl e) \<Rightarrow> Some (Inl e)
   | Some (Inr v) \<Rightarrow> (case zeroPayload I k p fs of
        None \<Rightarrow> None
      | Some (Inl e) \<Rightarrow> Some (Inl e)
      | Some (Inr vs) \<Rightarrow> Some (Inr ((fName f, v) # vs))))"
| "zeroStructFor I 0 p ns n mp = None"
| "zeroStructFor I (Suc k) p ns n mp =
     (if ns \<noteq> [] \<and> objectTypes I (ns, n) then Some (Inr (zeroObject I ns n))
      else case lookupStructDef I ns n mp of
        None \<Rightarrow> Some (Inl (if ns \<noteq> [] then rtErr ''unknown struct %s.%s'' [AStr ns, AStr n] p
                          else rtErr ''unknown struct %q'' [AStr n] p))
      | Some def \<Rightarrow> (case zeroPayload I k p (sFields def) of
          None \<Rightarrow> None
        | Some (Inl e) \<Rightarrow> Some (Inl e)
        | Some (Inr fs) \<Rightarrow> Some (Inr (VStruct ns n [] fs))))"
| "zeroEnumFor I 0 p ns n mp = None"
| "zeroEnumFor I (Suc k) p ns n mp = (case lookupEnumDef I ns n mp of
     None \<Rightarrow> Some (Inl (if ns \<noteq> [] then rtErr ''unknown enum %s.%s'' [AStr ns, AStr n] p
                       else rtErr ''unknown enum %q'' [AStr n] p))
   | Some def \<Rightarrow> (case edVariants def of
        [] \<Rightarrow> None
      | v0 # _ \<Rightarrow> (case zeroPayload I k p (evFields v0) of
          None \<Rightarrow> None
        | Some (Inl e) \<Rightarrow> Some (Inl e)
        | Some (Inr fs) \<Rightarrow> Some (Inr (VEnum ns mp n (evName v0) fs)))))"

definition optM :: "'a result option \<Rightarrow> ('w, 'a) M" where
  "optM r = (case r of None \<Rightarrow> outOfFuel | Some x \<Rightarrow> liftR x)"

section \<open>Expressions\<close>

abbreviation rtFail :: "string \<Rightarrow> fmtarg list \<Rightarrow> pos \<Rightarrow> ('w, 'a) M" where
  "rtFail f args p \<equiv> failM (rtErr f args p)"

definition evalBool :: "'w evaluator \<Rightarrow> expr \<Rightarrow> string \<Rightarrow> ('w, bool) M" where
  "evalBool ev e ctx = bindM (getsM (\<lambda>s. fastCondition e (st_env s))) (\<lambda>r. case r of
     Some b \<Rightarrow> retM b
   | None \<Rightarrow> bindM (evE ev e) (\<lambda>v. case v of
       VBool b \<Rightarrow> retM b
     | _ \<Rightarrow> rtFail ''%s must be bool, got %s'' [AStr ctx, AKind (Kind v)] (exprPos e)))"

definition evalInterpString :: "'w interp \<Rightarrow> 'w evaluator \<Rightarrow> (string + expr) list \<Rightarrow> ('w, Value) M" where
  "evalInterpString I ev parts = bindM
     (mapM (\<lambda>q. case q of Inl lit \<Rightarrow> retM lit | Inr e \<Rightarrow> bindM (evE ev e) (\<lambda>v. retM (Display (disp I) v))) parts)
     (\<lambda>ss. retM (VString (concat ss)))"

definition evalVar :: "pos \<Rightarrow> string \<Rightarrow> int \<Rightarrow> int \<Rightarrow> ('w, Value) M" where
  "evalVar p n depth slot = lookupM p (\<lambda>e. if slot \<ge> 0 then GetAt e depth slot n else Get e n)"

definition evalConstRef :: "'w interp \<Rightarrow> pos \<Rightarrow> string \<Rightarrow> int \<Rightarrow> int \<Rightarrow> ('w, Value) M" where
  "evalConstRef I p n depth slot =
     bindM (getsM (\<lambda>s. if slot \<ge> 0 then GetBindingAt (st_env s) depth slot n else GetBinding (st_env s) n)) (\<lambda>r. case r of
       Inr b \<Rightarrow>
         if bName b = [] \<and> slot \<ge> 0 then rtFail ''constant %s is read before its definition has run; top-level constants are defined in source order, so define it above the code that first reaches this read'' [AStr n] p
         else if \<not> bConst b then rtFail ''%q is a variable; use `$%s` to reference it'' [AStr n, AStr n] p
         else retM (bValue b)
     | Inl _ \<Rightarrow> (case LibConstants I n of
         Some (lib, v) \<Rightarrow> if \<not> imported I lib then rtFail ''`%s` requires `use %s;`'' [AStr n, AStr lib] p else retM v
       | None \<Rightarrow> (case methods I n of
           Some m \<Rightarrow> retM (VFunc (Some (mName m)))
         | None \<Rightarrow> rtFail ''undefined name %q'' [AStr n] p)))"

text \<open>Where a literal stores an element: a nested fresh literal or a moved variable as it is, anything else
  copied.\<close>

fun literalElementValue :: "expr \<Rightarrow> Value \<Rightarrow> Value" where
  "literalElementValue (ListLit _ _) v = v"
| "literalElementValue (MapLit _ _) v = v"
| "literalElementValue (StructLit _ _ _ _ _ _) v = v"
| "literalElementValue (RangeExpr _ _ _) v = v"
| "literalElementValue (SliceExpr _ _ _ _) v = v"
| "literalElementValue (VarExpr _ _ _ _ move) v = (if move then v else DeepCopy v)"
| "literalElementValue _ v = DeepCopy v"

definition evalListLit :: "'w evaluator \<Rightarrow> expr list \<Rightarrow> ('w, Value) M" where
  "evalListLit ev es =
     bindM (mapM (\<lambda>e. bindM (evE ev e) (\<lambda>v. retM (literalElementValue e v))) es) (\<lambda>vs. retM (VList vs None))"

text \<open>The loop of \<open>evalMapLit\<close>: the encodings seen, the unhashable keys so far, the entries built.\<close>

fun mapLitLoop :: "'w interp \<Rightarrow> 'w evaluator \<Rightarrow> (expr \<times> expr) list \<Rightarrow> string list \<Rightarrow> Value list \<Rightarrow> entries \<Rightarrow> ('w, entries) M" where
  "mapLitLoop I ev [] seen nonHashable acc = retM acc"
| "mapLitLoop I ev ((ke, ve) # rest) seen nonHashable acc = bindM (evE ev ke) (\<lambda>key.
     case mapKeyEncode key of
       Some enc \<Rightarrow>
         if enc \<in> set seen then rtFail ''duplicate key %s in map literal'' [AStr (Display (disp I) key)] (exprPos ke)
         else bindM (evE ev ve) (\<lambda>val.
           mapLitLoop I ev rest (enc # seen) nonHashable (acc @ [(DeepCopy key, literalElementValue ve val)]))
     | None \<Rightarrow>
         if list_ex (\<lambda>prev. Equal (eqNative I) prev key) nonHashable
         then rtFail ''duplicate key %s in map literal'' [AStr (Display (disp I) key)] (exprPos ke)
         else bindM (evE ev ve) (\<lambda>val.
           mapLitLoop I ev rest seen (nonHashable @ [key]) (acc @ [(DeepCopy key, literalElementValue ve val)])))"

definition evalMapLit :: "'w interp \<Rightarrow> 'w evaluator \<Rightarrow> (expr \<times> expr) list \<Rightarrow> ('w, Value) M" where
  "evalMapLit I ev kvs = bindM (mapLitLoop I ev kvs [] [] []) (\<lambda>es. retM (VMap es None None (buildMapIndex es)))"

definition evalIndex :: "'w interp \<Rightarrow> 'w evaluator \<Rightarrow> pos \<Rightarrow> expr \<Rightarrow> expr \<Rightarrow> ('w, Value) M" where
  "evalIndex I ev p t i = bindM (evE ev t) (\<lambda>parent. bindM (evE ev i) (\<lambda>idx.
     liftR (indexValue (eqNative I) (disp I) parent idx p)))"

definition rangeCheck :: "Value \<Rightarrow> Value \<Rightarrow> pos \<Rightarrow> (int64 \<times> int64) result" where
  "rangeCheck lv hv p = (case (lv, hv) of
     (VInt lo, VInt hi) \<Rightarrow>
       if hi <s lo then Inl (rtErr ''range lower bound %d exceeds upper bound %d'' [AInt (sint lo), AInt (sint hi)] p)
       else Inr (lo, hi)
   | _ \<Rightarrow> Inl (rtErr ''range bounds must be int, got %s..%s'' [AKind (Kind lv), AKind (Kind hv)] p))"

definition rangeBounds :: "'w evaluator \<Rightarrow> expr \<Rightarrow> expr \<Rightarrow> pos \<Rightarrow> ('w, int64 \<times> int64) M" where
  "rangeBounds ev lo hi p = bindM (evE ev lo) (\<lambda>lv. bindM (evE ev hi) (\<lambda>hv. liftR (rangeCheck lv hv p)))"

definition rangeInts :: "int64 \<Rightarrow> int64 \<Rightarrow> int64 list" where
  "rangeInts lo hi = map word_of_int [sint lo..sint hi - 1]"

definition rangeList :: "'w interp \<Rightarrow> int64 \<Rightarrow> int64 \<Rightarrow> pos \<Rightarrow> Value result" where
  "rangeList I lo hi p = (let count = hi - lo in
     if count <s 0 \<or> sint count > MaxRangeElements I
     then Inl (rtErr ''range too large to materialise into a list (%s exceeds the limit of %d); iterate lazily with `for (def i in lo..hi)` instead''
       [AStr (if count <s 0 then ''the range'' else FormatInt (sint count) @ '' elements''), AInt (MaxRangeElements I)] p)
     else Inr (VList (map VInt (rangeInts lo hi)) (Some TypeInt)))"

definition evalRange :: "'w interp \<Rightarrow> 'w evaluator \<Rightarrow> pos \<Rightarrow> expr \<Rightarrow> expr \<Rightarrow> ('w, Value) M" where
  "evalRange I ev p lo hi = bindM (rangeBounds ev lo hi p) (\<lambda>(l, h). liftR (rangeList I l h p))"

definition sliceEnd :: "'w evaluator \<Rightarrow> expr option \<Rightarrow> int64 \<Rightarrow> string \<Rightarrow> pos \<Rightarrow> ('w, int64) M" where
  "sliceEnd ev oe dflt msg p = (case oe of
     None \<Rightarrow> retM dflt
   | Some e \<Rightarrow> bindM (evE ev e) (\<lambda>v. case v of VInt n \<Rightarrow> retM n | _ \<Rightarrow> rtFail msg [AKind (Kind v)] p))"

definition sliceBounds :: "'w evaluator \<Rightarrow> expr option \<Rightarrow> expr option \<Rightarrow> nat \<Rightarrow> pos \<Rightarrow> ('w, nat \<times> nat) M" where
  "sliceBounds ev loE hiE n p =
     bindM (sliceEnd ev loE 0 ''slice lower bound must be int, got %s'' p) (\<lambda>lo.
     bindM (sliceEnd ev hiE (of_nat n) ''slice upper bound must be int, got %s'' p) (\<lambda>hi.
       if lo <s 0 \<or> sint hi > int n \<or> hi <s lo
       then rtFail ''slice range [%d, %d) out of bounds for length %d'' [AInt (sint lo), AInt (sint hi), AInt (int n)] p
       else retM (nat (sint lo), nat (sint hi))))"

text \<open>Runes \<open>lo\<close> to \<open>hi\<close> of a string: byte offsets when every byte is a rune, else by decoding forward.\<close>

definition sliceString :: "string \<Rightarrow> nat \<Rightarrow> nat \<Rightarrow> string" where
  "sliceString s lo hi =
     (if length s = runeLen s then take (hi - lo) (drop lo s)
      else concat (map snd (take (hi - lo) (drop lo (runeChunks s)))))"

definition sliceLen :: "Value \<Rightarrow> nat option" where
  "sliceLen v = (case v of
     VList xs _ \<Rightarrow> Some (length xs)
   | VBytes bs \<Rightarrow> Some (length bs)
   | VString s \<Rightarrow> Some (runeLen s)
   | _ \<Rightarrow> None)"

definition sliceValue :: "Value \<Rightarrow> nat \<Rightarrow> nat \<Rightarrow> Value" where
  "sliceValue v lo hi = (case v of
     VList xs et \<Rightarrow> VList (map DeepCopy (take (hi - lo) (drop lo xs))) et
   | VBytes bs \<Rightarrow> VBytes (take (hi - lo) (drop lo bs))
   | VString s \<Rightarrow> VString (sliceString s lo hi)
   | _ \<Rightarrow> v)"

definition evalSlice :: "'w evaluator \<Rightarrow> pos \<Rightarrow> expr \<Rightarrow> expr option \<Rightarrow> expr option \<Rightarrow> ('w, Value) M" where
  "evalSlice ev p t lo hi = bindM (evE ev t) (\<lambda>coll. case sliceLen coll of
     None \<Rightarrow> rtFail ''cannot slice a %s; `[a..b]` works on a list, bytes, or string'' [AKind (Kind coll)] p
   | Some n \<Rightarrow> bindM (sliceBounds ev lo hi n p) (\<lambda>(l, h). retM (sliceValue coll l h)))"

definition lenValue :: "Value \<Rightarrow> pos \<Rightarrow> Value result" where
  "lenValue v p = (case v of
     VString s \<Rightarrow> Inr (VInt (of_nat (runeLen s)))
   | VList xs _ \<Rightarrow> Inr (VInt (of_nat (length xs)))
   | VMap es _ _ _ \<Rightarrow> Inr (VInt (of_nat (length es)))
   | VBytes bs \<Rightarrow> Inr (VInt (of_nat (length bs)))
   | _ \<Rightarrow> Inl (rtErr ''len() expects a string, list, map or bytes, got %s'' [AKind (Kind v)] p))"

definition evalLen :: "'w evaluator \<Rightarrow> pos \<Rightarrow> expr \<Rightarrow> ('w, Value) M" where
  "evalLen ev p e = bindM (evE ev e) (\<lambda>v. liftR (lenValue v p))"

subsection \<open>Struct and enum literals\<close>

text \<open>The fields an \<open>Error\<close> literal may leave out.\<close>

definition errorLocationZero :: "string \<Rightarrow> string \<Rightarrow> string \<Rightarrow> Value option" where
  "errorLocationZero ns name field =
     (if ns \<noteq> [] \<or> name \<noteq> canonicalErrorStructName then None
      else if field = ''file'' then Some (VString [])
      else if field = ''line'' \<or> field = ''col'' then Some (VInt 0)
      else None)"

type_synonym litFields = "(string \<times> pos \<times> expr) list"

definition findUnknown :: "structField list \<Rightarrow> litFields \<Rightarrow> (string \<times> pos) option" where
  "findUnknown decls fs = map_option (\<lambda>(n, p, _). (n, p)) (List.find (\<lambda>(n, _, _). n \<notin> fName ` set decls) fs)"

text \<open>One declared field that the literal provides: evaluated, checked, stored stamped.\<close>

definition litField :: "'w evaluator \<Rightarrow> structField \<Rightarrow> pos \<times> expr \<Rightarrow> (ty \<Rightarrow> Value \<Rightarrow> err) \<Rightarrow> ('w, string \<times> Value) M" where
  "litField ev decl pe mismatch = bindM (evE ev (snd pe)) (\<lambda>v. bindM (getsM st_het) (\<lambda>het.
     if \<not> MatchesDeclared het v (fType decl) then failM (mismatch (fType decl) v)
     else bindM (stampM (literalElementValue (snd pe) v) (fType decl)) (\<lambda>w. retM (fName decl, w))))"

text \<open>One declared field that the literal leaves out.\<close>

definition litMissing :: "'w interp \<Rightarrow> 'w evaluator \<Rightarrow> pos \<Rightarrow> string \<Rightarrow> string \<Rightarrow> string \<Rightarrow> structField \<Rightarrow> ('w, string \<times> Value) M" where
  "litMissing I ev p ns resolvedNS name decl = (case errorLocationZero ns name (fName decl) of
     Some z \<Rightarrow> retM (fName decl, z)
   | None \<Rightarrow>
       if resolvedNS \<noteq> [] then bindM (optM (zeroPayload I (fuel ev) p [decl])) (\<lambda>zs. retM (hd zs))
       else rtFail ''missing field %q in struct %q literal'' [AStr (fName decl), AStr name] p)"

definition provided :: "litFields \<Rightarrow> string \<Rightarrow> (pos \<times> expr) option" where
  "provided fs n = map_of (rev (map (\<lambda>(n, p, e). (n, (p, e))) fs)) n"

definition evalEnumLit :: "'w interp \<Rightarrow> 'w evaluator \<Rightarrow> pos \<Rightarrow> string \<Rightarrow> string \<Rightarrow> string \<Rightarrow> bool \<Rightarrow> litFields \<Rightarrow> ('w, Value) M" where
  "evalEnumLit I ev p ns enum name bare fs =
     (if enum \<noteq> [] then rtFail ''unknown module alias %q in enum construction %s.%s.%s'' [AStr ns, AStr ns, AStr enum, AStr name] p
      else case enums I ns of
        None \<Rightarrow> outOfFuel
      | Some def \<Rightarrow> (case List.find (\<lambda>v. evName v = name) (edVariants def) of
          None \<Rightarrow> rtFail ''enum %s has no variant %q'' [AStr (edName def), AStr name] p
        | Some vdef \<Rightarrow>
            if bare then
              (if evFields vdef \<noteq> []
               then rtFail ''variant %s.%s carries a payload; construct it as %s.%s{ ... }'' [AStr (edName def), AStr name, AStr (edName def), AStr name] p
               else retM (VEnum [] [] (edName def) name []))
            else if evFields vdef = []
            then rtFail ''variant %s.%s has no payload; write it as %s.%s, without braces'' [AStr (edName def), AStr name, AStr (edName def), AStr name] p
            else (case findUnknown (evFields vdef) fs of
              Some (n, fp) \<Rightarrow> rtFail ''unknown field %q in variant %s.%s'' [AStr n, AStr (edName def), AStr name] fp
            | None \<Rightarrow> bindM (mapM (\<lambda>decl. case provided fs (fName decl) of
                  None \<Rightarrow> rtFail ''missing field %q in variant %s.%s literal'' [AStr (fName decl), AStr (edName def), AStr name] p
                | Some pe \<Rightarrow> litField ev decl pe (\<lambda>t v. rtErr ''field %q of variant %s.%s expects %s, got %s''
                    [AStr (fName decl), AStr (edName def), AStr name, ATy t, AStr (valueTypeLabel v)] (fst pe))) (evFields vdef))
                (\<lambda>out. retM (VEnum [] [] (edName def) name out)))))"

definition isNamespaceOrAlias :: "'w interp \<Rightarrow> string \<Rightarrow> bool" where
  "isNamespaceOrAlias I prefix \<longleftrightarrow> nsPrefixes I prefix \<noteq> None"

text \<open>The definition a struct literal names, and its canonical namespace.\<close>

definition structLitDef :: "'w interp \<Rightarrow> pos \<Rightarrow> string \<Rightarrow> string \<Rightarrow> (structDef \<times> string) result" where
  "structLitDef I p ns name =
     (if ns \<noteq> [] then
        (case resolveNamespacePrefix I ns of
           Inl m \<Rightarrow> Inl (emsgErr p m)
         | Inr canonical \<Rightarrow> (case NSStructs I (canonical, name) of
             None \<Rightarrow> Inl (rtErr ''unknown struct %s.%s'' [AStr ns, AStr name] p)
           | Some d \<Rightarrow> Inr (d, canonical)))
      else (case structs I name of
         None \<Rightarrow> Inl (rtErr ''unknown struct %q'' [AStr name] p)
       | Some d \<Rightarrow> Inr (d, [])))"

definition evalStructLit :: "'w interp \<Rightarrow> 'w evaluator \<Rightarrow> pos \<Rightarrow> string \<Rightarrow> string \<Rightarrow> string \<Rightarrow> bool \<Rightarrow> litFields \<Rightarrow> ('w, Value) M" where
  "evalStructLit I ev p ns enum name bare fs =
     (if enum \<noteq> [] \<or> (ns \<noteq> [] \<and> enums I ns \<noteq> None \<and> \<not> isNamespaceOrAlias I ns)
      then evalEnumLit I ev p ns enum name bare fs
      else bindM (liftR (structLitDef I p ns name)) (\<lambda>(def, resolvedNS).
        case findUnknown (sFields def) fs of
          Some (n, fp) \<Rightarrow> rtFail ''unknown field %q in struct %q'' [AStr n, AStr name] fp
        | None \<Rightarrow> bindM (mapM (\<lambda>decl. case provided fs (fName decl) of
              None \<Rightarrow> litMissing I ev p ns resolvedNS name decl
            | Some pe \<Rightarrow> litField ev decl pe (\<lambda>t v. rtErr ''field %q of struct %q expects %s, got %s''
                [AStr (fName decl), AStr name, ATy t, AStr (valueTypeLabel v)] (fst pe))) (sFields def))
            (\<lambda>out. retM (VStruct resolvedNS name [] out))))"

text \<open>\<open>RGB.Red\<close>, an enum spelled in capitals, has the shape of a field access on a constant.\<close>

definition enumVariantValue :: "enumDef \<Rightarrow> string \<Rightarrow> pos \<Rightarrow> Value result" where
  "enumVariantValue ed field p = (case List.find (\<lambda>v. evName v = field) (edVariants ed) of
     Some v \<Rightarrow>
       if evFields v \<noteq> []
       then Inl (rtErr ''variant %s.%s carries a payload; construct it as %s.%s{ ... }'' [AStr (edName ed), AStr field, AStr (edName ed), AStr field] p)
       else Inr (VEnum [] [] (edName ed) field [])
   | None \<Rightarrow> Inl (rtErr ''enum %s has no variant %q'' [AStr (edName ed), AStr field] p))"

definition enumVariantFromFieldAccess :: "'w interp \<Rightarrow> expr \<Rightarrow> string \<Rightarrow> pos \<Rightarrow> env \<Rightarrow> Value result option" where
  "enumVariantFromFieldAccess I target field p e = (case target of
     ConstRefExpr _ n _ _ \<Rightarrow> (case GetBinding e n of
        Inr _ \<Rightarrow> None
      | Inl _ \<Rightarrow> map_option (\<lambda>ed. enumVariantValue ed field p) (enums I n))
   | _ \<Rightarrow> None)"

definition fieldValue :: "Value \<Rightarrow> string \<Rightarrow> pos \<Rightarrow> Value result" where
  "fieldValue parent field p = (case parent of
     VObject ns n _ \<Rightarrow> Inl (rtErr ''`.%s`: a %s.%s is opaque - use the %s.* accessors (e.g. %s.get) to reach inside''
       [AStr field, AStr ns, AStr n, AStr ns, AStr ns] p)
   | VStruct _ n _ fs \<Rightarrow> (case fieldPos field fs of
        Some i \<Rightarrow> Inr (snd (fs ! i))
      | None \<Rightarrow> Inl (rtErr ''struct %q has no field %q'' [AStr n, AStr field] p))
   | _ \<Rightarrow> Inl (rtErr ''field access `.%s` requires a struct, got %s'' [AStr field, AKind (Kind parent)] p))"

definition evalFieldAccess :: "'w interp \<Rightarrow> 'w evaluator \<Rightarrow> pos \<Rightarrow> expr \<Rightarrow> string \<Rightarrow> ('w, Value) M" where
  "evalFieldAccess I ev p target field =
     bindM (getsM (\<lambda>s. enumVariantFromFieldAccess I target field p (st_env s))) (\<lambda>r. case r of
       Some v \<Rightarrow> liftR v
     | None \<Rightarrow> bindM (evE ev target) (\<lambda>parent. liftR (fieldValue parent field p)))"

subsection \<open>Operators\<close>

text \<open>One operand of \<open>and\<close> or \<open>or\<close>: an int comparison or bool operand in place, else evaluated one deeper and
  checked.\<close>

definition logicalOperand :: "'w evaluator \<Rightarrow> expr \<Rightarrow> (kind \<Rightarrow> err) \<Rightarrow> ('w, bool) M" where
  "logicalOperand ev e mismatch = bindM (getsM (\<lambda>s. fastCondition e (st_env s))) (\<lambda>r. case r of
     Some b \<Rightarrow> retM b
   | None \<Rightarrow> bindM (deeperM (evE ev e)) (\<lambda>v. case v of VBool b \<Rightarrow> retM b | _ \<Rightarrow> failM (mismatch (Kind v))))"

definition evalLogical :: "'w evaluator \<Rightarrow> binop \<Rightarrow> expr \<Rightarrow> expr \<Rightarrow> ('w, Value) M" where
  "evalLogical ev op l r =
     bindM (logicalOperand ev l (\<lambda>k. rtErr ''left operand of `%s` must be bool, got %s'' [AOp op, AKind k] (exprPos l))) (\<lambda>a.
       if op = OpAnd \<and> \<not> a then retM (VBool False)
       else if op = OpOr \<and> a then retM (VBool True)
       else bindM (logicalOperand ev r (\<lambda>k. rtErr ''right operand of `%s` must be bool, got %s'' [AOp op, AKind k] (exprPos r)))
         (\<lambda>b. retM (VBool b)))"

text \<open>The fast path of \<open>evalBinary\<close>.\<close>

definition fastBinary :: "binop \<Rightarrow> expr \<Rightarrow> env \<Rightarrow> Value option" where
  "fastBinary op e en = (if IsLogical op \<or> IsComparison op then map_option VBool (fastCondition e en)
     else map_option VInt (intOperand e en))"

definition evalBinary :: "'w interp \<Rightarrow> 'w evaluator \<Rightarrow> pos \<Rightarrow> binop \<Rightarrow> expr \<Rightarrow> expr \<Rightarrow> expr option \<Rightarrow> ('w, Value) M" where
  "evalBinary I ev p op l r folded = (case folded of
     Some f \<Rightarrow> evE ev f
   | None \<Rightarrow> bindM (getsM (\<lambda>s. fastBinary op (BinaryExpr p op l r None) (st_env s))) (\<lambda>q. case q of
       Some v \<Rightarrow> retM v
     | None \<Rightarrow>
         if IsLogical op then evalLogical ev op l r
         else bindM (deeperM (evE ev l)) (\<lambda>lv. bindM (deeperM (evE ev r)) (\<lambda>rv.
           liftR (binaryOp (eqNative I) op lv rv p)))))"

definition evalUnary :: "'w evaluator \<Rightarrow> pos \<Rightarrow> unop \<Rightarrow> expr \<Rightarrow> expr option \<Rightarrow> ('w, Value) M" where
  "evalUnary ev p op e folded = (case folded of
     Some f \<Rightarrow> evE ev f
   | None \<Rightarrow> bindM (deeperM (evE ev e)) (\<lambda>v. liftR (unaryOp op v p)))"

section \<open>Blocks and deferred calls\<close>

fun execStmts :: "'w evaluator \<Rightarrow> stmt list \<Rightarrow> ('w, flow) M" where
  "execStmts ev [] = retM FNone"
| "execStmts ev (st # sts) = bindM (evS ev st) (\<lambda>r. if flowsOut r then retM r else execStmts ev sts)"

text \<open>\<open>errdefer\<close> is armed by a propagating error, not by an exit.\<close>

definition errdeferFires :: "'a result \<Rightarrow> bool" where
  "errdeferFires r = (case r of Inl e \<Rightarrow> \<not> isExit e | Inr _ \<Rightarrow> False)"

text \<open>A deferred call runs through the normal call path with its captured arguments as literals.\<close>

fun deferredExpr :: "deferredCall \<Rightarrow> expr option" where
  "deferredExpr dc = (case dcCall dc of
     CallExpr p n _ m mv snap \<Rightarrow> Some (CallExpr p n (map (PreEval p) (dcArgs dc)) m mv snap)
   | QualifiedCallExpr p pre n _ mv snap \<Rightarrow> Some (QualifiedCallExpr p pre n (map (PreEval p) (dcArgs dc)) mv snap)
   | _ \<Rightarrow> None)"

definition invokeDeferred :: "'w evaluator \<Rightarrow> deferredCall \<Rightarrow> ('w, unit) M" where
  "invokeDeferred ev dc = (case deferredExpr dc of
     Some e \<Rightarrow> bindM (evE ev e) (\<lambda>_. retM ())
   | None \<Rightarrow> retM ())"

text \<open>The loop of \<open>runDeferredCalls\<close> over the calls in the order they run, the last registered first:
  every one runs, an \<open>errdefer\<close> only while \<open>failed\<close>, and the last error wins.\<close>

fun deferLoop :: "'w evaluator \<Rightarrow> bool \<Rightarrow> err option \<Rightarrow> deferredCall list \<Rightarrow> ('w, err option) M" where
  "deferLoop ev failed derr [] = retM derr"
| "deferLoop ev failed derr (dc # dcs) =
     (if dcOnError dc \<and> \<not> failed then deferLoop ev failed derr dcs
      else bindM (attemptM (invokeDeferred ev dc)) (\<lambda>r. case r of
        Inl e \<Rightarrow> deferLoop ev True (Some e) dcs
      | Inr _ \<Rightarrow> deferLoop ev failed derr dcs))"

definition setDeferred :: "deferredCall list \<Rightarrow> env \<Rightarrow> env" where
  "setDeferred ds e = (case e of [] \<Rightarrow> [] | f # fs \<Rightarrow> f\<lparr>deferred := ds\<rparr> # fs)"

definition topDeferred :: "env \<Rightarrow> deferredCall list" where
  "topDeferred e = (case e of [] \<Rightarrow> [] | f # _ \<Rightarrow> deferred f)"

definition runDeferredCalls :: "'w evaluator \<Rightarrow> bool \<Rightarrow> ('w, err option) M" where
  "runDeferredCalls ev failed = bindM (getsM (\<lambda>s. topDeferred (st_env s))) (\<lambda>d.
     thenM (modM (\<lambda>s. s\<lparr>st_env := setDeferred [] (st_env s)\<rparr>)) (deferLoop ev failed None (rev d)))"

text \<open>The frame's own outcome against the one of its deferred calls.\<close>

definition mergeDeferred :: "'a result \<Rightarrow> err option \<Rightarrow> 'a result" where
  "mergeDeferred r derr = (case derr of
     None \<Rightarrow> r
   | Some e \<Rightarrow> (case r of Inl x \<Rightarrow> if isExit x then r else Inl e | Inr _ \<Rightarrow> Inl e))"

definition finishFrame :: "'w evaluator \<Rightarrow> flow result \<Rightarrow> ('w, flow) M" where
  "finishFrame ev r = bindM (getsM (\<lambda>s. topDeferred (st_env s))) (\<lambda>d.
     if d = [] then liftR r
     else bindM (runDeferredCalls ev (errdeferFires r)) (\<lambda>derr. liftR (mergeDeferred r derr)))"

text \<open>Statements in a frame of their own, with its deferred calls run on the way out.\<close>

definition framedM :: "'w evaluator \<Rightarrow> nat \<Rightarrow> ('w, flow) M \<Rightarrow> ('w, flow) M" where
  "framedM ev n m = scopedM n (bindM (attemptM m) (finishFrame ev))"

definition execBlock :: "'w evaluator \<Rightarrow> block \<Rightarrow> ('w, flow) M" where
  "execBlock ev b = deeperM (framedM ev (NumSlots b) (execStmts ev (Stmts b)))"

section \<open>Calls\<close>

definition limitErr :: "string \<Rightarrow> fmtarg list \<Rightarrow> pos \<Rightarrow> err" where
  "limitErr f args p = RuntimeError \<lparr>rKind = ''limit'', rFmt = f, rArgs = args, rPos = p\<rparr>"

definition methodBorrowCtx :: "'w interp \<Rightarrow> methodDef \<Rightarrow> bool" where
  "methodBorrowCtx I m \<longleftrightarrow> entryGlobalsImmutable I \<or> (mGlobalSafe m \<and> \<not> spawnReentry I)"

text \<open>Releasing a call frame that is not on the chain yet.\<close>

definition releaseFrame :: "frame \<Rightarrow> 'w state \<Rightarrow> 'w state" where
  "releaseFrame cf s = s\<lparr>st_chain := st_chain s - frameBytes cf\<rparr>"

definition releasingM :: "frame \<Rightarrow> ('w, 'a) M \<Rightarrow> ('w, 'a) M" where
  "releasingM cf m = (\<lambda>s. case m s of
     None \<Rightarrow> None
   | Some (r, s') \<Rightarrow> (case r of Inl e \<Rightarrow> Some (Inl e, releaseFrame cf s') | Inr x \<Rightarrow> Some (Inr x, s')))"

definition bindParamM :: "Value \<Rightarrow> ty \<Rightarrow> ('w, Value) M" where
  "bindParamM v t = (\<lambda>s. case bindParamValue (st_het s) v t of (w, h) \<Rightarrow> Some (Inr w, s\<lparr>st_het := h\<rparr>))"

definition defineParam :: "frame \<Rightarrow> nat \<Rightarrow> param \<Rightarrow> Value \<Rightarrow> frame" where
  "defineParam cf idx p v = cf\<lparr>slots := setSlot idx
     \<lparr>bValue = v, bType = pType p, bConst = False, bSlot = int idx, bName = pName p\<rparr> (slots cf)\<rparr>"

text \<open>Binding one checked argument: moved, borrowed, or copied and accounted for.\<close>

definition bindOne :: "'w interp \<Rightarrow> bool \<Rightarrow> bool \<Rightarrow> nat \<Rightarrow> param \<Rightarrow> Value \<Rightarrow> frame \<Rightarrow> ('w, frame) M" where
  "bindOne I moved argBorrow idx p v cf =
     (if moved \<or> (pBorrow p \<and> argBorrow) then bindM (stampM v (pType p)) (\<lambda>w. retM (defineParam cf idx p w))
      else bindM (bindParamM v (pType p)) (\<lambda>w.
        let n = shallowValueBytes (valueCellBytes I) w in
        thenM (modM (\<lambda>s. s\<lparr>st_chain := st_chain s + n\<rparr>))
          (retM (defineParam (cf\<lparr>frameBytes := frameBytes cf + n\<rparr>) idx p w))))"

definition snapped :: "bool list \<Rightarrow> nat \<Rightarrow> bool" where
  "snapped snap idx \<longleftrightarrow> idx < length snap \<and> snap ! idx"

fun bindArgs :: "'w interp \<Rightarrow> 'w evaluator \<Rightarrow> string \<Rightarrow> bool \<Rightarrow> bool list \<Rightarrow> nat \<Rightarrow> nat \<Rightarrow> (param \<times> expr) list \<Rightarrow> frame \<Rightarrow> ('w, frame) M" where
  "bindArgs I ev name ctx snap move idx [] cf = retM cf"
| "bindArgs I ev name ctx snap move idx ((p, a) # rest) cf = bindM (releasingM cf (evE ev a)) (\<lambda>v.
     bindM (getsM st_het) (\<lambda>het.
       if \<not> MatchesDeclared het v (pType p)
       then releasingM cf (rtFail ''argument %d to %q must be %s, got %s''
         [AInt (int idx + 1), AStr name, ATy (pType p), AKind (Kind v)] (exprPos a))
       else bindM (bindOne I (move = idx + 1) (ctx \<and> \<not> snapped snap idx) idx p v cf)
         (bindArgs I ev name ctx snap move (Suc idx) rest)))"

fun unhandledLoopFlowError :: "flow \<Rightarrow> err" where
  "unhandledLoopFlowError (FContinue p) = rtErr ''`%s` is only valid inside a loop'' [AStr ''continue''] p"
| "unhandledLoopFlowError (FBreak p) = rtErr ''`%s` is only valid inside a loop'' [AStr ''break''] p"
| "unhandledLoopFlowError _ = rtErr ''`%s` is only valid inside a loop'' [AStr ''break''] noPos"

definition callResult :: "flow \<Rightarrow> Value result" where
  "callResult r = (case r of
     FReturn v \<Rightarrow> Inr v
   | FNone \<Rightarrow> Inr VNull
   | _ \<Rightarrow> Inl (unhandledLoopFlowError r))"

text \<open>The guards and the body of a call, once its frame is bound.\<close>

definition enterMethod :: "'w interp \<Rightarrow> 'w evaluator \<Rightarrow> methodDef \<Rightarrow> frame \<Rightarrow> pos \<Rightarrow> ('w, Value) M" where
  "enterMethod I ev m cf p = bindM (getsM (\<lambda>s. (st_depth s, st_chain s))) (\<lambda>(dep, ch).
     if dep + 1 > MaxCallDepth I
     then releasingM cf (failM (limitErr ''call stack too deep: exceeded the depth limit of %d nested calls, blocks, and expressions (possible infinite recursion)'' [AInt (MaxCallDepth I)] p))
     else if ch > copyChainBudget I
     then releasingM cf (failM (limitErr ''recursion used too much memory: live value copies exceeded the %d-byte limit (a large value copied on each of many recursive frames; pass it as a read-only parameter, or index it in place, to avoid the per-frame copy)'' [AInt (copyChainBudget I)] p))
     else bindM (calledM cf (deeperM (execBlock ev (mBody m)))) (\<lambda>r. liftR (callResult r)))"

definition callMethod :: "'w interp \<Rightarrow> 'w evaluator \<Rightarrow> methodDef \<Rightarrow> expr list \<Rightarrow> bool list \<Rightarrow> nat \<Rightarrow> string \<Rightarrow> pos \<Rightarrow> ('w, Value) M" where
  "callMethod I ev m args snap move name p =
     (if length args \<noteq> length (mParams m)
      then rtFail ''function %q takes %d argument(s), got %d'' [AStr name, AInt (int (length (mParams m))), AInt (int (length args))] p
      else bindM (getsM (\<lambda>s. newFrame [last (st_env s)] (length (mParams m)))) (\<lambda>cf0.
        let ctx = methodBorrowCtx I m in
        bindM (bindArgs I ev name ctx snap move 0 (zip (mParams m) args) (cf0\<lparr>borrowDefs := ctx\<rparr>)) (\<lambda>cf.
          enterMethod I ev m cf p)))"

definition builtinError :: "goErr \<Rightarrow> pos \<Rightarrow> err" where
  "builtinError ge p = (case ge of
     Signal e \<Rightarrow> (case e of
        RuntimeError r \<Rightarrow>
          (let q = rPos r;
               q1 = (if File q = [] then q\<lparr>File := File p\<rparr> else q);
               q2 = (if Line q = 0 then q1\<lparr>Line := Line p, Col := Col p\<rparr> else q1)
           in RuntimeError (r\<lparr>rPos := q2\<rparr>))
      | _ \<Rightarrow> e)
   | GoError m \<Rightarrow> rtMsg m p)"

definition callBuiltin :: "'w builtin \<Rightarrow> pos \<Rightarrow> Value list \<Rightarrow> ('w, Value) M" where
  "callBuiltin fn p args = (\<lambda>s. case fn p args (st_world s) of
     (r, w) \<Rightarrow> Some (map_sum (\<lambda>ge. builtinError ge p) id r, s\<lparr>st_world := w\<rparr>))"

definition snapArg :: "Value \<Rightarrow> bool list \<Rightarrow> nat \<Rightarrow> Value" where
  "snapArg v snap idx = (if snapped snap idx then DeepCopy v else v)"

definition evalCall :: "'w interp \<Rightarrow> 'w evaluator \<Rightarrow> pos \<Rightarrow> string \<Rightarrow> expr list \<Rightarrow> string option \<Rightarrow> nat \<Rightarrow> bool list \<Rightarrow> ('w, Value) M" where
  "evalCall I ev p callee args meth move snap =
     (case (case Option.bind meth (methods I) of Some m \<Rightarrow> Some m | None \<Rightarrow> methods I callee) of
        Some m \<Rightarrow> callMethod I ev m args snap move callee p
      | None \<Rightarrow> (case Builtins I callee of
          Some (lib, fn) \<Rightarrow>
            if \<not> imported I lib then rtFail ''`%s` requires `use %s;`'' [AStr callee, AStr lib] p
            else bindM (mapM (evE ev) args) (callBuiltin fn p)
        | None \<Rightarrow> rtFail ''unknown function %q'' [AStr callee] p))"

definition evalCallValue :: "'w interp \<Rightarrow> 'w evaluator \<Rightarrow> pos \<Rightarrow> expr \<Rightarrow> expr list \<Rightarrow> bool list \<Rightarrow> ('w, Value) M" where
  "evalCallValue I ev p callee args snap = bindM (evE ev callee) (\<lambda>fv. case fv of
     VFunc None \<Rightarrow> failM (rtMsg ''call of an uninitialized `func` value (it was never assigned a function)'' p)
   | VFunc (Some n) \<Rightarrow> (case methods I n of
        Some m \<Rightarrow> callMethod I ev m args snap 0 (mName m) p
      | None \<Rightarrow> outOfFuel)
   | _ \<Rightarrow> rtFail ''cannot call a %s value; only a `func` value is callable'' [AKind (Kind fv)] p)"

definition evalQualifiedCall :: "'w interp \<Rightarrow> 'w evaluator \<Rightarrow> pos \<Rightarrow> string \<Rightarrow> string \<Rightarrow> expr list \<Rightarrow> bool list \<Rightarrow> ('w, Value) M" where
  "evalQualifiedCall I ev p prefix callee args snap = (case resolveNamespacePrefix I prefix of
     Inl m \<Rightarrow> failM (emsgErr p m)
   | Inr ns \<Rightarrow> (case NSBuiltins I (ns, callee) of
        None \<Rightarrow> rtFail ''unknown function %q in namespace %q'' [AStr callee, AStr ns] p
      | Some fn \<Rightarrow> bindM (mapM (\<lambda>(idx, a). bindM (evE ev a) (\<lambda>v. retM (snapArg v snap idx))) (enumerate 0 args))
          (callBuiltin fn p)))"

definition evalQualifiedConst :: "'w interp \<Rightarrow> pos \<Rightarrow> string \<Rightarrow> string \<Rightarrow> ('w, Value) M" where
  "evalQualifiedConst I p prefix name = liftR (case enums I prefix of
     Some ed \<Rightarrow> enumVariantValue ed name p
   | None \<Rightarrow> (case resolveNamespacePrefix I prefix of
        Inl m \<Rightarrow> Inl (emsgErr p m)
      | Inr ns \<Rightarrow> (case NSConstants I (ns, name) of
          Some v \<Rightarrow> Inr v
        | None \<Rightarrow>
            if NSBuiltins I (ns, name) \<noteq> None
            then Inl (rtErr ''%s.%s is a function; call it as %s.%s(...)'' [AStr prefix, AStr name, AStr prefix, AStr name] p)
            else Inl (rtErr ''unknown constant %q in namespace %q'' [AStr name, AStr ns] p))))"

text \<open>\<open>evalExpr\<close>.\<close>

definition evalExpr :: "'w interp \<Rightarrow> 'w evaluator \<Rightarrow> expr \<Rightarrow> ('w, Value) M" where
  "evalExpr I ev e = (case e of
     PreEval _ v \<Rightarrow> retM v
   | IntLit _ n \<Rightarrow> retM (VInt n)
   | FloatLit _ f \<Rightarrow> retM (VFloat f)
   | StringLit _ s \<Rightarrow> retM (VString s)
   | InterpStringExpr _ ps \<Rightarrow> evalInterpString I ev ps
   | BoolLit _ b \<Rightarrow> retM (VBool b)
   | NullLit _ \<Rightarrow> retM VNull
   | VarExpr p n d s _ \<Rightarrow> evalVar p n d s
   | ConstRefExpr p n d s \<Rightarrow> evalConstRef I p n d s
   | BinaryExpr p op l r f \<Rightarrow> evalBinary I ev p op l r f
   | UnaryExpr p op x f \<Rightarrow> evalUnary ev p op x f
   | CallExpr p n args m mv snap \<Rightarrow> evalCall I ev p n args m mv snap
   | CallValueExpr p c args snap \<Rightarrow> evalCallValue I ev p c args snap
   | LenExpr p x \<Rightarrow> evalLen ev p x
   | SpawnExpr _ _ \<Rightarrow> outOfFuel
   | QualifiedCallExpr p pre n args _ snap \<Rightarrow> evalQualifiedCall I ev p pre n args snap
   | QualifiedConstRefExpr p pre n \<Rightarrow> evalQualifiedConst I p pre n
   | ListLit _ es \<Rightarrow> evalListLit ev es
   | MapLit _ kvs \<Rightarrow> evalMapLit I ev kvs
   | IndexExpr p t i \<Rightarrow> evalIndex I ev p t i
   | RangeExpr p lo hi \<Rightarrow> evalRange I ev p lo hi
   | SliceExpr p t lo hi \<Rightarrow> evalSlice ev p t lo hi
   | StructLit p ns en n bare fs \<Rightarrow> evalStructLit I ev p ns en n bare fs
   | FieldAccessExpr p t f \<Rightarrow> evalFieldAccess I ev p t f)"

end
