(* ===== verification/Interp.thy ===== *)
theory Interp
  imports Eval
begin

text \<open>
  The statements of the evaluator (\<open>internal/interpreter/interpreter.go\<close>), one definition per \<open>exec\<close>
  function, the fuelled recursion that closes the evaluator over itself, and the run of a whole
  program. A loop's cancellation checkpoint never fires outside a spawned task and has no counterpart.
\<close>

section \<open>Definitions and assignments\<close>

text \<open>Right-hand sides whose value nothing else refers to.\<close>

fun rhsFreshLiteral :: "expr \<Rightarrow> bool" where
  "rhsFreshLiteral (ListLit _ _) \<longleftrightarrow> True"
| "rhsFreshLiteral (MapLit _ _) \<longleftrightarrow> True"
| "rhsFreshLiteral (StructLit _ _ _ _ _ _) \<longleftrightarrow> True"
| "rhsFreshLiteral (RangeExpr _ _ _) \<longleftrightarrow> True"
| "rhsFreshLiteral (SliceExpr _ _ _ _) \<longleftrightarrow> True"
| "rhsFreshLiteral _ \<longleftrightarrow> False"

fun ownedCallResult :: "'w interp \<Rightarrow> expr \<Rightarrow> bool" where
  "ownedCallResult I (CallExpr _ _ _ m _ _) \<longleftrightarrow> (case Option.bind m (methods I) of Some d \<Rightarrow> mReturnsOwned d | None \<Rightarrow> False)"
| "ownedCallResult I _ \<longleftrightarrow> False"

definition isObjectType :: "'w interp \<Rightarrow> string \<Rightarrow> string \<Rightarrow> bool" where
  "isObjectType I ns n \<longleftrightarrow> ns \<noteq> [] \<and> objectTypes I (ns, n)"

text \<open>The value a definition without initializer starts with.\<close>

definition zeroInit :: "'w interp \<Rightarrow> 'w evaluator \<Rightarrow> pos \<Rightarrow> ty \<Rightarrow> ('w, Value) M" where
  "zeroInit I ev p t = (case t of
     TypeStruct n ns mp \<Rightarrow>
       if isEnumType I ns n mp then optM (zeroEnumFor I (fuel ev) p ns n mp)
       else if isObjectType I ns n then retM (zeroObject I ns n)
       else optM (zeroStructFor I (fuel ev) p ns n mp)
   | _ \<Rightarrow> stampM (ZeroFor t) t)"

text \<open>The value a definition stores for its evaluated initializer.\<close>

definition storeInit :: "'w interp \<Rightarrow> expr \<Rightarrow> bool \<Rightarrow> ty \<Rightarrow> Value \<Rightarrow> ('w, Value) M" where
  "storeInit I e borrow t v =
     (if rhsFreshLiteral e \<or> ownedCallResult I e
      then bindM (stampM v t) (\<lambda>w. thenM (accountCopy I w) (retM w))
      else bindM (getsM (\<lambda>s. borrow \<and> (case st_env s of [] \<Rightarrow> False | f # _ \<Rightarrow> borrowDefs f))) (\<lambda>b.
        if b then stampM v t
        else bindM (stampM (DeepCopy v) t) (\<lambda>w. thenM (accountCopy I w) (retM w))))"

definition execDefine :: "'w interp \<Rightarrow> 'w evaluator \<Rightarrow> pos \<Rightarrow> bool \<Rightarrow> string \<Rightarrow> ty \<Rightarrow> expr option \<Rightarrow> int \<Rightarrow> bool \<Rightarrow> ('w, unit) M" where
  "execDefine I ev p isConst name t0 initE slot borrow =
     bindM (liftR (resolveDeclaredStructNS I t0 p)) (\<lambda>t.
     bindM (case initE of
         Some e \<Rightarrow> bindM (evE ev e) (\<lambda>v. bindM (getsM st_het) (\<lambda>het.
           if \<not> MatchesDeclared het v t
           then rtFail ''cannot initialize %s %s %q with value of type %s''
             [ATy t, AStr (if isConst then ''constant'' else ''variable''), AStr name, AKind (Kind v)] p
           else storeInit I e borrow t v))
       | None \<Rightarrow>
           if isConst then failM (rtMsg ''internal: constant without init reached interpreter'' p)
           else zeroInit I ev p t) (\<lambda>val.
     envM p (\<lambda>_ en. if slot \<ge> 0 then DefineAt en slot name val t isConst else Define en name val t isConst)))"

text \<open>The checked path of \<open>execAssign\<close>, past its fast path.\<close>

definition assignSlow :: "'w interp \<Rightarrow> 'w evaluator \<Rightarrow> pos \<Rightarrow> string \<Rightarrow> expr \<Rightarrow> int \<Rightarrow> int \<Rightarrow> ('w, unit) M" where
  "assignSlow I ev p name e depth slot = bindM (evE ev e) (\<lambda>val.
     bindM (lookupM p (\<lambda>en. getBindingRoot en name depth slot)) (\<lambda>b.
     bindM (getsM st_het) (\<lambda>het.
       if \<not> MatchesDeclared het val (bType b)
       then rtFail ''cannot assign %s to %s variable %q'' [AKind (Kind val), ATy (bType b), AStr name] p
       else bindM (stampM (if rhsFreshLiteral e \<or> ownedCallResult I e then val else DeepCopy val) (bType b)) (\<lambda>w.
         envM p (\<lambda>h en. assignRoot h en name depth slot w)))))"

definition execAssign :: "'w interp \<Rightarrow> 'w evaluator \<Rightarrow> pos \<Rightarrow> string \<Rightarrow> expr \<Rightarrow> int \<Rightarrow> int \<Rightarrow> ('w, unit) M" where
  "execAssign I ev p name e depth slot = bindM (getsM (\<lambda>s. fastAssign depth slot e (st_env s))) (\<lambda>r. case r of
     Some en \<Rightarrow> modM (\<lambda>s. s\<lparr>st_env := en\<rparr>)
   | None \<Rightarrow> assignSlow I ev p name e depth slot)"

section \<open>Writes through l-values\<close>

text \<open>The steps of a chain from the root to the leaf; the indices are evaluated from the leaf to the root. A
  chain without a variable at its root was refused before.\<close>

fun collectLvalueSteps :: "'w evaluator \<Rightarrow> pos \<Rightarrow> expr \<Rightarrow> ('w, lvalueStep list) M" where
  "collectLvalueSteps ev p (FieldAccessExpr q t f) =
     bindM (collectLvalueSteps ev p t) (\<lambda>steps. retM (steps @ [FieldStep f q]))"
| "collectLvalueSteps ev p (IndexExpr q t i) = bindM (evE ev i) (\<lambda>idx.
     bindM (collectLvalueSteps ev p t) (\<lambda>steps. retM (steps @ [IndexStep idx q])))"
| "collectLvalueSteps ev p (VarExpr _ _ _ _ _) = retM []"
| "collectLvalueSteps ev p _ = failM (rtMsg ''internal: unexpected lvalue node'' p)"

text \<open>Writes go into the backing the binding shares with the copied header. When the final assignment is
  refused, they stay: all of them, except an entry added to the root value itself, which is past
  the length the binding knows.\<close>

fun rootLen :: "Value \<Rightarrow> nat" where
  "rootLen (VList xs _) = length xs"
| "rootLen (VBytes bs) = length bs"
| "rootLen (VMap es _ _ _) = length es"
| "rootLen (VStruct _ _ _ fs) = length fs"
| "rootLen _ = 0"

definition inPlace :: "Value \<Rightarrow> Value \<Rightarrow> Value" where
  "inPlace old new = (if rootLen new = rootLen old then new else old)"

fun pokeName :: "env \<Rightarrow> string \<Rightarrow> Value \<Rightarrow> env" where
  "pokeName [] n v = []"
| "pokeName (f # e) n v = (case lookupLocal f n of
     Some (b, si) \<Rightarrow>
       (if si \<ge> 0 then f\<lparr>slots := (slots f)[nat si := b\<lparr>bValue := v\<rparr>]\<rparr>
        else f\<lparr>vars := AList.update n (b\<lparr>bValue := v\<rparr>) (vars f)\<rparr>) # e
   | None \<Rightarrow> f # pokeName e n v)"

definition pokeRoot :: "env \<Rightarrow> string \<Rightarrow> int \<Rightarrow> int \<Rightarrow> Value \<Rightarrow> env" where
  "pokeRoot e n depth slot v =
     (if slot < 0 then pokeName e n v
      else case frameAt e depth of
        None \<Rightarrow> e
      | Some f \<Rightarrow>
          if inSlots f slot then setSlotValue e depth slot v
          else (case map_of (vars f) n of
            None \<Rightarrow> e
          | Some b \<Rightarrow> e[nat depth := f\<lparr>vars := AList.update n (b\<lparr>bValue := v\<rparr>) (vars f)\<rparr>]))"

definition commitRoot :: "pos \<Rightarrow> string \<Rightarrow> int \<Rightarrow> int \<Rightarrow> Value \<Rightarrow> Value \<Rightarrow> ('w, unit) M" where
  "commitRoot p n depth slot old new = (\<lambda>s. case assignRoot (st_het s) (st_env s) n depth slot new of
     Inl (m, args) \<Rightarrow> Some (Inl (rtErr m args p), s\<lparr>st_env := pokeRoot (st_env s) n depth slot (inPlace old new)\<rparr>)
   | Inr e \<Rightarrow> Some (Inr (), s\<lparr>st_env := e\<rparr>))"

text \<open>The root binding of a write, present and not a constant.\<close>

definition mutableRoot :: "pos \<Rightarrow> string \<Rightarrow> int \<Rightarrow> int \<Rightarrow> ('w, binding) M" where
  "mutableRoot p n depth slot = bindM (getsM (\<lambda>s. getBindingRoot (st_env s) n depth slot)) (\<lambda>r. case r of
     Inl _ \<Rightarrow> rtFail ''undefined variable %q'' [AStr n] p
   | Inr b \<Rightarrow>
       if bConst b then rtFail ''cannot mutate contents of constant %q (const is deep)'' [AStr n] p
       else retM b)"

text \<open>The second half of every write: the root binding read again, the new root computed, and committed.\<close>

definition rewriteRoot :: "pos \<Rightarrow> string \<Rightarrow> int \<Rightarrow> int \<Rightarrow> (handles \<Rightarrow> Value \<Rightarrow> (Value \<times> handles) result) \<Rightarrow> ('w, unit) M" where
  "rewriteRoot p n depth slot f = bindM (getsM (\<lambda>s. getBindingRoot (st_env s) n depth slot)) (\<lambda>r. case r of
     Inl _ \<Rightarrow> rtFail ''undefined variable %q'' [AStr n] p
   | Inr b \<Rightarrow> bindM (getsM st_het) (\<lambda>het. bindM (liftR (f het (bValue b))) (\<lambda>(new, het').
       thenM (modM (\<lambda>s. s\<lparr>st_het := het'\<rparr>)) (commitRoot p n depth slot (bValue b) new))))"

definition execIndexAssign :: "'w interp \<Rightarrow> 'w evaluator \<Rightarrow> pos \<Rightarrow> expr \<Rightarrow> expr \<Rightarrow> ('w, unit) M" where
  "execIndexAssign I ev p target e = (case lvalueRootVar target of
     None \<Rightarrow> failM (rtMsg ''internal: index-assign target has no root variable'' p)
   | Some (n, d, sl) \<Rightarrow> thenM (mutableRoot p n d sl) (bindM (evE ev e) (\<lambda>newVal.
       bindM (collectLvalueSteps ev p target) (\<lambda>steps.
         rewriteRoot p n d sl (\<lambda>het rt. applyLvalueWrite (eqNative I) (disp I) (lookupStructDef I) het rt steps newVal p)))))"

definition execFieldAssign :: "'w interp \<Rightarrow> 'w evaluator \<Rightarrow> pos \<Rightarrow> expr \<Rightarrow> expr \<Rightarrow> ('w, unit) M" where
  "execFieldAssign I ev p target e = (case lvalueRootVar target of
     None \<Rightarrow> failM (rtMsg ''internal: field-assign target has no root variable'' p)
   | Some (n, d, sl) \<Rightarrow> thenM (mutableRoot p n d sl) (bindM (evE ev e) (\<lambda>newVal.
       bindM (collectLvalueSteps ev p target) (\<lambda>steps.
         rewriteRoot p n d sl (\<lambda>het rt. applyLvalueWrite (eqNative I) (disp I) (lookupStructDef I) het rt steps newVal p)))))"

fun isVarExpr :: "expr \<Rightarrow> bool" where
  "isVarExpr (VarExpr _ _ _ _ _) \<longleftrightarrow> True"
| "isVarExpr _ \<longleftrightarrow> False"

definition appendable :: "Value \<Rightarrow> bool" where
  "appendable v \<longleftrightarrow> Kind v = KindList \<or> Kind v = KindBytes"

definition execAppend :: "'w interp \<Rightarrow> 'w evaluator \<Rightarrow> pos \<Rightarrow> expr \<Rightarrow> expr \<Rightarrow> ('w, unit) M" where
  "execAppend I ev p target e = (case lvalueRootVar target of
     None \<Rightarrow> failM (rtMsg ''internal: append target has no root variable'' p)
   | Some (n, d, sl) \<Rightarrow> bindM (mutableRoot p n d sl) (\<lambda>b.
       if isVarExpr target \<and> \<not> appendable (bValue b)
       then rtFail ''`$%s[] = ...` requires a list or bytes, got %s'' [AStr n, AKind (Kind (bValue b))] p
       else bindM (evE ev e) (\<lambda>newVal. bindM (collectLvalueSteps ev p target) (\<lambda>steps.
         rewriteRoot p n d sl (\<lambda>het rt. walkInto (eqNative I) (disp I) rt steps (\<lambda>v. appendInto het v newVal p))))))"

section \<open>Branches\<close>

fun execElseIfs :: "'w evaluator \<Rightarrow> (expr \<times> block) list \<Rightarrow> block option \<Rightarrow> ('w, flow) M" where
  "execElseIfs ev [] els = (case els of Some b \<Rightarrow> execBlock ev b | None \<Rightarrow> retM FNone)"
| "execElseIfs ev ((c, b) # rest) els = bindM (evalBool ev c ''`elseif` condition'') (\<lambda>ok.
     if ok then execBlock ev b else execElseIfs ev rest els)"

definition execIf :: "'w evaluator \<Rightarrow> expr \<Rightarrow> block \<Rightarrow> (expr \<times> block) list \<Rightarrow> block option \<Rightarrow> ('w, flow) M" where
  "execIf ev c b elseIfs els = bindM (evalBool ev c ''`if` condition'') (\<lambda>ok.
     if ok then execBlock ev b else execElseIfs ev elseIfs els)"

text \<open>The variant and the binder an unresolved arm head names.\<close>

definition armName :: "expr \<Rightarrow> (string \<times> string) option" where
  "armName e = (case e of
     ConstRefExpr _ n _ _ \<Rightarrow> Some (n, [])
   | CallExpr _ callee args _ _ _ \<Rightarrow> (case args of [ConstRefExpr _ b _ _] \<Rightarrow> Some (callee, b) | _ \<Rightarrow> None)
   | _ \<Rightarrow> None)"

definition enumArmPattern :: "'w interp \<Rightarrow> expr \<Rightarrow> Value \<Rightarrow> (string \<times> string) option" where
  "enumArmPattern I e subject = (case (armName e, subject) of
     (Some (name, bind), VEnum ns mp n _ _) \<Rightarrow> (case lookupEnumDef I ns n mp of
        Some def \<Rightarrow> if name \<in> evName ` set (edVariants def) then Some (name, bind) else None
      | None \<Rightarrow> None)
   | _ \<Rightarrow> None)"

text \<open>Statements in a frame of their own that starts with one binding.\<close>

definition boundFrame :: "'w evaluator \<Rightarrow> pos \<Rightarrow> block \<Rightarrow> (env \<Rightarrow> emsg + env) \<Rightarrow> ('w, flow) M" where
  "boundFrame ev p b def = scopedM (NumSlots b)
     (thenM (envM p (\<lambda>_. def)) (bindM (attemptM (execStmts ev (Stmts b))) (finishFrame ev)))"

definition payloadOf :: "Value \<Rightarrow> Value" where
  "payloadOf subject = (case subject of
     VEnum _ _ _ variant fs \<Rightarrow> VStruct matchPayloadNS variant [] (map (\<lambda>(n, v). (n, DeepCopy v)) fs)
   | _ \<Rightarrow> VNull)"

definition runPatternArm :: "'w evaluator \<Rightarrow> pos \<Rightarrow> block \<Rightarrow> int \<Rightarrow> string \<Rightarrow> Value \<Rightarrow> ('w, flow) M" where
  "runPatternArm ev p b bindSlot bind subject =
     (if bind = [] then execBlock ev b
      else boundFrame ev p b (\<lambda>en.
        if bindSlot \<ge> 0 then DefineAt en bindSlot bind (payloadOf subject) TypeInvalid True
        else Define en bind (payloadOf subject) TypeInvalid True))"

text \<open>Whether one of the values of an arm equals the subject; they are evaluated until one does.\<close>

fun armMatches :: "'w interp \<Rightarrow> 'w evaluator \<Rightarrow> Value \<Rightarrow> expr list \<Rightarrow> ('w, bool) M" where
  "armMatches I ev subject [] = retM False"
| "armMatches I ev subject (e # es) = bindM (evE ev e) (\<lambda>v.
     if Equal (eqNative I) subject v then retM True else armMatches I ev subject es)"

fun variantOf :: "Value \<Rightarrow> string option" where
  "variantOf (VEnum _ _ _ variant _) = Some variant"
| "variantOf _ = None"

fun execArms :: "'w interp \<Rightarrow> 'w evaluator \<Rightarrow> Value \<Rightarrow> matchArm list \<Rightarrow> block option \<Rightarrow> ('w, flow) M" where
  "execArms I ev subject [] els = (case els of Some b \<Rightarrow> execBlock ev b | None \<Rightarrow> retM FNone)"
| "execArms I ev subject (MatchArm p vals b variant bind bindSlot # arms) els =
     (if variant \<noteq> [] then
        (if variantOf subject = Some variant then runPatternArm ev p b bindSlot bind subject
         else execArms I ev subject arms els)
      else case (case vals of [e] \<Rightarrow> enumArmPattern I e subject | _ \<Rightarrow> None) of
        Some (name, bind') \<Rightarrow>
          if variantOf subject = Some name then runPatternArm ev p b bindSlot bind' subject
          else execArms I ev subject arms els
      | None \<Rightarrow> bindM (armMatches I ev subject vals) (\<lambda>hit.
          if hit then execBlock ev b else execArms I ev subject arms els))"

definition execMatch :: "'w interp \<Rightarrow> 'w evaluator \<Rightarrow> expr \<Rightarrow> matchArm list \<Rightarrow> block option \<Rightarrow> ('w, flow) M" where
  "execMatch I ev e arms els = bindM (evE ev e) (\<lambda>subject. execArms I ev subject arms els)"

section \<open>Loops\<close>

text \<open>What a loop makes of the flow of one pass: leave the loop, or go on.\<close>

definition loopFlow :: "flow \<Rightarrow> flow option" where
  "loopFlow r = (case r of FReturn v \<Rightarrow> Some (FReturn v) | FBreak _ \<Rightarrow> Some FNone | _ \<Rightarrow> None)"

definition execWhile :: "'w evaluator \<Rightarrow> expr \<Rightarrow> block \<Rightarrow> ('w, flow) M" where
  "execWhile ev c b = loopM (fuel ev) (bindM (evalBool ev c ''`while` condition'') (\<lambda>ok.
     if \<not> ok then retM (Some FNone) else bindM (execBlock ev b) (\<lambda>r. retM (loopFlow r))))"

definition execRepeat :: "'w evaluator \<Rightarrow> block \<Rightarrow> expr \<Rightarrow> ('w, flow) M" where
  "execRepeat ev b c = loopM (fuel ev) (bindM (execBlock ev b) (\<lambda>r. case loopFlow r of
     Some x \<Rightarrow> retM (Some x)
   | None \<Rightarrow> bindM (evalBool ev c ''`repeat ... until` condition'') (\<lambda>done.
       retM (if done then Some FNone else None))))"

definition optStmt :: "'w evaluator \<Rightarrow> stmt option \<Rightarrow> ('w, unit) M" where
  "optStmt ev os = (case os of None \<Rightarrow> retM () | Some st \<Rightarrow> bindM (evS ev st) (\<lambda>_. retM ()))"

definition execFor :: "'w evaluator \<Rightarrow> stmt option \<Rightarrow> expr option \<Rightarrow> stmt option \<Rightarrow> block \<Rightarrow> nat \<Rightarrow> ('w, flow) M" where
  "execFor ev initS c stepS b headerSlots = scopedM headerSlots (thenM (optStmt ev initS)
     (loopM (fuel ev) (bindM (case c of None \<Rightarrow> retM True | Some e \<Rightarrow> evalBool ev e ''`for` condition'') (\<lambda>ok.
        if \<not> ok then retM (Some FNone)
        else bindM (execBlock ev b) (\<lambda>r. case loopFlow r of
          Some x \<Rightarrow> retM (Some x)
        | None \<Rightarrow> thenM (optStmt ev stepS) (retM None))))))"

text \<open>One pass of a for-each loop, with its variable bound in the frame of the body.\<close>

definition eachPass :: "'w evaluator \<Rightarrow> pos \<Rightarrow> block \<Rightarrow> int \<Rightarrow> string \<Rightarrow> ty \<Rightarrow> Value \<Rightarrow> ('w, flow option) M" where
  "eachPass ev p b iterSlot name t v =
     bindM (boundFrame ev p b (\<lambda>en. DefineAt en iterSlot name v t False)) (\<lambda>r. retM (loopFlow r))"

definition execForEachRange :: "'w evaluator \<Rightarrow> pos \<Rightarrow> string \<Rightarrow> pos \<Rightarrow> expr \<Rightarrow> expr \<Rightarrow> block \<Rightarrow> int \<Rightarrow> ('w, flow) M" where
  "execForEachRange ev p name q lo hi b iterSlot = bindM (rangeBounds ev lo hi q) (\<lambda>(l, h).
     eachM (rangeInts l h) (\<lambda>n. eachPass ev p b iterSlot name TypeInt (VInt n)))"

definition optTy :: "ty option \<Rightarrow> ty" where
  "optTy t = (case t of None \<Rightarrow> TypeInvalid | Some x \<Rightarrow> x)"

text \<open>The passes over a collection: its elements or its keys, from a copy taken up front.\<close>

definition eachItems :: "'w evaluator \<Rightarrow> pos \<Rightarrow> string \<Rightarrow> block \<Rightarrow> int \<Rightarrow> Value \<Rightarrow> ('w, flow) M" where
  "eachItems ev p name b iterSlot c = (case c of
     VList xs et \<Rightarrow> eachM (map DeepCopy xs) (eachPass ev p b iterSlot name (optTy et))
   | VMap es kt vt mi \<Rightarrow> eachM (map (\<lambda>e. DeepCopy (fst e)) es) (eachPass ev p b iterSlot name (optTy kt))
   | _ \<Rightarrow> rtFail ''for-each requires a list or map, got %s'' [AKind (Kind c)] p)"

definition execForEach :: "'w evaluator \<Rightarrow> pos \<Rightarrow> string \<Rightarrow> expr \<Rightarrow> block \<Rightarrow> int \<Rightarrow> ('w, flow) M" where
  "execForEach ev p name coll b iterSlot = (case coll of
     RangeExpr q lo hi \<Rightarrow> execForEachRange ev p name q lo hi b iterSlot
   | _ \<Rightarrow> bindM (evE ev coll) (eachItems ev p name b iterSlot))"

section \<open>Errors and exits\<close>

definition execExit :: "'w evaluator \<Rightarrow> expr option \<Rightarrow> ('w, flow) M" where
  "execExit ev code = (case code of
     None \<Rightarrow> failM (ExitSignal 0)
   | Some e \<Rightarrow> bindM (evE ev e) (\<lambda>v. case v of
       VInt n \<Rightarrow> failM (ExitSignal n)
     | _ \<Rightarrow> rtFail ''`exit` argument must be int, got %s'' [AKind (Kind v)] (exprPos e)))"

definition execThrow :: "'w evaluator \<Rightarrow> pos \<Rightarrow> expr \<Rightarrow> ('w, unit) M" where
  "execThrow ev p e = bindM (evE ev e) (\<lambda>v. failM (ErrorSignal (stampThrowSite (DeepCopy v) p) p))"

fun deferCallArgs :: "expr \<Rightarrow> expr list" where
  "deferCallArgs (CallExpr _ _ args _ _ _) = args"
| "deferCallArgs (QualifiedCallExpr _ _ _ args _ _) = args"
| "deferCallArgs _ = []"

definition execDefer :: "'w evaluator \<Rightarrow> expr \<Rightarrow> bool \<Rightarrow> ('w, unit) M" where
  "execDefer ev call onError =
     bindM (mapM (\<lambda>a. bindM (evE ev a) (\<lambda>v. retM (DeepCopy v))) (deferCallArgs call)) (\<lambda>args.
       modM (\<lambda>s. s\<lparr>st_env := setDeferred (topDeferred (st_env s) @
         [\<lparr>dcCall = call, dcArgs = args, dcOnError = onError\<rparr>]) (st_env s)\<rparr>))"

text \<open>The value a catch clause binds, and the type it binds it at; an exit is not caught.\<close>

definition caughtValue :: "displayer \<Rightarrow> err \<Rightarrow> Value option" where
  "caughtValue d e = (case e of
     RuntimeError r \<Rightarrow> Some (runtimeErrorToValue d r)
   | ErrorSignal v _ \<Rightarrow> Some v
   | ExitSignal _ \<Rightarrow> None)"

definition catchType :: "Value \<Rightarrow> ty" where
  "catchType v = (case v of
     VStruct _ n _ _ \<Rightarrow> if n = canonicalErrorStructName then TypeStruct canonicalErrorStructName [] [] else TypeInvalid
   | _ \<Rightarrow> TypeInvalid)"

definition execTry :: "'w interp \<Rightarrow> 'w evaluator \<Rightarrow> block \<Rightarrow> string \<Rightarrow> block \<Rightarrow> pos \<Rightarrow> int \<Rightarrow> ('w, flow) M" where
  "execTry I ev body catchName catchBody catchPos catchSlot =
     bindM (attemptM (framedM ev (NumSlots body) (execStmts ev (Stmts body)))) (\<lambda>r. case r of
       Inr res \<Rightarrow> retM res
     | Inl e \<Rightarrow> (case caughtValue (disp I) e of
         None \<Rightarrow> failM e
       | Some caught \<Rightarrow> boundFrame ev catchPos catchBody (\<lambda>en.
           DefineAt en catchSlot catchName (DeepCopy caught) (catchType caught) False)))"

section \<open>Statements\<close>

definition unitFlow :: "('w, unit) M \<Rightarrow> ('w, flow) M" where
  "unitFlow m = bindM m (\<lambda>_. retM FNone)"

definition execStmt :: "'w interp \<Rightarrow> 'w evaluator \<Rightarrow> stmt \<Rightarrow> ('w, flow) M" where
  "execStmt I ev st = (case st of
     DefineStmt p c n t e sl b \<Rightarrow> unitFlow (execDefine I ev p c n t e sl b)
   | AssignStmt p n e d sl \<Rightarrow> unitFlow (execAssign I ev p n e d sl)
   | IndexAssignStmt p t e \<Rightarrow> unitFlow (execIndexAssign I ev p t e)
   | AppendStmt p t e \<Rightarrow> unitFlow (execAppend I ev p t e)
   | FieldAssignStmt p t e \<Rightarrow> unitFlow (execFieldAssign I ev p t e)
   | IfStmt _ c b eis els \<Rightarrow> execIf ev c b eis els
   | MatchStmt _ e arms els _ \<Rightarrow> execMatch I ev e arms els
   | WhileStmt _ c b \<Rightarrow> execWhile ev c b
   | ForStmt _ i c s b h \<Rightarrow> execFor ev i c s b h
   | ForEachStmt p n c b sl \<Rightarrow> execForEach ev p n c b sl
   | ReturnStmt _ e \<Rightarrow> (case e of None \<Rightarrow> retM (FReturn VNull) | Some x \<Rightarrow> bindM (evE ev x) (\<lambda>v. retM (FReturn v)))
   | BreakStmt p \<Rightarrow> retM (FBreak p)
   | ContinueStmt p \<Rightarrow> retM (FContinue p)
   | RepeatStmt _ b c \<Rightarrow> execRepeat ev b c
   | ExitStmt _ e \<Rightarrow> execExit ev e
   | TryStmt _ b n cb cp sl \<Rightarrow> execTry I ev b n cb cp sl
   | ThrowStmt p e \<Rightarrow> unitFlow (execThrow ev p e)
   | DeferStmt _ c onErr \<Rightarrow> unitFlow (execDefer ev c onErr)
   | ExprStmt _ e \<Rightarrow> bindM (evE ev e) (\<lambda>_. retM FNone))"

text \<open>The evaluator with \<open>n\<close> levels of recursive calls and \<open>n\<close> rounds in each of its loops.\<close>

primrec run :: "'w interp \<Rightarrow> nat \<Rightarrow> 'w evaluator" where
  "run I 0 = \<lparr>evE = \<lambda>_. outOfFuel, evS = \<lambda>_. outOfFuel, fuel = 0\<rparr>"
| "run I (Suc n) = \<lparr>evE = evalExpr I (run I n), evS = execStmt I (run I n), fuel = Suc n\<rparr>"

text \<open>The tail of \<open>Run\<close>: the top-level statements in the global frame, its deferred calls, and the loop
  control that reached no loop.\<close>

definition runTopLevel :: "'w evaluator \<Rightarrow> stmt list \<Rightarrow> ('w, unit) M" where
  "runTopLevel ev sts = bindM (bindM (attemptM (execStmts ev sts)) (finishFrame ev)) (\<lambda>res. case res of
     FBreak _ \<Rightarrow> failM (unhandledLoopFlowError res)
   | FContinue _ \<Rightarrow> failM (unhandledLoopFlowError res)
   | _ \<Rightarrow> retM ())"

section \<open>Whole programs\<close>

text \<open>The state \<open>Run\<close> starts the top-level statements in: one global frame with a slot per global.\<close>

definition globalState :: "nat \<Rightarrow> 'w \<Rightarrow> 'w state" where
  "globalState numGlobals w = \<lparr>st_env = [newFrame [] numGlobals], st_depth = 0, st_chain = 0, st_het = Map.empty, st_world = w\<rparr>"

definition runProgram :: "'w interp \<Rightarrow> nat \<Rightarrow> nat \<Rightarrow> stmt list \<Rightarrow> 'w \<Rightarrow> (unit result \<times> 'w state) option" where
  "runProgram I n numGlobals topLevel w = runTopLevel (run I n) topLevel (globalState numGlobals w)"

end
