(* ===== verification/Fuel.thy ===== *)
theory Fuel
  imports Interp
begin

text \<open>
  More fuel never changes an outcome: every function of the evaluator is monotone in the evaluator it
  recurses through, so an outcome reached with some fuel is the outcome with any more. An outcome
  is therefore a property of the program, not of the bound.
\<close>

section \<open>Evaluators in order\<close>

definition ev_le :: "'w evaluator \<Rightarrow> 'w evaluator \<Rightarrow> bool" where
  "ev_le ev ev' \<longleftrightarrow> (\<forall>e. leM (evE ev e) (evE ev' e)) \<and> (\<forall>st. leM (evS ev st) (evS ev' st)) \<and> fuel ev \<le> fuel ev'"

lemma ev_leD:
  assumes "ev_le ev ev'"
  shows "leM (evE ev e) (evE ev' e)" "leM (evS ev st) (evS ev' st)" "fuel ev \<le> fuel ev'"
  using assms by (simp_all add: ev_le_def)

named_theorems fuel_mono

lemmas [fuel_mono] = leM_refl leM_bind leM_then leM_attempt leM_deeper leM_scoped leM_called leM_each leM_map ev_leD

lemma leM_option [fuel_mono]:
  "(r = None \<Longrightarrow> leM m m') \<Longrightarrow> (\<And>x. r = Some x \<Longrightarrow> leM (f x) (f' x)) \<Longrightarrow>
    leM (case r of None \<Rightarrow> m | Some x \<Rightarrow> f x) (case r of None \<Rightarrow> m' | Some x \<Rightarrow> f' x)"
  by (cases r) auto

lemma leM_sum [fuel_mono]:
  "(\<And>x. r = Inl x \<Longrightarrow> leM (g x) (g' x)) \<Longrightarrow> (\<And>x. r = Inr x \<Longrightarrow> leM (f x) (f' x)) \<Longrightarrow>
    leM (case r of Inl x \<Rightarrow> g x | Inr x \<Rightarrow> f x) (case r of Inl x \<Rightarrow> g' x | Inr x \<Rightarrow> f' x)"
  by (cases r) auto

lemma leM_prod [fuel_mono]:
  "(\<And>a b. r = (a, b) \<Longrightarrow> leM (f a b) (f' a b)) \<Longrightarrow> leM (case r of (a, b) \<Rightarrow> f a b) (case r of (a, b) \<Rightarrow> f' a b)"
  by (cases r) auto

lemma leM_if [fuel_mono]:
  "(c \<Longrightarrow> leM m m') \<Longrightarrow> (\<not> c \<Longrightarrow> leM n n') \<Longrightarrow> leM (if c then m else n) (if c then m' else n')"
  by simp

lemma leM_releasing [fuel_mono]: "leM m m' \<Longrightarrow> leM (releasingM cf m) (releasingM cf m')"
  by (fastforce simp: leM_def releasingM_def split: option.splits)

lemma leM_optM: "(\<And>x. r = Some x \<Longrightarrow> r' = Some x) \<Longrightarrow> leM (optM r) (optM r')"
  by (cases r) (auto simp: optM_def leM_outOfFuel)

text \<open>Zero values: a deeper bound keeps what a smaller one built.\<close>

lemmas zero_unfold = zeroStructFor.simps(2) zeroEnumFor.simps(2)

definition zeros_kept :: "'w interp \<Rightarrow> pos \<Rightarrow> nat \<Rightarrow> bool" where
  "zeros_kept I p k \<longleftrightarrow> (\<forall>ns n mp x.
     (zeroStructFor I k p ns n mp = Some x \<longrightarrow> zeroStructFor I (Suc k) p ns n mp = Some x) \<and>
     (zeroEnumFor I k p ns n mp = Some x \<longrightarrow> zeroEnumFor I (Suc k) p ns n mp = Some x))"

lemma zeroField_kept: "zeros_kept I p k \<Longrightarrow> zeroField I k p t = Some x \<Longrightarrow> zeroField I (Suc k) p t = Some x"
  by (cases t) (auto simp: zeros_kept_def simp del: zero_unfold split: if_splits)

lemma zeroPayload_kept: "zeros_kept I p k \<Longrightarrow> zeroPayload I k p fs = Some y \<Longrightarrow> zeroPayload I (Suc k) p fs = Some y"
proof (induction fs arbitrary: y)
  case (Cons f fs)
  then show ?case
    by (simp del: zero_unfold split: option.splits sum.splits)
      (auto dest: zeroField_kept [OF Cons.prems(1)] Cons.IH [OF Cons.prems(1)])
qed simp

lemma zeros_kept: "zeros_kept I p k"
proof (induction k)
  case (Suc k)
  note kept = zeroPayload_kept [OF Suc.IH]
  have "zeroStructFor I (Suc (Suc k)) p ns n mp = Some x" if "zeroStructFor I (Suc k) p ns n mp = Some x" for ns n mp x
    using that unfolding zero_unfold(1)
    by (cases "lookupStructDef I ns n mp"; cases "zeroPayload I k p (sFields (the (lookupStructDef I ns n mp)))")
      (auto simp: kept)
  moreover have "zeroEnumFor I (Suc (Suc k)) p ns n mp = Some x" if "zeroEnumFor I (Suc k) p ns n mp = Some x" for ns n mp x
    using that unfolding zero_unfold(2)
    by (cases "lookupEnumDef I ns n mp"; cases "edVariants (the (lookupEnumDef I ns n mp))";
        cases "zeroPayload I k p (evFields (hd (edVariants (the (lookupEnumDef I ns n mp)))))")
      (auto simp: kept)
  ultimately show ?case by (simp only: zeros_kept_def) blast
qed (simp add: zeros_kept_def)

lemma zero_mono:
  assumes "k \<le> k'"
  shows "zeroPayload I k p fs = Some x \<Longrightarrow> zeroPayload I k' p fs = Some x"
    "zeroStructFor I k p ns n mp = Some y \<Longrightarrow> zeroStructFor I k' p ns n mp = Some y"
    "zeroEnumFor I k p ns n mp = Some y \<Longrightarrow> zeroEnumFor I k' p ns n mp = Some y"
  using assms by (induction rule: dec_induct) (use zeros_kept [of I p] in \<open>auto simp: zeros_kept_def zeroPayload_kept simp del: zero_unfold\<close>)

lemma leM_zero [fuel_mono]:
  assumes "ev_le ev ev'"
  shows "leM (optM (zeroPayload I (fuel ev) p fs)) (optM (zeroPayload I (fuel ev') p fs))"
    "leM (optM (zeroStructFor I (fuel ev) p ns n mp)) (optM (zeroStructFor I (fuel ev') p ns n mp))"
    "leM (optM (zeroEnumFor I (fuel ev) p ns n mp)) (optM (zeroEnumFor I (fuel ev') p ns n mp))"
  by (rule leM_optM, erule zero_mono [OF ev_leD(3) [OF assms]])+

section \<open>Expressions\<close>

lemma mono_evalBool [fuel_mono]: "ev_le ev ev' \<Longrightarrow> leM (evalBool ev e c) (evalBool ev' e c)"
  unfolding evalBool_def by (intro fuel_mono)

lemma mono_evalInterpString [fuel_mono]: "ev_le ev ev' \<Longrightarrow> leM (evalInterpString I ev ps) (evalInterpString I ev' ps)"
  unfolding evalInterpString_def by (intro fuel_mono)

lemma mono_evalListLit [fuel_mono]: "ev_le ev ev' \<Longrightarrow> leM (evalListLit ev es) (evalListLit ev' es)"
  unfolding evalListLit_def by (intro fuel_mono)

lemma mono_mapLitLoop [fuel_mono]: "ev_le ev ev' \<Longrightarrow> leM (mapLitLoop I ev kvs seen nh acc) (mapLitLoop I ev' kvs seen nh acc)"
  by (induction I ev kvs seen nh acc rule: mapLitLoop.induct) (auto intro!: fuel_mono)

lemma mono_evalMapLit [fuel_mono]: "ev_le ev ev' \<Longrightarrow> leM (evalMapLit I ev kvs) (evalMapLit I ev' kvs)"
  unfolding evalMapLit_def by (intro fuel_mono)

lemma mono_evalIndex [fuel_mono]: "ev_le ev ev' \<Longrightarrow> leM (evalIndex I ev p t i) (evalIndex I ev' p t i)"
  unfolding evalIndex_def by (intro fuel_mono)

lemma mono_rangeBounds [fuel_mono]: "ev_le ev ev' \<Longrightarrow> leM (rangeBounds ev lo hi p) (rangeBounds ev' lo hi p)"
  unfolding rangeBounds_def by (intro fuel_mono)

lemma mono_evalRange [fuel_mono]: "ev_le ev ev' \<Longrightarrow> leM (evalRange I ev p lo hi) (evalRange I ev' p lo hi)"
  unfolding evalRange_def by (intro fuel_mono)

lemma mono_sliceEnd [fuel_mono]: "ev_le ev ev' \<Longrightarrow> leM (sliceEnd ev oe dflt msg p) (sliceEnd ev' oe dflt msg p)"
  unfolding sliceEnd_def by (intro fuel_mono)

lemma mono_sliceBounds [fuel_mono]: "ev_le ev ev' \<Longrightarrow> leM (sliceBounds ev lo hi n p) (sliceBounds ev' lo hi n p)"
  unfolding sliceBounds_def by (intro fuel_mono)

lemma mono_evalSlice [fuel_mono]: "ev_le ev ev' \<Longrightarrow> leM (evalSlice ev p t lo hi) (evalSlice ev' p t lo hi)"
  unfolding evalSlice_def by (intro fuel_mono)

lemma mono_evalLen [fuel_mono]: "ev_le ev ev' \<Longrightarrow> leM (evalLen ev p e) (evalLen ev' p e)"
  unfolding evalLen_def by (intro fuel_mono)

lemma mono_litField [fuel_mono]: "ev_le ev ev' \<Longrightarrow> leM (litField ev decl pe mm) (litField ev' decl pe mm)"
  unfolding litField_def by (intro fuel_mono)

lemma mono_litMissing [fuel_mono]: "ev_le ev ev' \<Longrightarrow> leM (litMissing I ev p ns rns name decl) (litMissing I ev' p ns rns name decl)"
  unfolding litMissing_def by (intro fuel_mono)

lemma mono_evalEnumLit [fuel_mono]: "ev_le ev ev' \<Longrightarrow> leM (evalEnumLit I ev p ns en name bare fs) (evalEnumLit I ev' p ns en name bare fs)"
  unfolding evalEnumLit_def by (intro fuel_mono)

lemma mono_evalStructLit [fuel_mono]: "ev_le ev ev' \<Longrightarrow> leM (evalStructLit I ev p ns en name bare fs) (evalStructLit I ev' p ns en name bare fs)"
  unfolding evalStructLit_def by (intro fuel_mono)

lemma mono_evalFieldAccess [fuel_mono]: "ev_le ev ev' \<Longrightarrow> leM (evalFieldAccess I ev p t f) (evalFieldAccess I ev' p t f)"
  unfolding evalFieldAccess_def by (intro fuel_mono)

lemma mono_logicalOperand [fuel_mono]: "ev_le ev ev' \<Longrightarrow> leM (logicalOperand ev e mm) (logicalOperand ev' e mm)"
  unfolding logicalOperand_def by (intro fuel_mono)

lemma mono_evalLogical [fuel_mono]: "ev_le ev ev' \<Longrightarrow> leM (evalLogical ev op l r) (evalLogical ev' op l r)"
  unfolding evalLogical_def by (intro fuel_mono)

lemma mono_evalBinary [fuel_mono]: "ev_le ev ev' \<Longrightarrow> leM (evalBinary I ev p op l r f) (evalBinary I ev' p op l r f)"
  unfolding evalBinary_def by (intro fuel_mono)

lemma mono_evalUnary [fuel_mono]: "ev_le ev ev' \<Longrightarrow> leM (evalUnary ev p op e f) (evalUnary ev' p op e f)"
  unfolding evalUnary_def by (intro fuel_mono)

section \<open>Blocks and calls\<close>

lemma mono_execStmts [fuel_mono]: "ev_le ev ev' \<Longrightarrow> leM (execStmts ev sts) (execStmts ev' sts)"
  by (induction sts) (auto intro!: fuel_mono)

lemma mono_invokeDeferred [fuel_mono]: "ev_le ev ev' \<Longrightarrow> leM (invokeDeferred ev dc) (invokeDeferred ev' dc)"
  unfolding invokeDeferred_def by (intro fuel_mono)

lemma mono_deferLoop [fuel_mono]: "ev_le ev ev' \<Longrightarrow> leM (deferLoop ev failed derr dcs) (deferLoop ev' failed derr dcs)"
  by (induction dcs arbitrary: failed derr) (auto intro!: fuel_mono)

lemma mono_runDeferredCalls [fuel_mono]: "ev_le ev ev' \<Longrightarrow> leM (runDeferredCalls ev failed) (runDeferredCalls ev' failed)"
  unfolding runDeferredCalls_def by (intro fuel_mono)

lemma mono_finishFrame [fuel_mono]: "ev_le ev ev' \<Longrightarrow> leM (finishFrame ev r) (finishFrame ev' r)"
  unfolding finishFrame_def by (intro fuel_mono)

lemma mono_framedM [fuel_mono]: "ev_le ev ev' \<Longrightarrow> leM m m' \<Longrightarrow> leM (framedM ev n m) (framedM ev' n m')"
  unfolding framedM_def by (intro fuel_mono)

lemma mono_execBlock [fuel_mono]: "ev_le ev ev' \<Longrightarrow> leM (execBlock ev b) (execBlock ev' b)"
  unfolding execBlock_def by (intro fuel_mono)

lemma mono_bindArgs [fuel_mono]: "ev_le ev ev' \<Longrightarrow> leM (bindArgs I ev name ctx snap move idx pas cf) (bindArgs I ev' name ctx snap move idx pas cf)"
  by (induction pas arbitrary: idx cf) (auto intro!: fuel_mono)

lemma mono_enterMethod [fuel_mono]: "ev_le ev ev' \<Longrightarrow> leM (enterMethod I ev m cf p) (enterMethod I ev' m cf p)"
  unfolding enterMethod_def by (intro fuel_mono)

lemma mono_callMethod [fuel_mono]: "ev_le ev ev' \<Longrightarrow> leM (callMethod I ev m args snap move name p) (callMethod I ev' m args snap move name p)"
  unfolding callMethod_def Let_def by (intro fuel_mono)

lemma mono_evalCall [fuel_mono]: "ev_le ev ev' \<Longrightarrow> leM (evalCall I ev p callee args meth move snap) (evalCall I ev' p callee args meth move snap)"
  unfolding evalCall_def by (intro fuel_mono)

lemma mono_evalCallValue [fuel_mono]: "ev_le ev ev' \<Longrightarrow> leM (evalCallValue I ev p callee args snap) (evalCallValue I ev' p callee args snap)"
  unfolding evalCallValue_def by (intro fuel_mono) (auto split: Value.split intro!: fuel_mono)

lemma mono_evalQualifiedCall [fuel_mono]: "ev_le ev ev' \<Longrightarrow> leM (evalQualifiedCall I ev p prefix callee args snap) (evalQualifiedCall I ev' p prefix callee args snap)"
  unfolding evalQualifiedCall_def by (intro fuel_mono)

lemma mono_evalExpr [fuel_mono]: "ev_le ev ev' \<Longrightarrow> leM (evalExpr I ev e) (evalExpr I ev' e)"
  unfolding evalExpr_def by (cases e) (simp_all add: fuel_mono)

section \<open>Statements\<close>

lemma mono_zeroInit [fuel_mono]: "ev_le ev ev' \<Longrightarrow> leM (zeroInit I ev p t) (zeroInit I ev' p t)"
  unfolding zeroInit_def by (cases t) (simp_all add: fuel_mono)

lemma mono_execDefine [fuel_mono]: "ev_le ev ev' \<Longrightarrow> leM (execDefine I ev p c name t e slot b) (execDefine I ev' p c name t e slot b)"
  unfolding execDefine_def by (intro fuel_mono)

lemma mono_assignSlow [fuel_mono]: "ev_le ev ev' \<Longrightarrow> leM (assignSlow I ev p name e d slot) (assignSlow I ev' p name e d slot)"
  unfolding assignSlow_def by (intro fuel_mono)

lemma mono_execAssign [fuel_mono]: "ev_le ev ev' \<Longrightarrow> leM (execAssign I ev p name e d slot) (execAssign I ev' p name e d slot)"
  unfolding execAssign_def by (intro fuel_mono)

lemma mono_collectLvalueSteps [fuel_mono]: "ev_le ev ev' \<Longrightarrow> leM (collectLvalueSteps ev p e) (collectLvalueSteps ev' p e)"
  by (induction ev p e rule: collectLvalueSteps.induct) (auto intro!: fuel_mono)

lemma mono_execIndexAssign [fuel_mono]: "ev_le ev ev' \<Longrightarrow> leM (execIndexAssign I ev p t e) (execIndexAssign I ev' p t e)"
  unfolding execIndexAssign_def by (intro fuel_mono)

lemma mono_execFieldAssign [fuel_mono]: "ev_le ev ev' \<Longrightarrow> leM (execFieldAssign I ev p t e) (execFieldAssign I ev' p t e)"
  unfolding execFieldAssign_def by (intro fuel_mono)

lemma mono_execAppend [fuel_mono]: "ev_le ev ev' \<Longrightarrow> leM (execAppend I ev p t e) (execAppend I ev' p t e)"
  unfolding execAppend_def by (intro fuel_mono)

lemma mono_execElseIfs [fuel_mono]: "ev_le ev ev' \<Longrightarrow> leM (execElseIfs ev eis els) (execElseIfs ev' eis els)"
  by (induction ev eis els rule: execElseIfs.induct) (auto intro!: fuel_mono)

lemma mono_execIf [fuel_mono]: "ev_le ev ev' \<Longrightarrow> leM (execIf ev c b eis els) (execIf ev' c b eis els)"
  unfolding execIf_def by (intro fuel_mono)

lemma mono_boundFrame [fuel_mono]: "ev_le ev ev' \<Longrightarrow> leM (boundFrame ev p b d) (boundFrame ev' p b d)"
  unfolding boundFrame_def by (intro fuel_mono)

lemma mono_runPatternArm [fuel_mono]: "ev_le ev ev' \<Longrightarrow> leM (runPatternArm ev p b sl bind v) (runPatternArm ev' p b sl bind v)"
  unfolding runPatternArm_def by (intro fuel_mono)

lemma mono_armMatches [fuel_mono]: "ev_le ev ev' \<Longrightarrow> leM (armMatches I ev v es) (armMatches I ev' v es)"
  by (induction es) (auto intro!: fuel_mono)

lemma mono_execArms [fuel_mono]: "ev_le ev ev' \<Longrightarrow> leM (execArms I ev v arms els) (execArms I ev' v arms els)"
  by (induction I ev v arms els rule: execArms.induct) (auto intro!: fuel_mono)

lemma mono_execMatch [fuel_mono]: "ev_le ev ev' \<Longrightarrow> leM (execMatch I ev e arms els) (execMatch I ev' e arms els)"
  unfolding execMatch_def by (intro fuel_mono)

lemma mono_execWhile [fuel_mono]: "ev_le ev ev' \<Longrightarrow> leM (execWhile ev c b) (execWhile ev' c b)"
  unfolding execWhile_def by (intro fuel_mono leM_loop)

lemma mono_execRepeat [fuel_mono]: "ev_le ev ev' \<Longrightarrow> leM (execRepeat ev b c) (execRepeat ev' b c)"
  unfolding execRepeat_def by (intro fuel_mono leM_loop)

lemma mono_optStmt [fuel_mono]: "ev_le ev ev' \<Longrightarrow> leM (optStmt ev os) (optStmt ev' os)"
  unfolding optStmt_def by (intro fuel_mono)

lemma mono_execFor [fuel_mono]: "ev_le ev ev' \<Longrightarrow> leM (execFor ev i c s b h) (execFor ev' i c s b h)"
  unfolding execFor_def by (intro fuel_mono leM_loop)

lemma mono_eachPass [fuel_mono]: "ev_le ev ev' \<Longrightarrow> leM (eachPass ev p b sl n t v) (eachPass ev' p b sl n t v)"
  unfolding eachPass_def by (intro fuel_mono)

lemma mono_execForEachRange [fuel_mono]: "ev_le ev ev' \<Longrightarrow> leM (execForEachRange ev p n q lo hi b sl) (execForEachRange ev' p n q lo hi b sl)"
  unfolding execForEachRange_def by (intro fuel_mono)

lemma mono_eachItems [fuel_mono]: "ev_le ev ev' \<Longrightarrow> leM (eachItems ev p n b sl c) (eachItems ev' p n b sl c)"
  unfolding eachItems_def by (cases c) (auto intro!: fuel_mono)

lemma mono_execForEach [fuel_mono]: "ev_le ev ev' \<Longrightarrow> leM (execForEach ev p n c b sl) (execForEach ev' p n c b sl)"
  unfolding execForEach_def by (cases c) (simp_all add: fuel_mono)

lemma mono_execExit [fuel_mono]: "ev_le ev ev' \<Longrightarrow> leM (execExit ev e) (execExit ev' e)"
  unfolding execExit_def by (intro fuel_mono)

lemma mono_execThrow [fuel_mono]: "ev_le ev ev' \<Longrightarrow> leM (execThrow ev p e) (execThrow ev' p e)"
  unfolding execThrow_def by (intro fuel_mono)

lemma mono_execDefer [fuel_mono]: "ev_le ev ev' \<Longrightarrow> leM (execDefer ev c oe) (execDefer ev' c oe)"
  unfolding execDefer_def by (intro fuel_mono)

lemma mono_execTry [fuel_mono]: "ev_le ev ev' \<Longrightarrow> leM (execTry I ev b n cb cp sl) (execTry I ev' b n cb cp sl)"
  unfolding execTry_def by (intro fuel_mono)

lemma mono_unitFlow [fuel_mono]: "leM m m' \<Longrightarrow> leM (unitFlow m) (unitFlow m')"
  unfolding unitFlow_def by (intro fuel_mono)

lemma mono_execStmt [fuel_mono]: "ev_le ev ev' \<Longrightarrow> leM (execStmt I ev st) (execStmt I ev' st)"
  unfolding execStmt_def by (cases st) (simp_all add: fuel_mono split: option.split)

lemma mono_runTopLevel [fuel_mono]: "ev_le ev ev' \<Longrightarrow> leM (runTopLevel ev sts) (runTopLevel ev' sts)"
  unfolding runTopLevel_def by (intro fuel_mono)

section \<open>Runs\<close>

lemma run_fuel [simp]: "fuel (run I n) = n"
  by (cases n) simp_all

lemma run_step: "ev_le (run I n) (run I (Suc n))"
proof (induction n)
  case 0
  show ?case by (simp add: ev_le_def leM_outOfFuel)
next
  case (Suc n)
  have "evE (run I (Suc k)) = evalExpr I (run I k)" "evS (run I (Suc k)) = execStmt I (run I k)" for k by simp_all
  then show ?case using mono_evalExpr [OF Suc.IH] mono_execStmt [OF Suc.IH]
    by (simp add: ev_le_def del: run.simps)
qed

lemma ev_le_trans: "ev_le a b \<Longrightarrow> ev_le b c \<Longrightarrow> ev_le a c"
  by (fastforce simp: ev_le_def leM_def)

lemma run_mono: "n \<le> m \<Longrightarrow> ev_le (run I n) (run I m)"
proof (induction rule: dec_induct)
  case base
  show ?case by (simp add: ev_le_def)
next
  case (step k)
  from step.IH run_step show ?case by (rule ev_le_trans)
qed

end
