(* ===== verification/Control.thy ===== *)
theory Control
  imports Fuel
begin

text \<open>
  Control flow of the evaluator: what leaves a loop, what \<open>try\<close> catches, which deferred calls run, in
  which order and whose error wins, and the agreement of alternative routes to the same behaviour
  (lazy and materialised ranges, the two ways to slice a string, duplicate detection in map
  literals).
\<close>

section \<open>Loops\<close>

text \<open>A flow a loop may hand on: no \<open>break\<close> or \<open>continue\<close>.\<close>

definition settled :: "flow \<Rightarrow> bool" where
  "settled r \<longleftrightarrow> (case r of FNone \<Rightarrow> True | FReturn _ \<Rightarrow> True | _ \<Rightarrow> False)"

lemma settled_simps [simp]: "settled FNone" "settled (FReturn v)" "\<not> settled (FBreak p)" "\<not> settled (FContinue p)"
  by (simp_all add: settled_def)

definition settledM :: "('w, flow) M \<Rightarrow> bool" where
  "settledM m \<longleftrightarrow> (\<forall>s r s'. m s = Some (Inr r, s') \<longrightarrow> settled r)"

definition settlesM :: "('w, flow option) M \<Rightarrow> bool" where
  "settlesM m \<longleftrightarrow> (\<forall>s r s'. m s = Some (Inr (Some r), s') \<longrightarrow> settled r)"

lemma loopFlow_settled: "loopFlow r = Some x \<Longrightarrow> settled x"
  by (cases r) (auto simp: loopFlow_def)

lemma settledM_bind: "(\<And>x. settledM (f x)) \<Longrightarrow> settledM (bindM m f)"
  by (fastforce simp: settledM_def bindM_def split: option.splits sum.splits prod.splits)

lemma settledM_then: "settledM n \<Longrightarrow> settledM (thenM m n)"
  unfolding thenM_def by (rule settledM_bind)

lemma settlesM_bind: "(\<And>x. settlesM (f x)) \<Longrightarrow> settlesM (bindM m f)"
  by (fastforce simp: settlesM_def bindM_def split: option.splits sum.splits prod.splits)

lemma settlesM_ret: "pred_option settled x \<Longrightarrow> settlesM (retM x)"
  by (auto simp: settlesM_def retM_def)

lemma settlesM_loopFlow [simp]: "settlesM (retM (loopFlow r))"
  by (rule settlesM_ret) (auto simp: loopFlow_settled option.pred_set dest: sym)

lemma settledM_fail: "settledM (failM e)"
  by (simp add: settledM_def failM_def)

lemma settledM_scoped: "settledM m \<Longrightarrow> settledM (scopedM n m)"
  by (fastforce simp: settledM_def scopedM_def split: option.splits)

lemma settledM_loop: "settlesM body \<Longrightarrow> settledM (loopM n body)"
proof (induction n)
  case (Suc n)
  then show ?case
    by (fastforce simp: settledM_def settlesM_def bindM_def retM_def split: option.splits sum.splits prod.splits)
qed (simp add: settledM_def outOfFuel_def)

lemma settledM_each: "(\<And>x. settlesM (body x)) \<Longrightarrow> settledM (eachM xs body)"
proof (induction xs)
  case (Cons x xs)
  then show ?case
    by (fastforce simp: settledM_def settlesM_def bindM_def retM_def split: option.splits sum.splits prod.splits)
qed (simp add: settledM_def retM_def)

lemma settled_execWhile: "settledM (execWhile ev c b)"
  unfolding execWhile_def
  by (intro settledM_loop settlesM_bind) (auto intro!: settlesM_bind settlesM_loopFlow intro: settlesM_ret)

lemma settled_execRepeat: "settledM (execRepeat ev b c)"
  unfolding execRepeat_def
  by (intro settledM_loop settlesM_bind)
    (auto intro!: settlesM_bind settlesM_ret dest: loopFlow_settled split: option.split)

lemma settlesM_handOn: "settlesM m \<Longrightarrow> settlesM (case loopFlow r of Some x \<Rightarrow> retM (Some x) | None \<Rightarrow> m)"
  by (cases "loopFlow r") (auto intro!: settlesM_ret dest: loopFlow_settled)

lemma settled_execFor: "settledM (execFor ev i c st b h)"
  unfolding execFor_def thenM_def
  by (intro settledM_scoped settledM_bind settledM_loop settlesM_bind)
    (auto intro!: settlesM_bind settlesM_handOn intro: settlesM_ret)

lemma settles_eachPass: "settlesM (eachPass ev p b sl n t v)"
  unfolding eachPass_def by (intro settlesM_bind settlesM_loopFlow)

lemma settled_execForEach: "settledM (execForEach ev p n c b sl)"
proof -
  have "settledM (eachItems ev p n b sl v)" for v
    unfolding eachItems_def by (cases v) (auto intro!: settledM_each settles_eachPass settledM_fail)
  moreover have "settledM (execForEachRange ev p n q lo hi b sl)" for q lo hi
    unfolding execForEachRange_def by (intro settledM_bind) (auto intro!: settledM_each settles_eachPass split: prod.split)
  ultimately show ?thesis unfolding execForEach_def by (cases c) (auto intro!: settledM_bind)
qed

text \<open>Iterating a range without building it is iterating the list it stands for.\<close>

lemma rangeCheck_ints: "rangeCheck lv hv p = Inr (l, h) \<Longrightarrow> lv = VInt l \<and> hv = VInt h \<and> l \<le>s h"
  by (cases lv; cases hv) (auto simp: rangeCheck_def word_sless_alt word_sle_eq split: if_splits)

lemma rangeBounds_ordered: "rangeBounds ev lo hi q s = Some (Inr (l, h), s') \<Longrightarrow> l \<le>s h"
  by (auto simp: rangeBounds_def bindM_def liftR_def dest!: rangeCheck_ints split: option.splits sum.splits prod.splits)

lemma map_DeepCopy_ints [simp]: "map DeepCopy (map VInt xs) = map VInt xs"
  by (induction xs) simp_all

lemma eachM_map: "eachM (map g xs) f = eachM xs (\<lambda>x. f (g x))"
  by (induction xs) (simp_all cong: option.case_cong)

lemma lazy_range_list:
  assumes "\<And>l h s'. rangeBounds ev lo hi q s = Some (Inr (l, h), s') \<Longrightarrow> \<exists>v. rangeList I l h q = Inr v"
  shows "execForEachRange ev p n q lo hi b sl s = bindM (evalRange I ev q lo hi) (eachItems ev p n b sl) s"
proof (cases "rangeBounds ev lo hi q s")
  case (Some x)
  obtain r s1 where x: "x = (r, s1)" by (cases x)
  show ?thesis
  proof (cases r)
    case (Inr lh)
    obtain l h where lh: "lh = (l, h)" by (cases lh)
    from assms [of l h s1] Some x Inr lh have v: "rangeList I l h q = Inr (VList (map VInt (rangeInts l h)) (Some TypeInt))"
      by (auto simp: rangeList_def Let_def split: if_splits)
    have "eachItems ev p n b sl (VList (map VInt (rangeInts l h)) (Some TypeInt)) =
        eachM (rangeInts l h) (\<lambda>n'. eachPass ev p b sl n TypeInt (VInt n'))"
      unfolding eachItems_def Value.case map_DeepCopy_ints eachM_map by (simp add: optTy_def)
    then show ?thesis using Some x Inr lh v by (simp add: execForEachRange_def evalRange_def bindM_def liftR_def)
  qed (use Some x in \<open>simp add: execForEachRange_def evalRange_def bindM_def\<close>)
qed (simp add: execForEachRange_def evalRange_def bindM_def)

text \<open>The ints of a range, and the guard on its length: a length past the int64 range wraps to a negative
  count, which the guard refuses.\<close>

lemma rangeInts_sint: "map sint (rangeInts lo hi) = [sint lo..sint hi - 1]"
proof -
  have "sint (word_of_int x :: int64) = x" if "x \<in> set [sint lo..sint hi - 1]" for x
    using that sint64_lower [of lo] sint64_upper [of hi] by (intro sint_word_of_int64) (auto simp: in_int64_def)
  then show ?thesis unfolding rangeInts_def map_map comp_def by (rule map_idI)
qed

lemma rangeList_elements:
  assumes "rangeList I lo hi p = Inr v" "lo \<le>s hi"
  shows "v = VList (map VInt (rangeInts lo hi)) (Some TypeInt) \<and> map sint (rangeInts lo hi) = [sint lo..sint hi - 1] \<and>
    sint hi - sint lo \<le> MaxRangeElements I"
proof -
  from assms(1) have c: "\<not> hi - lo <s 0" "sint (hi - lo) \<le> MaxRangeElements I" "v = VList (map VInt (rangeInts lo hi)) (Some TypeInt)"
    by (auto simp: rangeList_def Let_def split: if_splits)
  have "sint (hi - lo) = sint hi - sint lo"
    using c(1) assms(2) sint_sub_if64 [of hi lo] sint64_lower [of lo] sint64_upper [of hi] by (auto simp: word_sless_alt word_sle_eq split: if_splits)
  with c rangeInts_sint show ?thesis by simp
qed

section \<open>Deferred calls\<close>

text \<open>The calls that run on the way out of a frame with their outcomes, in order: an \<open>errdefer\<close> only once an
  error is on its way, be it the frame's own or one of an earlier deferred call.\<close>

fun deferOutcomes :: "'w evaluator \<Rightarrow> bool \<Rightarrow> deferredCall list \<Rightarrow> 'w state \<Rightarrow> ((deferredCall \<times> unit result) list \<times> 'w state) option" where
  "deferOutcomes ev failed [] s = Some ([], s)"
| "deferOutcomes ev failed (dc # dcs) s =
     (if dcOnError dc \<and> \<not> failed then deferOutcomes ev failed dcs s
      else case invokeDeferred ev dc s of
        None \<Rightarrow> None
      | Some (r, s') \<Rightarrow> map_option (map_prod ((#) (dc, r)) id) (deferOutcomes ev (failed \<or> isl r) dcs s'))"

definition lastError :: "err option \<Rightarrow> (deferredCall \<times> unit result) list \<Rightarrow> err option" where
  "lastError e outs = fold (\<lambda>x e. case snd x of Inl e' \<Rightarrow> Some e' | Inr _ \<Rightarrow> e) outs e"

lemma lastError_Cons [simp]: "lastError e (x # outs) = lastError (case snd x of Inl e' \<Rightarrow> Some e' | Inr _ \<Rightarrow> e) outs"
  by (simp add: lastError_def)

lemma deferLoop_outcomes:
  "deferLoop ev failed derr dcs s = map_option (\<lambda>(outs, s'). (Inr (lastError derr outs), s')) (deferOutcomes ev failed dcs s)"
proof (induction dcs arbitrary: failed derr s)
  case (Cons dc dcs)
  show ?case
  proof (cases "dcOnError dc \<and> \<not> failed")
    case False
    then show ?thesis
      by (auto simp: Cons bindM_def attemptM_def option.map_comp comp_def case_prod_beta split: option.split sum.split)
  qed (simp add: Cons)
qed (simp add: retM_def lastError_def)

text \<open>Which ones: every plain \<open>defer\<close>, and every call once an error is on its way.\<close>

lemma deferOutcomes_plain:
  "deferOutcomes ev failed dcs s = Some (outs, s') \<Longrightarrow>
    filter (\<lambda>dc. \<not> dcOnError dc) (map fst outs) = filter (\<lambda>dc. \<not> dcOnError dc) dcs"
  by (induction dcs arbitrary: failed s outs) (auto split: if_splits option.splits)

lemma deferOutcomes_failed:
  "deferOutcomes ev True dcs s = Some (outs, s') \<Longrightarrow> map fst outs = dcs"
  by (induction dcs arbitrary: s outs) (auto split: option.splits)

lemma deferOutcomes_quiet:
  "deferOutcomes ev False dcs s = Some (outs, s') \<Longrightarrow> list_all (\<lambda>x. \<not> isl (snd x)) outs \<Longrightarrow>
    map fst outs = filter (\<lambda>dc. \<not> dcOnError dc) dcs"
proof (induction dcs arbitrary: s outs)
  case (Cons dc dcs)
  then show ?case by (cases "dcOnError dc") (fastforce split: option.splits)+
qed simp

text \<open>The way out of a frame: its deferred calls, the last registered first, against its own outcome.\<close>

lemma finishFrame_outcomes:
  "finishFrame ev r s = (case deferOutcomes ev (errdeferFires r) (rev (topDeferred (st_env s)))
       (if topDeferred (st_env s) = [] then s else s\<lparr>st_env := setDeferred [] (st_env s)\<rparr>) of
     None \<Rightarrow> None
   | Some (outs, s') \<Rightarrow> Some (mergeDeferred r (lastError None outs), s'))"
  by (auto simp: finishFrame_def runDeferredCalls_def deferLoop_outcomes bindM_def thenM_def getsM_def modM_def liftR_def
      mergeDeferred_def lastError_def split: option.split)

section \<open>Exits and errors\<close>

lemma framed_exit:
  assumes "m (s\<lparr>st_env := borrowBlockEnv (st_env s) n\<rparr>) = Some (Inl (ExitSignal c), s1)" "framedM ev n m s = Some (r, s')"
  shows "r = Inl (ExitSignal c)"
  using assms by (auto simp: framedM_def scopedM_def bindM_def attemptM_def finishFrame_outcomes mergeDeferred_def
      split: option.splits)

lemma execTry_cases:
  assumes "framedM ev (NumSlots b) (execStmts ev (Stmts b)) s = Some (r, s1)"
  shows "execTry I ev b n cb cp sl s = (case r of
     Inr res \<Rightarrow> Some (Inr res, s1)
   | Inl (ExitSignal c) \<Rightarrow> Some (Inl (ExitSignal c), s1)
   | Inl (RuntimeError e) \<Rightarrow> boundFrame ev cp cb (\<lambda>en. DefineAt en sl n (DeepCopy (runtimeErrorToValue (disp I) e))
       (catchType (runtimeErrorToValue (disp I) e)) False) s1
   | Inl (ErrorSignal v _) \<Rightarrow> boundFrame ev cp cb (\<lambda>en. DefineAt en sl n (DeepCopy v) (catchType v) False) s1)"
  using assms by (auto simp: execTry_def bindM_def attemptM_def retM_def failM_def caughtValue_def split: sum.split err.split)

section \<open>Calls\<close>

text \<open>At the limit of nesting, or over the budget of live copies, a call is refused before its body runs.\<close>

lemma enterMethod_limits:
  "st_depth s + 1 > MaxCallDepth I \<Longrightarrow> \<exists>f a. enterMethod I ev m cf p s = Some (Inl (limitErr f a p), releaseFrame cf s)"
  "st_depth s + 1 \<le> MaxCallDepth I \<Longrightarrow> st_chain s > copyChainBudget I \<Longrightarrow>
    \<exists>f a. enterMethod I ev m cf p s = Some (Inl (limitErr f a p), releaseFrame cf s)"
  by (auto simp: enterMethod_def bindM_def getsM_def releasingM_def failM_def)

section \<open>Slices of strings\<close>

lemma sum_list_ge_length: "(\<And>x. x \<in> set xs \<Longrightarrow> 1 \<le> f x) \<Longrightarrow> length xs \<le> sum_list (map f xs)" for f :: "'a \<Rightarrow> nat"
  by (induction xs) force+

lemma all_ones:
  fixes f :: "'a \<Rightarrow> nat"
  shows "(\<And>x. x \<in> set xs \<Longrightarrow> 1 \<le> f x) \<Longrightarrow> sum_list (map f xs) = length xs \<Longrightarrow> x \<in> set xs \<Longrightarrow> f x = 1"
proof (induction xs)
  case (Cons y ys)
  have "length ys \<le> sum_list (map f ys)" by (rule sum_list_ge_length) (use Cons.prems(1) in auto)
  moreover have "1 \<le> f y" using Cons.prems by simp
  ultimately have "f y = 1" "sum_list (map f ys) = length ys" using Cons.prems(2) by simp_all
  then show ?case using Cons by auto
qed simp

lemma concat_singletons:
  assumes "\<And>c. c \<in> set cs \<Longrightarrow> length c = 1"
  shows "concat (take n (drop m cs)) = take n (drop m (concat cs))"
proof -
  have "\<exists>xs. cs = map (\<lambda>x. [x]) xs"
    using assms
  proof (induction cs)
    case (Cons c cs)
    then obtain xs where "cs = map (\<lambda>x. [x]) xs" by auto
    moreover obtain x where "c = [x]" using Cons.prems [of c] by (auto simp: length_Suc_conv)
    ultimately have "c # cs = map (\<lambda>x. [x]) (x # xs)" by simp
    then show ?case by (rule exI)
  qed simp
  then obtain xs where cs: "cs = map (\<lambda>x. [x]) xs" by blast
  have "concat (map (\<lambda>x. [x]) ys) = ys" for ys :: "'a list" by (induction ys) simp_all
  then show ?thesis by (simp add: cs take_map drop_map)
qed

text \<open>When every rune is one byte, slicing by bytes is slicing by runes.\<close>

lemma sliceString_runes: "sliceString s lo hi = concat (map snd (take (hi - lo) (drop lo (runeChunks s))))"
proof (cases "length s = runeLen s")
  case True
  let ?cs = "map snd (runeChunks s)"
  have s: "concat ?cs = s" by (rule runeChunks_concat)
  have "sum_list (map length ?cs) = length ?cs"
    using True s by (metis length_concat length_map runeLen_def)
  then have "length c = 1" if "c \<in> set ?cs" for c
    using all_ones [of ?cs length c] runeChunks_nonempty that by (force simp: Suc_le_eq)
  from concat_singletons [OF this, of ?cs] show ?thesis using True s by (simp add: sliceString_def take_map drop_map)
qed (simp add: sliceString_def)

text \<open>Cutting a string at a rune boundary changes none of the runes before the cut.\<close>

lemma DecodeRune_take:
  assumes "snd (DecodeRune s) \<le> n"
  shows "DecodeRune (take n s) = DecodeRune s"
proof (cases s)
  case (Cons c0 s1)
  then have "n \<noteq> 0" using assms DecodeRune_width [of s] by auto
  then obtain n1 where n: "n = Suc n1" by (cases n) auto
  show ?thesis
  proof (cases s1)
    case s1: (Cons c1 s2)
    show ?thesis
    proof (cases s2)
      case s2: (Cons c2 s3)
      show ?thesis
        using assms unfolding Cons n s1 s2
        by (cases s3; cases n1; cases "n1 - 1"; cases "n1 - 2") (auto simp: Let_def split: if_splits)
    qed (use assms in \<open>cases n1; auto simp: Cons n s1 Let_def split: if_splits\<close>)
  qed (simp add: Cons n)
qed simp

lemma runeChunks_drop: "runeChunks (concat (map snd (drop k (runeChunks s)))) = drop k (runeChunks s)"
proof (induction k arbitrary: s)
  case (Suc k)
  show ?case
  proof (cases "s = []")
    case False
    then have "drop (Suc k) (runeChunks s) = drop k (runeChunks (drop (snd (DecodeRune s)) s))"
      by (subst runeChunks.simps) simp
    with Suc show ?thesis by simp
  qed (simp add: runeChunks.simps)
qed (simp add: runeChunks_concat)

lemma runeChunks_take: "runeChunks (concat (map snd (take k (runeChunks s)))) = take k (runeChunks s)"
proof (induction k arbitrary: s)
  case (Suc k)
  show ?case
  proof (cases "s = []")
    case False
    define w where "w = snd (DecodeRune s)"
    define t where "t = drop w s"
    define pre where "pre = concat (map snd (take k (runeChunks t)))"
    have w: "1 \<le> w" "w \<le> length s" using DecodeRune_width [OF False] by (simp_all add: w_def)
    have ch: "runeChunks s = (fst (DecodeRune s), take w s) # runeChunks t"
      using False by (subst runeChunks.simps) (simp add: w_def t_def)
    have "pre @ concat (map snd (drop k (runeChunks t))) = t"
      unfolding pre_def by (metis append_take_drop_id concat_append map_append runeChunks_concat)
    then have "take (length pre) t = pre" by (metis append_eq_conv_conj)
    then have cut: "take w s @ pre = take (w + length pre) s" by (simp add: take_add t_def)
    have "DecodeRune (take w s @ pre) = DecodeRune s" unfolding cut by (rule DecodeRune_take) (simp add: w_def)
    moreover have "take w s @ pre \<noteq> []" using w by auto
    ultimately have "runeChunks (take w s @ pre) = (fst (DecodeRune s), take w s) # runeChunks pre"
      using w by (subst runeChunks.simps) (simp flip: w_def)
    then show ?thesis using Suc.IH [of t] by (simp add: ch pre_def)
  qed (simp add: runeChunks.simps)
qed (simp add: runeChunks.simps)

lemma toRunes_slice: "toRunes (sliceString s lo hi) = take (hi - lo) (drop lo (toRunes s))"
proof -
  let ?t = "concat (map snd (drop lo (runeChunks s)))"
  have t: "runeChunks ?t = drop lo (runeChunks s)" by (rule runeChunks_drop)
  have "sliceString s lo hi = concat (map snd (take (hi - lo) (runeChunks ?t)))" by (simp add: sliceString_runes t)
  then have "runeChunks (sliceString s lo hi) = take (hi - lo) (drop lo (runeChunks s))"
    using runeChunks_take [of "hi - lo" ?t] by (simp add: t)
  then show ?thesis by (simp add: toRunes_def take_map drop_map)
qed

section \<open>Map literals\<close>

text \<open>The codes of the hashable keys.\<close>

definition keyCodes :: "entries \<Rightarrow> string list" where
  "keyCodes es = List.map_filter (\<lambda>e. mapKeyEncode (fst e)) es"

lemma keyCodes_snoc: "keyCodes (es @ [(k, v)]) = keyCodes es @ (case mapKeyEncode k of None \<Rightarrow> [] | Some c \<Rightarrow> [c])"
  by (simp add: keyCodes_def map_filter_def split: option.split)

lemma mapLitLoop_distinct:
  "mapLitLoop I ev kvs seen nh acc s = Some (Inr es, s') \<Longrightarrow> set seen = set (keyCodes acc) \<Longrightarrow> distinct (keyCodes acc) \<Longrightarrow>
    distinct (keyCodes es) \<and> length es = length acc + length kvs"
proof (induction I ev kvs seen nh acc arbitrary: s rule: mapLitLoop.induct)
  case (1 I ev seen nh acc)
  then show ?case by (simp add: retM_def)
next
  case (2 I ev ke ve rest seen nh acc)
  from 2(3) obtain key s1 where key: "evE ev ke s = Some (Inr key, s1)"
    by (auto simp: bindM_def split: option.splits sum.splits)
  show ?case
  proof (cases "mapKeyEncode key")
    case None
    with 2(3) key obtain val s2 where val: "evE ev ve s1 = Some (Inr val, s2)"
        "mapLitLoop I ev rest seen (nh @ [key]) (acc @ [(DeepCopy key, literalElementValue ve val)]) s2 = Some (Inr es, s')"
        "\<not> list_ex (\<lambda>prev. Equal (eqNative I) prev key) nh"
      by (auto simp: bindM_def failM_def split: option.splits sum.splits if_splits)
    from 2(1) [OF None val(3,2)] 2(4,5) None show ?thesis by (simp add: keyCodes_snoc)
  next
    case (Some enc)
    with 2(3) key obtain val s2 where val: "evE ev ve s1 = Some (Inr val, s2)"
        "mapLitLoop I ev rest (enc # seen) nh (acc @ [(DeepCopy key, literalElementValue ve val)]) s2 = Some (Inr es, s')"
        "enc \<notin> set seen"
      by (auto simp: bindM_def failM_def split: option.splits sum.splits if_splits)
    from 2(2) [OF Some val(3,2)] 2(4,5) Some val(3) show ?thesis by (simp add: keyCodes_snoc)
  qed
qed

lemma evalMapLit_distinct:
  assumes "evalMapLit I ev kvs s = Some (Inr v, s')"
  shows "\<exists>es. v = VMap es None None (buildMapIndex es) \<and> length es = length kvs \<and> distinct (keyCodes es)"
proof -
  from assms obtain es where es: "mapLitLoop I ev kvs [] [] [] s = Some (Inr es, s')" "v = VMap es None None (buildMapIndex es)"
    by (auto simp: evalMapLit_def bindM_def retM_def split: option.splits sum.splits)
  from mapLitLoop_distinct [OF es(1)] es(2) show ?thesis by (simp add: keyCodes_def)
qed

end
