(* ===== verification/Frames.thy ===== *)
theory Frames
  imports Interp
begin

text \<open>
  What evaluation does to the scope chain and the counters, whatever its outcome. An expression keeps
  every frame: the bindings with their names, types and constness, the values of constants, the
  deferred calls and the byte counts; the depth and memory counters come back to where they were, and
  an element type recorded on a task or channel stays. A statement does the same to every frame but
  the innermost, whose own byte count accounts for the change of the memory counter.
\<close>

section \<open>Frames kept\<close>

definition binding_kept :: "binding \<Rightarrow> binding \<Rightarrow> bool" where
  "binding_kept b b' \<longleftrightarrow> bType b' = bType b \<and> bConst b' = bConst b \<and> bSlot b' = bSlot b \<and> bName b' = bName b \<and>
     (bConst b \<longrightarrow> bValue b' = bValue b)"

definition frame_kept :: "frame \<Rightarrow> frame \<Rightarrow> bool" where
  "frame_kept f f' \<longleftrightarrow> list_all2 binding_kept (slots f) (slots f') \<and>
     list_all2 (\<lambda>x y. fst y = fst x \<and> binding_kept (snd x) (snd y)) (vars f) (vars f') \<and>
     deferred f' = deferred f \<and> frameBytes f' = frameBytes f \<and> borrowDefs f' = borrowDefs f"

abbreviation env_kept :: "env \<Rightarrow> env \<Rightarrow> bool" where
  "env_kept \<equiv> list_all2 frame_kept"

text \<open>The relation of an expression between the states before and after, and the one of a statement.\<close>

definition keptE :: "'w state \<Rightarrow> 'w state \<Rightarrow> bool" where
  "keptE s s' \<longleftrightarrow> env_kept (st_env s) (st_env s') \<and> st_depth s' = st_depth s \<and> st_chain s' = st_chain s \<and>
     st_het s \<subseteq>\<^sub>m st_het s'"

definition keptS :: "'w state \<Rightarrow> 'w state \<Rightarrow> bool" where
  "keptS s s' \<longleftrightarrow> (\<exists>f e f' e'. st_env s = f # e \<and> st_env s' = f' # e' \<and> env_kept e e' \<and> borrowDefs f' = borrowDefs f \<and>
     st_chain s' - frameBytes f' = st_chain s - frameBytes f) \<and> st_depth s' = st_depth s \<and> st_het s \<subseteq>\<^sub>m st_het s'"

lemma binding_kept_refl [simp]: "binding_kept b b"
  by (simp add: binding_kept_def)

lemma binding_kept_trans: "binding_kept a b \<Longrightarrow> binding_kept b c \<Longrightarrow> binding_kept a c"
  by (auto simp: binding_kept_def)

lemma binding_kept_update [simp]: "\<not> bConst b \<Longrightarrow> binding_kept b (b\<lparr>bValue := v\<rparr>)"
  by (auto simp: binding_kept_def)

lemma frame_kept_refl [simp]: "frame_kept f f"
  by (simp add: frame_kept_def list_all2_refl)

lemma frame_kept_trans: "frame_kept a b \<Longrightarrow> frame_kept b c \<Longrightarrow> frame_kept a c"
  unfolding frame_kept_def
  by (elim conjE, intro conjI, (erule (1) list_all2_trans [rotated], auto intro: binding_kept_trans)+)

lemma env_kept_refl [simp]: "env_kept e e"
  by (simp add: list_all2_refl)

lemma env_kept_trans: "env_kept a b \<Longrightarrow> env_kept b c \<Longrightarrow> env_kept a c"
  by (erule (1) list_all2_trans [rotated]) (rule frame_kept_trans)

lemma keptE_refl [simp]: "keptE s s"
  by (simp add: keptE_def)

lemma keptE_trans: "keptE a b \<Longrightarrow> keptE b c \<Longrightarrow> keptE a c"
  by (auto simp: keptE_def intro: env_kept_trans map_le_trans)

lemma keptS_trans: "keptS a b \<Longrightarrow> keptS b c \<Longrightarrow> keptS a c"
  by (fastforce simp: keptS_def intro: env_kept_trans map_le_trans)

lemma keptE_keptS: "keptE s s' \<Longrightarrow> st_env s \<noteq> [] \<Longrightarrow> keptS s s'"
  by (cases "st_env s") (auto simp: keptE_def keptS_def frame_kept_def list_all2_Cons1)

lemma keptE_nonempty: "keptE s s' \<Longrightarrow> st_env s' = [] \<longleftrightarrow> st_env s = []"
  by (auto simp: keptE_def)

lemma keptS_nonempty: "keptS s s' \<Longrightarrow> st_env s' \<noteq> [] \<and> st_env s \<noteq> []"
  by (auto simp: keptS_def)

section \<open>Computations that keep\<close>

definition keepsM :: "('w state \<Rightarrow> bool) \<Rightarrow> ('w state \<Rightarrow> 'w state \<Rightarrow> bool) \<Rightarrow> ('w, 'a) M \<Rightarrow> bool" where
  "keepsM P R m \<longleftrightarrow> (\<forall>s r s'. st_env s \<noteq> [] \<longrightarrow> P s \<longrightarrow> m s = Some (r, s') \<longrightarrow> R s s')"

abbreviation exprM :: "('w, 'a) M \<Rightarrow> bool" where
  "exprM \<equiv> keepsM (\<lambda>_. True) keptE"

abbreviation stmtM :: "('w, 'a) M \<Rightarrow> bool" where
  "stmtM \<equiv> keepsM (\<lambda>_. True) keptS"

text \<open>Preconditions that an expression does not disturb.\<close>

definition stable :: "('w state \<Rightarrow> bool) \<Rightarrow> bool" where
  "stable P \<longleftrightarrow> (\<forall>s s'. P s \<longrightarrow> keptE s s' \<longrightarrow> P s')"

named_theorems keeps

lemma stable_True [simp, keeps]: "stable (\<lambda>_. True)"
  by (simp add: stable_def)

lemma exprM_stmtM: "keepsM P keptE m \<Longrightarrow> keepsM P keptS m"
  by (auto simp: keepsM_def intro: keptE_keptS)

lemma keepsM_bind:
  assumes "keepsM P R m" "\<And>x. keepsM P R (f x)"
    and tr: "\<And>a b c. R a b \<Longrightarrow> R b c \<Longrightarrow> R a c"
    and st: "\<And>s s'. st_env s \<noteq> [] \<Longrightarrow> P s \<Longrightarrow> R s s' \<Longrightarrow> P s' \<and> st_env s' \<noteq> []"
  shows "keepsM P R (bindM m f)"
  unfolding keepsM_def
proof (intro allI impI)
  fix s r s'
  assume s: "st_env s \<noteq> []" "P s" and run: "bindM m f s = Some (r, s')"
  from run obtain r1 s1 where m: "m s = Some (r1, s1)" by (auto simp: bindM_def split: option.splits)
  then have R: "R s s1" using assms(1) s by (auto simp: keepsM_def)
  show "R s s'"
  proof (cases r1)
    case (Inl e)
    then show ?thesis using run m R by (simp add: bindM_def)
  next
    case (Inr x)
    then have "f x s1 = Some (r, s')" using run m by (simp add: bindM_def)
    then have "R s1 s'" using assms(2) [of x] st [OF s R] by (auto simp: keepsM_def)
    with R show ?thesis by (rule tr)
  qed
qed

lemma expr_bind:
  "stable P \<Longrightarrow> keepsM P keptE m \<Longrightarrow> (\<And>x. keepsM P keptE (f x)) \<Longrightarrow> keepsM P keptE (bindM m f)"
  by (rule keepsM_bind) (auto simp: stable_def dest: keptE_nonempty intro: keptE_trans)

lemma stmt_bind:
  "stmtM m \<Longrightarrow> (\<And>x. stmtM (f x)) \<Longrightarrow> stmtM (bindM m f)"
  by (rule keepsM_bind) (auto dest: keptS_nonempty intro: keptS_trans)

lemma expr_then: "stable P \<Longrightarrow> keepsM P keptE m \<Longrightarrow> keepsM P keptE n \<Longrightarrow> keepsM P keptE (thenM m n)"
  by (simp add: thenM_def expr_bind)

lemma stmt_then: "stmtM m \<Longrightarrow> stmtM n \<Longrightarrow> stmtM (thenM m n)"
  by (simp add: thenM_def stmt_bind)

text \<open>Computations that leave the state alone.\<close>

lemma expr_pure:
  "keepsM P keptE (retM x)" "keepsM P keptE (failM e)" "keepsM P keptE (liftR r)" "keepsM P keptE (getsM g)"
  "keepsM P keptE (lookupM p h)" "keepsM P keptE outOfFuel" "keepsM P keptE (optM z)"
  by (auto simp: keepsM_def retM_def failM_def liftR_def getsM_def lookupM_def outOfFuel_def optM_def split: sum.splits option.splits)

lemma expr_attempt: "keepsM P keptE m \<Longrightarrow> keepsM P keptE (attemptM m)"
  by (fastforce simp: keepsM_def attemptM_def split: option.splits)

lemma stmt_attempt: "stmtM m \<Longrightarrow> stmtM (attemptM m)"
  by (fastforce simp: keepsM_def attemptM_def split: option.splits)

lemma expr_deeper: "exprM m \<Longrightarrow> exprM (deeperM m)"
  unfolding keepsM_def
proof (intro allI impI)
  fix s r s'
  assume m: "\<forall>s r s'. st_env s \<noteq> [] \<longrightarrow> True \<longrightarrow> m s = Some (r, s') \<longrightarrow> keptE s s'"
    and s: "st_env s \<noteq> []" and run: "deeperM m s = Some (r, s')"
  from run obtain s1 where s1: "m (s\<lparr>st_depth := st_depth s + 1\<rparr>) = Some (r, s1)" "s' = s1\<lparr>st_depth := st_depth s1 - 1\<rparr>"
    by (auto simp: deeperM_def split: option.splits)
  from m [rule_format, OF _ _ s1(1)] s show "keptE s s'" by (simp add: s1(2) keptE_def)
qed

lemma expr_option: "(r = None \<Longrightarrow> keepsM P R m) \<Longrightarrow> (\<And>x. r = Some x \<Longrightarrow> keepsM P R (f x)) \<Longrightarrow>
    keepsM P R (case r of None \<Rightarrow> m | Some x \<Rightarrow> f x)"
  by (cases r) auto

lemma expr_sum: "(\<And>x. r = Inl x \<Longrightarrow> keepsM P R (g x)) \<Longrightarrow> (\<And>x. r = Inr x \<Longrightarrow> keepsM P R (f x)) \<Longrightarrow>
    keepsM P R (case r of Inl x \<Rightarrow> g x | Inr x \<Rightarrow> f x)"
  by (cases r) auto

lemma expr_prod: "(\<And>a b. r = (a, b) \<Longrightarrow> keepsM P R (f a b)) \<Longrightarrow> keepsM P R (case r of (a, b) \<Rightarrow> f a b)"
  by (cases r) auto

lemma expr_if: "(c \<Longrightarrow> keepsM P R m) \<Longrightarrow> (\<not> c \<Longrightarrow> keepsM P R n) \<Longrightarrow> keepsM P R (if c then m else n)"
  by simp

lemma expr_map: "stable P \<Longrightarrow> (\<And>x. x \<in> set xs \<Longrightarrow> keepsM P keptE (f x)) \<Longrightarrow> keepsM P keptE (mapM f xs)"
  by (induction xs) (auto intro!: expr_bind expr_pure)

text \<open>A frame pushed and popped around a statement is an expression to the rest.\<close>

lemma expr_scoped: "stmtM m \<Longrightarrow> exprM (scopedM n m)"
  unfolding keepsM_def
proof (intro allI impI)
  fix s r s'
  assume m: "\<forall>s r s'. st_env s \<noteq> [] \<longrightarrow> True \<longrightarrow> m s = Some (r, s') \<longrightarrow> keptS s s'"
    and run: "scopedM n m s = Some (r, s')"
  from run obtain s1 where s1: "m (s\<lparr>st_env := borrowBlockEnv (st_env s) n\<rparr>) = Some (r, s1)" "s' = releaseTop s1"
    by (auto simp: scopedM_def split: option.splits)
  from m [rule_format, OF _ _ s1(1)] have "keptS (s\<lparr>st_env := borrowBlockEnv (st_env s) n\<rparr>) s1"
    by (simp add: borrowBlockEnv_def)
  then show "keptE s s'" by (auto simp: s1(2) keptS_def keptE_def releaseTop_def borrowBlockEnv_def newFrame_def)
qed

lemmas [keeps] = expr_bind stmt_bind expr_then stmt_then expr_pure expr_attempt stmt_attempt expr_deeper
  expr_option expr_sum expr_prod expr_if expr_map expr_scoped

section \<open>Writes to variables\<close>

lemma slots_kept: "i < length bs \<Longrightarrow> \<not> bConst (bs ! i) \<Longrightarrow> list_all2 binding_kept bs (bs[i := (bs ! i)\<lparr>bValue := v\<rparr>])"
  by (auto simp: list_all2_conv_all_nth nth_list_update)

lemma vars_kept:
  "map_of vs n = Some b \<Longrightarrow> \<not> bConst b \<Longrightarrow>
    list_all2 (\<lambda>x y. fst y = fst x \<and> binding_kept (snd x) (snd y)) vs (AList.update n (b\<lparr>bValue := v\<rparr>) vs)"
  by (induction vs) (auto simp: list_all2_refl)

lemma set_slot_kept:
  "i < length (slots f) \<Longrightarrow> \<not> bConst (slots f ! i) \<Longrightarrow>
    frame_kept f (f\<lparr>slots := (slots f)[i := (slots f ! i)\<lparr>bValue := v\<rparr>]\<rparr>)"
  by (simp add: frame_kept_def slots_kept list_all2_refl)

lemma set_var_kept:
  "map_of (vars f) n = Some b \<Longrightarrow> \<not> bConst b \<Longrightarrow> frame_kept f (f\<lparr>vars := AList.update n (b\<lparr>bValue := v\<rparr>) (vars f)\<rparr>)"
  by (simp add: frame_kept_def vars_kept list_all2_refl)

lemma lookupLocal_kept:
  assumes "lookupLocal f n = Some (b, si)" "\<not> bConst b"
  shows "frame_kept f (if si \<ge> 0 then f\<lparr>slots := (slots f)[nat si := b\<lparr>bValue := v\<rparr>]\<rparr>
     else f\<lparr>vars := AList.update n (b\<lparr>bValue := v\<rparr>) (vars f)\<rparr>)"
  using assms scanSlots_Some [of n "slots f"]
  by (auto simp: lookupLocal_def set_slot_kept set_var_kept split: option.splits)

lemma env_set_kept: "d < length e \<Longrightarrow> frame_kept (e ! d) f' \<Longrightarrow> env_kept e (e[d := f'])"
  by (auto simp: list_all2_conv_all_nth nth_list_update)

lemma Assign_kept: "Assign het e n v = Inr e' \<Longrightarrow> env_kept e e'"
proof (induction e arbitrary: e')
  case (Cons f e)
  show ?case
  proof (cases "lookupLocal f n")
    case None
    with Cons show ?thesis by (cases "Assign het e n v") auto
  next
    case (Some a)
    obtain b si where a: "a = (b, si)" by (cases a)
    from Cons.prems Some a have "\<not> bConst b" by (auto simp: checkAssign_def split: if_splits)
    from lookupLocal_kept [OF Some [unfolded a] this, of v] Cons.prems Some a
    show ?thesis by (auto split: option.splits if_splits)
  qed
qed simp

lemma frameAt_Some: "frameAt e d = Some f \<Longrightarrow> nat d < length e \<and> f = e ! nat d"
  by (auto simp: frameAt_def split: if_splits)

lemma setSlotValue_kept:
  assumes "slotBinding e d sl = Some b" "\<not> bConst b"
  shows "env_kept e (setSlotValue e d sl v)"
  using assms
  by (auto simp: slotBinding_def setSlotValue_def inSlots_def dest!: frameAt_Some intro!: env_set_kept set_slot_kept
      split: option.splits if_splits)

lemma fastAssign_kept: "fastAssign d sl e en = Some en' \<Longrightarrow> env_kept en en'"
  by (auto simp: fastAssign_def intro: setSlotValue_kept split: option.splits if_splits)

lemma AssignAt_kept: "AssignAt het e d sl n v = Inr e' \<Longrightarrow> env_kept e e'"
  by (auto simp: AssignAt_def inSlots_def checkAssign_def Let_def dest!: frameAt_Some
      dest: Assign_kept intro!: env_set_kept set_slot_kept split: option.splits if_splits)

lemma assignRoot_kept: "assignRoot het e n d sl v = Inr e' \<Longrightarrow> env_kept e e'"
  by (auto simp: assignRoot_def intro: Assign_kept AssignAt_kept split: if_splits)

text \<open>The root binding of a write stays mutable while expressions are evaluated.\<close>

definition rootMutable :: "string \<Rightarrow> int \<Rightarrow> int \<Rightarrow> env \<Rightarrow> bool" where
  "rootMutable n d sl e \<longleftrightarrow> (\<exists>b. getBindingRoot e n d sl = Inr b \<and> \<not> bConst b)"

lemma scanSlots_kept: "list_all2 binding_kept bs bs' \<Longrightarrow> scanSlots n bs' = scanSlots n bs"
  by (induction rule: list_all2_induct) (auto simp: binding_kept_def)

lemma map_of_kept:
  "list_all2 (\<lambda>x y. fst y = fst x \<and> binding_kept (snd x) (snd y)) vs vs' \<Longrightarrow>
    rel_option binding_kept (map_of vs n) (map_of vs' n)"
  by (induction rule: list_all2_induct) auto

lemma lookupLocal_rel:
  "frame_kept f f' \<Longrightarrow> rel_option (rel_prod binding_kept (=)) (lookupLocal f n) (lookupLocal f' n)"
  using map_of_kept [of "vars f" "vars f'" n] scanSlots_kept [of "slots f" "slots f'" n] scanSlots_Some [of n "slots f"]
  by (auto simp: lookupLocal_def frame_kept_def list_all2_nthD option_rel_Some1 option_rel_Some2 split: option.splits)

lemma GetBinding_kept:
  "env_kept e e' \<Longrightarrow> GetBinding e n = Inr b \<Longrightarrow> \<exists>b'. GetBinding e' n = Inr b' \<and> binding_kept b b'"
proof (induction rule: list_all2_induct)
  case (Cons f e f' e')
  from lookupLocal_rel [OF Cons.hyps(1), of n] Cons show ?case
    by (auto simp: option_rel_Some1 option_rel_Some2 split: option.splits prod.splits)
qed simp

lemma GetBindingAt_kept:
  assumes "env_kept e e'" "GetBindingAt e d sl n = Inr b"
  shows "\<exists>b'. GetBindingAt e' d sl n = Inr b' \<and> binding_kept b b'"
proof -
  from assms(2) obtain f where f: "frameAt e d = Some f" by (auto simp: GetBindingAt_def split: option.splits)
  have len: "length e' = length e" using list_all2_lengthD [OF assms(1)] by simp
  have k: "frame_kept f (e' ! nat d)" and f': "frameAt e' d = Some (e' ! nat d)"
    using frameAt_Some [OF f] list_all2_nthD [OF assms(1)] len by (auto simp: frameAt_def)
  have sl: "length (slots (e' ! nat d)) = length (slots f)" and b: "list_all2 binding_kept (slots f) (slots (e' ! nat d))"
    using k by (auto simp: frame_kept_def dest: list_all2_lengthD)
  from k map_of_kept [of "vars f" "vars (e' ! nat d)" n] assms(2) f f' sl list_all2_nthD [OF b, of "nat sl"]
  show ?thesis
    by (auto simp: GetBindingAt_def inSlots_def frame_kept_def option_rel_Some1 split: option.splits if_splits)
qed

lemma rootMutable_stable: "stable (\<lambda>s. rootMutable n d sl (st_env s))"
  unfolding stable_def rootMutable_def getBindingRoot_def keptE_def
  using GetBinding_kept GetBindingAt_kept by (fastforce simp: binding_kept_def split: if_splits)

lemma pokeName_kept: "GetBinding e n = Inr b \<Longrightarrow> \<not> bConst b \<Longrightarrow> env_kept e (pokeName e n v)"
proof (induction e)
  case (Cons f e)
  show ?case
  proof (cases "lookupLocal f n")
    case None
    with Cons show ?thesis by simp
  next
    case (Some a)
    with Cons.prems show ?thesis using lookupLocal_kept [of f n "fst a" "snd a" v] by (cases a) auto
  qed
qed simp

lemma pokeRoot_kept: "rootMutable n d sl e \<Longrightarrow> env_kept e (pokeRoot e n d sl v)"
  unfolding rootMutable_def getBindingRoot_def pokeRoot_def
  by (auto simp: GetBindingAt_def setSlotValue_def inSlots_def dest!: frameAt_Some intro!: env_set_kept set_slot_kept set_var_kept
      intro: pokeName_kept split: option.splits if_splits)

lemma Define_keptS:
  "Define (st_env s) n v t c = Inr e' \<Longrightarrow> keptS s (s\<lparr>st_env := e'\<rparr>)"
  "DefineAt (st_env s) sl n v t c = Inr e' \<Longrightarrow> keptS s (s\<lparr>st_env := e'\<rparr>)"
  by (cases "st_env s"; auto simp: keptS_def Let_def split: if_splits)+

section \<open>Handles\<close>

lemma stampHandle_le: "het \<subseteq>\<^sub>m stampHandle het v t"
  by (cases t; cases v) (auto simp: stampHandle_def map_le_def split: option.splits)

lemma storedValue_le: "storedValue het t v = (w, h) \<Longrightarrow> het \<subseteq>\<^sub>m h"
  using stampHandle_le by (auto simp: storedValue_def stampDeclaredType_def split: option.splits)

lemma writeIndexedSlot_le: "writeIndexedSlot N het par i v p = Inr (w, h) \<Longrightarrow> het \<subseteq>\<^sub>m h"
proof (cases par)
  case (VList xs et)
  then show "writeIndexedSlot N het par i v p = Inr (w, h) \<Longrightarrow> het \<subseteq>\<^sub>m h"
    by (cases "indexListPos (length xs) i p")
      (auto simp: writeIndexedSlot_def dest: storedValue_le split: if_splits prod.splits)
next
  case (VBytes bs)
  then show "writeIndexedSlot N het par i v p = Inr (w, h) \<Longrightarrow> het \<subseteq>\<^sub>m h"
    by (cases "byteOf v p") (auto simp: writeIndexedSlot_def split: Value.splits if_splits)
qed (auto simp: writeIndexedSlot_def dest: storedValue_le split: if_splits prod.splits)

lemma lvalueWriteLeaf_le: "lvalueWriteLeaf N look het par st v = Inr (w, h) \<Longrightarrow> het \<subseteq>\<^sub>m h"
  by (cases st; cases par)
    (auto simp: stampDeclaredType_def stampHandle_le dest: writeIndexedSlot_le split: option.splits if_splits)

lemma appendInto_le: "appendInto het c v p = Inr (w, h) \<Longrightarrow> het \<subseteq>\<^sub>m h"
  by (cases c; cases "byteOf v p") (auto simp: appendInto_def dest: storedValue_le split: if_splits prod.splits)

lemma walkInto_le:
  "(\<And>v w h. leaf v = Inr (w, h) \<Longrightarrow> het \<subseteq>\<^sub>m h) \<Longrightarrow> walkInto N d v steps leaf = Inr (w, h) \<Longrightarrow> het \<subseteq>\<^sub>m h"
proof (induction steps arbitrary: v w)
  case (Cons st sts)
  then show ?case
    by (cases "lvalueStepInto N d v st"; cases "walkInto N d (childAt v (projr (lvalueStepInto N d v st))) sts leaf") auto
qed auto

lemma applyLvalueWrite_le: "applyLvalueWrite N d look het rt steps v p = Inr (w, h) \<Longrightarrow> het \<subseteq>\<^sub>m h"
  by (auto simp: applyLvalueWrite_def dest: walkInto_le [rotated] intro: lvalueWriteLeaf_le split: if_splits)

section \<open>State changes\<close>

lemma keepsM_modM: "keepsM P R (modM f) \<longleftrightarrow> (\<forall>s. st_env s \<noteq> [] \<longrightarrow> P s \<longrightarrow> R s (f s))"
  by (auto simp: keepsM_def modM_def)

lemma expr_stampM [keeps]: "keepsM P keptE (stampM v t)"
  by (auto simp: keepsM_def stampM_def keptE_def stampDeclaredType_def stampHandle_le)

lemma expr_bindParamM [keeps]: "keepsM P keptE (bindParamM v t)"
  by (auto simp: keepsM_def bindParamM_def keptE_def stampDeclaredType_def stampHandle_le split: if_splits)

lemma expr_callBuiltin [keeps]: "keepsM P keptE (callBuiltin fn p args)"
  by (auto simp: keepsM_def callBuiltin_def keptE_def split: prod.splits)

lemma stmt_accountCopy [keeps]: "stmtM (accountCopy I v)"
  by (auto simp: accountCopy_def keepsM_modM Let_def keptS_def addBytes_def neq_Nil_conv)

lemma stmt_setDeferred [keeps]: "stmtM (modM (\<lambda>s. s\<lparr>st_env := setDeferred (ds s) (st_env s)\<rparr>))"
  by (auto simp: keepsM_modM keptS_def setDeferred_def neq_Nil_conv)

lemma stmt_define [keeps]:
  "stmtM (envM p (\<lambda>_ en. if slot \<ge> 0 then DefineAt en slot n v t c else Define en n v t c))"
  "stmtM (envM p (\<lambda>_ en. DefineAt en slot n v t c))"
  by (auto simp: keepsM_def envM_def intro: keptE_keptS Define_keptS split: sum.splits if_splits)

lemma expr_assign [keeps]: "keepsM P keptE (envM p (\<lambda>h en. assignRoot h en n d sl w))"
  by (auto simp: keepsM_def envM_def keptE_def dest: assignRoot_kept split: sum.splits)

lemma expr_commit [keeps]: "keepsM (\<lambda>s. rootMutable n d sl (st_env s)) keptE (commitRoot p n d sl old new)"
  by (auto simp: keepsM_def commitRoot_def keptE_def pokeRoot_kept dest: assignRoot_kept split: sum.splits)

end
