(* ===== verification/Discipline.thy ===== *)
theory Discipline
  imports Frames Fuel
begin

text \<open>
  The frame discipline of \<open>Frames\<close> for every function of the evaluator, and so for every run: each
  expression keeps the frames and counters, each statement all but its own frame.
\<close>

definition ev_keeps :: "'w evaluator \<Rightarrow> bool" where
  "ev_keeps ev \<longleftrightarrow> (\<forall>e. exprM (evE ev e)) \<and> (\<forall>st. stmtM (evS ev st))"

lemma ev_keepsD: "ev_keeps ev \<Longrightarrow> exprM (evE ev e)" "ev_keeps ev \<Longrightarrow> stmtM (evS ev st)"
  by (simp_all add: ev_keeps_def)

lemma exprM_weaken: "exprM m \<Longrightarrow> keepsM P keptE m"
  by (simp add: keepsM_def)

lemma keepsMD: "keepsM P R m \<Longrightarrow> st_env s \<noteq> [] \<Longrightarrow> P s \<Longrightarrow> m s = Some (r, s') \<Longrightarrow> R s s'"
  by (simp add: keepsM_def)

lemmas stmt_pure = expr_pure [THEN exprM_stmtM, where P = "\<lambda>_. True"]

lemmas [keeps] = ev_keepsD ev_keepsD(1) [THEN exprM_stmtM] stmt_pure expr_stampM [THEN exprM_stmtM]

lemma expr_loop [keeps]: "exprM body \<Longrightarrow> exprM (loopM n body)"
  by (induction n) (auto intro!: keeps)

lemma stmt_loop [keeps]: "stmtM body \<Longrightarrow> stmtM (loopM n body)"
  by (induction n) (auto intro!: keeps)

lemma expr_each [keeps]: "(\<And>x. exprM (body x)) \<Longrightarrow> exprM (eachM xs body)"
  by (induction xs) (auto intro!: keeps)

section \<open>Expressions\<close>

lemma keep_evalBool [keeps]: "ev_keeps ev \<Longrightarrow> exprM (evalBool ev e c)"
  unfolding evalBool_def by (auto intro!: keeps split: Value.split)

lemma keep_evalInterpString [keeps]: "ev_keeps ev \<Longrightarrow> exprM (evalInterpString I ev ps)"
  unfolding evalInterpString_def by (auto intro!: keeps)

lemma keep_evalVar [keeps]: "exprM (evalVar p n d sl)"
  unfolding evalVar_def by (auto intro!: keeps)

lemma keep_evalConstRef [keeps]: "exprM (evalConstRef I p n d sl)"
  unfolding evalConstRef_def by (auto intro!: keeps)

lemma keep_evalListLit [keeps]: "ev_keeps ev \<Longrightarrow> exprM (evalListLit ev es)"
  unfolding evalListLit_def by (auto intro!: keeps)

lemma keep_mapLitLoop [keeps]: "ev_keeps ev \<Longrightarrow> exprM (mapLitLoop I ev kvs seen nh acc)"
  by (induction I ev kvs seen nh acc rule: mapLitLoop.induct) (auto intro!: keeps)

lemma keep_evalMapLit [keeps]: "ev_keeps ev \<Longrightarrow> exprM (evalMapLit I ev kvs)"
  unfolding evalMapLit_def by (auto intro!: keeps)

lemma keep_evalIndex [keeps]: "ev_keeps ev \<Longrightarrow> exprM (evalIndex I ev p t i)"
  unfolding evalIndex_def by (auto intro!: keeps)

lemma keep_rangeBounds [keeps]: "ev_keeps ev \<Longrightarrow> exprM (rangeBounds ev lo hi p)"
  unfolding rangeBounds_def by (auto intro!: keeps)

lemma keep_evalRange [keeps]: "ev_keeps ev \<Longrightarrow> exprM (evalRange I ev p lo hi)"
  unfolding evalRange_def by (auto intro!: keeps)

lemma keep_sliceEnd [keeps]: "ev_keeps ev \<Longrightarrow> exprM (sliceEnd ev oe dflt msg p)"
  unfolding sliceEnd_def by (auto intro!: keeps split: Value.split)

lemma keep_sliceBounds [keeps]: "ev_keeps ev \<Longrightarrow> exprM (sliceBounds ev lo hi n p)"
  unfolding sliceBounds_def by (auto intro!: keeps)

lemma keep_evalSlice [keeps]: "ev_keeps ev \<Longrightarrow> exprM (evalSlice ev p t lo hi)"
  unfolding evalSlice_def by (auto intro!: keeps)

lemma keep_evalLen [keeps]: "ev_keeps ev \<Longrightarrow> exprM (evalLen ev p e)"
  unfolding evalLen_def by (auto intro!: keeps)

lemma keep_litField [keeps]: "ev_keeps ev \<Longrightarrow> exprM (litField ev decl pe mm)"
  unfolding litField_def by (auto intro!: keeps)

lemma keep_litMissing [keeps]: "ev_keeps ev \<Longrightarrow> exprM (litMissing I ev p ns rns name decl)"
  unfolding litMissing_def by (auto intro!: keeps)

lemma keep_evalEnumLit [keeps]: "ev_keeps ev \<Longrightarrow> exprM (evalEnumLit I ev p ns en name bare fs)"
  unfolding evalEnumLit_def by (auto intro!: keeps)

lemma keep_evalStructLit [keeps]: "ev_keeps ev \<Longrightarrow> exprM (evalStructLit I ev p ns en name bare fs)"
  unfolding evalStructLit_def by (auto intro!: keeps)

lemma keep_evalFieldAccess [keeps]: "ev_keeps ev \<Longrightarrow> exprM (evalFieldAccess I ev p t f)"
  unfolding evalFieldAccess_def by (auto intro!: keeps)

lemma keep_logicalOperand [keeps]: "ev_keeps ev \<Longrightarrow> exprM (logicalOperand ev e mm)"
  unfolding logicalOperand_def by (auto intro!: keeps split: Value.split)

lemma keep_evalLogical [keeps]: "ev_keeps ev \<Longrightarrow> exprM (evalLogical ev op l r)"
  unfolding evalLogical_def by (auto intro!: keeps)

lemma keep_evalBinary [keeps]: "ev_keeps ev \<Longrightarrow> exprM (evalBinary I ev p op l r f)"
  unfolding evalBinary_def by (auto intro!: keeps)

lemma keep_evalUnary [keeps]: "ev_keeps ev \<Longrightarrow> exprM (evalUnary ev p op e f)"
  unfolding evalUnary_def by (auto intro!: keeps)

section \<open>Blocks\<close>

lemma keep_execStmts [keeps]: "ev_keeps ev \<Longrightarrow> stmtM (execStmts ev sts)"
  by (induction sts) (auto intro!: keeps)

lemma keep_invokeDeferred [keeps]: "ev_keeps ev \<Longrightarrow> exprM (invokeDeferred ev dc)"
  unfolding invokeDeferred_def by (auto intro!: keeps)

lemma keep_deferLoop [keeps]: "ev_keeps ev \<Longrightarrow> exprM (deferLoop ev failed derr dcs)"
  by (induction dcs arbitrary: failed derr) (auto intro!: keeps)

lemma keep_runDeferredCalls [keeps]: "ev_keeps ev \<Longrightarrow> stmtM (runDeferredCalls ev failed)"
  unfolding runDeferredCalls_def using stmt_setDeferred [of "\<lambda>_. []"]
  by (auto intro!: keeps keep_deferLoop [THEN exprM_stmtM])

lemma keep_finishFrame [keeps]: "ev_keeps ev \<Longrightarrow> stmtM (finishFrame ev r)"
  unfolding finishFrame_def by (auto intro!: keeps)

lemma keep_framedM [keeps]: "ev_keeps ev \<Longrightarrow> stmtM m \<Longrightarrow> exprM (framedM ev n m)"
  unfolding framedM_def by (auto intro!: keeps)

lemma keep_execBlock [keeps]: "ev_keeps ev \<Longrightarrow> exprM (execBlock ev b)"
  unfolding execBlock_def by (auto intro!: keeps)

section \<open>Calls\<close>

text \<open>The memory counter changed by \<open>c\<close> bytes, everything else kept.\<close>

definition keptBy :: "int \<Rightarrow> 'w state \<Rightarrow> 'w state \<Rightarrow> bool" where
  "keptBy c s s' \<longleftrightarrow> keptE s (s'\<lparr>st_chain := st_chain s' - c\<rparr>)"

lemma keptBy_0 [simp]: "keptBy 0 s s' \<longleftrightarrow> keptE s s'"
  by (simp add: keptBy_def)

lemma keptBy_trans: "keptBy c s s1 \<Longrightarrow> keptBy d s1 s2 \<Longrightarrow> keptBy (c + d) s s2"
  by (auto simp: keptBy_def keptE_def intro: env_kept_trans map_le_trans)

lemma keptE_keptBy: "keptE s s1 \<Longrightarrow> keptBy d s1 s2 \<Longrightarrow> keptBy d s s2"
  using keptBy_trans [of 0 s s1 d s2] by simp

text \<open>The bytes of a call frame under construction, as they stand when a step is over: released on an error.\<close>

definition boundBy :: "frame \<Rightarrow> frame result \<Rightarrow> int" where
  "boundBy cf r = (case r of Inl _ \<Rightarrow> - frameBytes cf | Inr cf' \<Rightarrow> frameBytes cf' - frameBytes cf)"

lemma keep_bindOne:
  assumes "st_env s \<noteq> []" "bindOne I moved borrow idx p v cf s = Some (r, s')"
  shows "\<exists>cf'. r = Inr cf' \<and> keptBy (boundBy cf r) s s'"
  using assms
  by (auto simp: bindOne_def bindM_def stampM_def bindParamM_def retM_def thenM_def modM_def keptBy_def keptE_def boundBy_def
      defineParam_def stampDeclaredType_def stampHandle_le Let_def split: if_splits prod.splits)

lemma keep_bindArgs:
  "ev_keeps ev \<Longrightarrow> st_env s \<noteq> [] \<Longrightarrow> bindArgs I ev name ctx snap move idx pas cf s = Some (r, s') \<Longrightarrow>
    keptBy (boundBy cf r) s s'"
proof (induction I ev name ctx snap move idx pas cf arbitrary: s rule: bindArgs.induct)
  case (1 I ev name ctx snap move idx cf)
  then show ?case by (auto simp: retM_def boundBy_def)
next
  case (2 I ev name ctx snap move idx p a rest cf)
  note run = "2.prems"(3) and kE = ev_keepsD(1) [OF "2.prems"(1), of a]
  obtain ra s1 where a: "evE ev a s = Some (ra, s1)"
    using run by (auto simp: bindM_def releasingM_def split: option.splits)
  have k1: "keptE s s1" using kE a "2.prems"(2) by (auto simp: keepsM_def)
  show ?case
  proof (cases ra)
    case (Inl e)
    with run a k1 show ?thesis by (auto simp: bindM_def releasingM_def releaseFrame_def boundBy_def keptBy_def keptE_def)
  next
    case (Inr v)
    show ?thesis
    proof (cases "MatchesDeclared (st_het s1) v (pType p)")
      case False
      with run a Inr k1 show ?thesis
        by (auto simp: bindM_def releasingM_def releaseFrame_def getsM_def failM_def boundBy_def keptBy_def keptE_def)
    next
      case True
      with run a Inr obtain rb s2 where b: "bindOne I (move = idx + 1) (ctx \<and> \<not> snapped snap idx) idx p v cf s1 = Some (rb, s2)"
        by (auto simp: bindM_def releasingM_def getsM_def split: option.splits)
      have ne1: "st_env s1 \<noteq> []" using k1 "2.prems"(2) keptE_nonempty by blast
      from keep_bindOne [OF ne1 b] obtain cf' where cf': "rb = Inr cf'" "keptBy (frameBytes cf' - frameBytes cf) s1 s2"
        by (auto simp: boundBy_def)
      have ne2: "st_env s2 \<noteq> []" using cf'(2) ne1 by (auto simp: keptBy_def keptE_def)
      have "bindArgs I ev name ctx snap move (Suc idx) rest cf' s2 = Some (r, s')"
        using run a Inr True b cf'(1) by (simp add: bindM_def releasingM_def getsM_def)
      from "2.IH" [of "st_het s1" v, OF _ "2.prems"(1) ne2 this] True keptE_keptBy [OF k1 cf'(2)]
      have "keptBy (frameBytes cf' - frameBytes cf + boundBy cf' r) s s'" by (blast intro: keptBy_trans)
      then show ?thesis by (cases r) (simp_all add: boundBy_def)
    qed
  qed
qed

lemma keep_called:
  assumes m: "exprM m" and ne: "st_env s \<noteq> []" and run: "calledM cf m s = Some (r, s')"
  shows "keptBy (- frameBytes cf) s s'"
proof -
  from run obtain s1 where s1: "m (s\<lparr>st_env := [cf, last (st_env s)]\<rparr>) = Some (r, s1)"
      "s' = (releaseTop s1)\<lparr>st_env := butlast (st_env s) @ [last (st_env s1)]\<rparr>"
    by (auto simp: calledM_def split: option.splits)
  from m s1(1) have k: "keptE (s\<lparr>st_env := [cf, last (st_env s)]\<rparr>) s1" by (auto simp: keepsM_def)
  then have e1: "frame_kept (last (st_env s)) (last (st_env s1))" "frameBytes (hd (st_env s1)) = frameBytes cf"
    by (auto simp: keptE_def list_all2_Cons1 frame_kept_def)
  have "env_kept (butlast (st_env s) @ [last (st_env s)]) (butlast (st_env s) @ [last (st_env s1)])"
    using e1(1) by (intro list_all2_appendI) simp_all
  then have "env_kept (st_env s) (butlast (st_env s) @ [last (st_env s1)])" using ne by simp
  with k e1(2) s1(2) show ?thesis by (simp add: keptBy_def keptE_def releaseTop_def)
qed

lemma keep_enterMethod:
  assumes "ev_keeps ev" "st_env s \<noteq> []" "enterMethod I ev m cf p s = Some (r, s')"
  shows "keptBy (- frameBytes cf) s s'"
proof -
  let ?body = "calledM cf (deeperM (execBlock ev (mBody m)))"
  consider r1 s1 where "?body s = Some (r1, s1)" "s' = s1" | "s' = releaseFrame cf s"
    using assms(3) by (auto simp: enterMethod_def bindM_def getsM_def releasingM_def failM_def liftR_def
        split: if_splits option.splits sum.splits)
  then show ?thesis
  proof cases
    case 1
    have "exprM (deeperM (execBlock ev (mBody m)))" using assms(1) by (auto intro!: keeps)
    from keep_called [OF this assms(2) 1(1)] 1(2) show ?thesis by simp
  next
    case 2
    then show ?thesis by (simp add: keptBy_def keptE_def releaseFrame_def)
  qed
qed

lemma keep_callMethod [keeps]:
  assumes "ev_keeps ev"
  shows "exprM (callMethod I ev m args snap move name p)"
  unfolding keepsM_def
proof (intro allI impI)
  fix s r s'
  assume ne: "st_env s \<noteq> []" and run: "callMethod I ev m args snap move name p s = Some (r, s')"
  let ?cf = "(newFrame [last (st_env s)] (length (mParams m)))\<lparr>borrowDefs := methodBorrowCtx I m\<rparr>"
  have 0: "frameBytes ?cf = 0" by (simp add: newFrame_def)
  show "keptE s s'"
  proof (cases "length args = length (mParams m)")
    case False
    with run show ?thesis by (simp add: callMethod_def failM_def)
  next
    case True
    let ?bind = "bindArgs I ev name (methodBorrowCtx I m) snap move 0 (zip (mParams m) args) ?cf"
    obtain rb s1 where b: "?bind s = Some (rb, s1)"
      using run True by (auto simp: callMethod_def Let_def bindM_def getsM_def split: option.splits)
    note kb = keep_bindArgs [OF assms ne b]
    show ?thesis
    proof (cases rb)
      case (Inl e)
      then show ?thesis using run True b kb 0 by (auto simp: callMethod_def Let_def bindM_def getsM_def boundBy_def)
    next
      case (Inr cf)
      then have "enterMethod I ev m cf p s1 = Some (r, s')"
        using run True b by (simp add: callMethod_def Let_def bindM_def getsM_def)
      moreover have "st_env s1 \<noteq> []" using kb ne by (auto simp: keptBy_def keptE_def)
      ultimately have "keptBy (frameBytes cf + - frameBytes cf) s s1'" if "s1' = s'" for s1'
        using keptBy_trans [OF kb] keep_enterMethod [OF assms] Inr 0 that by (fastforce simp: boundBy_def)
      then show ?thesis by simp
    qed
  qed
qed

lemma keep_evalCall [keeps]: "ev_keeps ev \<Longrightarrow> exprM (evalCall I ev p callee args meth move snap)"
  unfolding evalCall_def by (auto intro!: keeps split: option.split prod.split)

lemma keep_evalCallValue [keeps]: "ev_keeps ev \<Longrightarrow> exprM (evalCallValue I ev p callee args snap)"
  unfolding evalCallValue_def by (auto intro!: keeps split: Value.split option.split)

lemma keep_evalQualifiedCall [keeps]: "ev_keeps ev \<Longrightarrow> exprM (evalQualifiedCall I ev p prefix callee args snap)"
  unfolding evalQualifiedCall_def by (auto intro!: keeps split: sum.split option.split)

lemma keep_evalQualifiedConst [keeps]: "exprM (evalQualifiedConst I p prefix name)"
  unfolding evalQualifiedConst_def by (auto intro!: keeps)

lemma keep_evalExpr [keeps]: "ev_keeps ev \<Longrightarrow> exprM (evalExpr I ev e)"
  unfolding evalExpr_def by (cases e) (auto intro!: keeps)

section \<open>Statements\<close>

lemma keep_zeroInit [keeps]: "exprM (zeroInit I ev p t)"
  unfolding zeroInit_def by (auto intro!: keeps split: ty.split)

lemma keep_storeInit [keeps]: "stmtM (storeInit I e b t v)"
  unfolding storeInit_def by (auto intro!: keeps)

lemma keep_execDefine [keeps]: "ev_keeps ev \<Longrightarrow> stmtM (execDefine I ev p c n t e sl b)"
  unfolding execDefine_def by (auto intro!: keeps keep_zeroInit [THEN exprM_stmtM])

lemma keep_assignSlow [keeps]: "ev_keeps ev \<Longrightarrow> exprM (assignSlow I ev p n e d sl)"
  unfolding assignSlow_def by (auto intro!: keeps)

lemma keep_execAssign [keeps]: "ev_keeps ev \<Longrightarrow> exprM (execAssign I ev p n e d sl)"
proof -
  assume ev: "ev_keeps ev"
  have "keptE s s'" if "execAssign I ev p n e d sl s = Some (r, s')" "st_env s \<noteq> []" for s r s'
  proof (cases "fastAssign d sl e (st_env s)")
    case None
    with that keep_assignSlow [OF ev, of I p n e d sl] show ?thesis
      by (auto simp: execAssign_def bindM_def getsM_def keepsM_def)
  next
    case (Some en)
    with that fastAssign_kept [OF Some] show ?thesis by (auto simp: execAssign_def bindM_def getsM_def modM_def keptE_def)
  qed
  then show ?thesis by (auto simp: keepsM_def)
qed

lemma keep_collectLvalueSteps [keeps]: "ev_keeps ev \<Longrightarrow> exprM (collectLvalueSteps ev p e)"
  by (induction ev p e rule: collectLvalueSteps.induct) (auto intro!: keeps)

lemma keep_rewriteRoot:
  assumes "\<And>het v w h. f het v = Inr (w, h) \<Longrightarrow> het \<subseteq>\<^sub>m h"
  shows "keepsM (\<lambda>s. rootMutable n d sl (st_env s)) keptE (rewriteRoot p n d sl f)"
  unfolding keepsM_def
proof (intro allI impI)
  fix s r s'
  assume s: "st_env s \<noteq> []" "rootMutable n d sl (st_env s)" and run: "rewriteRoot p n d sl f s = Some (r, s')"
  from s(2) obtain b where b: "getBindingRoot (st_env s) n d sl = Inr b" by (auto simp: rootMutable_def)
  show "keptE s s'"
  proof (cases "f (st_het s) (bValue b)")
    case (Inl e)
    with run b show ?thesis by (simp add: rewriteRoot_def bindM_def getsM_def liftR_def)
  next
    case (Inr x)
    obtain w h where x: "x = (w, h)" by (cases x)
    let ?s1 = "s\<lparr>st_het := h\<rparr>"
    have "commitRoot p n d sl (bValue b) w ?s1 = Some (r, s')"
      using run b Inr x by (simp add: rewriteRoot_def bindM_def getsM_def liftR_def thenM_def modM_def)
    then have "keptE ?s1 s'" using s by (intro keepsMD [OF expr_commit]) simp_all
    moreover have "keptE s ?s1" using assms [OF Inr [unfolded x]] by (simp add: keptE_def)
    ultimately show ?thesis by (blast intro: keptE_trans)
  qed
qed

text \<open>A write through a root that \<open>mutableRoot\<close> accepted.\<close>

lemma keep_mutableRoot:
  assumes "\<And>b. keepsM (\<lambda>s. rootMutable n d sl (st_env s)) keptE (f b)"
  shows "exprM (bindM (mutableRoot p n d sl) f)"
  using assms unfolding keepsM_def
  by (fastforce simp: bindM_def mutableRoot_def getsM_def failM_def retM_def rootMutable_def split: sum.splits if_splits)

lemma keep_writeRest:
  assumes "ev_keeps ev" "\<And>x steps het v w h. f x steps het v = Inr (w, h) \<Longrightarrow> het \<subseteq>\<^sub>m h"
  shows "keepsM (\<lambda>s. rootMutable n d sl (st_env s)) keptE
    (bindM (evE ev e) (\<lambda>x. bindM (collectLvalueSteps ev p t) (\<lambda>steps. rewriteRoot p n d sl (f x steps))))"
  using assms
  by (auto intro!: expr_bind rootMutable_stable keep_rewriteRoot exprM_weaken [OF ev_keepsD(1)] exprM_weaken [OF keep_collectLvalueSteps])

lemma keep_execIndexAssign [keeps]: "ev_keeps ev \<Longrightarrow> exprM (execIndexAssign I ev p t e)"
  unfolding execIndexAssign_def thenM_def
  by (auto intro!: expr_pure keep_mutableRoot keep_writeRest split: option.split dest: applyLvalueWrite_le)

lemma keep_execFieldAssign [keeps]: "ev_keeps ev \<Longrightarrow> exprM (execFieldAssign I ev p t e)"
  unfolding execFieldAssign_def thenM_def
  by (auto intro!: expr_pure keep_mutableRoot keep_writeRest split: option.split dest: applyLvalueWrite_le)

lemma keep_execAppend [keeps]: "ev_keeps ev \<Longrightarrow> exprM (execAppend I ev p t e)"
  unfolding execAppend_def
  by (auto intro!: expr_pure keep_mutableRoot keep_writeRest expr_if split: option.split
      dest: walkInto_le [rotated] intro: appendInto_le)

lemma keep_execElseIfs [keeps]: "ev_keeps ev \<Longrightarrow> exprM (execElseIfs ev eis els)"
  by (induction ev eis els rule: execElseIfs.induct) (auto intro!: keeps)

lemma keep_execIf [keeps]: "ev_keeps ev \<Longrightarrow> exprM (execIf ev c b eis els)"
  unfolding execIf_def by (auto intro!: keeps)

lemma keep_boundFrame:
  "ev_keeps ev \<Longrightarrow> stmtM (envM p (\<lambda>_. def) :: ('w, unit) M) \<Longrightarrow> exprM (boundFrame (ev :: 'w evaluator) p b def)"
  unfolding boundFrame_def by (auto intro!: keeps)

lemma keep_runPatternArm [keeps]: "ev_keeps ev \<Longrightarrow> exprM (runPatternArm ev p b sl bind v)"
  unfolding runPatternArm_def by (auto intro!: keeps keep_boundFrame)

lemma keep_armMatches [keeps]: "ev_keeps ev \<Longrightarrow> exprM (armMatches I ev v es)"
  by (induction es) (auto intro!: keeps)

lemma keep_execArms [keeps]: "ev_keeps ev \<Longrightarrow> exprM (execArms I ev v arms els)"
  by (induction I ev v arms els rule: execArms.induct) (auto intro!: keeps split: list.split)

lemma keep_execMatch [keeps]: "ev_keeps ev \<Longrightarrow> exprM (execMatch I ev e arms els)"
  unfolding execMatch_def by (auto intro!: keeps)

lemma keep_execWhile [keeps]: "ev_keeps ev \<Longrightarrow> exprM (execWhile ev c b)"
  unfolding execWhile_def by (auto intro!: keeps)

lemma keep_execRepeat [keeps]: "ev_keeps ev \<Longrightarrow> exprM (execRepeat ev b c)"
  unfolding execRepeat_def by (auto intro!: keeps)

lemma keep_optStmt [keeps]: "ev_keeps ev \<Longrightarrow> stmtM (optStmt ev os)"
  unfolding optStmt_def by (auto intro!: keeps)

lemma keep_execFor [keeps]: "ev_keeps ev \<Longrightarrow> exprM (execFor ev i c s b h)"
  unfolding execFor_def by (auto intro!: keeps keep_evalBool [THEN exprM_stmtM] keep_execBlock [THEN exprM_stmtM])

lemma keep_eachPass [keeps]: "ev_keeps ev \<Longrightarrow> exprM (eachPass ev p b sl n t v)"
  unfolding eachPass_def by (auto intro!: keeps keep_boundFrame)

lemma keep_eachItems [keeps]: "ev_keeps ev \<Longrightarrow> exprM (eachItems ev p n b sl c)"
  unfolding eachItems_def by (auto intro!: keeps split: Value.split)

lemma keep_execForEachRange [keeps]: "ev_keeps ev \<Longrightarrow> exprM (execForEachRange ev p n q lo hi b sl)"
  unfolding execForEachRange_def by (auto intro!: keeps)

lemma keep_execForEach [keeps]: "ev_keeps ev \<Longrightarrow> exprM (execForEach ev p n c b sl)"
  unfolding execForEach_def by (cases c) (auto intro!: keeps)

lemma keep_execExit [keeps]: "ev_keeps ev \<Longrightarrow> exprM (execExit ev e)"
  unfolding execExit_def by (auto intro!: keeps split: option.split Value.split)

lemma keep_execThrow [keeps]: "ev_keeps ev \<Longrightarrow> exprM (execThrow ev p e)"
  unfolding execThrow_def by (auto intro!: keeps)

lemma keep_execDefer [keeps]: "ev_keeps ev \<Longrightarrow> stmtM (execDefer ev c oe)"
  unfolding execDefer_def
  by (rule stmt_bind, rule exprM_stmtM, auto intro!: keeps stmt_setDeferred)

lemma keep_execTry [keeps]: "ev_keeps ev \<Longrightarrow> exprM (execTry I ev b n cb cp sl)"
  unfolding execTry_def by (auto intro!: keeps keep_boundFrame)

lemma keep_unitFlow [keeps]: "stmtM m \<Longrightarrow> stmtM (unitFlow m)" "exprM m \<Longrightarrow> exprM (unitFlow m)"
  unfolding unitFlow_def by (auto intro!: keeps)

lemmas expr_statements = keep_execAssign keep_execIndexAssign keep_execFieldAssign keep_execAppend keep_execIf
  keep_execMatch keep_execWhile keep_execFor keep_execForEach keep_execRepeat keep_execExit keep_execTry keep_execThrow

lemma keep_execStmt: "ev_keeps ev \<Longrightarrow> stmtM (execStmt I ev st)"
  unfolding execStmt_def by (cases st) (auto intro!: keeps expr_statements [THEN exprM_stmtM])

lemma keep_runTopLevel: "ev_keeps ev \<Longrightarrow> stmtM (runTopLevel ev sts)"
  unfolding runTopLevel_def by (auto intro!: keeps split: flow.split)

section \<open>Runs\<close>

lemma run_keeps: "ev_keeps (run I n)"
proof (induction n)
  case 0
  show ?case by (simp add: ev_keeps_def expr_pure stmt_pure)
next
  case (Suc n)
  then show ?case using keep_evalExpr [OF Suc.IH] keep_execStmt [OF Suc.IH] by (simp add: ev_keeps_def)
qed

end
