(* ===== verification/Soundness.thy ===== *)
theory Soundness
  imports Discipline
begin

text \<open>
  Type soundness of variables. The invariant: every variable with a declared type holds a coherent
  value of that type, so that the checks at its later uses and writes mean something. Whatever a
  program does, through assignments, chained writes into containers, calls, loops, caught errors and
  deferred calls, the invariant is kept. The exceptions the code has are part of the invariant: a
  task or channel variable without initializer holds \<open>null\<close>, and a caught struct called \<open>Error\<close> of any
  namespace is bound at the type of the builtin \<open>Error\<close>.
\<close>

section \<open>Well-formed programs\<close>

text \<open>Declared types are well-formed and no module's, values spliced into the tree are coherent, and loop
  and catch variables carry the slot the resolver gives them.\<close>

definition noModPath :: "ty \<Rightarrow> bool" where
  "noModPath t \<longleftrightarrow> (case t of TypeStruct _ _ mp \<Rightarrow> mp = [] | _ \<Rightarrow> True)"

primrec wfE :: "expr \<Rightarrow> bool" and wfS :: "stmt \<Rightarrow> bool" and wfB :: "block \<Rightarrow> bool" and wfA :: "matchArm \<Rightarrow> bool" where
  "wfE (IntLit p n) = True"
| "wfE (FloatLit p f) = True"
| "wfE (StringLit p s) = True"
| "wfE (InterpStringExpr p ps) = list_all (case_sum (\<lambda>_. True) id) (map (map_sum id wfE) ps)"
| "wfE (BoolLit p b) = True"
| "wfE (NullLit p) = True"
| "wfE (ListLit p es) = list_all id (map wfE es)"
| "wfE (MapLit p kvs) = list_all (\<lambda>x. fst x \<and> snd x) (map (map_prod wfE wfE) kvs)"
| "wfE (IndexExpr p t i) = (wfE t \<and> wfE i)"
| "wfE (RangeExpr p lo hi) = (wfE lo \<and> wfE hi)"
| "wfE (SliceExpr p t lo hi) = (wfE t \<and> pred_option id (map_option wfE lo) \<and> pred_option id (map_option wfE hi))"
| "wfE (StructLit p ns en n bare fs) = list_all (\<lambda>x. snd (snd x)) (map (map_prod id (map_prod id wfE)) fs)"
| "wfE (FieldAccessExpr p t f) = wfE t"
| "wfE (VarExpr p n d sl m) = True"
| "wfE (ConstRefExpr p n d sl) = True"
| "wfE (CallExpr p n args m mv snap) = list_all id (map wfE args)"
| "wfE (CallValueExpr p c args snap) = (wfE c \<and> list_all id (map wfE args))"
| "wfE (LenExpr p e) = wfE e"
| "wfE (SpawnExpr p sts) = True"
| "wfE (QualifiedCallExpr p pre n args mv snap) = list_all id (map wfE args)"
| "wfE (QualifiedConstRefExpr p pre n) = True"
| "wfE (UnaryExpr p op e f) = (wfE e \<and> pred_option id (map_option wfE f))"
| "wfE (BinaryExpr p op l r f) = (wfE l \<and> wfE r \<and> pred_option id (map_option wfE f))"
| "wfE (PreEval p v) = coherent v"
| "wfS (DefineStmt p c n t e sl b) = (wf_ty t \<and> t \<noteq> TypeInvalid \<and> noModPath t \<and> pred_option id (map_option wfE e))"
| "wfS (AssignStmt p n e d sl) = wfE e"
| "wfS (IndexAssignStmt p t e) = (wfE t \<and> wfE e)"
| "wfS (AppendStmt p t e) = (wfE t \<and> wfE e)"
| "wfS (FieldAssignStmt p t e) = (wfE t \<and> wfE e)"
| "wfS (IfStmt p c b eis els) =
     (wfE c \<and> wfB b \<and> list_all (\<lambda>x. fst x \<and> snd x) (map (map_prod wfE wfB) eis) \<and> pred_option id (map_option wfB els))"
| "wfS (MatchStmt p e arms els et) = (wfE e \<and> list_all id (map wfA arms) \<and> pred_option id (map_option wfB els))"
| "wfS (WhileStmt p c b) = (wfE c \<and> wfB b)"
| "wfS (ForStmt p i c s b h) = (pred_option id (map_option wfS i) \<and> pred_option id (map_option wfE c) \<and>
     pred_option id (map_option wfS s) \<and> wfB b)"
| "wfS (ForEachStmt p n c b sl) = (wfE c \<and> wfB b \<and> sl \<ge> 0)"
| "wfS (ReturnStmt p e) = pred_option id (map_option wfE e)"
| "wfS (BreakStmt p) = True"
| "wfS (ContinueStmt p) = True"
| "wfS (RepeatStmt p b c) = (wfB b \<and> wfE c)"
| "wfS (ExitStmt p e) = pred_option id (map_option wfE e)"
| "wfS (TryStmt p b n cb cp sl) = (wfB b \<and> wfB cb \<and> sl \<ge> 0)"
| "wfS (ThrowStmt p e) = wfE e"
| "wfS (DeferStmt p c oe) = wfE c"
| "wfS (ExprStmt p e) = wfE e"
| "wfB (Block p sts n) = list_all id (map wfS sts)"
| "wfA (MatchArm p vals b v bind sl) = (list_all id (map wfE vals) \<and> wfB b)"

lemma wfB_Stmts: "wfB b \<longleftrightarrow> list_all wfS (Stmts b)"
  by (cases b) (simp add: list.pred_map comp_def)

fun err_ok :: "err \<Rightarrow> bool" where
  "err_ok (ErrorSignal v _) = coherent v"
| "err_ok _ = True"

definition builtin_ok :: "'w builtin \<Rightarrow> bool" where
  "builtin_ok fn \<longleftrightarrow> (\<forall>p args w. list_all coherent args \<longrightarrow> (case fst (fn p args w) of
     Inr v \<Rightarrow> coherent v | Inl (Signal e) \<Rightarrow> err_ok e | Inl (GoError _) \<Rightarrow> True))"

definition fields_ok :: "structField list \<Rightarrow> bool" where
  "fields_ok fs \<longleftrightarrow> list_all (\<lambda>f. wf_ty (fType f)) fs"

definition method_ok :: "methodDef \<Rightarrow> bool" where
  "method_ok m \<longleftrightarrow> list_all (\<lambda>p. wf_ty (pType p)) (mParams m) \<and> wfB (mBody m)"

definition interp_ok :: "'w interp \<Rightarrow> bool" where
  "interp_ok I \<longleftrightarrow>
     (\<forall>n m. methods I n = Some m \<longrightarrow> method_ok m) \<and>
     (\<forall>n d. structs I n = Some d \<longrightarrow> fields_ok (sFields d)) \<and>
     (\<forall>k d. NSStructs I k = Some d \<longrightarrow> fields_ok (sFields d)) \<and>
     (\<forall>n d. enums I n = Some d \<longrightarrow> list_all (\<lambda>v. fields_ok (evFields v)) (edVariants d)) \<and>
     (\<forall>n l fn. Builtins I n = Some (l, fn) \<longrightarrow> builtin_ok fn) \<and>
     (\<forall>k fn. NSBuiltins I k = Some fn \<longrightarrow> builtin_ok fn) \<and>
     (\<forall>n l v. LibConstants I n = Some (l, v) \<longrightarrow> coherent v) \<and>
     (\<forall>k v. NSConstants I k = Some v \<longrightarrow> coherent v)"

lemma interp_okD:
  assumes "interp_ok I"
  shows "methods I n = Some m \<Longrightarrow> method_ok m"
    "structs I n = Some sd \<Longrightarrow> fields_ok (sFields sd)"
    "NSStructs I k = Some sd \<Longrightarrow> fields_ok (sFields sd)"
    "enums I n = Some ed \<Longrightarrow> list_all (\<lambda>v. fields_ok (evFields v)) (edVariants ed)"
    "Builtins I n = Some (l, fn) \<Longrightarrow> builtin_ok fn"
    "NSBuiltins I k = Some fn \<Longrightarrow> builtin_ok fn"
    "LibConstants I n = Some (l, v) \<Longrightarrow> coherent v"
    "NSConstants I k = Some v \<Longrightarrow> coherent v"
  using assms unfolding interp_ok_def by blast+

section \<open>The invariant\<close>

definition nullHandle :: "Value \<Rightarrow> ty \<Rightarrow> bool" where
  "nullHandle v t \<longleftrightarrow> v = VNull \<and> (case t of TypeTask _ \<Rightarrow> True | TypeChannel _ \<Rightarrow> True | _ \<Rightarrow> False)"

definition caughtError :: "Value \<Rightarrow> ty \<Rightarrow> bool" where
  "caughtError v t \<longleftrightarrow> t = TypeStruct canonicalErrorStructName [] [] \<and>
     (case v of VStruct _ n _ _ \<Rightarrow> n = canonicalErrorStructName | _ \<Rightarrow> False)"

definition holds :: "Value \<Rightarrow> ty \<Rightarrow> bool" where
  "holds v t \<longleftrightarrow> t = TypeInvalid \<or> typed v t \<or> nullHandle v t \<or> caughtError v t"

definition binding_ok :: "binding \<Rightarrow> bool" where
  "binding_ok b \<longleftrightarrow> coherent (bValue b) \<and> wf_ty (bType b) \<and> holds (bValue b) (bType b)"

definition deferred_ok :: "deferredCall \<Rightarrow> bool" where
  "deferred_ok d \<longleftrightarrow> wfE (dcCall d) \<and> list_all coherent (dcArgs d)"

definition frame_ok :: "frame \<Rightarrow> bool" where
  "frame_ok f \<longleftrightarrow> list_all binding_ok (slots f) \<and>
     list_all (\<lambda>x. binding_ok (snd x) \<and> (bType (snd x) = TypeInvalid \<longrightarrow> bConst (snd x))) (vars f) \<and>
     list_all deferred_ok (deferred f)"

abbreviation env_ok :: "env \<Rightarrow> bool" where
  "env_ok \<equiv> list_all frame_ok"

definition sound :: "'w state \<Rightarrow> bool" where
  "sound s \<longleftrightarrow> st_env s \<noteq> [] \<and> env_ok (st_env s)"

definition okR :: "('a \<Rightarrow> bool) \<Rightarrow> 'a result \<Rightarrow> bool" where
  "okR Q r \<longleftrightarrow> (case r of Inl e \<Rightarrow> err_ok e | Inr x \<Rightarrow> Q x)"

lemma okR_simps [simp]: "okR Q (Inl e) = err_ok e" "okR Q (Inr x) = Q x"
  by (simp_all add: okR_def)

lemma okR_mono: "okR P r \<Longrightarrow> (\<And>x. P x \<Longrightarrow> Q x) \<Longrightarrow> okR Q r"
  by (cases r) auto

definition soundM :: "('a \<Rightarrow> bool) \<Rightarrow> ('w, 'a) M \<Rightarrow> bool" where
  "soundM Q m \<longleftrightarrow> (\<forall>s r s'. sound s \<longrightarrow> m s = Some (r, s') \<longrightarrow> sound s' \<and> okR Q r)"

section \<open>Computations that keep the invariant\<close>

named_theorems sound_intros

lemma soundMD: "soundM Q m \<Longrightarrow> sound s \<Longrightarrow> m s = Some (r, s') \<Longrightarrow> sound s' \<and> okR Q r"
  by (simp add: soundM_def)

lemma soundM_bind [sound_intros]:
  assumes "soundM P m" "\<And>x. P x \<Longrightarrow> soundM Q (f x)"
  shows "soundM Q (bindM m f)"
  unfolding soundM_def
proof (intro allI impI)
  fix s r s'
  assume s: "sound s" and run: "bindM m f s = Some (r, s')"
  from run obtain r1 s1 where m: "m s = Some (r1, s1)" by (auto simp: bindM_def split: option.splits)
  from soundMD [OF assms(1) s m] have s1: "sound s1" "okR P r1" by simp_all
  show "sound s' \<and> okR Q r"
  proof (cases r1)
    case (Inl e)
    then show ?thesis using run m s1 by (auto simp: bindM_def)
  next
    case (Inr x)
    then have "f x s1 = Some (r, s')" using run m by (simp add: bindM_def)
    then show ?thesis using soundMD [OF assms(2) s1(1)] s1(2) Inr by auto
  qed
qed

lemma soundM_then [sound_intros]: "soundM P m \<Longrightarrow> soundM Q n \<Longrightarrow> soundM Q (thenM m n)"
  unfolding thenM_def by (rule soundM_bind)

lemma soundM_ret [sound_intros]: "Q x \<Longrightarrow> soundM Q (retM x)"
  by (simp add: soundM_def retM_def)

lemma soundM_fail [sound_intros]: "err_ok e \<Longrightarrow> soundM Q (failM e)"
  by (simp add: soundM_def failM_def)

lemma soundM_lift [sound_intros]: "okR Q r \<Longrightarrow> soundM Q (liftR r)"
  by (simp add: soundM_def liftR_def)

lemma soundM_gets [sound_intros]: "soundM (\<lambda>x. \<exists>s. sound s \<and> x = g s) (getsM g)"
  by (auto simp: soundM_def getsM_def)

lemma soundM_outOfFuel [sound_intros]: "soundM Q outOfFuel"
  by (simp add: soundM_def outOfFuel_def)

lemma soundM_optM [sound_intros]: "(\<And>x. r = Some x \<Longrightarrow> okR Q x) \<Longrightarrow> soundM Q (optM r)"
  by (auto simp: optM_def intro!: sound_intros split: option.splits)

lemma soundM_attempt [sound_intros]: "soundM Q m \<Longrightarrow> soundM (okR Q) (attemptM m)"
  by (fastforce simp: soundM_def attemptM_def split: option.splits)

lemma soundM_deeper [sound_intros]:
  assumes "soundM Q m"
  shows "soundM Q (deeperM m)"
  unfolding soundM_def
proof (intro allI impI)
  fix s r s'
  assume s: "sound s" and "deeperM m s = Some (r, s')"
  then obtain s1 where "m (s\<lparr>st_depth := st_depth s + 1\<rparr>) = Some (r, s1)" "s' = s1\<lparr>st_depth := st_depth s1 - 1\<rparr>"
    by (auto simp: deeperM_def split: option.splits)
  with soundMD [OF assms, of "s\<lparr>st_depth := st_depth s + 1\<rparr>"] s show "sound s' \<and> okR Q r" by (simp add: sound_def)
qed

lemma newFrame_ok [simp]: "frame_ok (newFrame e n)"
  by (simp add: frame_ok_def newFrame_def list_all_iff binding_ok_def zeroBinding_def holds_def)

lemma soundM_scoped:
  assumes "soundM Q m" "stmtM m"
  shows "soundM Q (scopedM n m)"
  unfolding soundM_def
proof (intro allI impI)
  fix s r s'
  assume s: "sound s" and "scopedM n m s = Some (r, s')"
  then obtain s1 where s1: "m (s\<lparr>st_env := borrowBlockEnv (st_env s) n\<rparr>) = Some (r, s1)" "s' = releaseTop s1"
    by (auto simp: scopedM_def split: option.splits)
  let ?s0 = "s\<lparr>st_env := borrowBlockEnv (st_env s) n\<rparr>"
  have "sound ?s0" using s by (simp add: sound_def borrowBlockEnv_def)
  from soundMD [OF assms(1) this s1(1)] have "sound s1" "okR Q r" by simp_all
  moreover have "keptS ?s0 s1" using s1(1) by (intro keepsMD [OF assms(2)]) (simp_all add: borrowBlockEnv_def)
  ultimately show "sound s' \<and> okR Q r" using s
    by (auto simp: sound_def s1(2) keptS_def releaseTop_def borrowBlockEnv_def)
qed

lemma soundM_if [sound_intros]: "(c \<Longrightarrow> soundM Q m) \<Longrightarrow> (\<not> c \<Longrightarrow> soundM Q n) \<Longrightarrow> soundM Q (if c then m else n)"
  by simp

lemma soundM_option [sound_intros]: "(r = None \<Longrightarrow> soundM Q m) \<Longrightarrow> (\<And>x. r = Some x \<Longrightarrow> soundM Q (f x)) \<Longrightarrow>
    soundM Q (case r of None \<Rightarrow> m | Some x \<Rightarrow> f x)"
  by (cases r) auto

lemma soundM_sum [sound_intros]: "(\<And>x. r = Inl x \<Longrightarrow> soundM Q (g x)) \<Longrightarrow> (\<And>x. r = Inr x \<Longrightarrow> soundM Q (f x)) \<Longrightarrow>
    soundM Q (case r of Inl x \<Rightarrow> g x | Inr x \<Rightarrow> f x)"
  by (cases r) auto

lemma soundM_prod [sound_intros]: "(\<And>a b. r = (a, b) \<Longrightarrow> soundM Q (f a b)) \<Longrightarrow> soundM Q (case r of (a, b) \<Rightarrow> f a b)"
  by (cases r) auto

lemma soundM_map [sound_intros]: "(\<And>x. x \<in> set xs \<Longrightarrow> soundM P (f x)) \<Longrightarrow> soundM (list_all P) (mapM f xs)"
  by (induction xs) (auto intro!: sound_intros)

fun flow_ok :: "flow \<Rightarrow> bool" where
  "flow_ok (FReturn v) = coherent v"
| "flow_ok _ = True"

lemma soundM_loop [sound_intros]: "soundM (pred_option flow_ok) body \<Longrightarrow> soundM flow_ok (loopM n body)"
  by (induction n) (auto intro!: sound_intros)

lemma soundM_each [sound_intros]: "(\<And>x. x \<in> set xs \<Longrightarrow> soundM (pred_option flow_ok) (body x)) \<Longrightarrow> soundM flow_ok (eachM xs body)"
  by (induction xs) (auto intro!: sound_intros)

lemma err_ok_rt [simp]: "err_ok (rtErr f a p)" "err_ok (rtMsg m p)" "err_ok (limitErr f a p)" "err_ok (emsgErr p m')"
  by (simp_all add: rtErr_def rtMsg_def limitErr_def emsgErr_def)

lemma soundM_weaken: "soundM P m \<Longrightarrow> (\<And>x. P x \<Longrightarrow> Q x) \<Longrightarrow> soundM Q m"
  unfolding soundM_def by (meson okR_mono)

section \<open>Values\<close>

lemma coherent_lit: "coherent v \<Longrightarrow> coherent (literalElementValue e v)"
  by (cases e) (simp_all add: DeepCopy_coherent)

lemma typed_DeepCopy: "typed v t \<Longrightarrow> typed (DeepCopy v) t"
  by (simp add: shape_DeepCopy stamped_DeepCopy)

lemma stampM_sound:
  assumes "wf_ty t" "coherent v" "shape v t"
  shows "soundM (\<lambda>w. coherent w \<and> typed w t) (stampM v t)"
  using stamp_sound [OF assms] by (auto simp: soundM_def stampM_def stampDeclaredType_def sound_def)

lemma matches_getsM: "(\<exists>s. sound s \<and> het = st_het s) \<Longrightarrow> \<not> \<not> MatchesDeclared het v t \<Longrightarrow> shape v t"
  by (simp add: MatchesDeclared_shape)

lemma indexInto_coherent: "coherent par \<Longrightarrow> okR coherent (indexInto N d par i p)"
  by (cases par; cases i)
    (auto simp: indexInto_def indexPos_def indexListPos_def list_all_length LookupKey_scan word_sless_alt dest!: scanKey_Some
      split: option.splits)

lemma indexValue_coherent: "coherent par \<Longrightarrow> okR coherent (indexValue N d par i p)"
  using indexInto_coherent [of par N d i p]
  by (cases par; cases i) (auto simp: indexValue_def readByteAt_def)

lemma fieldValue_coherent: "coherent par \<Longrightarrow> okR coherent (fieldValue par f p)"
  by (cases par) (auto simp: fieldValue_def list_all_length dest!: fieldPos_Some split: option.splits)

lemma sliceValue_coherent: "coherent v \<Longrightarrow> coherent (sliceValue v lo hi)"
  by (cases v) (auto simp: sliceValue_def list_all_iff shape_DeepCopy stamped_DeepCopy
      dest!: in_set_takeD in_set_dropD intro!: DeepCopy_coherent split: option.splits)

lemma lenValue_coherent: "okR coherent (lenValue v p)"
  by (cases v) (auto simp: lenValue_def)

lemma enumVariantValue_coherent: "okR coherent (enumVariantValue ed f p)"
  by (auto simp: enumVariantValue_def split: option.splits)

lemma ZeroFor_coherent: "wf_ty t \<Longrightarrow> coherent (stampValue (ZeroFor t) t)"
  by (cases t) (auto split: option.splits)

lemma resolve_wf: "resolveDeclaredStructNS I t p = Inr t' \<Longrightarrow>
    (wf_ty t \<longrightarrow> wf_ty t') \<and> is_compound_ty t' = is_compound_ty t \<and> (noModPath t \<longrightarrow> noModPath t') \<and> (t' = TypeInvalid \<longleftrightarrow> t = TypeInvalid)"
  by (induction I t p arbitrary: t' rule: resolveDeclaredStructNS.induct)
    (auto simp: rbind_def noModPath_def split: if_splits sum.splits)

text \<open>Zero values of structs and enums.\<close>

definition zeros_ok :: "'w interp \<Rightarrow> pos \<Rightarrow> nat \<Rightarrow> bool" where
  "zeros_ok I p k \<longleftrightarrow> (\<forall>ns n mp r.
     (zeroStructFor I k p ns n mp = Some r \<longrightarrow> okR (\<lambda>v. coherent v \<and> (mp = [] \<longrightarrow> typed v (TypeStruct n ns mp))) r) \<and>
     (zeroEnumFor I k p ns n mp = Some r \<longrightarrow> okR (\<lambda>v. coherent v \<and> typed v (TypeStruct n ns mp)) r))"

lemma zeroField_ok: "zeros_ok I p k \<Longrightarrow> zeroField I k p t = Some r \<Longrightarrow> wf_ty t \<Longrightarrow> okR coherent r"
proof (cases t)
  case (TypeStruct n ns mp)
  assume z: "zeros_ok I p k" "zeroField I k p t = Some r"
  have "okR (\<lambda>v. coherent v) r" if "zeroStructFor I k p ns' n mp = Some r \<or> zeroEnumFor I k p ns' n mp = Some r" for ns'
    using that z(1) unfolding zeros_ok_def by (cases r) fastforce+
  with z(2) TypeStruct show ?thesis by (auto simp del: zero_unfold split: if_splits)
qed (use ZeroFor_coherent [of t] in \<open>auto simp: okR_def\<close>)

lemma zeroPayload_ok:
  "zeros_ok I p k \<Longrightarrow> zeroPayload I k p fs = Some r \<Longrightarrow> fields_ok fs \<Longrightarrow>
    okR (\<lambda>zs. list_all (\<lambda>f. coherent (snd f)) zs \<and> length zs = length fs) r"
proof (induction fs arbitrary: r)
  case (Cons f fs)
  obtain x where x: "zeroField I k p (fType f) = Some x" using Cons.prems by (auto simp del: zero_unfold split: option.splits)
  have wf: "wf_ty (fType f)" "fields_ok fs" using Cons.prems(3) by (simp_all add: fields_ok_def)
  note ok = zeroField_ok [OF Cons.prems(1) x wf(1)] and IH = Cons.IH [OF Cons.prems(1) _ wf(2)]
  show ?case
  proof (cases x)
    case (Inl e)
    then show ?thesis using Cons.prems x ok by (auto simp del: zero_unfold)
  next
    case (Inr v)
    then show ?thesis using Cons.prems x ok
      by (auto simp del: zero_unfold split: option.splits sum.splits dest!: IH)
  qed
qed auto

lemma zeros_ok: "interp_ok I \<Longrightarrow> zeros_ok I p k"
proof (induction k)
  case (Suc k)
  note pay = zeroPayload_ok [OF Suc.IH [OF Suc.prems]]
  have "okR (\<lambda>v. coherent v \<and> (mp = [] \<longrightarrow> typed v (TypeStruct n ns mp))) r" if z: "zeroStructFor I (Suc k) p ns n mp = Some r" for ns n mp r
  proof (cases "ns \<noteq> [] \<and> objectTypes I (ns, n)")
    case True
    with z show ?thesis by (auto simp: zeroObject_def stamped_def)
  next
    case False
    show ?thesis
    proof (cases "lookupStructDef I ns n mp")
      case None
      with z False show ?thesis by (auto split: if_splits)
    next
      case (Some d)
      have f: "fields_ok (sFields d)"
        using Some interp_okD(2,3) [OF Suc.prems] by (auto simp: lookupStructDef_def split: if_splits)
      from z False Some obtain y where y: "zeroPayload I k p (sFields d) = Some y" by (auto split: option.splits)
      with z False Some pay [OF y f] show ?thesis by (cases y) (auto simp: stamped_def)
    qed
  qed
  moreover have "okR (\<lambda>v. coherent v \<and> typed v (TypeStruct n ns mp)) r" if z: "zeroEnumFor I (Suc k) p ns n mp = Some r" for ns n mp r
  proof (cases "lookupEnumDef I ns n mp")
    case None
    with z show ?thesis by (auto split: if_splits)
  next
    case (Some d)
    with z obtain v0 vs where v0: "edVariants d = v0 # vs" by (auto split: list.splits)
    have f: "fields_ok (evFields v0)"
      using Some v0 interp_okD(4) [OF Suc.prems, of n d] by (auto simp: lookupEnumDef_def split: if_splits)
    from z Some v0 obtain y where y: "zeroPayload I k p (evFields v0) = Some y" by (auto split: option.splits)
    with z Some v0 pay [OF y f] show ?thesis by (cases y) (auto simp: stamped_def)
  qed
  ultimately show ?case by (simp only: zeros_ok_def) blast
qed (simp add: zeros_ok_def)

section \<open>Environments\<close>

text \<open>A value that records its own element types; it holds every type it is checked against.\<close>

definition fits :: "Value \<Rightarrow> bool" where
  "fits v \<longleftrightarrow> (case v of VList _ et \<Rightarrow> et \<noteq> None | VMap _ kt vt _ \<Rightarrow> kt \<noteq> None \<and> vt \<noteq> None | _ \<Rightarrow> True)"

lemma typed_fits: "typed v t \<Longrightarrow> wf_ty t \<Longrightarrow> fits v"
  by (cases t; cases v) (auto simp: fits_def stamped_def split: option.splits)

lemma fits_typed: "fits v \<Longrightarrow> MatchesDeclared het v t \<Longrightarrow> wf_ty t \<Longrightarrow> typed v t"
  using MatchesDeclared_shape [of het v t]
  by (cases t; cases v) (auto simp: fits_def stamped_def tyEqual_eq split: option.splits)

lemma frame_okD:
  assumes "frame_ok f"
  shows "i < length (slots f) \<Longrightarrow> binding_ok (slots f ! i)"
    "map_of (vars f) n = Some b \<Longrightarrow> binding_ok b" "map_of (vars f) n = Some b \<Longrightarrow> bType b = TypeInvalid \<Longrightarrow> bConst b"
    "list_all deferred_ok (deferred f)"
  using assms by (auto simp: frame_ok_def list_all_length [of binding_ok] list_all_iff [of _ "vars f"] dest!: map_of_SomeD)

lemma env_okD: "env_ok e \<Longrightarrow> frameAt e d = Some f \<Longrightarrow> frame_ok f"
  by (auto simp: list_all_length dest!: frameAt_Some)

lemma lookupLocal_ok: "frame_ok f \<Longrightarrow> lookupLocal f n = Some (b, si) \<Longrightarrow> binding_ok b"
  using scanSlots_Some [of n "slots f"] by (auto simp: lookupLocal_def dest: frame_okD split: option.splits)

lemma GetBinding_ok: "env_ok e \<Longrightarrow> GetBinding e n = Inr b \<Longrightarrow> binding_ok b"
  by (induction e) (auto dest: lookupLocal_ok split: option.splits)

lemma GetBindingAt_ok: "env_ok e \<Longrightarrow> GetBindingAt e d sl n = Inr b \<Longrightarrow> binding_ok b"
  by (auto simp: GetBindingAt_def inSlots_def dest!: env_okD intro: frame_okD(1) dest: frame_okD(2)
      split: option.splits if_splits)

lemma getBindingRoot_ok: "env_ok e \<Longrightarrow> getBindingRoot e n d sl = Inr b \<Longrightarrow> binding_ok b"
  by (auto simp: getBindingRoot_def dest: GetBinding_ok GetBindingAt_ok split: if_splits)

lemma Get_binding: "Get e n = Inr v \<Longrightarrow> \<exists>b. GetBinding e n = Inr b \<and> bValue b = v"
  by (induction e) (auto split: option.splits)

lemma GetAt_binding: "GetAt e d sl n = Inr v \<Longrightarrow> \<exists>b. GetBindingAt e d sl n = Inr b \<and> bValue b = v"
  by (auto simp: GetAt_def GetBindingAt_def split: option.splits if_splits)

lemma set_slot_ok: "frame_ok f \<Longrightarrow> binding_ok b \<Longrightarrow> frame_ok (f\<lparr>slots := (slots f)[i := b]\<rparr>)"
  by (simp add: frame_ok_def list_all_update)

lemma set_var_ok:
  "frame_ok f \<Longrightarrow> binding_ok b \<Longrightarrow> (bType b = TypeInvalid \<Longrightarrow> bConst b) \<Longrightarrow> frame_ok (f\<lparr>vars := AList.update n b (vars f)\<rparr>)"
proof -
  have "list_all (\<lambda>x. P (snd x)) vs \<Longrightarrow> P b \<Longrightarrow> list_all (\<lambda>x. P (snd x)) (AList.update n b vs)" for P vs
    by (induction vs) auto
  from this [of "\<lambda>b. binding_ok b \<and> (bType b = TypeInvalid \<longrightarrow> bConst b)"]
  show "frame_ok f \<Longrightarrow> binding_ok b \<Longrightarrow> (bType b = TypeInvalid \<Longrightarrow> bConst b) \<Longrightarrow> frame_ok (f\<lparr>vars := AList.update n b (vars f)\<rparr>)"
    by (simp add: frame_ok_def)
qed

lemma setSlot_ok: "list_all binding_ok bs \<Longrightarrow> binding_ok b \<Longrightarrow> list_all binding_ok (setSlot i b bs)"
  unfolding setSlot_def
  by (rule list_all_update) (auto simp: list_all_iff binding_ok_def zeroBinding_def holds_def)

lemma set_slots_ok: "frame_ok f \<Longrightarrow> binding_ok b \<Longrightarrow> frame_ok (f\<lparr>slots := setSlot i b (slots f)\<rparr>)"
  by (simp add: frame_ok_def setSlot_ok)

lemma DefineAt_ok:
  assumes "env_ok e" "coherent v" "wf_ty t" "holds v t" "t = TypeInvalid \<Longrightarrow> c \<or> sl \<ge> 0" "DefineAt e sl n v t c = Inr e'"
  shows "env_ok e'"
proof -
  from assms(6) obtain f fs where e: "e = f # fs" by (cases e) auto
  have b: "binding_ok \<lparr>bValue = v, bType = t, bConst = c, bSlot = sl, bName = n\<rparr>" using assms by (simp add: binding_ok_def)
  show ?thesis using assms(1,5,6) set_var_ok [OF _ b] set_slots_ok [OF _ b] by (auto simp: e Let_def split: if_splits)
qed

lemma Define_ok:
  assumes "env_ok e" "coherent v" "wf_ty t" "holds v t" "t = TypeInvalid \<Longrightarrow> c" "Define e n v t c = Inr e'"
  shows "env_ok e'"
  using assms by (cases e) (auto simp: binding_ok_def intro!: set_var_ok split: if_splits)

lemma update_ok: "binding_ok b \<Longrightarrow> coherent v \<Longrightarrow> holds v (bType b) \<Longrightarrow> binding_ok (b\<lparr>bValue := v\<rparr>)"
  by (simp add: binding_ok_def)

lemma lookupLocal_set_ok:
  assumes "frame_ok f" "lookupLocal f n = Some (b, si)" "coherent v" "holds v (bType b)"
  shows "frame_ok (if si \<ge> 0 then f\<lparr>slots := (slots f)[nat si := b\<lparr>bValue := v\<rparr>]\<rparr>
     else f\<lparr>vars := AList.update n (b\<lparr>bValue := v\<rparr>) (vars f)\<rparr>)"
proof -
  have "binding_ok (b\<lparr>bValue := v\<rparr>)" using lookupLocal_ok [OF assms(1,2)] assms(3,4) by (rule update_ok)
  moreover have "bType b = TypeInvalid \<Longrightarrow> bConst b" if "\<not> si \<ge> 0"
    using assms(1,2) that by (auto simp: lookupLocal_def dest: frame_okD(3) split: option.splits)
  ultimately show ?thesis using assms(1) by (auto intro: set_slot_ok set_var_ok)
qed

lemma checked_holds: "checkAssign het b n v = None \<Longrightarrow> binding_ok b \<Longrightarrow> fits v \<Longrightarrow> holds v (bType b)"
  using fits_typed [of v het "bType b"] by (auto simp: checkAssign_def holds_def binding_ok_def split: if_splits)

lemma Assign_ok: "Assign het e n v = Inr e' \<Longrightarrow> env_ok e \<Longrightarrow> coherent v \<Longrightarrow> fits v \<Longrightarrow> env_ok e'"
proof (induction e arbitrary: e')
  case (Cons f e)
  show ?case
  proof (cases "lookupLocal f n")
    case None
    with Cons show ?thesis by (cases "Assign het e n v") auto
  next
    case (Some a)
    obtain b si where a: "a = (b, si)" by (cases a)
    with Cons.prems Some have c: "checkAssign het b n v = None" by (auto split: option.splits)
    have "frame_ok f" using Cons.prems by simp
    from lookupLocal_set_ok [OF this Some [unfolded a] Cons.prems(3) checked_holds [OF c lookupLocal_ok [OF this Some [unfolded a]] Cons.prems(4)]]
    show ?thesis using Cons.prems Some a c by (auto split: if_splits)
  qed
qed simp

lemma env_set_ok: "env_ok e \<Longrightarrow> frame_ok f \<Longrightarrow> env_ok (e[d := f])"
  by (rule list_all_update)

lemma assignRoot_ok:
  assumes "assignRoot het e n d sl v = Inr e'" "env_ok e" "coherent v" "fits v"
  shows "env_ok e'"
proof (cases "sl \<ge> 0 \<and> (\<exists>f. frameAt e d = Some f \<and> inSlots f sl)")
  case False
  then have "Assign het e n v = Inr e'" using assms(1)
    by (auto simp: assignRoot_def AssignAt_def split: if_splits option.splits)
  then show ?thesis using assms by (blast intro: Assign_ok)
next
  case True
  then obtain f where f: "frameAt e d = Some f" "inSlots f sl" "sl \<ge> 0" by blast
  let ?b = "slots f ! nat sl"
  have b: "binding_ok ?b" using frame_okD(1) [OF env_okD [OF assms(2) f(1)], of "nat sl"] f by (simp add: inSlots_def)
  from assms(1) f have c: "checkAssign het ?b n v = None" and
      e': "e' = e[nat d := f\<lparr>slots := (slots f)[nat sl := ?b\<lparr>bValue := v\<rparr>]\<rparr>]"
    by (auto simp: assignRoot_def AssignAt_def Let_def split: option.splits)
  show ?thesis unfolding e'
    by (intro env_set_ok assms set_slot_ok env_okD [OF assms(2) f(1)] update_ok b checked_holds [OF c b])
qed

lemma setSlotValue_ok:
  assumes "env_ok e" "slotBinding e d sl = Some b" "coherent v" "holds v (bType b)"
  shows "env_ok (setSlotValue e d sl v)"
proof -
  from assms(2) obtain f where f: "frameAt e d = Some f" "nat sl < length (slots f)" "b = slots f ! nat sl"
    by (auto simp: slotBinding_def inSlots_def split: option.splits if_splits)
  note fo = env_okD [OF assms(1) f(1)]
  have "binding_ok (b\<lparr>bValue := v\<rparr>)" using frame_okD(1) [OF fo f(2)] f(3) assms(3,4) by (auto intro: update_ok)
  then show ?thesis using assms(1) fo f by (simp add: setSlotValue_def env_set_ok set_slot_ok)
qed

lemma fastAssign_ok: "fastAssign d sl e en = Some en' \<Longrightarrow> env_ok en \<Longrightarrow> env_ok en'"
  by (auto simp: fastAssign_def holds_def stamped_def intro: setSlotValue_ok split: option.splits if_splits)

section \<open>Writes\<close>

lemma pokeName_ok:
  "GetBinding e n = Inr b \<Longrightarrow> env_ok e \<Longrightarrow> coherent v \<Longrightarrow> holds v (bType b) \<Longrightarrow> env_ok (pokeName e n v)"
proof (induction e)
  case (Cons f e)
  then show ?case using lookupLocal_set_ok [of f n _ _ v] by (cases "lookupLocal f n") auto
qed simp

lemma pokeRoot_ok:
  assumes "getBindingRoot e n d sl = Inr b" "env_ok e" "coherent v" "holds v (bType b)"
  shows "env_ok (pokeRoot e n d sl v)"
proof (cases "sl < 0")
  case True
  with assms show ?thesis by (auto simp: getBindingRoot_def pokeRoot_def intro: pokeName_ok)
next
  case False
  with assms(1) obtain f where f: "frameAt e d = Some f" by (auto simp: getBindingRoot_def GetBindingAt_def split: option.splits)
  note fo = env_okD [OF assms(2) f]
  show ?thesis
  proof (cases "inSlots f sl")
    case True
    with False f assms(1) have "slotBinding e d sl = Some b" "b = slots f ! nat sl"
      by (auto simp: getBindingRoot_def GetBindingAt_def slotBinding_def)
    with False True f assms show ?thesis by (auto simp: pokeRoot_def intro: setSlotValue_ok)
  next
    case out: False
    with False f assms(1) have b: "map_of (vars f) n = Some b"
      by (auto simp: getBindingRoot_def GetBindingAt_def split: option.splits)
    with False out f assms frame_okD(2,3) [OF fo b] show ?thesis
      by (auto simp: pokeRoot_def intro!: env_set_ok set_var_ok fo update_ok)
  qed
qed

text \<open>A variable without a declared type takes no assignment.\<close>

lemma Assign_checked: "GetBinding e n = Inr b \<Longrightarrow> Assign het e n v = Inr e' \<Longrightarrow> MatchesDeclared het v (bType b)"
proof (induction e arbitrary: e')
  case (Cons f e)
  then show ?case
    by (cases "lookupLocal f n"; cases "Assign het e n v") (auto simp: checkAssign_def split: if_splits)
qed simp

lemma assignRoot_untyped:
  assumes "getBindingRoot e n d sl = Inr b" "bType b = TypeInvalid" "\<not> bConst b" "env_ok e"
  shows "\<exists>m. assignRoot het e n d sl v = Inl m"
proof (cases "assignRoot het e n d sl v")
  case (Inr e')
  show ?thesis
  proof (cases "sl < 0")
    case True
    with Inr assms Assign_checked [of e n b het v e'] show ?thesis by (auto simp: getBindingRoot_def assignRoot_def)
  next
    case False
    with assms(1) obtain f where f: "frameAt e d = Some f" by (auto simp: getBindingRoot_def GetBindingAt_def split: option.splits)
    with False Inr assms frame_okD(3) [OF env_okD [OF assms(4) f], of n b] show ?thesis
      by (cases "inSlots f sl")
        (auto simp: getBindingRoot_def GetBindingAt_def assignRoot_def AssignAt_def Let_def checkAssign_def split: option.splits if_splits)
  qed
qed simp

lemma same_header_holds: "same_header v w \<Longrightarrow> holds v t \<Longrightarrow> wf_ty t \<Longrightarrow> holds w t"
  using same_header_typed [of v w t]
  by (auto simp: holds_def nullHandle_def caughtError_def split: Value.splits)

lemma same_header_fits: "same_header v w \<Longrightarrow> holds v t \<Longrightarrow> wf_ty t \<Longrightarrow> t \<noteq> TypeInvalid \<Longrightarrow> fits w"
  using same_header_typed [of v w t] typed_fits [of w t]
  by (auto simp: holds_def nullHandle_def caughtError_def fits_def split: Value.splits)

lemma commitRoot_sound:
  assumes s: "sound s" and b: "getBindingRoot (st_env s) n d sl = Inr b" "\<not> bConst b"
    and new: "coherent new" "same_header (bValue b) new"
    and run: "commitRoot p n d sl (bValue b) new s = Some (r, s')"
  shows "sound s' \<and> okR (\<lambda>_. True) r"
proof -
  have e: "env_ok (st_env s)" "st_env s \<noteq> []" using s by (simp_all add: sound_def)
  have bok: "coherent (bValue b)" "wf_ty (bType b)" "holds (bValue b) (bType b)"
    using getBindingRoot_ok [OF e(1) b(1)] by (simp_all add: binding_ok_def)
  show ?thesis
  proof (cases "assignRoot (st_het s) (st_env s) n d sl new")
    case (Inl m)
    have "holds (inPlace (bValue b) new) (bType b)" "coherent (inPlace (bValue b) new)"
      using same_header_holds [OF new(2) bok(3,2)] bok new(1) by (simp_all add: inPlace_def)
    then have "env_ok (pokeRoot (st_env s) n d sl (inPlace (bValue b) new))" using b(1) e(1) by (blast intro: pokeRoot_ok)
    moreover have "rootMutable n d sl (st_env s)" using b by (auto simp: rootMutable_def)
    then have "pokeRoot (st_env s) n d sl (inPlace (bValue b) new) \<noteq> []"
      using pokeRoot_kept [of n d sl "st_env s" "inPlace (bValue b) new"] e(2) by (auto dest: list_all2_lengthD)
    ultimately show ?thesis using run Inl by (auto simp: commitRoot_def sound_def split: prod.splits)
  next
    case (Inr e')
    have "bType b \<noteq> TypeInvalid" using assignRoot_untyped [OF b(1) _ b(2) e(1), of "st_het s" new] Inr by auto
    then have "fits new" using same_header_fits [OF new(2) bok(3,2)] by blast
    then have "env_ok e'" using assignRoot_ok [OF Inr e(1) new(1)] by blast
    moreover have "e' \<noteq> []" using assignRoot_kept [OF Inr] e(2) by auto
    ultimately show ?thesis using run Inr by (auto simp: commitRoot_def sound_def)
  qed
qed

end
