(* ===== verification/TypeSound.thy ===== *)
theory TypeSound
  imports Soundness
begin

text \<open>
  The invariant of \<open>Soundness\<close> for every function of the evaluator, and so for every run of a
  well-formed program: variables keep to their declared types, results are coherent.
\<close>

definition ev_sound :: "'w evaluator \<Rightarrow> bool" where
  "ev_sound ev \<longleftrightarrow> (\<forall>e. wfE e \<longrightarrow> soundM coherent (evE ev e)) \<and> (\<forall>st. wfS st \<longrightarrow> soundM flow_ok (evS ev st)) \<and> ev_keeps ev"

lemma ev_soundD: "ev_sound ev \<Longrightarrow> wfE e \<Longrightarrow> soundM coherent (evE ev e)" "ev_sound ev \<Longrightarrow> wfS st \<Longrightarrow> soundM flow_ok (evS ev st)"
  "ev_sound ev \<Longrightarrow> ev_keeps ev"
  by (simp_all add: ev_sound_def)

lemmas [sound_intros] = ev_soundD(1,2)

text \<open>The bind rule with the property of the intermediate result fixed by its type: values are coherent,
  flows carry coherent values.\<close>

lemma bind_value [sound_intros]: "soundM coherent m \<Longrightarrow> (\<And>x. coherent x \<Longrightarrow> soundM Q (f x)) \<Longrightarrow> soundM Q (bindM m f)"
  by (rule soundM_bind)

lemma bind_flow [sound_intros]: "soundM flow_ok m \<Longrightarrow> (\<And>x. flow_ok x \<Longrightarrow> soundM Q (f x)) \<Longrightarrow> soundM Q (bindM m f)"
  by (rule soundM_bind)

lemma bind_bool [sound_intros]: "soundM (\<lambda>_::bool. True) m \<Longrightarrow> (\<And>x. soundM Q (f x)) \<Longrightarrow> soundM Q (bindM m f)"
  by (rule soundM_bind)

lemma bind_unit [sound_intros]: "soundM (\<lambda>_::unit. True) m \<Longrightarrow> (\<And>x. soundM Q (f x)) \<Longrightarrow> soundM Q (bindM m f)"
  by (rule soundM_bind)

lemma bind_gets [sound_intros]: "(\<And>s. sound s \<Longrightarrow> soundM Q (f (g s))) \<Longrightarrow> soundM Q (bindM (getsM g) f)"
  by (auto intro: soundM_bind [OF soundM_gets])

lemma bind_values [sound_intros]:
  "soundM (list_all coherent) m \<Longrightarrow> (\<And>xs. list_all coherent xs \<Longrightarrow> soundM Q (f xs)) \<Longrightarrow> soundM Q (bindM m f)"
  by (rule soundM_bind)

declare soundM_bind [sound_intros del]

section \<open>Expressions\<close>

lemma sound_evalBool [sound_intros]: "ev_sound ev \<Longrightarrow> wfE e \<Longrightarrow> soundM (\<lambda>_. True) (evalBool ev e c)"
  unfolding evalBool_def by (auto intro!: sound_intros split: Value.split)

lemma sound_evalInterpString [sound_intros]:
  assumes "ev_sound ev" "wfE (InterpStringExpr p ps)"
  shows "soundM coherent (evalInterpString I ev ps)"
proof -
  have "soundM (\<lambda>_. True) (case q of Inl lit \<Rightarrow> retM lit | Inr e \<Rightarrow> bindM (evE ev e) (\<lambda>v. retM (Display (disp I) v)))" if "q \<in> set ps" for q
    using assms that by (auto simp: list_all_iff intro!: sound_intros)
  then show ?thesis unfolding evalInterpString_def
    by (intro soundM_bind [OF soundM_map [where P = "\<lambda>_. True"]] soundM_ret) simp_all
qed

lemma sound_evalVar [sound_intros]: "soundM coherent (evalVar p n d sl)"
  unfolding soundM_def
proof (intro allI impI)
  fix s r s'
  assume s: "sound s" and run: "evalVar p n d sl s = Some (r, s')"
  let ?g = "if sl \<ge> 0 then GetAt (st_env s) d sl n else Get (st_env s) n"
  have "coherent v" if "?g = Inr v" for v
  proof -
    have "\<exists>b. getBindingRoot (st_env s) n d sl = Inr b \<and> bValue b = v"
      using that Get_binding [of "st_env s" n v] GetAt_binding [of "st_env s" d sl n v] by (simp add: getBindingRoot_def split: if_splits)
    then show ?thesis using getBindingRoot_ok [of "st_env s" n d sl] s by (auto simp: sound_def binding_ok_def)
  qed
  with run s show "sound s' \<and> okR coherent r"
    by (cases ?g) (auto simp: evalVar_def lookupM_def split: prod.splits)
qed

lemma sound_evalConstRef [sound_intros]:
  assumes "interp_ok I"
  shows "soundM coherent (evalConstRef I p n d sl)"
  unfolding evalConstRef_def
proof (rule soundM_bind [OF soundM_gets])
  fix x
  assume "\<exists>s. sound s \<and> x = (if 0 \<le> sl then GetBindingAt (st_env s) d sl n else GetBinding (st_env s) n)"
  then have x: "\<And>b. x = Inr b \<Longrightarrow> coherent (bValue b)"
    using getBindingRoot_ok [of _ n d sl] by (fastforce simp: sound_def binding_ok_def getBindingRoot_def)
  from interp_okD(7) [OF assms] x
  show "soundM coherent (case x of
       Inr b \<Rightarrow>
         if bName b = [] \<and> sl \<ge> 0 then rtFail ''constant %s is read before its definition has run; top-level constants are defined in source order, so define it above the code that first reaches this read'' [AStr n] p
         else if \<not> bConst b then rtFail ''%q is a variable; use `$%s` to reference it'' [AStr n, AStr n] p
         else retM (bValue b)
     | Inl _ \<Rightarrow> (case LibConstants I n of
         Some (lib, v) \<Rightarrow> if \<not> imported I lib then rtFail ''`%s` requires `use %s;`'' [AStr n, AStr lib] p else retM v
       | None \<Rightarrow> (case methods I n of
           Some m \<Rightarrow> retM (VFunc (Some (mName m)))
         | None \<Rightarrow> rtFail ''undefined name %q'' [AStr n] p)))"
    by (auto intro!: sound_intros)
qed

lemma sound_evalListLit [sound_intros]: "ev_sound ev \<Longrightarrow> wfE (ListLit p es) \<Longrightarrow> soundM coherent (evalListLit ev es)"
  unfolding evalListLit_def
  by (rule bind_values [OF soundM_map]) (auto simp: list_all_iff intro!: sound_intros coherent_lit)

lemma sound_mapLitLoop:
  "ev_sound ev \<Longrightarrow> wfE (MapLit p kvs) \<Longrightarrow> list_all (\<lambda>e. coherent (fst e) \<and> coherent (snd e)) acc \<Longrightarrow>
    soundM (list_all (\<lambda>e. coherent (fst e) \<and> coherent (snd e))) (mapLitLoop I ev kvs seen nh acc)"
proof (induction I ev kvs seen nh acc rule: mapLitLoop.induct)
  case (2 I ev ke ve rest seen nh acc)
  then show ?case by (auto intro!: sound_intros simp: DeepCopy_coherent coherent_lit)
qed (auto intro!: sound_intros)

lemma sound_evalMapLit [sound_intros]: "ev_sound ev \<Longrightarrow> wfE (MapLit p kvs) \<Longrightarrow> soundM coherent (evalMapLit I ev kvs)"
  unfolding evalMapLit_def by (rule soundM_bind [OF sound_mapLitLoop]) (auto intro!: sound_intros simp: idx_inv_build)

lemma sound_evalIndex [sound_intros]: "ev_sound ev \<Longrightarrow> wfE (IndexExpr p t i) \<Longrightarrow> soundM coherent (evalIndex I ev p t i)"
  unfolding evalIndex_def by (auto intro!: sound_intros indexValue_coherent)

lemma sound_rangeBounds [sound_intros]: "ev_sound ev \<Longrightarrow> wfE lo \<Longrightarrow> wfE hi \<Longrightarrow> soundM (\<lambda>_. True) (rangeBounds ev lo hi p)"
  unfolding rangeBounds_def by (auto intro!: sound_intros simp: rangeCheck_def split: Value.split)

lemma sound_evalRange [sound_intros]: "ev_sound ev \<Longrightarrow> wfE (RangeExpr p lo hi) \<Longrightarrow> soundM coherent (evalRange I ev p lo hi)"
  unfolding evalRange_def
  by (rule soundM_bind [OF sound_rangeBounds]) (auto intro!: sound_intros simp: rangeList_def Let_def list_all_iff stamped_def)

lemma sound_sliceEnd: "ev_sound ev \<Longrightarrow> pred_option wfE oe \<Longrightarrow> soundM (\<lambda>_. True) (sliceEnd ev oe n msg p)"
  unfolding sliceEnd_def by (auto intro!: sound_intros split: Value.split)

lemma sound_sliceBounds:
  assumes "ev_sound ev" "pred_option wfE lo" "pred_option wfE hi"
  shows "soundM (\<lambda>_. True) (sliceBounds ev lo hi n p)"
  unfolding sliceBounds_def
  by (intro soundM_bind [OF sound_sliceEnd] assms) (auto intro!: sound_intros)

lemma sound_evalSlice [sound_intros]: "ev_sound ev \<Longrightarrow> wfE (SliceExpr p t lo hi) \<Longrightarrow> soundM coherent (evalSlice ev p t lo hi)"
  unfolding evalSlice_def
  by (auto intro!: sound_intros soundM_bind [OF sound_sliceBounds] sliceValue_coherent simp: option.pred_map)

lemma sound_evalLen [sound_intros]: "ev_sound ev \<Longrightarrow> wfE e \<Longrightarrow> soundM coherent (evalLen ev p e)"
  unfolding evalLen_def by (auto intro!: sound_intros lenValue_coherent)

subsection \<open>Struct and enum literals\<close>

lemma shape_lit: "shape v t \<Longrightarrow> shape (literalElementValue e v) t"
  by (cases e) (simp_all add: shape_DeepCopy)

lemma sound_stamp: "wf_ty t \<Longrightarrow> coherent v \<Longrightarrow> shape v t \<Longrightarrow> soundM coherent (stampM v t)"
  by (rule soundM_weaken [OF stampM_sound]) auto

lemma sound_litField:
  assumes "ev_sound ev" "wfE (snd pe)" "wf_ty (fType d)" "\<And>t v. err_ok (mm t v)"
  shows "soundM (\<lambda>f. coherent (snd f)) (litField ev d pe mm)"
  unfolding litField_def
  by (auto intro!: sound_intros assms sound_stamp coherent_lit shape_lit dest: MatchesDeclared_shape)

lemma errorLocationZero_coherent: "errorLocationZero ns n f = Some z \<Longrightarrow> coherent z"
  by (auto simp: errorLocationZero_def split: if_splits)

lemma sound_litMissing:
  assumes "interp_ok I" "wf_ty (fType d)"
  shows "soundM (\<lambda>f. coherent (snd f)) (litMissing I ev p ns rns n d)"
proof -
  have "okR (\<lambda>zs. list_all (\<lambda>f. coherent (snd f)) zs \<and> length zs = length [d]) x"
    if "zeroPayload I (fuel ev) p [d] = Some x" for x
    using zeroPayload_ok [OF zeros_ok [OF assms(1)] that] assms(2) by (simp add: fields_ok_def)
  then have "soundM (\<lambda>zs. list_all (\<lambda>f. coherent (snd f)) zs \<and> length zs = length [d]) (optM (zeroPayload I (fuel ev) p [d]))"
    by (rule soundM_optM)
  from soundM_bind [OF this, of "\<lambda>f. coherent (snd f)" "\<lambda>zs. retM (hd zs)"]
  have "soundM (\<lambda>f. coherent (snd f)) (bindM (optM (zeroPayload I (fuel ev) p [d])) (\<lambda>zs. retM (hd zs)))"
    by (fastforce intro!: soundM_ret simp: length_Suc_conv simp del: zeroPayload.simps)
  then show ?thesis unfolding litMissing_def
    by (auto intro!: sound_intros errorLocationZero_coherent)
qed

lemma provided_wf: "wfE (StructLit p ns en n bare fs) \<Longrightarrow> provided fs f = Some pe \<Longrightarrow> wfE (snd pe)"
  by (cases pe) (auto simp: provided_def list_all_iff rev_map [symmetric] dest!: map_of_SomeD bspec)

lemma find_set: "List.find P xs = Some x \<Longrightarrow> x \<in> set xs"
  by (auto simp: find_Some_iff)

lemma bind_fields:
  "soundM (list_all (\<lambda>f. coherent (snd f))) m \<Longrightarrow> (\<And>fs. list_all (\<lambda>f. coherent (snd f)) fs \<Longrightarrow> soundM Q (g fs)) \<Longrightarrow> soundM Q (bindM m g)"
  by (rule soundM_bind)

lemma sound_evalEnumLit:
  assumes "interp_ok I" "ev_sound ev" "wfE (StructLit p ns en n bare fs)"
  shows "soundM coherent (evalEnumLit I ev p ns en n bare fs)"
proof -
  have f: "wf_ty (fType d)" if "enums I ns = Some def" "List.find (\<lambda>v. evName v = n) (edVariants def) = Some v" "d \<in> set (evFields v)" for def v d
    using interp_okD(4) [OF assms(1) that(1)] find_set [OF that(2)] that(3) by (auto simp: list_all_iff fields_ok_def)
  show ?thesis unfolding evalEnumLit_def
    by (auto intro!: sound_intros bind_fields [OF soundM_map] sound_litField assms(2) intro: provided_wf [OF assms(3)] dest: f)
qed

lemma sound_evalStructLit [sound_intros]:
  assumes "interp_ok I" "ev_sound ev" "wfE (StructLit p ns en n bare fs)"
  shows "soundM coherent (evalStructLit I ev p ns en n bare fs)"
proof -
  have def: "okR (\<lambda>x. fields_ok (sFields (fst x))) (structLitDef I p ns n)"
    using interp_okD(2,3) [OF assms(1)] by (auto simp: structLitDef_def split: sum.splits option.splits)
  have "soundM coherent (bindM (mapM (\<lambda>decl. case provided fs (fName decl) of
              None \<Rightarrow> litMissing I ev p ns rns n decl
            | Some pe \<Rightarrow> litField ev decl pe (\<lambda>t v. rtErr ''field %q of struct %q expects %s, got %s''
                [AStr (fName decl), AStr n, ATy t, AStr (valueTypeLabel v)] (fst pe))) (sFields d))
            (\<lambda>out. retM (VStruct rns n [] out)))" if "fields_ok (sFields d)" for rns d
    using that by (auto intro!: sound_intros bind_fields [OF soundM_map] sound_litField sound_litMissing assms(1,2)
      intro: provided_wf [OF assms(3)] simp: fields_ok_def list_all_iff)
  then show ?thesis unfolding evalStructLit_def
    by (auto intro!: sound_intros soundM_bind [OF soundM_lift [OF def]] sound_evalEnumLit [OF assms])
qed

lemma sound_evalFieldAccess [sound_intros]: "ev_sound ev \<Longrightarrow> wfE t \<Longrightarrow> soundM coherent (evalFieldAccess I ev p t f)"
proof -
  have "okR coherent r" if "enumVariantFromFieldAccess I t f p e = Some r" for e r
    using that by (cases t) (auto simp: enumVariantFromFieldAccess_def enumVariantValue_coherent split: sum.splits)
  then show "ev_sound ev \<Longrightarrow> wfE t \<Longrightarrow> soundM coherent (evalFieldAccess I ev p t f)"
    unfolding evalFieldAccess_def by (auto intro!: sound_intros fieldValue_coherent)
qed

subsection \<open>Operators\<close>

lemma sound_logicalOperand [sound_intros]:
  "ev_sound ev \<Longrightarrow> wfE e \<Longrightarrow> (\<And>k. err_ok (mm k)) \<Longrightarrow> soundM (\<lambda>_. True) (logicalOperand ev e mm)"
  unfolding logicalOperand_def by (auto intro!: sound_intros split: Value.split)

lemma sound_evalLogical [sound_intros]: "ev_sound ev \<Longrightarrow> wfE l \<Longrightarrow> wfE r \<Longrightarrow> soundM coherent (evalLogical ev op l r)"
  unfolding evalLogical_def by (auto intro!: sound_intros)

lemma fastBinary_coherent: "fastBinary op e en = Some v \<Longrightarrow> coherent v"
  by (auto simp: fastBinary_def split: if_splits)

lemma okR_rbind: "okR P r \<Longrightarrow> (\<And>x. P x \<Longrightarrow> okR Q (f x)) \<Longrightarrow> okR Q (rbind r f)"
  by (cases r) auto

lemma arithmetic_coherent: "okR coherent (evalArithmetic op a b p)"
proof -
  have err: "err_ok (intOverflowError f x y p)" "err_ok (floatOverflowError u v op p)" for f x y u v
    by (simp_all add: intOverflowError_def floatOverflowError_def)
  have "okR (\<lambda>_. True) (floatArithmetic op x y p)" for x y by (cases op) simp_all
  then have f: "okR coherent (floatSection op a b p)"
    by (auto simp: floatSection_def err intro!: okR_rbind split: option.splits)
  have "okR coherent r" if "intArithmetic op x y p = Some r" for x y r
    using that by (cases op) (auto simp: err split: if_splits prod.splits)
  with f show ?thesis by (auto simp: evalArithmetic_def split: Value.splits option.splits)
qed

lemma comparison_coherent: "okR coherent (evalComparison N op a b p)"
proof -
  have "okR coherent (orderResult op n p)" for n by (cases op) simp_all
  then show ?thesis by (auto simp: evalComparison_def orderBool_def orderRest_def split: Value.splits option.splits)
qed

lemma binaryOp_coherent: "okR coherent (binaryOp N op a b p)"
  unfolding binaryOp_def
  by (auto simp: arithmetic_coherent comparison_coherent evalBitOp_def split: Value.splits binop.splits)

lemma unaryOp_coherent: "okR coherent (unaryOp op v p)"
  by (cases op) (auto split: Value.splits)

lemma sound_evalBinary [sound_intros]: "ev_sound ev \<Longrightarrow> wfE (BinaryExpr p op l r f) \<Longrightarrow> soundM coherent (evalBinary I ev p op l r f)"
  unfolding evalBinary_def
  by (auto intro!: sound_intros binaryOp_coherent dest: fastBinary_coherent)

lemma sound_evalUnary [sound_intros]: "ev_sound ev \<Longrightarrow> wfE (UnaryExpr p op e f) \<Longrightarrow> soundM coherent (evalUnary ev p op e f)"
  unfolding evalUnary_def by (auto intro!: sound_intros unaryOp_coherent)

section \<open>Blocks and deferred calls\<close>

lemma sound_execStmts [sound_intros]: "ev_sound ev \<Longrightarrow> list_all wfS sts \<Longrightarrow> soundM flow_ok (execStmts ev sts)"
  by (induction sts) (auto intro!: sound_intros)

lemma deferredExpr_wf: "deferred_ok dc \<Longrightarrow> deferredExpr dc = Some e \<Longrightarrow> wfE e"
  by (cases "dcCall dc") (auto simp: deferred_ok_def list_all_iff)

lemma sound_invokeDeferred [sound_intros]: "ev_sound ev \<Longrightarrow> deferred_ok dc \<Longrightarrow> soundM (\<lambda>_. True) (invokeDeferred ev dc)"
  unfolding invokeDeferred_def by (auto intro!: sound_intros intro: deferredExpr_wf simp del: deferredExpr.simps)

lemma sound_deferLoop:
  "ev_sound ev \<Longrightarrow> list_all deferred_ok dcs \<Longrightarrow> pred_option err_ok derr \<Longrightarrow> soundM (pred_option err_ok) (deferLoop ev failed derr dcs)"
  by (induction dcs arbitrary: failed derr)
    (auto intro!: sound_intros soundM_bind [OF soundM_attempt [OF sound_invokeDeferred]])

lemma topDeferred_ok: "sound s \<Longrightarrow> list_all deferred_ok (topDeferred (st_env s))"
  by (cases "st_env s") (auto simp: topDeferred_def sound_def frame_ok_def)

lemma setDeferred_ok: "sound s \<Longrightarrow> list_all deferred_ok ds \<Longrightarrow> sound (s\<lparr>st_env := setDeferred ds (st_env s)\<rparr>)"
  by (cases "st_env s") (auto simp: setDeferred_def sound_def frame_ok_def)

lemma sound_mod [sound_intros]: "(\<And>s. sound s \<Longrightarrow> sound (f s)) \<Longrightarrow> soundM (\<lambda>_. True) (modM f)"
  by (simp add: soundM_def modM_def)

lemma sound_runDeferredCalls: "ev_sound ev \<Longrightarrow> soundM (pred_option err_ok) (runDeferredCalls ev failed)"
  unfolding runDeferredCalls_def
  by (auto intro!: bind_gets soundM_then [OF sound_mod] sound_deferLoop setDeferred_ok dest: topDeferred_ok)

lemma mergeDeferred_ok: "okR Q r \<Longrightarrow> pred_option err_ok d \<Longrightarrow> okR Q (mergeDeferred r d)"
  by (cases r; cases d) (auto simp: mergeDeferred_def)

lemma sound_finishFrame: "ev_sound ev \<Longrightarrow> okR flow_ok r \<Longrightarrow> soundM flow_ok (finishFrame ev r)"
  unfolding finishFrame_def
  by (auto intro!: bind_gets soundM_if soundM_lift soundM_bind [OF sound_runDeferredCalls] mergeDeferred_ok)

lemma sound_finished: "ev_sound ev \<Longrightarrow> soundM flow_ok m \<Longrightarrow> soundM flow_ok (bindM (attemptM m) (finishFrame ev))"
  by (rule soundM_bind [OF soundM_attempt sound_finishFrame])

lemma sound_framedM [sound_intros]:
  "ev_sound ev \<Longrightarrow> soundM flow_ok m \<Longrightarrow> stmtM m \<Longrightarrow> soundM flow_ok (framedM ev n m)"
  unfolding framedM_def by (auto intro!: soundM_scoped sound_finished keeps dest: ev_soundD(3))

lemma sound_execBlock [sound_intros]: "ev_sound ev \<Longrightarrow> wfB b \<Longrightarrow> soundM flow_ok (execBlock ev b)"
  unfolding execBlock_def by (auto intro!: sound_intros keeps simp: wfB_Stmts dest: ev_soundD(3))

section \<open>Calls\<close>

lemma sound_releasing [sound_intros]: "soundM Q m \<Longrightarrow> soundM Q (releasingM cf m)"
  unfolding soundM_def
proof (intro allI impI)
  fix s r s'
  assume m: "\<forall>s r s'. sound s \<longrightarrow> m s = Some (r, s') \<longrightarrow> sound s' \<and> okR Q r" and s: "sound s" "releasingM cf m s = Some (r, s')"
  from s(2) obtain r1 s1 where s1: "m s = Some (r1, s1)" by (auto simp: releasingM_def split: option.splits)
  from m s(1) s1 have "sound s1" "okR Q r1" by blast+
  then show "sound s' \<and> okR Q r" using s(2) s1 by (cases r1) (auto simp: releasingM_def releaseFrame_def sound_def)
qed

lemma bindParamM_sound:
  assumes "wf_ty t" "coherent v" "MatchesDeclared het v t"
  shows "soundM (\<lambda>w. coherent w \<and> typed w t) (bindParamM v t)"
proof -
  have "coherent (fst (bindParamValue het' v t)) \<and> typed (fst (bindParamValue het' v t)) t" for het'
  proof -
    have "fst (bindParamValue het' v t) = fst (bindParamValue het v t)"
      by (simp add: stampDeclaredType_def)
    then show ?thesis using bindParamValue_sound [OF assms] by simp
  qed
  then show ?thesis by (auto simp: soundM_def bindParamM_def sound_def simp del: bindParamValue.simps split: prod.splits) (metis fst_conv)+
qed

lemma defineParam_ok: "frame_ok cf \<Longrightarrow> coherent w \<Longrightarrow> typed w (pType p) \<Longrightarrow> wf_ty (pType p) \<Longrightarrow> frame_ok (defineParam cf i p w)"
  unfolding defineParam_def by (rule set_slots_ok) (simp_all add: binding_ok_def holds_def)

lemma frame_ok_bytes [simp]: "frame_ok (cf\<lparr>frameBytes := n\<rparr>) = frame_ok cf" "frame_ok (cf\<lparr>borrowDefs := b\<rparr>) = frame_ok cf"
  by (simp_all add: frame_ok_def)

lemma sound_bindOne:
  assumes "wf_ty (pType p)" "coherent v" "MatchesDeclared het v (pType p)" "frame_ok cf"
  shows "soundM frame_ok (bindOne I moved borrow idx p v cf)"
  unfolding bindOne_def using assms MatchesDeclared_shape [OF assms(3)]
  by (auto intro!: soundM_if soundM_bind [OF stampM_sound] soundM_bind [OF bindParamM_sound] soundM_ret soundM_then [OF sound_mod]
      defineParam_ok simp: Let_def sound_def)

lemma sound_bindArgs:
  "ev_sound ev \<Longrightarrow> list_all (\<lambda>x. wf_ty (pType (fst x)) \<and> wfE (snd x)) pas \<Longrightarrow> frame_ok cf \<Longrightarrow>
    soundM frame_ok (bindArgs I ev name ctx snap move idx pas cf)"
proof (induction I ev name ctx snap move idx pas cf rule: bindArgs.induct)
  case (2 I ev name ctx snap move idx p a rest cf)
  show ?case unfolding bindArgs.simps
    using 2 by (auto intro!: bind_value bind_gets soundM_if sound_releasing soundM_fail ev_soundD(1) soundM_bind [OF sound_bindOne])
qed (simp add: soundM_ret)

lemma sound_called:
  assumes m: "soundM Q m" "exprM m" and cf: "frame_ok cf"
  shows "soundM Q (calledM cf m)"
  unfolding soundM_def
proof (intro allI impI)
  fix s r s'
  assume s: "sound s" and "calledM cf m s = Some (r, s')"
  then obtain s1 where s1: "m (s\<lparr>st_env := [cf, last (st_env s)]\<rparr>) = Some (r, s1)"
      "s' = (releaseTop s1)\<lparr>st_env := butlast (st_env s) @ [last (st_env s1)]\<rparr>"
    by (auto simp: calledM_def split: option.splits)
  let ?s0 = "s\<lparr>st_env := [cf, last (st_env s)]\<rparr>"
  have "sound ?s0" using s cf by (auto simp: sound_def list_all_iff)
  from soundMD [OF m(1) this s1(1)] have ok: "sound s1" "okR Q r" by simp_all
  then have "frame_ok (last (st_env s1))" by (auto simp: sound_def list_all_iff)
  then show "sound s' \<and> okR Q r" using s ok by (auto simp: sound_def s1(2) list_all_iff dest: in_set_butlastD)
qed

lemma callResult_ok: "flow_ok r \<Longrightarrow> okR coherent (callResult r)"
  by (cases r) (auto simp: callResult_def)

lemma sound_enterMethod: "ev_sound ev \<Longrightarrow> method_ok m \<Longrightarrow> frame_ok cf \<Longrightarrow> soundM coherent (enterMethod I ev m cf p)"
  unfolding enterMethod_def
  by (auto intro!: bind_gets soundM_if sound_releasing soundM_fail soundM_lift bind_flow sound_called soundM_deeper sound_execBlock
      callResult_ok expr_deeper keep_execBlock simp: method_ok_def split: prod.split dest: ev_soundD(3))

lemma sound_callMethod [sound_intros]:
  assumes "ev_sound ev" "method_ok m" "list_all wfE args"
  shows "soundM coherent (callMethod I ev m args snap move name p)"
proof -
  have "list_all (\<lambda>x. wf_ty (pType (fst x)) \<and> wfE (snd x)) (zip (mParams m) args)"
    using assms(2,3) by (auto simp: method_ok_def list_all_iff dest: set_zip_leftD set_zip_rightD)
  then show ?thesis unfolding callMethod_def Let_def
    by (auto intro!: soundM_if soundM_fail bind_gets soundM_bind [OF sound_bindArgs] sound_enterMethod assms)
qed

lemma sound_callBuiltin [sound_intros]:
  assumes "builtin_ok fn" "list_all coherent args"
  shows "soundM coherent (callBuiltin fn p args)"
proof -
  have "okR coherent (map_sum (\<lambda>ge. builtinError ge p) id (fst (fn p args w)))" for w
    using assms by (cases "fst (fn p args w)")
      (auto simp: builtin_ok_def builtinError_def Let_def split: goErr.splits err.splits sum.splits dest!: spec [of _ p] spec [of _ args] spec [of _ w])
  then show ?thesis by (auto simp: soundM_def callBuiltin_def sound_def split: prod.splits) (metis fst_conv)+
qed

lemma wf_args: "wfE (CallExpr p n args m mv snap) = list_all wfE args" "wfE (QualifiedCallExpr p pre n args mv snap) = list_all wfE args"
  "wfE (CallValueExpr p c args snap) = (wfE c \<and> list_all wfE args)"
  by (simp_all add: list.pred_map comp_def)

lemma sound_args: "ev_sound ev \<Longrightarrow> list_all wfE args \<Longrightarrow> soundM (list_all coherent) (mapM (evE ev) args)"
  by (auto intro!: sound_intros simp: list_all_iff)

lemma sound_evalCall [sound_intros]:
  assumes "interp_ok I" "ev_sound ev" "list_all wfE args"
  shows "soundM coherent (evalCall I ev p callee args meth move snap)"
  unfolding evalCall_def using assms interp_okD(1) [OF assms(1)]
  by (auto intro!: sound_intros simp: list_all_iff bind_eq_Some_conv dest: interp_okD(5) split: option.split)

lemma sound_evalCallValue [sound_intros]:
  assumes "interp_ok I" "ev_sound ev" "wfE c" "list_all wfE args"
  shows "soundM coherent (evalCallValue I ev p c args snap)"
  unfolding evalCallValue_def using assms
  by (auto intro!: sound_intros dest: interp_okD(1) split: Value.split option.split)

lemma sound_evalQualifiedCall [sound_intros]:
  assumes "interp_ok I" "ev_sound ev" "list_all wfE args"
  shows "soundM coherent (evalQualifiedCall I ev p pre n args snap)"
proof -
  have "soundM (list_all coherent) (mapM (\<lambda>(idx, a). bindM (evE ev a) (\<lambda>v. retM (snapArg v snap idx))) (enumerate 0 args))"
    using assms by (auto intro!: sound_intros simp: snapArg_def DeepCopy_coherent list_all_iff in_set_enumerate_eq)
  then show ?thesis unfolding evalQualifiedCall_def using assms(1)
    by (auto intro!: sound_intros dest: interp_okD(6))
qed

lemma sound_evalQualifiedConst [sound_intros]: "interp_ok I \<Longrightarrow> soundM coherent (evalQualifiedConst I p pre n)"
  unfolding evalQualifiedConst_def
  by (auto intro!: sound_intros enumVariantValue_coherent dest: interp_okD(8) split: option.split sum.split)

lemma sound_evalExpr: "interp_ok I \<Longrightarrow> ev_sound ev \<Longrightarrow> wfE e \<Longrightarrow> soundM coherent (evalExpr I ev e)"
  unfolding evalExpr_def by (cases e) (auto intro!: sound_intros simp: list.pred_map comp_def)

section \<open>Definitions and assignments\<close>

lemma sound_envM:
  assumes "\<And>h e e'. e \<noteq> [] \<Longrightarrow> env_ok e \<Longrightarrow> f h e = Inr e' \<Longrightarrow> env_ok e' \<and> e' \<noteq> []"
  shows "soundM (\<lambda>_. True) (envM p f)"
  unfolding soundM_def
proof (intro allI impI)
  fix s r s'
  assume "sound s" "envM p f s = Some (r, s')"
  then show "sound s' \<and> okR (\<lambda>_. True) r"
    using assms [of "st_env s" "st_het s"] by (auto simp: envM_def sound_def split: sum.splits prod.splits)
qed

lemma sound_lookup:
  assumes "\<And>e x. env_ok e \<Longrightarrow> f e = Inr x \<Longrightarrow> Q x"
  shows "soundM Q (lookupM p f)"
  using assms by (auto simp: soundM_def lookupM_def sound_def split: sum.splits prod.splits)

lemma Define_nonempty: "Define e n v t c = Inr e' \<Longrightarrow> e' \<noteq> []" "DefineAt e sl n v t c = Inr e' \<Longrightarrow> e' \<noteq> []"
  by (cases e; auto simp: Let_def split: if_splits)+

lemma sound_define:
  assumes "coherent v" "wf_ty t" "holds v t" "t = TypeInvalid \<Longrightarrow> c \<or> sl \<ge> 0"
  shows "soundM (\<lambda>_. True) (envM p (\<lambda>_ en. if sl \<ge> 0 then DefineAt en sl n v t c else Define en n v t c))"
    "soundM (\<lambda>_. True) (envM p (\<lambda>_ en. DefineAt en sl n v t c))"
proof -
  have at: "env_ok e' \<and> e' \<noteq> []" if "env_ok e" "DefineAt e sl n v t c = Inr e'" for e e'
    using DefineAt_ok [OF that(1) assms that(2)] Define_nonempty(2) [OF that(2)] by blast
  then show "soundM (\<lambda>_. True) (envM p (\<lambda>_ en. DefineAt en sl n v t c))"
    by (rule sound_envM)
  show "soundM (\<lambda>_. True) (envM p (\<lambda>_ en. if sl \<ge> 0 then DefineAt en sl n v t c else Define en n v t c))"
  proof (cases "sl \<ge> 0")
    case False
    have "env_ok e' \<and> e' \<noteq> []" if "env_ok e" "Define e n v t c = Inr e'" for e e'
      using Define_ok [OF that(1) assms(1-3) _ that(2)] assms(4) Define_nonempty(1) [OF that(2)] False by blast
    then have "soundM (\<lambda>_. True) (envM p (\<lambda>_ en. Define en n v t c))" by (rule sound_envM)
    with False show ?thesis by simp
  qed (use sound_envM [of "\<lambda>_ en. DefineAt en sl n v t c", OF at] in simp)
qed

lemma zero_holds:
  assumes "wf_ty t" "\<And>n ns mp. t \<noteq> TypeStruct n ns mp"
  shows "coherent (stampValue (ZeroFor t) t) \<and> holds (stampValue (ZeroFor t) t) t"
proof (cases "has_zero t")
  case True
  then show ?thesis using ZeroFor_typed [OF assms(1), of "\<lambda>_. None"] by (simp add: holds_def)
next
  case False
  then show ?thesis using assms by (cases t) (auto simp: holds_def nullHandle_def split: option.splits)
qed

lemma sound_zeroInit:
  assumes "interp_ok I" "wf_ty t" "noModPath t"
  shows "soundM (\<lambda>v. coherent v \<and> holds v t) (zeroInit I ev p t)"
proof (cases "\<exists>n ns mp. t = TypeStruct n ns mp")
  case True
  then obtain n ns where t: "t = TypeStruct n ns []" using assms(3) by (auto simp: noModPath_def)
  note z = zeros_ok [OF assms(1), of p "fuel ev", unfolded zeros_ok_def, rule_format, of ns n "[]"]
  have "okR (\<lambda>v. coherent v \<and> holds v t) r"
    if "zeroStructFor I (fuel ev) p ns n [] = Some r \<or> zeroEnumFor I (fuel ev) p ns n [] = Some r" for r
    using z [of r] that by (cases r) (auto simp: holds_def t)
  moreover have "coherent (zeroObject I ns n) \<and> holds (zeroObject I ns n) t" by (simp add: zeroObject_def holds_def stamped_def t)
  ultimately show ?thesis unfolding zeroInit_def t by (auto intro!: soundM_optM soundM_ret)
next
  case False
  then have "soundM (\<lambda>v. coherent v \<and> holds v t) (stampM (ZeroFor t) t)"
    using zero_holds [OF assms(2)] by (auto simp: soundM_def stampM_def stampDeclaredType_def sound_def)
  with False show ?thesis by (auto simp: zeroInit_def split: ty.split)
qed

lemma sound_accountCopy: "soundM (\<lambda>_. True) (accountCopy I v)"
  unfolding accountCopy_def
  by (rule sound_mod) (auto simp: Let_def sound_def addBytes_def neq_Nil_conv)

lemma sound_storeInit:
  assumes "wf_ty t" "coherent v" "shape v t"
  shows "soundM (\<lambda>w. coherent w \<and> typed w t) (storeInit I e b t v)"
  unfolding storeInit_def
  by (auto intro!: soundM_if bind_gets soundM_bind [OF stampM_sound] soundM_then [OF sound_accountCopy] soundM_ret stampM_sound assms
      DeepCopy_coherent simp: shape_DeepCopy assms(3))

lemma sound_initial:
  assumes "interp_ok I" "ev_sound ev" "wf_ty t" "noModPath t" "pred_option wfE initE"
  shows "soundM (\<lambda>v. coherent v \<and> holds v t) (case initE of
         Some e \<Rightarrow> bindM (evE ev e) (\<lambda>v. bindM (getsM st_het) (\<lambda>het.
           if \<not> MatchesDeclared het v t
           then rtFail ''cannot initialize %s %s %q with value of type %s''
             [ATy t, AStr (if c then ''constant'' else ''variable''), AStr name, AKind (Kind v)] p
           else storeInit I e borrow t v))
       | None \<Rightarrow>
           if c then failM (rtMsg ''internal: constant without init reached interpreter'' p)
           else zeroInit I ev p t)"
proof -
  have "soundM (\<lambda>v. coherent v \<and> holds v t) (storeInit I e borrow t v)"
    if "coherent v" "MatchesDeclared het v t" for e v het
    using sound_storeInit [OF assms(3) that(1) MatchesDeclared_shape [OF that(2)]] by (rule soundM_weaken) (simp add: holds_def)
  then show ?thesis using assms
    by (auto intro!: soundM_option soundM_if soundM_fail bind_value bind_gets sound_zeroInit ev_soundD(1))
qed

lemma sound_execDefine [sound_intros]:
  assumes "interp_ok I" "ev_sound ev" "wfS (DefineStmt p c n t e sl b)"
  shows "soundM (\<lambda>_. True) (execDefine I ev p c n t e sl b)"
proof -
  have res: "soundM (\<lambda>t'. wf_ty t' \<and> noModPath t' \<and> t' \<noteq> TypeInvalid) (liftR (resolveDeclaredStructNS I t p))"
  proof (rule soundM_lift)
    have "resolveDeclaredStructNS I t p = Inl x \<Longrightarrow> err_ok x" for x
      by (induction I t p arbitrary: x rule: resolveDeclaredStructNS.induct) (auto simp: rbind_def split: if_splits sum.splits)
    then show "okR (\<lambda>t'. wf_ty t' \<and> noModPath t' \<and> t' \<noteq> TypeInvalid) (resolveDeclaredStructNS I t p)"
      using resolve_wf [of I t p] assms(3) by (cases "resolveDeclaredStructNS I t p") auto
  qed
  have "pred_option wfE e" using assms(3) by (simp add: option.pred_map)
  then show ?thesis unfolding execDefine_def using assms(1,2)
    by - (rule soundM_bind [OF res], elim conjE, rule soundM_bind [OF sound_initial], assumption+, auto intro!: sound_define)
qed

lemma sound_assign:
  assumes "coherent v" "fits v"
  shows "soundM (\<lambda>_. True) (envM p (\<lambda>h en. assignRoot h en n d sl v))"
  using assms by (auto intro!: sound_envM dest: assignRoot_ok assignRoot_kept list_all2_lengthD)

lemma sound_assignSlow:
  assumes "ev_sound ev" "wfE e"
  shows "soundM (\<lambda>_. True) (assignSlow I ev p n e d sl)"
proof -
  have "soundM (\<lambda>_. True) (bindM (stampM v t) (\<lambda>w. envM p (\<lambda>h en. assignRoot h en n d sl w)))"
    if "coherent v" "wf_ty t" "shape v t" for v t
    using that by (intro soundM_bind [OF stampM_sound] sound_assign) (auto intro: typed_fits)
  then show ?thesis unfolding assignSlow_def
    by (intro bind_value [OF ev_soundD(1) [OF assms]] soundM_bind [OF sound_lookup [where Q = binding_ok]]
        bind_gets [of _ _ st_het] soundM_if soundM_fail)
      (auto dest: getBindingRoot_ok MatchesDeclared_shape simp: binding_ok_def shape_DeepCopy DeepCopy_coherent)
qed

lemma sound_execAssign [sound_intros]: "ev_sound ev \<Longrightarrow> wfE e \<Longrightarrow> soundM (\<lambda>_. True) (execAssign I ev p n e d sl)"
  unfolding execAssign_def
  by (auto intro!: bind_gets soundM_option sound_mod sound_assignSlow dest: fastAssign_ok fastAssign_kept list_all2_lengthD simp: sound_def)

section \<open>Writes\<close>

text \<open>A computation that keeps the invariant from states with \<open>P\<close>.\<close>

definition soundPM :: "('w state \<Rightarrow> bool) \<Rightarrow> ('a \<Rightarrow> bool) \<Rightarrow> ('w, 'a) M \<Rightarrow> bool" where
  "soundPM P Q m \<longleftrightarrow> (\<forall>s r s'. sound s \<longrightarrow> P s \<longrightarrow> m s = Some (r, s') \<longrightarrow> sound s' \<and> okR Q r)"

lemma soundPM_bind:
  assumes m: "soundM R m" "exprM m" and P: "stable P" and f: "\<And>x. R x \<Longrightarrow> soundPM P Q (f x)"
  shows "soundPM P Q (bindM m f)"
  unfolding soundPM_def
proof (intro allI impI)
  fix s r s'
  assume s: "sound s" "P s" and run: "bindM m f s = Some (r, s')"
  from run obtain r1 s1 where s1: "m s = Some (r1, s1)" by (auto simp: bindM_def split: option.splits)
  have ok: "sound s1" "okR R r1" using soundMD [OF m(1) s(1) s1] by simp_all
  have "st_env s \<noteq> []" using s(1) by (simp add: sound_def)
  from keepsMD [OF m(2) this TrueI s1] have "P s1" using P s(2) by (auto simp: stable_def)
  then show "sound s' \<and> okR Q r" using run s1 ok f by (cases r1) (auto simp: bindM_def soundPM_def)
qed

fun step_ok :: "lvalueStep \<Rightarrow> bool" where
  "step_ok (IndexStep v _) = coherent v"
| "step_ok (FieldStep _ _) = True"

lemma sound_collectLvalueSteps:
  "ev_sound ev \<Longrightarrow> wfE e \<Longrightarrow> soundM (list_all step_ok) (collectLvalueSteps ev p e)"
  by (induction ev p e rule: collectLvalueSteps.induct)
    (auto intro!: bind_value ev_soundD(1) soundM_ret soundM_fail soundM_bind [of "list_all step_ok"])

text \<open>What a write puts in place of the value it goes into.\<close>

definition write_ok :: "(Value \<Rightarrow> (Value \<times> 'h) result) \<Rightarrow> bool" where
  "write_ok f \<longleftrightarrow> (\<forall>v. okR (\<lambda>_. True) (f v)) \<and>
     (\<forall>v w h. f v = Inr (w, h) \<longrightarrow> coherent v \<longrightarrow> coherent w \<and> same_header v w)"

lemma indexPos_err: "okR (\<lambda>_. True) (indexPos N d v i p)"
  by (auto simp: indexPos_def indexListPos_def split: Value.splits option.splits)

lemma lvalueStepInto_err: "okR (\<lambda>_. True) (lvalueStepInto N d v st)"
  by (cases st) (auto simp: indexPos_err split: Value.splits option.splits)

lemma byteOf_err: "okR (\<lambda>_. True) (byteOf v p)"
  by (auto simp: byteOf_def split: Value.splits)

lemma indexListPos_err: "okR (\<lambda>_. True) (indexListPos n v p)"
  by (auto simp: indexListPos_def split: Value.splits)

lemma writeIndexedSlot_err: "okR (\<lambda>_. True) (writeIndexedSlot N het v i x p)"
  unfolding writeIndexedSlot_def
  by (auto intro!: okR_rbind [OF indexListPos_err] okR_rbind [OF byteOf_err] split: Value.splits prod.splits)

lemma appendInto_err: "okR (\<lambda>_. True) (appendInto het v x p)"
  unfolding appendInto_def by (auto intro!: okR_rbind [OF byteOf_err] split: Value.splits prod.splits)

lemma lvalueWriteLeaf_err: "okR (\<lambda>_. True) (lvalueWriteLeaf N look het v st x)"
  by (cases st) (auto simp: writeIndexedSlot_err split: Value.splits option.splits prod.splits)

lemma walkInto_write_ok:
  assumes "write_ok leaf"
  shows "write_ok (\<lambda>v. walkInto N d v steps leaf)"
proof -
  have "okR (\<lambda>_. True) (walkInto N d v steps leaf)" for v
    using assms by (induction steps arbitrary: v) (auto intro!: okR_rbind [OF lvalueStepInto_err] okR_rbind simp: write_ok_def split: prod.split)
  moreover have "coherent w \<and> same_header v w" if "walkInto N d v steps leaf = Inr (w, h)" "coherent v" for v w h
    using walkInto_sound [OF _ that] assms unfolding write_ok_def by blast
  ultimately show ?thesis by (simp add: write_ok_def)
qed

lemma lookupStructDef_wf: "interp_ok I \<Longrightarrow> lookupStructDef I ns n mp = Some sd \<Longrightarrow> d \<in> set (sFields sd) \<Longrightarrow> wf_ty (fType d)"
  by (auto simp: lookupStructDef_def fields_ok_def list_all_iff dest: interp_okD(2,3) split: if_splits)

lemma applyLvalueWrite_ok:
  assumes "interp_ok I" "coherent x" "list_all step_ok steps"
  shows "write_ok (\<lambda>rt. applyLvalueWrite N d (lookupStructDef I) het rt steps x p)"
proof (cases "steps = []")
  case False
  then have "step_ok (last steps)" using assms(3) by (simp add: list_all_iff)
  then have "write_ok (\<lambda>v. lvalueWriteLeaf N (lookupStructDef I) het v (last steps) x)"
    using lvalueWriteLeaf_sound [OF _ _ assms(2) _ lookupStructDef_wf [OF assms(1)]]
    by (fastforce simp: write_ok_def lvalueWriteLeaf_err)
  with False show ?thesis by (simp add: applyLvalueWrite_def walkInto_write_ok)
qed (simp add: applyLvalueWrite_def write_ok_def)

lemma append_ok: "coherent x \<Longrightarrow> write_ok (\<lambda>rt. walkInto N d rt steps (\<lambda>v. appendInto het v x p))"
  by (rule walkInto_write_ok) (auto simp: write_ok_def appendInto_err dest: appendInto_sound)

lemma sound_rewriteRoot:
  assumes f: "\<And>het. write_ok (f het)"
  shows "soundPM (\<lambda>s. rootMutable n d sl (st_env s)) (\<lambda>_. True) (rewriteRoot p n d sl f)"
  unfolding soundPM_def
proof (intro allI impI)
  fix s r s'
  assume s: "sound s" "rootMutable n d sl (st_env s)" and run: "rewriteRoot p n d sl f s = Some (r, s')"
  then obtain b where b: "getBindingRoot (st_env s) n d sl = Inr b" "\<not> bConst b" by (auto simp: rootMutable_def)
  have c: "coherent (bValue b)" using getBindingRoot_ok [OF _ b(1)] s(1) by (simp add: sound_def binding_ok_def)
  show "sound s' \<and> okR (\<lambda>_. True) r"
  proof (cases "f (st_het s) (bValue b)")
    case (Inl e)
    then have "err_ok e" using f [of "st_het s"] unfolding write_ok_def by (metis okR_simps(1))
    then show ?thesis using run s(1) b Inl by (auto simp: rewriteRoot_def bindM_def getsM_def liftR_def)
  next
    case (Inr x)
    obtain w h where x: "x = (w, h)" by (cases x)
    let ?s = "s\<lparr>st_het := h\<rparr>"
    have "commitRoot p n d sl (bValue b) w ?s = Some (r, s')"
      using run b Inr x by (simp add: rewriteRoot_def bindM_def getsM_def liftR_def thenM_def modM_def)
    moreover have "coherent w \<and> same_header (bValue b) w" using f c Inr x unfolding write_ok_def by blast
    moreover have "sound ?s" "getBindingRoot (st_env ?s) n d sl = Inr b" using s(1) b by (simp_all add: sound_def)
    ultimately show ?thesis using commitRoot_sound [of ?s n d sl b w p r s'] b(2) by blast
  qed
qed

lemma sound_mutableRoot:
  assumes "\<And>b. soundPM (\<lambda>s. rootMutable n d sl (st_env s)) Q (f b)"
  shows "soundM Q (bindM (mutableRoot p n d sl) f)"
  using assms unfolding soundM_def soundPM_def
  by (fastforce simp: bindM_def mutableRoot_def getsM_def failM_def retM_def rootMutable_def split: sum.splits if_splits)

lemma sound_writeRest:
  assumes "ev_sound ev" "wfE e" "wfE t" "\<And>x steps het. coherent x \<Longrightarrow> list_all step_ok steps \<Longrightarrow> write_ok (f x steps het)"
  shows "soundPM (\<lambda>s. rootMutable n d sl (st_env s)) (\<lambda>_. True)
    (bindM (evE ev e) (\<lambda>x. bindM (collectLvalueSteps ev p t) (\<lambda>steps. rewriteRoot p n d sl (f x steps))))"
  by (intro soundPM_bind [OF ev_soundD(1)] soundPM_bind [OF sound_collectLvalueSteps] sound_rewriteRoot assms
      rootMutable_stable keep_collectLvalueSteps ev_keepsD(1) ev_soundD(3))

lemma soundPM_if: "(c \<Longrightarrow> soundPM P Q m) \<Longrightarrow> (\<not> c \<Longrightarrow> soundPM P Q n) \<Longrightarrow> soundPM P Q (if c then m else n)"
  by simp

lemma soundPM_fail: "err_ok e \<Longrightarrow> soundPM P Q (failM e)"
  by (simp add: soundPM_def failM_def)

lemma sound_execIndexAssign [sound_intros]:
  "interp_ok I \<Longrightarrow> ev_sound ev \<Longrightarrow> wfE t \<Longrightarrow> wfE e \<Longrightarrow> soundM (\<lambda>_. True) (execIndexAssign I ev p t e)"
  unfolding execIndexAssign_def thenM_def
  by (auto intro!: soundM_option soundM_fail soundM_prod sound_mutableRoot sound_writeRest applyLvalueWrite_ok)

lemma sound_execFieldAssign [sound_intros]:
  "interp_ok I \<Longrightarrow> ev_sound ev \<Longrightarrow> wfE t \<Longrightarrow> wfE e \<Longrightarrow> soundM (\<lambda>_. True) (execFieldAssign I ev p t e)"
  unfolding execFieldAssign_def thenM_def
  by (auto intro!: soundM_option soundM_fail soundM_prod sound_mutableRoot sound_writeRest applyLvalueWrite_ok)

lemma sound_execAppend [sound_intros]: "ev_sound ev \<Longrightarrow> wfE t \<Longrightarrow> wfE e \<Longrightarrow> soundM (\<lambda>_. True) (execAppend I ev p t e)"
  unfolding execAppend_def
  by (auto intro!: soundM_option soundM_fail soundM_prod sound_mutableRoot sound_writeRest append_ok soundPM_if soundPM_fail)

section \<open>Branches and loops\<close>

lemma sound_execElseIfs:
  "ev_sound ev \<Longrightarrow> list_all (\<lambda>x. wfE (fst x) \<and> wfB (snd x)) eis \<Longrightarrow> pred_option wfB els \<Longrightarrow> soundM flow_ok (execElseIfs ev eis els)"
  by (induction ev eis els rule: execElseIfs.induct) (auto intro!: sound_intros)

lemma sound_execIf [sound_intros]:
  "ev_sound ev \<Longrightarrow> wfS (IfStmt p c b eis els) \<Longrightarrow> soundM flow_ok (execIf ev c b eis els)"
  unfolding execIf_def
  by (auto intro!: sound_intros sound_execElseIfs simp: list.pred_map option.pred_map comp_def)

lemma sound_boundFrame:
  assumes "ev_sound ev" "wfB b" "soundM (\<lambda>_. True) (envM p (\<lambda>_. def) :: ('w, unit) M)" "stmtM (envM p (\<lambda>_. def) :: ('w, unit) M)"
  shows "soundM flow_ok (boundFrame (ev :: 'w evaluator) p b def)"
  unfolding boundFrame_def using assms
  by (auto intro!: soundM_scoped soundM_then [of "\<lambda>_. True"] sound_finished sound_execStmts keeps simp: wfB_Stmts dest: ev_soundD(3))

lemma payloadOf_coherent: "coherent v \<Longrightarrow> coherent (payloadOf v)"
  by (cases v) (auto simp: payloadOf_def list_all_iff DeepCopy_coherent)

lemma sound_runPatternArm:
  "ev_sound ev \<Longrightarrow> wfB b \<Longrightarrow> coherent v \<Longrightarrow> soundM flow_ok (runPatternArm ev p b sl bind v)"
  unfolding runPatternArm_def
  by (auto intro!: soundM_if sound_execBlock sound_boundFrame sound_define stmt_define payloadOf_coherent simp: holds_def)

lemma sound_armMatches: "ev_sound ev \<Longrightarrow> list_all wfE es \<Longrightarrow> soundM (\<lambda>_. True) (armMatches I ev v es)"
  by (induction es) (auto intro!: sound_intros)

lemma sound_execArms:
  "ev_sound ev \<Longrightarrow> coherent v \<Longrightarrow> list_all wfA arms \<Longrightarrow> pred_option wfB els \<Longrightarrow> soundM flow_ok (execArms I ev v arms els)"
proof (induction arms)
  case (Cons a arms)
  obtain p vals b variant bind sl where a: "a = MatchArm p vals b variant bind sl" by (cases a)
  then have wf: "list_all wfE vals" "wfB b" using Cons.prems by (simp_all add: list.pred_map)
  show ?case unfolding a execArms.simps
    by (intro soundM_if soundM_option soundM_prod bind_bool sound_runPatternArm sound_armMatches sound_execBlock Cons wf)
      (use Cons.prems in simp_all)
qed (auto intro!: sound_intros)

lemma sound_execMatch [sound_intros]: "ev_sound ev \<Longrightarrow> wfS (MatchStmt p e arms els et) \<Longrightarrow> soundM flow_ok (execMatch I ev e arms els)"
  unfolding execMatch_def
  by (auto intro!: sound_intros sound_execArms simp: list.pred_map option.pred_map)

lemma loopFlow_ok: "flow_ok r \<Longrightarrow> pred_option flow_ok (loopFlow r)"
  by (cases r) (auto simp: loopFlow_def)

lemma sound_execWhile [sound_intros]: "ev_sound ev \<Longrightarrow> wfE c \<Longrightarrow> wfB b \<Longrightarrow> soundM flow_ok (execWhile ev c b)"
  unfolding execWhile_def by (auto intro!: sound_intros loopFlow_ok)

lemma loopFlow_Some: "flow_ok r \<Longrightarrow> loopFlow r = Some x \<Longrightarrow> flow_ok x"
  using loopFlow_ok [of r] by simp

lemma sound_execRepeat [sound_intros]: "ev_sound ev \<Longrightarrow> wfE c \<Longrightarrow> wfB b \<Longrightarrow> soundM flow_ok (execRepeat ev b c)"
  unfolding execRepeat_def by (auto intro!: sound_intros dest: loopFlow_Some)

lemma sound_optStmt [sound_intros]: "ev_sound ev \<Longrightarrow> pred_option wfS os \<Longrightarrow> soundM (\<lambda>_. True) (optStmt ev os)"
  unfolding optStmt_def by (auto intro!: sound_intros)

lemma sound_execFor [sound_intros]:
  assumes "ev_sound ev" "wfS (ForStmt p i c st b h)"
  shows "soundM flow_ok (execFor ev i c st b h)"
proof -
  have wf: "pred_option wfS i" "pred_option wfE c" "pred_option wfS st" "wfB b" using assms(2) by (simp_all add: option.pred_map)
  show ?thesis unfolding execFor_def using assms(1) wf
    by (intro soundM_scoped)
      (auto intro!: sound_intros keeps keep_evalBool [THEN exprM_stmtM] keep_execBlock [THEN exprM_stmtM] dest: loopFlow_Some ev_soundD(3))
qed

lemma sound_eachPass:
  "ev_sound ev \<Longrightarrow> wfB b \<Longrightarrow> sl \<ge> 0 \<Longrightarrow> coherent v \<Longrightarrow> wf_ty t \<Longrightarrow> holds v t \<Longrightarrow> soundM (pred_option flow_ok) (eachPass ev p b sl n t v)"
  unfolding eachPass_def
  by (auto intro!: bind_flow soundM_ret sound_boundFrame sound_define stmt_define loopFlow_ok)

lemma sound_execForEachRange:
  "ev_sound ev \<Longrightarrow> wfE lo \<Longrightarrow> wfE hi \<Longrightarrow> wfB b \<Longrightarrow> sl \<ge> 0 \<Longrightarrow> soundM flow_ok (execForEachRange ev p n q lo hi b sl)"
  unfolding execForEachRange_def
  by (auto intro!: soundM_bind [OF sound_rangeBounds] soundM_each sound_eachPass simp: holds_def stamped_def)

lemma sound_eachItems:
  assumes "ev_sound ev" "wfB b" "sl \<ge> 0" "coherent c"
  shows "soundM flow_ok (eachItems ev p n b sl c)"
  using assms unfolding eachItems_def
  by (auto intro!: soundM_each sound_eachPass soundM_fail DeepCopy_coherent
      simp: list_all_iff optTy_def holds_def shape_DeepCopy stamped_DeepCopy stamped_simple dest!: bspec split: Value.split option.splits)

lemma sound_execForEach [sound_intros]:
  "ev_sound ev \<Longrightarrow> wfS (ForEachStmt p n c b sl) \<Longrightarrow> soundM flow_ok (execForEach ev p n c b sl)"
  unfolding execForEach_def by (cases c) (auto intro!: sound_execForEachRange bind_value ev_soundD(1) sound_eachItems)

section \<open>Errors\<close>

lemma sound_execExit [sound_intros]: "ev_sound ev \<Longrightarrow> pred_option wfE e \<Longrightarrow> soundM flow_ok (execExit ev e)"
  unfolding execExit_def by (auto intro!: sound_intros split: Value.split)

lemma stampThrowSite_coherent: "coherent v \<Longrightarrow> coherent (stampThrowSite v p)"
  by (cases v) (auto simp: setFieldAt_def intro!: list_all_update split: option.splits)

lemma sound_execThrow [sound_intros]: "ev_sound ev \<Longrightarrow> wfE e \<Longrightarrow> soundM Q (execThrow ev p e)"
  unfolding execThrow_def by (auto intro!: sound_intros stampThrowSite_coherent DeepCopy_coherent)

lemma sound_execDefer [sound_intros]:
  assumes "ev_sound ev" "wfE c"
  shows "soundM (\<lambda>_. True) (execDefer ev c onErr)"
proof -
  have "list_all wfE (deferCallArgs c)" using assms(2) by (cases c) (simp_all add: list.pred_map)
  then have "soundM (list_all coherent) (mapM (\<lambda>a. bindM (evE ev a) (\<lambda>v. retM (DeepCopy v))) (deferCallArgs c))"
    using assms(1) by (auto intro!: sound_intros DeepCopy_coherent simp: list_all_iff)
  then show ?thesis unfolding execDefer_def using assms(2)
    by (auto intro!: bind_values sound_mod setDeferred_ok dest: topDeferred_ok simp: deferred_ok_def)
qed

lemma caughtValue_coherent: "caughtValue d e = Some v \<Longrightarrow> err_ok e \<Longrightarrow> coherent v"
  by (cases e) (auto simp: caughtValue_def runtimeErrorToValue_def)

lemma catchType_holds: "wf_ty (catchType v)" "holds (DeepCopy v) (catchType v)"
  by (cases v; simp add: catchType_def holds_def caughtError_def)+

lemma sound_execTry [sound_intros]:
  assumes "ev_sound ev" "wfS (TryStmt p b n cb cp sl)"
  shows "soundM flow_ok (execTry I ev b n cb cp sl)"
proof -
  have wf: "wfB b" "wfB cb" "sl \<ge> 0" using assms(2) by simp_all
  have "soundM flow_ok (framedM ev (NumSlots b) (execStmts ev (Stmts b)))"
    using assms(1) wf by (auto intro!: sound_framedM sound_execStmts keeps simp: wfB_Stmts dest: ev_soundD(3))
  then have "soundM (okR flow_ok) (attemptM (framedM ev (NumSlots b) (execStmts ev (Stmts b))))" by (rule soundM_attempt)
  then show ?thesis unfolding execTry_def using assms(1) wf
    by - (rule soundM_bind, assumption, intro soundM_sum soundM_option, auto intro!: soundM_ret soundM_fail sound_boundFrame sound_define stmt_define catchType_holds DeepCopy_coherent
        dest: caughtValue_coherent)
qed

section \<open>Runs\<close>

lemma sound_unitFlow [sound_intros]: "soundM (\<lambda>_. True) m \<Longrightarrow> soundM flow_ok (unitFlow m)"
  unfolding unitFlow_def by (auto intro!: sound_intros)

lemma sound_execStmt: "interp_ok I \<Longrightarrow> ev_sound ev \<Longrightarrow> wfS st \<Longrightarrow> soundM flow_ok (execStmt I ev st)"
  unfolding execStmt_def by (cases st) (auto intro!: sound_intros simp: option.pred_map)

lemma run_sound: "interp_ok I \<Longrightarrow> ev_sound (run I n)"
proof (induction n)
  case 0
  show ?case using run_keeps [of I 0] by (simp add: ev_sound_def soundM_outOfFuel)
next
  case (Suc n)
  then show ?case using run_keeps [of I "Suc n"] by (simp add: ev_sound_def sound_evalExpr sound_execStmt)
qed

lemma sound_runTopLevel: "ev_sound ev \<Longrightarrow> list_all wfS sts \<Longrightarrow> soundM (\<lambda>_. True) (runTopLevel ev sts)"
  unfolding runTopLevel_def by (auto intro!: bind_flow sound_finished sound_execStmts soundM_ret soundM_fail split: flow.split)

end
