(* ===== verification/Reference.thy ===== *)
theory Reference
  imports Fuel
begin

text \<open>
  A reference semantics of side-effect-free expressions (literals, variables, indexing, \<open>len\<close> and
  operators), which knows neither folded constants nor fast paths: operands from left to right,
  then the operator. The evaluator computes exactly this, with every annotation of the folder and
  every fast path of \<open>intfast.go\<close> in play, and leaves the state alone.
\<close>

section \<open>Reference semantics\<close>

fun pureExpr :: "expr \<Rightarrow> bool" where
  "pureExpr (IntLit _ _) \<longleftrightarrow> True"
| "pureExpr (FloatLit _ _) \<longleftrightarrow> True"
| "pureExpr (StringLit _ _) \<longleftrightarrow> True"
| "pureExpr (BoolLit _ _) \<longleftrightarrow> True"
| "pureExpr (NullLit _) \<longleftrightarrow> True"
| "pureExpr (VarExpr _ _ _ _ _) \<longleftrightarrow> True"
| "pureExpr (IndexExpr _ t i) \<longleftrightarrow> pureExpr t \<and> pureExpr i"
| "pureExpr (LenExpr _ e) \<longleftrightarrow> pureExpr e"
| "pureExpr (UnaryExpr _ _ e _) \<longleftrightarrow> pureExpr e"
| "pureExpr (BinaryExpr _ _ l r _) \<longleftrightarrow> pureExpr l \<and> pureExpr r"
| "pureExpr _ \<longleftrightarrow> False"

text \<open>Every folded constant is what the folder computes for its node.\<close>

fun wellFolded :: "expr \<Rightarrow> bool" where
  "wellFolded (IndexExpr _ t i) \<longleftrightarrow> wellFolded t \<and> wellFolded i"
| "wellFolded (LenExpr _ e) \<longleftrightarrow> wellFolded e"
| "wellFolded (UnaryExpr p op e f) \<longleftrightarrow> wellFolded e \<and> (f = None \<or> f = tryFoldUnary p op e)"
| "wellFolded (BinaryExpr p op l r f) \<longleftrightarrow> wellFolded l \<and> wellFolded r \<and> (f = None \<or> f = tryFoldBinary p op l r)"
| "wellFolded _ \<longleftrightarrow> True"

text \<open>Whether the left operand decides \<open>and\<close> or \<open>or\<close>.\<close>

definition decides :: "binop \<Rightarrow> Value \<Rightarrow> bool" where
  "decides op lv \<longleftrightarrow> IsLogical op \<and> (case lv of VBool a \<Rightarrow> a = (op = OpOr) | _ \<Rightarrow> True)"

fun refE :: "(nat \<Rightarrow> nat \<Rightarrow> bool) \<Rightarrow> displayer \<Rightarrow> env \<Rightarrow> expr \<Rightarrow> Value result" where
  "refE N d en (IntLit _ n) = Inr (VInt n)"
| "refE N d en (FloatLit _ f) = Inr (VFloat f)"
| "refE N d en (StringLit _ s) = Inr (VString s)"
| "refE N d en (BoolLit _ b) = Inr (VBool b)"
| "refE N d en (NullLit _) = Inr VNull"
| "refE N d en (VarExpr p n dp sl _) = (case (if sl \<ge> 0 then GetAt en dp sl n else Get en n) of
     Inl (m, args) \<Rightarrow> Inl (rtErr m args p)
   | Inr v \<Rightarrow> Inr v)"
| "refE N d en (IndexExpr p t i) = rbind (refE N d en t) (\<lambda>tv. rbind (refE N d en i) (\<lambda>iv. indexValue N d tv iv p))"
| "refE N d en (LenExpr p e) = rbind (refE N d en e) (\<lambda>v. lenValue v p)"
| "refE N d en (UnaryExpr p op e _) = rbind (refE N d en e) (\<lambda>v. unaryOp op v p)"
| "refE N d en (BinaryExpr p op l r _) = rbind (refE N d en l) (\<lambda>lv.
     if decides op lv then runtimeOp N op lv VNull p (exprPos l) (exprPos r)
     else rbind (refE N d en r) (\<lambda>rv. runtimeOp N op lv rv p (exprPos l) (exprPos r)))"
| "refE N d en e = Inl (rtMsg [] noPos)"

lemma decided: "decides op lv \<Longrightarrow> runtimeOp N op lv rv p pl pr = runtimeOp N op lv rv' p pl pr"
  by (cases lv) (auto simp: decides_def runtimeOp_def logicalOp_def IsLogical_def)

lemma refE_binary:
  "refE N d en l = Inr lv \<Longrightarrow> refE N d en r = Inr rv \<Longrightarrow>
    refE N d en (BinaryExpr p op l r f) = runtimeOp N op lv rv p (exprPos l) (exprPos r)"
  by (simp add: decided [of op lv N VNull p "exprPos l" "exprPos r" rv])

section \<open>Folding\<close>

lemma lit_ref: "litValue l = Some v \<Longrightarrow> refE N d en l = Inr v"
  by (cases l) auto

lemma folded_ref: "wellFolded e \<Longrightarrow> asLit e = Some l \<Longrightarrow> litValue l = Some v \<Longrightarrow> refE N d en e = Inr v"
proof (induction e arbitrary: l v rule: wellFolded.induct)
  case (3 p op e f)
  then obtain f' where f: "f = Some f'" "tryFoldUnary p op e = Some f'" by (auto split: option.splits)
  then obtain l' lv where l': "asLit e = Some l'" "litValue l' = Some lv"
    using asLit_is_lit by (fastforce simp: tryFoldUnary_def split: option.splits)
  from tryFoldUnary_sound [OF f(2) l'] obtain w where w: "litValue f' = Some w" "unaryOp op lv p = Inr w" by blast
  have "asLit f' = Some f'" using w(1) by (cases f') auto
  with 3 f l' w show ?case by auto
next
  case (4 p op l0 r0 f)
  then obtain f' where f: "f = Some f'" "tryFoldBinary p op l0 r0 = Some f'" by (auto split: option.splits)
  then obtain l' r' where lr: "asLit l0 = Some l'" "asLit r0 = Some r'" "foldLits p op l' r' = Some f'"
    by (auto simp: tryFoldBinary_def split: option.splits)
  then obtain lv rv where v: "litValue l' = Some lv" "litValue r' = Some rv" using asLit_is_lit by blast
  from foldLits_sound [OF lr(3) v, of N "exprPos l0" "exprPos r0"] obtain w
    where w: "litValue f' = Some w" "runtimeOp N op lv rv p (exprPos l0) (exprPos r0) = Inr w" by blast
  have "asLit f' = Some f'" using w(1) by (cases f') auto
  with 4 f w have "v = w" by simp
  moreover have "refE N d en l0 = Inr lv" "refE N d en r0 = Inr rv" using 4 lr v by auto
  ultimately show ?case using refE_binary w(2) by metis
qed (auto simp: lit_ref)

text \<open>A folded node is a literal, and its value is that of the node.\<close>

lemma folded_lit:
  "wellFolded (UnaryExpr p op e (Some f)) \<Longrightarrow>
    litValue f \<noteq> None \<and> refE N d en (UnaryExpr p op e (Some f)) = refE N d en f \<and> wellFolded f \<and> pureExpr f \<and> asLit f = Some f"
  "wellFolded (BinaryExpr p op' l r (Some f)) \<Longrightarrow>
    litValue f \<noteq> None \<and> refE N d en (BinaryExpr p op' l r (Some f)) = refE N d en f \<and> wellFolded f \<and> pureExpr f \<and> asLit f = Some f"
proof -
  have lit: "wellFolded g \<and> pureExpr g \<and> asLit g = Some g" if "litValue g = Some v" for g v using that by (cases g) auto
  have go: "litValue f \<noteq> None \<and> refE N d en e0 = refE N d en f \<and> wellFolded f \<and> pureExpr f \<and> asLit f = Some f"
    if e0: "wellFolded e0" "asLit e0 = asLit f" and f: "litValue f = Some v" for e0 v
    using folded_ref [OF e0(1), of f v] lit [OF f] e0(2) f lit_ref [OF f] by simp
  show "wellFolded (UnaryExpr p op e (Some f)) \<Longrightarrow> litValue f \<noteq> None \<and>
      refE N d en (UnaryExpr p op e (Some f)) = refE N d en f \<and> wellFolded f \<and> pureExpr f \<and> asLit f = Some f"
  proof (rule go)
    assume w: "wellFolded (UnaryExpr p op e (Some f))"
    then obtain l' lv where "tryFoldUnary p op e = Some f" "asLit e = Some l'" "litValue l' = Some lv"
      using asLit_is_lit by (fastforce simp: tryFoldUnary_def split: option.splits)
    from tryFoldUnary_sound [OF this] show "litValue f = Some (the (litValue f))" by auto
  qed (simp_all del: wellFolded.simps)
  show "wellFolded (BinaryExpr p op' l r (Some f)) \<Longrightarrow> litValue f \<noteq> None \<and>
      refE N d en (BinaryExpr p op' l r (Some f)) = refE N d en f \<and> wellFolded f \<and> pureExpr f \<and> asLit f = Some f"
  proof (rule go)
    assume w: "wellFolded (BinaryExpr p op' l r (Some f))"
    then have "tryFoldBinary p op' l r = Some f" by auto
    then obtain l' r' where lr: "asLit l = Some l'" "asLit r = Some r'" "foldLits p op' l' r' = Some f"
      by (auto simp: tryFoldBinary_def split: option.splits)
    then obtain lv rv where v: "litValue l' = Some lv" "litValue r' = Some rv" using asLit_is_lit by blast
    from foldLits_sound [OF lr(3) v, of N p p] show "litValue f = Some (the (litValue f))" by auto
  qed (simp_all del: wellFolded.simps)
qed

section \<open>Fast paths\<close>

lemma varValue_ref: "varValue d s en = Some v \<Longrightarrow> refE N D en (VarExpr p n d s m) = Inr v"
  using varValue_GetAt [of d s en v n] by simp

lemma intElement_index:
  "intElement par i = Some n \<Longrightarrow> \<not> i <s 0 \<Longrightarrow> indexValue N D par (VInt i) p = Inr (VInt n)"
  by (cases par)
    (auto simp: intElement_def indexValue_def readByteAt_def indexInto_def indexPos_def indexListPos_def childAt.simps
      split: if_splits Value.splits)

lemma runtimeOp_arith: "isIntArith op \<Longrightarrow> intArith op a b = Some n \<Longrightarrow> runtimeOp N op (VInt a) (VInt b) p pl pr = Inr (VInt n)"
  using intArith_general [of op a b n N p] by (cases op) (simp_all add: runtimeOp_def IsLogical_def)

lemma runtimeOp_compare: "intCompare op a b = Some r \<Longrightarrow> runtimeOp N op (VInt a) (VInt b) p pl pr = Inr (VBool r)"
  using intCompare_general [of op a b r N p] by (cases op) (simp_all add: runtimeOp_def IsLogical_def)

lemma intOperand_ref:
  "wellFolded e \<Longrightarrow> intOperand e en = Some n \<Longrightarrow> refE N D en e = Inr (VInt n)"
proof (induction e en arbitrary: n rule: intOperand.induct)
  case (2 p nm d s m e)
  then show ?case using varValue_ref [of d s e _ N D p nm m] by (auto split: option.splits Value.splits)
next
  case (3 p t i e)
  then obtain q nm d s m par k where "t = VarExpr q nm d s m" "varValue d s e = Some par" "intOperand i e = Some k"
      "\<not> k <s 0" "intElement par k = Some n"
    by (auto split: option.splits if_splits expr.splits)
  with 3 varValue_ref [of d s e par N D q nm m] show ?case by (auto simp: intElement_index)
next
  case (4 p op l r f e)
  from folded_lit(2) [OF 4(2), of N D e] 4(1) 4(3) show ?case by (simp only: intOperand.simps)
next
  case (5 p op l r e)
  then obtain a b where ab: "isIntArith op" "intOperand l e = Some a" "intOperand r e = Some b" "intArith op a b = Some n"
    by (auto split: if_splits option.splits)
  with 5 have "refE N D e l = Inr (VInt a)" "refE N D e r = Inr (VInt b)" by auto
  with refE_binary runtimeOp_arith [OF ab(1,4)] show ?case by metis
qed auto

lemma fastCondition_ref:
  "wellFolded e \<Longrightarrow> fastCondition e en = Some b \<Longrightarrow> refE N D en e = Inr (VBool b)"
proof (induction e en arbitrary: b rule: fastCondition.induct)
  case (2 p nm d s m e)
  then show ?case using varValue_ref [of d s e _ N D p nm m] by (auto split: option.splits Value.splits)
next
  case (3 p op x f e)
  from folded_lit(1) [OF 3(2), of N D e] 3(1) 3(3) show ?case by (simp only: fastCondition.simps)
next
  case (4 p op x e)
  then show ?case by (auto split: if_splits)
next
  case (5 p op l r f e)
  from folded_lit(2) [OF 5(2), of N D e] 5(1) 5(3) show ?case by (simp only: fastCondition.simps)
next
  case (6 p op l r e)
  show ?case
  proof (cases "op = OpAnd \<or> op = OpOr")
    case True
    with 6 obtain a where a: "fastCondition l e = Some a" "(if a = (op = OpOr) then Some a else fastCondition r e) = Some b"
      by (auto split: option.splits)
    with 6 True have "refE N D e l = Inr (VBool a)" "a \<noteq> (op = OpOr) \<Longrightarrow> refE N D e r = Inr (VBool b)" by auto
    with a True show ?thesis by (auto simp: decides_def runtimeOp_def logicalOp_def IsLogical_def split: if_splits)
  next
    case False
    with 6 obtain x y where xy: "IsComparison op" "intOperand l e = Some x" "intOperand r e = Some y" "intCompare op x y = Some b"
      by (auto split: option.splits if_splits)
    with 6 intOperand_ref have "refE N D e l = Inr (VInt x)" "refE N D e r = Inr (VInt y)" by auto
    with refE_binary runtimeOp_compare [OF xy(4)] show ?thesis by metis
  qed
qed auto

lemma fastBinary_ref:
  "wellFolded e \<Longrightarrow> fastBinary op e en = Some v \<Longrightarrow> refE N D en e = Inr v"
  by (auto simp: fastBinary_def fastCondition_ref intOperand_ref split: if_splits)

section \<open>The evaluator computes the reference\<close>

definition computes :: "'w interp \<Rightarrow> 'w evaluator \<Rightarrow> expr \<Rightarrow> bool" where
  "computes I ev e \<longleftrightarrow> (\<forall>s. evE ev e s = Some (refE (eqNative I) (disp I) (st_env s) e, s))"

lemma computes_deeper: "computes I ev e \<Longrightarrow> deeperM (evE ev e) s = Some (refE (eqNative I) (disp I) (st_env s) e, s)"
  by (simp add: deeperM_def computes_def)

lemmas run_defs = bindM_def getsM_def retM_def failM_def liftR_def

lemma logicalOperand_ref:
  assumes "computes I ev e" "wellFolded e"
  shows "logicalOperand ev e mm s = Some (rbind (refE (eqNative I) (disp I) (st_env s) e)
    (\<lambda>v. case v of VBool b \<Rightarrow> Inr b | _ \<Rightarrow> Inl (mm (Kind v))), s)"
proof (cases "fastCondition e (st_env s)")
  case None
  then show ?thesis
    by (cases "refE (eqNative I) (disp I) (st_env s) e")
      (auto simp: logicalOperand_def run_defs computes_deeper [OF assms(1)] split: Value.split)
next
  case (Some b)
  with fastCondition_ref [OF assms(2) Some] show ?thesis by (simp add: logicalOperand_def run_defs)
qed

lemma evalLogical_ref:
  assumes "computes I ev l" "computes I ev r" "wellFolded l" "wellFolded r" "IsLogical op"
  shows "evalLogical ev op l r s = Some (refE (eqNative I) (disp I) (st_env s) (BinaryExpr p op l r None), s)"
proof (cases "refE (eqNative I) (disp I) (st_env s) l")
  case (Inl e)
  then show ?thesis by (simp add: evalLogical_def run_defs logicalOperand_ref [OF assms(1,3)])
next
  case (Inr lv)
  then show ?thesis using assms(5)
    by (cases lv; cases "refE (eqNative I) (disp I) (st_env s) r")
      (auto simp: evalLogical_def run_defs logicalOperand_ref [OF assms(1,3)] logicalOperand_ref [OF assms(2,4)]
        decides_def runtimeOp_def logicalOp_def IsLogical_def split: Value.split)
qed

lemma evalBinary_ref:
  assumes "computes I ev l" "computes I ev r" "wellFolded (BinaryExpr p op l r f)"
    "\<And>g. f = Some g \<Longrightarrow> computes I ev g"
  shows "evalBinary I ev p op l r f s = Some (refE (eqNative I) (disp I) (st_env s) (BinaryExpr p op l r f), s)"
proof (cases f)
  case (Some g)
  with folded_lit(2) [of p op l r g "eqNative I" "disp I" "st_env s"] assms(3) assms(4) [OF Some]
  show ?thesis by (simp add: evalBinary_def computes_def del: wellFolded.simps refE.simps)
next
  case None
  let ?e = "BinaryExpr p op l r None"
  have w: "wellFolded ?e" "wellFolded l" "wellFolded r" using assms(3) by simp_all
  show ?thesis
  proof (cases "fastBinary op ?e (st_env s)")
    case (Some v)
    with fastBinary_ref [OF w(1) Some] None show ?thesis by (simp add: evalBinary_def run_defs del: refE.simps)
  next
    case slow: None
    show ?thesis
    proof (cases "IsLogical op")
      case True
      with evalLogical_ref [OF assms(1,2) w(2,3) True, of s p] slow None show ?thesis
        by (simp add: evalBinary_def run_defs del: refE.simps)
    next
      case False
      then have "\<not> decides op lv" for lv by (simp add: decides_def)
      with False slow None show ?thesis
        by (cases "refE (eqNative I) (disp I) (st_env s) l"; cases "refE (eqNative I) (disp I) (st_env s) r")
          (simp_all add: evalBinary_def run_defs computes_deeper [OF assms(1)] computes_deeper [OF assms(2)] runtimeOp_def)
    qed
  qed
qed

lemma evalUnary_ref:
  assumes "computes I ev x" "wellFolded (UnaryExpr p op x f)" "\<And>g. f = Some g \<Longrightarrow> computes I ev g"
  shows "evalUnary ev p op x f s = Some (refE (eqNative I) (disp I) (st_env s) (UnaryExpr p op x f), s)"
proof (cases f)
  case (Some g)
  with folded_lit(1) [of p op x g "eqNative I" "disp I" "st_env s"] assms(2) assms(3) [OF Some]
  show ?thesis by (simp add: evalUnary_def computes_def del: wellFolded.simps refE.simps)
next
  case None
  then show ?thesis
    by (cases "refE (eqNative I) (disp I) (st_env s) x") (simp_all add: evalUnary_def run_defs computes_deeper [OF assms(1)])
qed

lemma computes_lit: "litValue f \<noteq> None \<Longrightarrow> 0 < n \<Longrightarrow> computes I (run I n) f"
  by (cases n; cases f) (auto simp: computes_def evalExpr_def retM_def)

lemma run_computes: "pureExpr e \<Longrightarrow> wellFolded e \<Longrightarrow> size e < n \<Longrightarrow> computes I (run I n) e"
proof (induction e arbitrary: n rule: pureExpr.induct)
  case (6 p nm d sl m)
  then show ?case
    by (cases n) (auto simp: computes_def evalExpr_def evalVar_def lookupM_def split: sum.splits prod.splits)
next
  case (7 p t i)
  then obtain m where m: "n = Suc m" by (cases n) auto
  have "computes I (run I m) t" "computes I (run I m) i" using 7 m by auto
  then show ?case unfolding computes_def m
    by (auto simp: evalExpr_def evalIndex_def run_defs split: sum.splits)
next
  case (8 p x)
  then obtain m where m: "n = Suc m" by (cases n) auto
  have "computes I (run I m) x" using 8 m by auto
  then show ?case unfolding computes_def m
    by (auto simp: evalExpr_def evalLen_def run_defs split: sum.splits)
next
  case (9 p op x f)
  then obtain m where m: "n = Suc m" by (cases n) auto
  have "computes I (run I m) x" using 9 m by auto
  moreover have "computes I (run I m) g" if "f = Some g" for g
    using 9 m that folded_lit(1) [of p op x g] computes_lit [of g m I] by auto
  ultimately show ?case using evalUnary_ref [of I "run I m" x p op f] 9(3) by (simp add: computes_def m evalExpr_def del: refE.simps)
next
  case (10 p op l r f)
  then obtain m where m: "n = Suc m" by (cases n) auto
  have "computes I (run I m) l" "computes I (run I m) r" using 10 m by auto
  moreover have "computes I (run I m) g" if "f = Some g" for g
    using 10 m that folded_lit(2) [of p op l r g] computes_lit [of g m I] by auto
  ultimately show ?case using evalBinary_ref [of I "run I m" l r p op f] 10(4)
    by (simp add: computes_def m evalExpr_def del: refE.simps)
qed (auto intro!: computes_lit)

end
