(* ===== verification/Load.thy ===== *)
theory Load
  imports Fuel "HOL-Library.List_Lexorder" "HOL-Library.Char_ord"
begin

text \<open>
  Loading a program (\<open>Run\<close> of \<open>internal/interpreter/interpreter.go\<close>, up to its first statement): no \<open>export\<close> in
  a script, structs, enums and functions hoisted without duplicates or shadowing, and no struct or
  enum that contains itself by value. The two cycle checks are depth-first searches over a colour
  map; the generic search below carries their proofs. What they buy is that the zero value of every
  declared type exists.
\<close>

section \<open>Depth-first search\<close>

datatype color = White | Gray | Black

fun dfsVisit :: "('n \<Rightarrow> 'n list) \<Rightarrow> nat \<Rightarrow> 'n \<Rightarrow> ('n \<Rightarrow> color) \<Rightarrow> (unit + ('n \<Rightarrow> color)) option" and
  dfsAll :: "('n \<Rightarrow> 'n list) \<Rightarrow> nat \<Rightarrow> 'n list \<Rightarrow> ('n \<Rightarrow> color) \<Rightarrow> (unit + ('n \<Rightarrow> color)) option" where
  "dfsVisit su 0 n c = (case c n of Gray \<Rightarrow> Some (Inl ()) | Black \<Rightarrow> Some (Inr c) | White \<Rightarrow> None)"
| "dfsVisit su (Suc k) n c = (case c n of
     Gray \<Rightarrow> Some (Inl ())
   | Black \<Rightarrow> Some (Inr c)
   | White \<Rightarrow> (case dfsAll su k (su n) (c(n := Gray)) of
        Some (Inr c') \<Rightarrow> Some (Inr (c'(n := Black)))
      | r \<Rightarrow> r))"
| "dfsAll su k [] c = Some (Inr c)"
| "dfsAll su k (n # ns) c = (case dfsVisit su k n c of
     Some (Inr c') \<Rightarrow> dfsAll su k ns c'
   | r \<Rightarrow> r)"

text \<open>\<open>x\<close> depends on \<open>y\<close>.\<close>

definition edges :: "('n \<Rightarrow> 'n list) \<Rightarrow> ('n \<times> 'n) set" where
  "edges su = {(x, y). y \<in> set (su x)}"

lemma dfs_keeps:
  "dfsVisit su k n c = Some (Inr c') \<Longrightarrow> (\<forall>x. c x = Black \<longrightarrow> c' x = Black) \<and> (\<forall>x. c' x = Gray \<longleftrightarrow> c x = Gray) \<and> c' n = Black"
  "dfsAll su k ns c = Some (Inr c') \<Longrightarrow> (\<forall>x. c x = Black \<longrightarrow> c' x = Black) \<and> (\<forall>x. c' x = Gray \<longleftrightarrow> c x = Gray) \<and> (\<forall>n \<in> set ns. c' n = Black)"
proof (induction su k n c and su k ns c arbitrary: c' and c' rule: dfsVisit_dfsAll.induct)
  case (2 su k n c)
  show ?case
  proof (cases "c n")
    case White
    with 2(2) obtain c1 where c1: "dfsAll su k (su n) (c(n := Gray)) = Some (Inr c1)" "c' = c1(n := Black)"
      by (auto split: option.splits sum.splits)
    from 2(1) [OF White c1(1)] White show ?thesis by (auto simp: c1(2) split: if_splits)
  qed (use 2(2) in auto)
next
  case (4 su k n ns c)
  from 4(3) obtain c1 where c1: "dfsVisit su k n c = Some (Inr c1)" "dfsAll su k ns c1 = Some (Inr c')"
    by (auto split: option.splits sum.splits)
  from 4(1) [OF c1(1)] 4(2) [OF c1(1) refl c1(2)] show ?case by auto
qed (auto split: color.splits)

text \<open>Black nodes depend on no cycle.\<close>

abbreviation grounded :: "('n \<Rightarrow> 'n list) \<Rightarrow> 'n set" where
  "grounded su \<equiv> Wellfounded.acc ((edges su)\<inverse>)"

lemma groundedI: "(\<And>y. y \<in> set (su x) \<Longrightarrow> y \<in> grounded su) \<Longrightarrow> x \<in> grounded su"
  by (rule accI) (simp add: edges_def)

lemma dfs_grounded:
  "dfsVisit su k n c = Some (Inr c') \<Longrightarrow> (\<forall>x. c x = Black \<longrightarrow> x \<in> grounded su) \<Longrightarrow> c' x = Black \<Longrightarrow> x \<in> grounded su"
  "dfsAll su k ns c = Some (Inr c') \<Longrightarrow> (\<forall>x. c x = Black \<longrightarrow> x \<in> grounded su) \<Longrightarrow> c' x = Black \<Longrightarrow> x \<in> grounded su"
proof (induction su k n c and su k ns c arbitrary: c' x and c' x rule: dfsVisit_dfsAll.induct)
  case (2 su k n c)
  show ?case
  proof (cases "c n")
    case White
    with 2(2) obtain c1 where c1: "dfsAll su k (su n) (c(n := Gray)) = Some (Inr c1)" "c' = c1(n := Black)"
      by (auto split: option.splits sum.splits)
    have "\<forall>x. (c(n := Gray)) x = Black \<longrightarrow> x \<in> grounded su" using 2(3) by (simp only: fun_upd_apply color.distinct split: if_split) blast
    note IH = 2(1) [OF White c1(1) this]
    have "y \<in> grounded su" if "y \<in> set (su n)" for y using dfs_keeps(2) [OF c1(1)] that IH by blast
    then have "n \<in> grounded su" by (rule groundedI)
    with IH 2(4) show ?thesis by (auto simp: c1(2) split: if_splits)
  qed (use 2(2-) in auto)
next
  case (4 su k n ns c)
  from 4(3) obtain c1 where c1: "dfsVisit su k n c = Some (Inr c1)" "dfsAll su k ns c1 = Some (Inr c')"
    by (auto split: option.splits sum.splits)
  have "\<forall>x. c1 x = Black \<longrightarrow> x \<in> grounded su" using 4(1) [OF c1(1) 4(4)] by auto
  from 4(2) [OF c1(1) refl c1(2) this 4(5)] show ?case .
qed (auto split: color.splits)

text \<open>A search that is refused has found a cycle: the gray nodes lead to where it stands.\<close>

lemma dfs_cycle:
  "dfsVisit su k n c = Some (Inl u) \<Longrightarrow> (\<forall>g. c g = Gray \<longrightarrow> (g, n) \<in> (edges su)\<^sup>+) \<Longrightarrow> \<exists>x. (x, x) \<in> (edges su)\<^sup>+"
  "dfsAll su k ns c = Some (Inl u) \<Longrightarrow> (\<forall>n \<in> set ns. \<forall>g. c g = Gray \<longrightarrow> (g, n) \<in> (edges su)\<^sup>+) \<Longrightarrow> \<exists>x. (x, x) \<in> (edges su)\<^sup>+"
proof (induction su k n c and su k ns c rule: dfsVisit_dfsAll.induct)
  case (2 su k n c)
  show ?case
  proof (cases "c n")
    case White
    with 2(2) have "dfsAll su k (su n) (c(n := Gray)) = Some (Inl u)" by (auto split: option.splits sum.splits)
    moreover have "\<forall>m \<in> set (su n). \<forall>g. (c(n := Gray)) g = Gray \<longrightarrow> (g, m) \<in> (edges su)\<^sup>+"
    proof (intro ballI allI impI)
      fix m g
      assume m: "m \<in> set (su n)" and g: "(c(n := Gray)) g = Gray"
      have e: "(n, m) \<in> edges su" using m by (simp add: edges_def)
      from g 2(3) have "g = n \<or> (g, n) \<in> (edges su)\<^sup>+" by (auto split: if_splits)
      with e show "(g, m) \<in> (edges su)\<^sup>+" by (auto intro: trancl_into_trancl)
    qed
    ultimately show ?thesis by (rule 2(1) [OF White])
  qed (use 2(2-) in auto)
next
  case (4 su k n ns c)
  show ?case
  proof (cases "dfsVisit su k n c")
    case (Some r)
    show ?thesis
    proof (cases r)
      case (Inr c1)
      with 4(3) Some have "dfsAll su k ns c1 = Some (Inl u)" by simp
      with 4(2) [of "Inr c1" c1] Some Inr dfs_keeps(1) [of su k n c c1] 4(4) show ?thesis by auto
    qed (use 4 Some in auto)
  qed (use 4 in auto)
qed (auto split: color.splits)

text \<open>The fuel is enough when it exceeds the number of nodes still white.\<close>

definition whites :: "'n set \<Rightarrow> ('n \<Rightarrow> color) \<Rightarrow> 'n set" where
  "whites D c = {x \<in> D. c x = White}"

lemma whites_keeps:
  fixes c :: "'n \<Rightarrow> color"
  shows "dfsVisit su k n c = Some (Inr c') \<Longrightarrow> whites D c' \<subseteq> whites D c"
    "dfsAll su k ns c = Some (Inr c') \<Longrightarrow> whites D c' \<subseteq> whites D c"
proof -
  have "whites D c' \<subseteq> whites D c" if "\<forall>x. c x = Black \<longrightarrow> c' x = Black" "\<forall>x. c' x = Gray \<longleftrightarrow> c x = Gray" for c' :: "'n \<Rightarrow> color"
  proof
    fix x
    assume "x \<in> whites D c'"
    then have "x \<in> D" "c' x = White" by (simp_all add: whites_def)
    moreover have "c x \<noteq> Gray" "c x \<noteq> Black" using that \<open>c' x = White\<close> by (metis color.distinct(1,3))+
    ultimately show "x \<in> whites D c" by (cases "c x") (simp_all add: whites_def)
  qed
  then show "dfsVisit su k n c = Some (Inr c') \<Longrightarrow> whites D c' \<subseteq> whites D c" "dfsAll su k ns c = Some (Inr c') \<Longrightarrow> whites D c' \<subseteq> whites D c"
    using dfs_keeps(1) [of su k n c c'] dfs_keeps(2) [of su k ns c c'] by simp_all
qed

lemma dfs_fuel:
  "finite D \<Longrightarrow> (\<forall>x \<in> D. set (su x) \<subseteq> D) \<Longrightarrow> n \<in> D \<Longrightarrow> card (whites D c) < k \<Longrightarrow> dfsVisit su k n c \<noteq> None"
  "finite D \<Longrightarrow> (\<forall>x \<in> D. set (su x) \<subseteq> D) \<Longrightarrow> set ns \<subseteq> D \<Longrightarrow> card (whites D c) < k \<Longrightarrow> dfsAll su k ns c \<noteq> None"
proof (induction su k n c and su k ns c rule: dfsVisit_dfsAll.induct)
  case (2 su k n c)
  show ?case
  proof (cases "c n")
    case White
    have "whites D c = insert n (whites D (c(n := Gray)))" "n \<notin> whites D (c(n := Gray))" using White 2(4) by (auto simp: whites_def)
    moreover have "finite (whites D (c(n := Gray)))" using 2(2) by (simp add: whites_def)
    ultimately have "card (whites D (c(n := Gray))) < k" using 2(5) by simp
    from 2(1) [OF White 2(2,3) _ this] 2(3,4) have "dfsAll su k (su n) (c(n := Gray)) \<noteq> None" by blast
    then obtain r where "dfsAll su k (su n) (c(n := Gray)) = Some r" by blast
    with White show ?thesis by (cases r) simp_all
  qed auto
next
  case (4 su k n ns c)
  then obtain r where r: "dfsVisit su k n c = Some r" by auto
  show ?case
  proof (cases r)
    case (Inr c1)
    have "card (whites D c1) \<le> card (whites D c)"
      using whites_keeps(1) [of su k n c c1 D] r Inr 4(3) by (intro card_mono) (auto simp: whites_def)
    with 4(2) [of r c1] r Inr 4(3-6) show ?thesis by auto
  qed (use r in simp)
qed auto

text \<open>A search from every node decides whether there is a cycle.\<close>

lemma dfs_decides:
  assumes D: "finite D" "\<forall>x \<in> D. set (su x) \<subseteq> D" "\<forall>x. x \<notin> D \<longrightarrow> su x = []" "set ns = D" and k: "card D < k"
  shows "dfsAll su k ns (\<lambda>_. White) = Some (Inl ()) \<and> \<not> acyclic (edges su) \<or>
    (\<exists>c. dfsAll su k ns (\<lambda>_. White) = Some (Inr c)) \<and> acyclic (edges su) \<and> (\<forall>x. x \<in> grounded su)"
proof -
  have "whites D (\<lambda>_. White) = D" by (auto simp: whites_def)
  then obtain r where r: "dfsAll su k ns (\<lambda>_. White) = Some r" using dfs_fuel(2) [OF D(1,2), of ns "\<lambda>_. White" k] D(4) k by auto
  show ?thesis
  proof (cases r)
    case (Inl u)
    then show ?thesis using dfs_cycle(2) [of su k ns "\<lambda>_. White" u] r by (auto simp: acyclic_def)
  next
    case (Inr c)
    have "x \<in> grounded su" if "x \<in> D" for x
      using dfs_grounded(2) [of su k ns "\<lambda>_. White" c x] dfs_keeps(2) [of su k ns "\<lambda>_. White" c] r Inr that D(4) by auto
    moreover have "x \<in> grounded su" if "x \<notin> D" for x using D(3) that by - (rule groundedI, simp)
    ultimately have g: "\<forall>x. x \<in> grounded su" by blast
    then have "wf ((edges su)\<inverse>)" by (simp add: acc_wfI)
    then have "acyclic ((edges su)\<inverse>)" by (rule wf_acyclic)
    then have "acyclic (edges su)" by simp
    with g r Inr show ?thesis by auto
  qed
qed

section \<open>Structs that contain themselves\<close>

text \<open>A field whose type is a struct of the program itself is stored by value.\<close>

definition byValue :: "ty \<Rightarrow> string option" where
  "byValue t = (case t of TypeStruct n ns mp \<Rightarrow> if ns \<noteq> [] \<or> mp \<noteq> [] then None else Some n | _ \<Rightarrow> None)"

definition structCycleError :: "string \<Rightarrow> structField \<Rightarrow> string \<Rightarrow> err" where
  "structCycleError name f t = rtErr ''struct %q cannot contain itself by value (field %q is %q); a by-value struct cycle has no finite zero value - use `list of %s` (or a `map`) for recursive data''
     [AStr name, AStr (fName f), AStr t, AStr t] (fPos f)"

fun visitStruct :: "(string \<Rightarrow> structDef option) \<Rightarrow> nat \<Rightarrow> string \<Rightarrow> (string \<Rightarrow> color) \<Rightarrow> (string \<Rightarrow> color) result option" and
  visitFields :: "(string \<Rightarrow> structDef option) \<Rightarrow> nat \<Rightarrow> string \<Rightarrow> structField list \<Rightarrow> (string \<Rightarrow> color) \<Rightarrow> (string \<Rightarrow> color) result option" where
  "visitStruct S 0 name color = (case S name of None \<Rightarrow> Some (Inr color) | Some _ \<Rightarrow> None)"
| "visitStruct S (Suc k) name color = (case S name of
     None \<Rightarrow> Some (Inr color)
   | Some def \<Rightarrow> (case visitFields S k name (sFields def) (color(name := Gray)) of
        Some (Inr color') \<Rightarrow> Some (Inr (color'(name := Black)))
      | r \<Rightarrow> r))"
| "visitFields S k name [] color = Some (Inr color)"
| "visitFields S k name (f # fs) color = (case byValue (fType f) of
     None \<Rightarrow> visitFields S k name fs color
   | Some t \<Rightarrow> (case color t of
        Gray \<Rightarrow> Some (Inl (structCycleError name f t))
      | White \<Rightarrow> (case visitStruct S k t color of
           Some (Inr color') \<Rightarrow> visitFields S k name fs color'
         | r \<Rightarrow> r)
      | Black \<Rightarrow> visitFields S k name fs color))"

text \<open>The loop over the sorted names.\<close>

fun visitNames :: "(string \<Rightarrow> structDef option) \<Rightarrow> nat \<Rightarrow> string list \<Rightarrow> (string \<Rightarrow> color) \<Rightarrow> (string \<Rightarrow> color) result option" where
  "visitNames S k [] color = Some (Inr color)"
| "visitNames S k (n # ns) color =
     (if color n = White then
        (case visitStruct S k n color of
           Some (Inr color') \<Rightarrow> visitNames S k ns color'
         | r \<Rightarrow> r)
      else visitNames S k ns color)"

definition checkStructCycles :: "(string \<Rightarrow> structDef option) \<Rightarrow> string list \<Rightarrow> unit result option" where
  "checkStructCycles S names = map_option (map_sum id (\<lambda>_. ())) (visitNames S (Suc (length names)) (sort names) (\<lambda>_. White))"

text \<open>It is the generic search over the by-value fields.\<close>

definition structDeps :: "(string \<Rightarrow> structDef option) \<Rightarrow> string \<Rightarrow> string list" where
  "structDeps S name = (case S name of
     None \<Rightarrow> []
   | Some def \<Rightarrow> filter (\<lambda>t. S t \<noteq> None) (List.map_filter (\<lambda>f. byValue (fType f)) (sFields def)))"

definition plain :: "'c result option \<Rightarrow> (unit + 'c) option" where
  "plain r = map_option (map_sum (\<lambda>_. ()) id) r"

lemma plain_simps [simp]: "plain None = None" "plain (Some (Inl e)) = Some (Inl ())" "plain (Some (Inr x)) = Some (Inr x)"
  by (simp_all add: plain_def)

lemma plain_cases: "plain (case r of Some (Inr x) \<Rightarrow> f x | y \<Rightarrow> y) = (case plain r of Some (Inr x) \<Rightarrow> plain (f x) | y \<Rightarrow> y)"
  by (auto split: option.split sum.split)

definition offMap :: "(string \<Rightarrow> structDef option) \<Rightarrow> (string \<Rightarrow> color) \<Rightarrow> bool" where
  "offMap S c \<longleftrightarrow> (\<forall>t. S t = None \<longrightarrow> c t = White)"

lemma offMap_kept:
  "visitStruct S k n c = Some (Inr c') \<Longrightarrow> offMap S c \<Longrightarrow> offMap S c'"
  "visitFields S k n fs c = Some (Inr c') \<Longrightarrow> offMap S c \<Longrightarrow> offMap S c'"
proof (induction S k n c and S k n fs c arbitrary: c' and c' rule: visitStruct_visitFields.induct)
  case (2 S k n c)
  then show ?case by (fastforce simp: offMap_def split: option.splits sum.splits)
next
  case (4 S k n f fs c)
  then show ?case by (auto split: option.splits color.splits sum.splits)
qed (auto split: option.splits)

lemma visitStruct_dfs:
  "offMap S c \<Longrightarrow> S n \<noteq> None \<Longrightarrow> c n = White \<Longrightarrow> plain (visitStruct S k n c) = dfsVisit (structDeps S) k n c"
  "offMap S c \<Longrightarrow> plain (visitFields S k n fs c) =
     dfsAll (structDeps S) k (filter (\<lambda>t. S t \<noteq> None) (List.map_filter (\<lambda>f. byValue (fType f)) fs)) c"
proof (induction S k n c and S k n fs c rule: visitStruct_visitFields.induct)
  case (2 S k n c)
  then obtain def where def: "S n = Some def" by blast
  have "offMap S (c(n := Gray))" using 2(2) def by (simp add: offMap_def)
  note IH = 2(1) [OF def this]
  have d: "structDeps S n = filter (\<lambda>t. S t \<noteq> None) (List.map_filter (\<lambda>f. byValue (fType f)) (sFields def))"
    by (simp add: structDeps_def def)
  show ?case
    unfolding visitStruct.simps dfsVisit.simps def 2(4) option.case color.case d IH [symmetric] plain_cases
    by (auto split: option.split sum.split)
next
  case (4 S k n f fs c)
  show ?case
  proof (cases "byValue (fType f)")
    case None
    with 4(1) [OF None 4(5)] show ?thesis by (simp add: map_filter_simps)
  next
    case (Some t)
    show ?thesis
    proof (cases "S t")
      case None
      then have "c t = White" "visitStruct S k t c = Some (Inr c)" using 4(5) by (cases k; simp add: offMap_def)+
      with 4(3) [OF Some \<open>c t = White\<close>, of "Inr c" c] 4(5) Some None show ?thesis by (simp add: map_filter_simps)
    next
      case (Some d)
      note t = \<open>byValue (fType f) = Some t\<close>
      show ?thesis
      proof (cases "c t")
        case White
        have v: "plain (visitStruct S k t c) = dfsVisit (structDeps S) k t c" using 4(2) [OF t White 4(5)] Some White by simp
        show ?thesis
        proof (cases "visitStruct S k t c")
          case (Some r)
          show ?thesis
          proof (cases r)
            case (Inl e)
            then have "dfsVisit (structDeps S) k t c = Some (Inl ())" using v Some by simp
            then show ?thesis using Some Inl t White \<open>S t = Some d\<close> by (simp add: map_filter_simps)
          next
            case (Inr c1)
            then have "dfsVisit (structDeps S) k t c = Some (Inr c1)" using v Some by simp
            then show ?thesis
              using 4(3) [OF t White Some Inr] offMap_kept(1) [of S k t c c1] 4(5) Some Inr t White \<open>S t = Some d\<close>
              by (simp add: map_filter_simps)
          qed
        next
          case None
          then have "dfsVisit (structDeps S) k t c = None" using v by simp
          then show ?thesis using None t White \<open>S t = Some d\<close> by (simp add: map_filter_simps)
        qed
      next
        case Gray
        then have "dfsVisit (structDeps S) k t c = Some (Inl ())" by (cases k) simp_all
        with Gray t Some show ?thesis by (simp add: map_filter_simps)
      next
        case Black
        then have "dfsVisit (structDeps S) k t c = Some (Inr c)" by (cases k) simp_all
        with Black t Some 4(4) [OF t Black 4(5)] show ?thesis by (simp add: map_filter_simps)
      qed
    qed
  qed
qed (auto simp: map_filter_simps split: option.splits)

lemma visitNames_dfs:
  "offMap S c \<Longrightarrow> \<forall>x. c x \<noteq> Gray \<Longrightarrow> \<forall>n \<in> set ns. S n \<noteq> None \<Longrightarrow> plain (visitNames S k ns c) = dfsAll (structDeps S) k ns c"
proof (induction ns arbitrary: c)
  case (Cons n ns)
  show ?case
  proof (cases "c n")
    case White
    have v: "plain (visitStruct S k n c) = dfsVisit (structDeps S) k n c" using visitStruct_dfs(1) [OF Cons.prems(1) _ White] Cons.prems(3) by simp
    have "plain (visitNames S k ns c1) = dfsAll (structDeps S) k ns c1" if "visitStruct S k n c = Some (Inr c1)" for c1
      using Cons.IH [OF offMap_kept(1) [OF that Cons.prems(1)]] dfs_keeps(1) [of "structDeps S" k n c c1] v that Cons.prems by simp
    note IH = this
    show ?thesis
    proof (cases "visitStruct S k n c")
      case (Some r)
      with v have "dfsVisit (structDeps S) k n c = plain (Some r)" by simp
      with White Some IH show ?thesis by (cases r) simp_all
    qed (use White v in simp)
  next
    case Gray
    then show ?thesis using Cons.prems(2) by simp
  next
    case Black
    then have "dfsVisit (structDeps S) k n c = Some (Inr c)" by (cases k) simp_all
    with Black Cons show ?thesis by simp
  qed
qed simp

lemma structDeps_dom: "set (structDeps S x) \<subseteq> dom S" "x \<notin> dom S \<Longrightarrow> structDeps S x = []"
  unfolding structDeps_def by (cases "S x"; auto)+

text \<open>The check always decides, and refuses exactly the programs in which some struct contains itself by
  value.\<close>

lemma checkStructCycles_decides:
  assumes "set names = dom S"
  shows "(\<exists>e. checkStructCycles S names = Some (Inl e)) \<and> \<not> acyclic (edges (structDeps S)) \<or>
    checkStructCycles S names = Some (Inr ()) \<and> acyclic (edges (structDeps S)) \<and> (\<forall>x. x \<in> grounded (structDeps S))"
proof -
  let ?r = "visitNames S (Suc (length names)) (sort names) (\<lambda>_. White)"
  have f: "finite (dom S)" unfolding assms [symmetric] by simp
  have n: "card (dom S) < Suc (length names)" unfolding assms [symmetric] using card_length [of names] by simp
  have d: "plain ?r = dfsAll (structDeps S) (Suc (length names)) (sort names) (\<lambda>_. White)"
    using assms by (intro visitNames_dfs) (auto simp: offMap_def)
  have c: "checkStructCycles S names = map_option (map_sum id (\<lambda>_. ())) ?r" by (simp add: checkStructCycles_def)
  have "\<forall>x \<in> dom S. set (structDeps S x) \<subseteq> dom S" "\<forall>x. x \<notin> dom S \<longrightarrow> structDeps S x = []" "set (sort names) = dom S"
    using structDeps_dom [where S = S] assms by simp_all
  from dfs_decides [OF f this n] show ?thesis unfolding d [symmetric] c
    by (cases ?r; cases "the ?r") auto
qed

section \<open>Enums whose zero contains themselves\<close>

datatype zeroNode = ZEnum string | ZStruct string

definition localNamedDep :: "(string \<Rightarrow> structDef option) \<Rightarrow> (string \<Rightarrow> enumDef option) \<Rightarrow> ty \<Rightarrow> zeroNode option" where
  "localNamedDep S E t = (case byValue t of
     None \<Rightarrow> None
   | Some n \<Rightarrow> if E n \<noteq> None then Some (ZEnum n) else if S n \<noteq> None then Some (ZStruct n) else None)"

text \<open>An enum's zero uses only its first variant, a struct's all its fields.\<close>

definition zeroFields :: "(string \<Rightarrow> structDef option) \<Rightarrow> (string \<Rightarrow> enumDef option) \<Rightarrow> zeroNode \<Rightarrow> structField list" where
  "zeroFields S E x = (case x of
     ZEnum n \<Rightarrow> (case E n of Some ed \<Rightarrow> (case edVariants ed of v # _ \<Rightarrow> evFields v | [] \<Rightarrow> []) | None \<Rightarrow> [])
   | ZStruct n \<Rightarrow> (case S n of Some sd \<Rightarrow> sFields sd | None \<Rightarrow> []))"

definition enumCycleError :: "(string \<Rightarrow> enumDef option) \<Rightarrow> string \<Rightarrow> err" where
  "enumCycleError E rootEnum = rtErr ''enum %q has no finite zero value: its first variant recurses into itself by value; put a payload-less (or non-recursive) variant first, or recurse through a `list` / `map` field''
     [AStr rootEnum] (case E rootEnum of Some ed \<Rightarrow> edPos ed | None \<Rightarrow> noPos)"

fun visitZero :: "(string \<Rightarrow> structDef option) \<Rightarrow> (string \<Rightarrow> enumDef option) \<Rightarrow> nat \<Rightarrow> string \<Rightarrow> zeroNode \<Rightarrow> (zeroNode \<Rightarrow> color) \<Rightarrow> (zeroNode \<Rightarrow> color) result option" and
  visitDeps :: "(string \<Rightarrow> structDef option) \<Rightarrow> (string \<Rightarrow> enumDef option) \<Rightarrow> nat \<Rightarrow> string \<Rightarrow> structField list \<Rightarrow> (zeroNode \<Rightarrow> color) \<Rightarrow> (zeroNode \<Rightarrow> color) result option" where
  "visitZero S E 0 rootEnum x color = (case color x of Gray \<Rightarrow> Some (Inl (enumCycleError E rootEnum)) | Black \<Rightarrow> Some (Inr color) | White \<Rightarrow> None)"
| "visitZero S E (Suc k) rootEnum x color = (case color x of
     Gray \<Rightarrow> Some (Inl (enumCycleError E rootEnum))
   | Black \<Rightarrow> Some (Inr color)
   | White \<Rightarrow> (case visitDeps S E k rootEnum (zeroFields S E x) (color(x := Gray)) of
        Some (Inr color') \<Rightarrow> Some (Inr (color'(x := Black)))
      | r \<Rightarrow> r))"
| "visitDeps S E k rootEnum [] color = Some (Inr color)"
| "visitDeps S E k rootEnum (f # fs) color = (case localNamedDep S E (fType f) of
     None \<Rightarrow> visitDeps S E k rootEnum fs color
   | Some y \<Rightarrow> (case visitZero S E k rootEnum y color of
        Some (Inr color') \<Rightarrow> visitDeps S E k rootEnum fs color'
      | r \<Rightarrow> r))"

fun visitEnums :: "(string \<Rightarrow> structDef option) \<Rightarrow> (string \<Rightarrow> enumDef option) \<Rightarrow> nat \<Rightarrow> string list \<Rightarrow> (zeroNode \<Rightarrow> color) \<Rightarrow> (zeroNode \<Rightarrow> color) result option" where
  "visitEnums S E k [] color = Some (Inr color)"
| "visitEnums S E k (n # ns) color =
     (if color (ZEnum n) = White then
        (case visitZero S E k n (ZEnum n) color of
           Some (Inr color') \<Rightarrow> visitEnums S E k ns color'
         | r \<Rightarrow> r)
      else visitEnums S E k ns color)"

definition checkEnumZeroCycles :: "(string \<Rightarrow> structDef option) \<Rightarrow> (string \<Rightarrow> enumDef option) \<Rightarrow> string list \<Rightarrow> string list \<Rightarrow> unit result option" where
  "checkEnumZeroCycles S E sNames eNames = map_option (map_sum id (\<lambda>_. ()))
     (visitEnums S E (Suc (length sNames + length eNames)) (sort eNames) (\<lambda>_. White))"

definition zeroDeps :: "(string \<Rightarrow> structDef option) \<Rightarrow> (string \<Rightarrow> enumDef option) \<Rightarrow> zeroNode \<Rightarrow> zeroNode list" where
  "zeroDeps S E x = List.map_filter (\<lambda>f. localNamedDep S E (fType f)) (zeroFields S E x)"

lemma visitZero_dfs:
  "plain (visitZero S E k rootEnum x c) = dfsVisit (zeroDeps S E) k x c"
  "plain (visitDeps S E k rootEnum fs c) = dfsAll (zeroDeps S E) k (List.map_filter (\<lambda>f. localNamedDep S E (fType f)) fs) c"
proof (induction S E k rootEnum x c and S E k rootEnum fs c rule: visitZero_visitDeps.induct)
  case (2 S E k rootEnum x c)
  show ?case
  proof (cases "c x")
    case White
    show ?thesis unfolding visitZero.simps dfsVisit.simps White color.case plain_cases 2 [OF White] zeroDeps_def [of S E x] plain_simps
      by (rule refl)
  qed simp_all
next
  case (4 S E k rootEnum f fs c)
  show ?case
  proof (cases "localNamedDep S E (fType f)")
    case (Some y)
    note v = 4(2) [OF Some, symmetric]
    show ?thesis
    proof (cases "visitZero S E k rootEnum y c")
      case r: (Some r)
      show ?thesis
      proof (cases r)
        case (Inr c1)
        with 4(3) [OF Some r Inr] v r Some show ?thesis by (simp add: map_filter_simps)
      qed (use v r Some in \<open>simp add: map_filter_simps\<close>)
    qed (use v Some in \<open>simp add: map_filter_simps\<close>)
  qed (use 4(1) in \<open>simp add: map_filter_simps\<close>)
qed (auto simp: map_filter_simps split: color.split)

lemma visitEnums_dfs:
  "\<forall>x. c x \<noteq> Gray \<Longrightarrow> plain (visitEnums S E k ns c) = dfsAll (zeroDeps S E) k (map ZEnum ns) c"
proof (induction ns arbitrary: c)
  case (Cons n ns)
  note v = visitZero_dfs(1) [of S E k n "ZEnum n" c, symmetric]
  show ?case
  proof (cases "c (ZEnum n)")
    case White
    show ?thesis
    proof (cases "visitZero S E k n (ZEnum n) c")
      case (Some r)
      show ?thesis
      proof (cases r)
        case (Inr c1)
        with v Some dfs_keeps(1) [of "zeroDeps S E" k "ZEnum n" c c1] Cons.prems have "\<forall>x. c1 x \<noteq> Gray" by simp
        from Cons.IH [OF this] White Some v Inr show ?thesis by simp
      qed (use White Some v in simp)
    qed (use White v in simp)
  next
    case Black
    then have "dfsVisit (zeroDeps S E) k (ZEnum n) c = Some (Inr c)" by (cases k) simp_all
    with Black Cons show ?thesis by simp
  qed (use Cons.prems in simp)
qed simp

definition zeroNodes :: "(string \<Rightarrow> structDef option) \<Rightarrow> (string \<Rightarrow> enumDef option) \<Rightarrow> zeroNode set" where
  "zeroNodes S E = {x. case x of ZStruct n \<Rightarrow> S n \<noteq> None | ZEnum n \<Rightarrow> E n \<noteq> None}"

lemma zeroNodes_image: "zeroNodes S E = ZStruct ` dom S \<union> ZEnum ` dom E"
proof (rule set_eqI)
  fix x
  show "x \<in> zeroNodes S E \<longleftrightarrow> x \<in> ZStruct ` dom S \<union> ZEnum ` dom E"
    by (cases x) (auto simp: zeroNodes_def image_iff domIff)
qed

lemma in_map_filter: "y \<in> set (List.map_filter f xs) \<longleftrightarrow> (\<exists>x \<in> set xs. f x = Some y)"
  by (force simp: map_filter_def)

lemma localNamedDep_Some:
  "localNamedDep S E t = Some y \<longleftrightarrow>
    (\<exists>n. byValue t = Some n \<and> (E n \<noteq> None \<and> y = ZEnum n \<or> E n = None \<and> S n \<noteq> None \<and> y = ZStruct n))"
  by (cases "byValue t") (auto simp: localNamedDep_def)

lemma zeroDeps_nodes: "set (zeroDeps S E x) \<subseteq> zeroNodes S E"
  by (auto simp: zeroDeps_def zeroNodes_def localNamedDep_Some in_map_filter)

lemma checkEnumZeroCycles_decides:
  assumes "set sNames = dom S" "set eNames = dom E"
  shows "(\<exists>e. checkEnumZeroCycles S E sNames eNames = Some (Inl e)) \<and> \<not> acyclic (edges (zeroDeps S E)) \<or>
    checkEnumZeroCycles S E sNames eNames = Some (Inr ()) \<and> (\<forall>n \<in> dom E. ZEnum n \<in> grounded (zeroDeps S E))"
proof -
  let ?k = "Suc (length sNames + length eNames)" and ?ns = "map ZEnum (sort eNames)" and ?w = "\<lambda>_. White"
  let ?r = "visitEnums S E ?k (sort eNames) ?w"
  have D: "zeroNodes S E = set (map ZStruct sNames @ map ZEnum eNames)" using assms by (simp add: zeroNodes_image)
  have fin: "finite (dom S)" "finite (dom E)" unfolding assms [symmetric] by simp_all
  have "whites (zeroNodes S E) ?w = zeroNodes S E" by (auto simp: whites_def)
  then have "card (whites (zeroNodes S E) ?w) < ?k" using card_length [of "map ZStruct sNames @ map ZEnum eNames"] by (simp add: D)
  then have n: "dfsAll (zeroDeps S E) ?k ?ns ?w \<noteq> None"
    using zeroDeps_nodes [of S E] assms(2) by (intro dfs_fuel(2) [where D = "zeroNodes S E"]) (auto simp: zeroNodes_image fin)
  have d: "dfsAll (zeroDeps S E) ?k ?ns ?w = plain ?r" using visitEnums_dfs [of ?w S E ?k "sort eNames"] by simp
  have c: "checkEnumZeroCycles S E sNames eNames = map_option (map_sum id (\<lambda>_. ())) ?r" by (simp add: checkEnumZeroCycles_def)
  obtain r where r: "?r = Some r" using n d by (cases ?r) auto
  show ?thesis
  proof (cases r)
    case (Inl e)
    then have "\<exists>x. (x, x) \<in> (edges (zeroDeps S E))\<^sup>+" using dfs_cycle(2) [of "zeroDeps S E" ?k ?ns ?w "()"] d r by simp
    then show ?thesis using c r Inl by (auto simp: acyclic_def)
  next
    case (Inr col)
    then have a: "dfsAll (zeroDeps S E) ?k ?ns ?w = Some (Inr col)" using d r by simp
    have "ZEnum n \<in> grounded (zeroDeps S E)" if "n \<in> dom E" for n
    proof (rule dfs_grounded(2) [OF a])
      show "col (ZEnum n) = Black" using dfs_keeps(2) [OF a] that assms(2) by auto
    qed simp
    then show ?thesis using c r Inr by simp
  qed
qed

text \<open>Together the two checks leave no struct or enum with an infinite zero.\<close>

lemma all_grounded:
  assumes s: "\<forall>x. x \<in> grounded (structDeps S)" and e: "\<forall>n \<in> dom E. ZEnum n \<in> grounded (zeroDeps S E)"
  shows "ZStruct n \<in> grounded (zeroDeps S E)"
proof -
  have "n \<in> grounded (structDeps S)" using s by blast
  then show ?thesis
  proof (induction rule: acc.induct)
    case (accI n)
    show ?case
    proof (rule groundedI)
      fix y
      assume y: "y \<in> set (zeroDeps S E (ZStruct n))"
      show "y \<in> grounded (zeroDeps S E)"
      proof (cases y)
        case (ZStruct m)
        with y have "m \<in> set (structDeps S n)"
          by (auto simp: zeroDeps_def zeroFields_def structDeps_def localNamedDep_Some in_map_filter split: option.splits)
        then show ?thesis using accI.IH [of m] ZStruct by (simp add: edges_def)
      next
        case (ZEnum m)
        with y have "m \<in> dom E" using zeroDeps_nodes [of S E "ZStruct n"] by (auto simp: zeroNodes_def)
        with e ZEnum show ?thesis by blast
      qed
    qed
  qed
qed

section \<open>Zero values\<close>

text \<open>What the struct tables of the libraries promise: a namespace prefix stands for a namespace, and the
  structs of libraries contain only structs of libraries, by value in no cycle.\<close>

definition canonicalNS :: "'w interp \<Rightarrow> string \<Rightarrow> string" where
  "canonicalNS I ns = (case resolveNamespacePrefix I ns of Inr c \<Rightarrow> c | Inl _ \<Rightarrow> ns)"

definition libRank :: "'w interp \<Rightarrow> (string \<times> string \<Rightarrow> nat) \<Rightarrow> bool" where
  "libRank I rank \<longleftrightarrow> (\<forall>p c. nsPrefixes I p = Some c \<longrightarrow> c \<noteq> []) \<and>
     (\<forall>ns n d f n' ns' mp'. ns \<noteq> [] \<longrightarrow> NSStructs I (ns, n) = Some d \<longrightarrow> f \<in> set (sFields d) \<longrightarrow> fType f = TypeStruct n' ns' mp' \<longrightarrow>
        ns' \<noteq> [] \<and> rank (canonicalNS I ns', n') < rank (ns, n))"

abbreviation zeroable :: "'a result option \<Rightarrow> bool" where
  "zeroable r \<equiv> r \<noteq> None"

lemma zeroField_mono: "k \<le> k' \<Longrightarrow> zeroField I k p t = Some x \<Longrightarrow> zeroField I k' p t = Some x"
  by (induction rule: dec_induct) (auto intro: zeroField_kept zeros_kept)

lemma payload_exists:
  "(\<forall>f \<in> set fs. \<exists>k. zeroable (zeroField I k p (fType f))) \<Longrightarrow> \<exists>k. zeroable (zeroPayload I k p fs)"
proof (induction fs)
  case (Cons f fs)
  then obtain k x k' y where k: "zeroField I k p (fType f) = Some x" "zeroPayload I k' p fs = Some y" by auto
  have "zeroField I (max k k') p (fType f) = Some x" "zeroPayload I (max k k') p fs = Some y"
    using zeroField_mono [OF _ k(1), of "max k k'"] zero_mono(1) [OF _ k(2), of "max k k'"] by simp_all
  then have "zeroable (zeroPayload I (max k k') p (f # fs))" by (cases x; cases y) simp_all
  then show ?case by blast
qed simp

lemma zeroStructFor_def_exists:
  assumes "lookupStructDef I ns n mp = Some d" "\<exists>k. zeroable (zeroPayload I k p (sFields d))"
  shows "\<exists>k. zeroable (zeroStructFor I k p ns n mp)"
proof -
  from assms(2) obtain k y where "zeroPayload I k p (sFields d) = Some y" by auto
  then have "zeroable (zeroStructFor I (Suc k) p ns n mp)" using assms(1) by (cases y) simp_all
  then show ?thesis by blast
qed

lemma zeroStructFor_no_def: "lookupStructDef I ns n mp = None \<Longrightarrow> \<exists>k. zeroable (zeroStructFor I k p ns n mp)"
  by (intro exI [of _ "Suc 0"]) simp

lemma scalar_zero: "(\<And>n ns mp. t \<noteq> TypeStruct n ns mp) \<Longrightarrow> \<exists>k. zeroable (zeroField I k p t)"
  by (intro exI [of _ 0], cases t) auto

lemma canonicalNS_nonempty: "libRank I rank \<Longrightarrow> ns \<noteq> [] \<Longrightarrow> canonicalNS I ns \<noteq> []"
  by (auto simp: libRank_def canonicalNS_def resolveNamespacePrefix_def split: option.splits sum.splits if_splits)

lemma zeroField_lib:
  "ns \<noteq> [] \<Longrightarrow> zeroField I k p (TypeStruct n ns mp) = zeroStructFor I k p (canonicalNS I ns) n mp"
  by (simp add: isEnumType_def lookupEnumDef_def canonicalNS_def del: zero_unfold split: sum.split)

lemma lib_zero: "libRank I rank \<Longrightarrow> ns \<noteq> [] \<Longrightarrow> \<exists>k. zeroable (zeroStructFor I k p ns n mp)"
proof (induction "rank (ns, n)" arbitrary: ns n mp rule: less_induct)
  case less
  show ?case
  proof (cases "lookupStructDef I ns n mp")
    case (Some d)
    then have d: "NSStructs I (ns, n) = Some d" using less.prems(2) by (auto simp: lookupStructDef_def split: if_splits)
    have "\<exists>k. zeroable (zeroField I k p (fType f))" if f: "f \<in> set (sFields d)" for f
    proof (cases "\<exists>n' ns' mp'. fType f = TypeStruct n' ns' mp'")
      case True
      then obtain n' ns' mp' where t: "fType f = TypeStruct n' ns' mp'" by blast
      with less.prems d f have r: "ns' \<noteq> []" "rank (canonicalNS I ns', n') < rank (ns, n)"
        unfolding libRank_def by blast+
      from less.hyps [OF r(2) less.prems(1) canonicalNS_nonempty [OF less.prems(1) r(1)]] show ?thesis
        unfolding t zeroField_lib [OF r(1)] .
    qed (use scalar_zero in blast)
    then show ?thesis by (intro zeroStructFor_def_exists [OF Some] payload_exists) blast
  qed (rule zeroStructFor_no_def)
qed

text \<open>Every enum has a variant.\<close>

definition variants_ok :: "(string \<Rightarrow> enumDef option) \<Rightarrow> bool" where
  "variants_ok E \<longleftrightarrow> (\<forall>n ed. E n = Some ed \<longrightarrow> edVariants ed \<noteq> [])"

definition node_zero :: "'w interp \<Rightarrow> pos \<Rightarrow> zeroNode \<Rightarrow> bool" where
  "node_zero I p x \<longleftrightarrow> (case x of
     ZStruct n \<Rightarrow> \<exists>k. zeroable (zeroStructFor I k p [] n [])
   | ZEnum n \<Rightarrow> \<exists>k. zeroable (zeroEnumFor I k p [] n []))"

lemma field_zero:
  assumes "libRank I rank" "\<And>y. localNamedDep (structs I) (enums I) t = Some y \<Longrightarrow> node_zero I p y"
  shows "\<exists>k. zeroable (zeroField I k p t)"
proof (cases "\<exists>n ns mp. t = TypeStruct n ns mp")
  case True
  then obtain n ns mp where t: "t = TypeStruct n ns mp" by blast
  show ?thesis
  proof (cases "ns = [] \<and> mp = []")
    case True
    show ?thesis
    proof (cases "enums I n")
      case (Some ed)
      with assms(2) [of "ZEnum n"] t True show ?thesis
        by (simp add: localNamedDep_Some byValue_def node_zero_def isEnumType_def lookupEnumDef_def del: zero_unfold)
    next
      case None
      then have "\<exists>k. zeroable (zeroStructFor I k p [] n [])"
        using assms(2) [of "ZStruct n"] t True zeroStructFor_no_def [of I "[]" n "[]" p]
        by (cases "structs I n") (simp_all add: localNamedDep_Some byValue_def node_zero_def lookupStructDef_def del: zero_unfold)
      then show ?thesis using t True None
        by (simp add: isEnumType_def lookupEnumDef_def del: zero_unfold split: sum.split)
    qed
  next
    case False
    then have e: "\<not> isEnumType I ns n mp" by (auto simp: isEnumType_def lookupEnumDef_def)
    show ?thesis
    proof (cases "ns = []")
      case True
      then have "\<exists>k. zeroable (zeroStructFor I k p [] n mp)" using False by (intro zeroStructFor_no_def) (simp add: lookupStructDef_def)
      then show ?thesis using t e True by (simp del: zero_unfold split: sum.split)
    next
      case False
      then show ?thesis unfolding t zeroField_lib [OF False] by (intro lib_zero [OF assms(1)] canonicalNS_nonempty [OF assms(1)])
    qed
  qed
qed (use scalar_zero in blast)

lemma grounded_zero:
  assumes "libRank I rank" "variants_ok (enums I)" "x \<in> grounded (zeroDeps (structs I) (enums I))"
    "case x of ZStruct n \<Rightarrow> True | ZEnum n \<Rightarrow> enums I n \<noteq> None"
  shows "node_zero I p x"
  using assms(3,4)
proof (induction rule: acc.induct)
  case (accI x)
  have f: "\<exists>k. zeroable (zeroField I k p (fType f))" if "f \<in> set (zeroFields (structs I) (enums I) x)" for f
  proof (rule field_zero [OF assms(1)])
    fix y
    assume y: "localNamedDep (structs I) (enums I) (fType f) = Some y"
    then have "y \<in> set (zeroDeps (structs I) (enums I) x)" using that by (auto simp: zeroDeps_def in_map_filter)
    moreover have "case y of ZStruct n \<Rightarrow> True | ZEnum n \<Rightarrow> enums I n \<noteq> None" using y by (auto simp: localNamedDep_Some)
    ultimately show "node_zero I p y" using accI.IH [of y] by (simp add: edges_def)
  qed
  then have pay: "\<exists>k. zeroable (zeroPayload I k p (zeroFields (structs I) (enums I) x))" by (intro payload_exists) blast
  show ?case
  proof (cases x)
    case (ZStruct n)
    show ?thesis
    proof (cases "structs I n")
      case (Some d)
      then show ?thesis using zeroStructFor_def_exists [of I "[]" n "[]" d p] pay ZStruct
        by (simp add: node_zero_def zeroFields_def lookupStructDef_def del: zero_unfold)
    next
      case None
      then show ?thesis using zeroStructFor_no_def [of I "[]" n "[]" p] ZStruct by (simp add: node_zero_def lookupStructDef_def del: zero_unfold)
    qed
  next
    case (ZEnum n)
    then obtain ed where ed: "enums I n = Some ed" using accI.prems by auto
    then obtain v vs where v: "edVariants ed = v # vs" using assms(2) by (cases "edVariants ed") (auto simp: variants_ok_def)
    from pay ZEnum ed v obtain k y where "zeroPayload I k p (evFields v) = Some y" by (auto simp: zeroFields_def)
    then have "zeroable (zeroEnumFor I (Suc k) p [] n [])" using ed v by (cases y) (simp_all add: lookupEnumDef_def)
    then show ?thesis unfolding ZEnum node_zero_def zeroNode.case by blast
  qed
qed

section \<open>Hoisting\<close>

definition canonicalErrorStructDef :: structDef where
  "canonicalErrorStructDef = \<lparr>sPos = noPos, sName = canonicalErrorStructName, sFields =
     [\<lparr>fName = ''kind'', fType = TypeString, fPos = noPos\<rparr>,
      \<lparr>fName = ''message'', fType = TypeString, fPos = noPos\<rparr>,
      \<lparr>fName = ''file'', fType = TypeString, fPos = noPos\<rparr>,
      \<lparr>fName = ''line'', fType = TypeInt, fPos = noPos\<rparr>,
      \<lparr>fName = ''col'', fType = TypeInt, fPos = noPos\<rparr>], sExported = False\<rparr>"

definition exportError :: "pos \<Rightarrow> err" where
  "exportError p = rtErr ''`export` is only allowed in a module; this file is run as a script, which has no importers'' [] p"

fun exportedDefine :: "bool \<times> stmt \<Rightarrow> pos option" where
  "exportedDefine (True, DefineStmt p _ _ _ _ _ _) = Some p"
| "exportedDefine _ = None"

text \<open>The loops of \<open>rejectExportInScript\<close>: each stops at the first marked declaration.\<close>

definition rejectExportInScript :: "program \<Rightarrow> unit result" where
  "rejectExportInScript prog = (case List.find mExported (Methods prog) of
     Some m \<Rightarrow> Inl (exportError (mPos m))
   | None \<Rightarrow> (case List.find sExported (Structs prog) of
       Some s \<Rightarrow> Inl (exportError (sPos s))
     | None \<Rightarrow> (case List.find edExported (Enums prog) of
         Some e \<Rightarrow> Inl (exportError (edPos e))
       | None \<Rightarrow> (case List.map_filter exportedDefine (TopLevel prog) of
           p # _ \<Rightarrow> Inl (exportError p)
         | [] \<Rightarrow> Inr ()))))"

fun hoistStructs :: "structDef list \<Rightarrow> (string \<Rightarrow> structDef option) \<Rightarrow> (string \<Rightarrow> structDef option) result" where
  "hoistStructs [] S = Inr S"
| "hoistStructs (s # ss) S =
     (if S (sName s) \<noteq> None then Inl (rtErr ''struct %q is defined more than once'' [AStr (sName s)] (sPos s))
      else hoistStructs ss (S(sName s := Some s)))"

fun hoistEnums :: "(string \<Rightarrow> structDef option) \<Rightarrow> enumDef list \<Rightarrow> (string \<Rightarrow> enumDef option) \<Rightarrow> (string \<Rightarrow> enumDef option) result" where
  "hoistEnums S [] E = Inr E"
| "hoistEnums S (e # es) E =
     (if S (edName e) \<noteq> None then Inl (rtErr ''enum %q collides with a struct of the same name'' [AStr (edName e)] (edPos e))
      else if E (edName e) \<noteq> None then Inl (rtErr ''enum %q is defined more than once'' [AStr (edName e)] (edPos e))
      else hoistEnums S es (E(edName e := Some e)))"

definition checkMethodNoShadow :: "'w interp \<Rightarrow> methodDef \<Rightarrow> unit result" where
  "checkMethodNoShadow I m = (case (case Builtins I (mName m) of Some (lib, _) \<Rightarrow> if imported I lib then Some lib else None | None \<Rightarrow> None) of
     Some lib \<Rightarrow> Inl (rtErr ''function %q shadows a builtin from `%s`; rename it or remove `use %s;`'' [AStr (mName m), AStr lib, AStr lib] (mPos m))
   | None \<Rightarrow>
       if nsPrefixes I (mName m) \<noteq> None
       then Inl (rtErr ''function %q shadows imported namespace %q'' [AStr (mName m), AStr (mName m)] (mPos m))
       else Inr ())"

fun hoistMethods :: "'w interp \<Rightarrow> methodDef list \<Rightarrow> (string \<Rightarrow> methodDef option) \<Rightarrow> (string \<Rightarrow> methodDef option) result" where
  "hoistMethods I [] M = Inr M"
| "hoistMethods I (m # ms) M =
     (if M (mName m) \<noteq> None then Inl (rtErr ''function %q is defined more than once'' [AStr (mName m)] (mPos m))
      else (case checkMethodNoShadow I m of
        Inl e \<Rightarrow> Inl e
      | Inr _ \<Rightarrow> hoistMethods I ms (M(mName m := Some m))))"

fun isMutableDefine :: "stmt \<Rightarrow> bool" where
  "isMutableDefine (DefineStmt _ isConst _ _ _ _ _) = (\<not> isConst)"
| "isMutableDefine _ = False"

definition hasMutableTopLevelGlobal :: "program \<Rightarrow> bool" where
  "hasMutableTopLevelGlobal prog \<longleftrightarrow> list_ex (isMutableDefine \<circ> snd) (TopLevel prog)"

section \<open>Loading\<close>

text \<open>The steps of \<open>Run\<close> before the first statement, on a new interpreter, whose own tables are empty;
  \<open>I\<close> holds what \<open>processImports\<close> made of the libraries. \<open>None\<close> would be a cycle check that does not end.\<close>

definition loadTables :: "'w interp \<Rightarrow> program \<Rightarrow> ((string \<Rightarrow> structDef option) \<times> (string \<Rightarrow> enumDef option)) result option" where
  "loadTables I prog = (case hoistStructs (Structs prog) [canonicalErrorStructName \<mapsto> canonicalErrorStructDef] of
     Inl e \<Rightarrow> Some (Inl e)
   | Inr S \<Rightarrow> (case hoistEnums S (Enums prog) Map.empty of
       Inl e \<Rightarrow> Some (Inl e)
     | Inr E \<Rightarrow>
        let sNames = canonicalErrorStructName # map sName (Structs prog); eNames = map edName (Enums prog)
        in (case checkStructCycles S sNames of
          None \<Rightarrow> None
        | Some (Inl e) \<Rightarrow> Some (Inl e)
        | Some (Inr _) \<Rightarrow> (case checkEnumZeroCycles S E sNames eNames of
            None \<Rightarrow> None
          | Some (Inl e) \<Rightarrow> Some (Inl e)
          | Some (Inr _) \<Rightarrow> Some (Inr (S, E))))))"

definition loadProgram :: "'w interp \<Rightarrow> bool \<Rightarrow> program \<Rightarrow> 'w interp result option" where
  "loadProgram I isModule prog = (case (if isModule then Inr () else rejectExportInScript prog) of
     Inl e \<Rightarrow> Some (Inl e)
   | Inr _ \<Rightarrow> (case loadTables I prog of
       None \<Rightarrow> None
     | Some (Inl e) \<Rightarrow> Some (Inl e)
     | Some (Inr (S, E)) \<Rightarrow> (case hoistMethods I (Methods prog) Map.empty of
         Inl e \<Rightarrow> Some (Inl e)
       | Inr M \<Rightarrow> Some (Inr (I\<lparr>structs := S, enums := E, methods := M,
           entryGlobalsImmutable := \<not> isModule \<and> \<not> hasMutableTopLevelGlobal prog\<rparr>)))))"

text \<open>Hoisting builds exactly the table of the declarations, and refuses duplicates. The three loops share
  the table they build.\<close>

definition tableOf :: "('a \<Rightarrow> string) \<Rightarrow> 'a list \<Rightarrow> (string \<Rightarrow> 'a option)" where
  "tableOf key xs = map_of (map (\<lambda>x. (key x, x)) xs)"

definition builds :: "('a \<Rightarrow> string) \<Rightarrow> 'a list \<Rightarrow> (string \<Rightarrow> 'a option) \<Rightarrow> (string \<Rightarrow> 'a option) \<Rightarrow> bool" where
  "builds key xs T T' \<longleftrightarrow> distinct (map key xs) \<and> (\<forall>x \<in> set xs. T (key x) = None) \<and> T' = T ++ tableOf key xs"

lemma builds_Nil [simp]: "builds key [] T T' \<longleftrightarrow> T' = T"
  by (simp add: builds_def tableOf_def)

lemma builds_Cons [simp]: "builds key (x # xs) T T' \<longleftrightarrow> T (key x) = None \<and> builds key xs (T(key x \<mapsto> x)) T'"
proof -
  have "(T(key x \<mapsto> x)) ++ tableOf key xs = T ++ tableOf key (x # xs)" if "key x \<notin> key ` set xs"
  proof -
    have "tableOf key xs (key x) = None" using that by (auto simp: tableOf_def map_of_eq_None_iff)
    then show ?thesis by (auto simp: fun_eq_iff map_add_def tableOf_def split: option.split)
  qed
  moreover have "(\<forall>y \<in> set xs. (T(key x \<mapsto> x)) (key y) = None) \<longleftrightarrow> key x \<notin> key ` set xs \<and> (\<forall>y \<in> set xs. T (key y) = None)"
    by (simp add: image_iff) (metis option.distinct(1))
  ultimately show ?thesis by (auto simp: builds_def)
qed

lemma builds_dom: "builds key xs T T' \<Longrightarrow> dom T' = dom T \<union> key ` set xs"
  by (auto simp: builds_def tableOf_def dom_map_of_conv_image_fst image_image)

lemma builds_lookup: "builds key xs Map.empty T' \<Longrightarrow> T' n = Some x \<longleftrightarrow> x \<in> set xs \<and> key x = n"
  by (auto simp: builds_def tableOf_def distinct_map comp_def dest!: map_of_SomeD intro!: map_of_is_SomeI)

lemma hoistStructs_builds: "hoistStructs ss S = Inr S' \<longleftrightarrow> builds sName ss S S'"
  by (induction ss arbitrary: S) auto

lemma hoistEnums_builds: "hoistEnums S es E = Inr E' \<longleftrightarrow> builds edName es E E' \<and> (\<forall>e \<in> set es. S (edName e) = None)"
  by (induction es arbitrary: E) auto

lemma hoistMethods_builds: "hoistMethods I ms M = Inr M' \<longleftrightarrow> builds mName ms M M' \<and> (\<forall>m \<in> set ms. checkMethodNoShadow I m = Inr ())"
  by (induction ms arbitrary: M) (auto split: sum.splits)

lemma checkMethodNoShadow_ok:
  "checkMethodNoShadow I m = Inr () \<longleftrightarrow>
    nsPrefixes I (mName m) = None \<and> (\<forall>lib b. Builtins I (mName m) = Some (lib, b) \<longrightarrow> \<not> imported I lib)"
  by (auto simp: checkMethodNoShadow_def split: option.split if_splits)

lemma rejectExport_ok:
  "rejectExportInScript prog = Inr () \<longleftrightarrow> (\<forall>m \<in> set (Methods prog). \<not> mExported m) \<and> (\<forall>s \<in> set (Structs prog). \<not> sExported s) \<and>
     (\<forall>e \<in> set (Enums prog). \<not> edExported e) \<and> (\<forall>d \<in> set (TopLevel prog). exportedDefine d = None)"
proof -
  have "List.map_filter exportedDefine xs = [] \<longleftrightarrow> (\<forall>d \<in> set xs. exportedDefine d = None)" for xs
    by (simp add: map_filter_def filter_empty_conv)
  moreover have "(case xs of [] \<Rightarrow> Inr () | p # _ \<Rightarrow> Inl (exportError p)) = Inr () \<longleftrightarrow> xs = []" for xs by (cases xs) simp_all
  ultimately show ?thesis
    by (auto simp: rejectExportInScript_def find_None_iff find_Some_iff split: option.splits)
qed

text \<open>The tables of the declarations, \<open>Error\<close> among the structs.\<close>

definition programStructs :: "program \<Rightarrow> (string \<Rightarrow> structDef option)" where
  "programStructs prog = tableOf sName (canonicalErrorStructDef # Structs prog)"

definition programEnums :: "program \<Rightarrow> (string \<Rightarrow> enumDef option)" where
  "programEnums prog = tableOf edName (Enums prog)"

lemma error_first: "builds sName ss [canonicalErrorStructName \<mapsto> canonicalErrorStructDef] S \<longleftrightarrow>
    builds sName (canonicalErrorStructDef # ss) Map.empty S"
  by (simp add: canonicalErrorStructDef_def)

lemma table_dom: "dom (tableOf key xs) = key ` set xs"
  by (auto simp: tableOf_def dom_map_of_conv_image_fst image_image)

text \<open>The type names of a program are distinct.\<close>

definition typeNamesDistinct :: "program \<Rightarrow> bool" where
  "typeNamesDistinct prog \<longleftrightarrow> distinct (canonicalErrorStructName # map sName (Structs prog) @ map edName (Enums prog))"

lemma hoisted_structs:
  "hoistStructs (Structs prog) [canonicalErrorStructName \<mapsto> canonicalErrorStructDef] = Inr S \<longleftrightarrow>
    distinct (canonicalErrorStructName # map sName (Structs prog)) \<and> S = programStructs prog"
proof -
  have n: "sName canonicalErrorStructDef = canonicalErrorStructName" by (simp add: canonicalErrorStructDef_def)
  show ?thesis unfolding hoistStructs_builds error_first unfolding builds_def programStructs_def list.map(2) n by simp
qed

lemma programStructs_dom: "dom (programStructs prog) = set (canonicalErrorStructName # map sName (Structs prog))"
  by (simp add: programStructs_def table_dom canonicalErrorStructDef_def)

lemma programEnums_dom: "dom (programEnums prog) = set (map edName (Enums prog))"
  by (simp add: programEnums_def table_dom)

lemma hoisted_enums:
  "hoistEnums (programStructs prog) (Enums prog) Map.empty = Inr E \<longleftrightarrow>
    distinct (map edName (Enums prog)) \<and> dom (programStructs prog) \<inter> dom (programEnums prog) = {} \<and> E = programEnums prog"
proof -
  have "(\<forall>e \<in> set es. S (edName e) = None) \<longleftrightarrow> dom S \<inter> edName ` set es = {}" for es and S :: "string \<Rightarrow> structDef option" by (auto simp: domIff)
  then show ?thesis unfolding hoistEnums_builds builds_def programEnums_def table_dom by auto
qed

lemma typeNamesDistinct_iff:
  "typeNamesDistinct prog \<longleftrightarrow> distinct (canonicalErrorStructName # map sName (Structs prog)) \<and> distinct (map edName (Enums prog)) \<and>
    dom (programStructs prog) \<inter> dom (programEnums prog) = {}"
  unfolding typeNamesDistinct_def programStructs_dom programEnums_dom by auto

lemma acyclic_grounded: "(\<And>x. x \<in> grounded su) \<Longrightarrow> acyclic (edges su)"
  by (metis acc_wfI wf_acyclic acyclic_converse)

text \<open>With the names apart, the by-value edges between structs are edges of the zero graph.\<close>

lemma struct_edges_acyclic:
  assumes "dom S \<inter> dom E = {}" "acyclic (edges (zeroDeps S E))"
  shows "acyclic (edges (structDeps S))"
proof -
  have e: "(ZStruct x, ZStruct y) \<in> edges (zeroDeps S E)" if "(x, y) \<in> edges (structDeps S)" for x y
    using that assms(1)
    by (auto simp: edges_def structDeps_def zeroDeps_def zeroFields_def localNamedDep_Some in_map_filter split: option.splits)
  have "(ZStruct x, ZStruct y) \<in> (edges (zeroDeps S E))\<^sup>+" if "(x, y) \<in> (edges (structDeps S))\<^sup>+" for x y
    using that by (induction rule: trancl_induct) (auto intro: e trancl_into_trancl)
  with assms(2) show ?thesis by (auto simp: acyclic_def)
qed

lemma loadTables_duplicate:
  assumes "\<not> typeNamesDistinct prog"
  shows "\<exists>e. loadTables I prog = Some (Inl e)"
proof (cases "hoistStructs (Structs prog) [canonicalErrorStructName \<mapsto> canonicalErrorStructDef]")
  case (Inr S)
  then have S: "S = programStructs prog" by (simp add: hoisted_structs)
  have "\<exists>e. hoistEnums (programStructs prog) (Enums prog) Map.empty = Inl e"
    using assms Inr hoisted_enums [of prog] unfolding typeNamesDistinct_iff hoisted_structs
    by (cases "hoistEnums (programStructs prog) (Enums prog) Map.empty") auto
  then show ?thesis using Inr by (auto simp: loadTables_def S)
qed (simp add: loadTables_def)

lemma loadTables_checks:
  assumes "typeNamesDistinct prog"
  shows "loadTables I prog = (let S = programStructs prog; E = programEnums prog;
       sNames = canonicalErrorStructName # map sName (Structs prog); eNames = map edName (Enums prog)
     in (case checkStructCycles S sNames of
          None \<Rightarrow> None
        | Some (Inl e) \<Rightarrow> Some (Inl e)
        | Some (Inr _) \<Rightarrow> (case checkEnumZeroCycles S E sNames eNames of
            None \<Rightarrow> None
          | Some (Inl e) \<Rightarrow> Some (Inl e)
          | Some (Inr _) \<Rightarrow> Some (Inr (S, E)))))"
proof -
  have "hoistStructs (Structs prog) [canonicalErrorStructName \<mapsto> canonicalErrorStructDef] = Inr (programStructs prog)"
    "hoistEnums (programStructs prog) (Enums prog) Map.empty = Inr (programEnums prog)"
    using assms by (simp_all add: typeNamesDistinct_iff hoisted_structs hoisted_enums del: distinct.simps)
  then show ?thesis by (simp add: loadTables_def Let_def)
qed

lemma zero_grounded:
  assumes "\<forall>x. x \<in> grounded (structDeps S)" "\<forall>n \<in> dom E. ZEnum n \<in> grounded (zeroDeps S E)"
  shows "\<forall>x. x \<in> grounded (zeroDeps S E)"
proof
  fix x
  show "x \<in> grounded (zeroDeps S E)"
  proof (cases x)
    case (ZStruct n)
    with all_grounded [OF assms] show ?thesis by blast
  next
    case (ZEnum n)
    show ?thesis
    proof (cases "n \<in> dom E")
      case False
      then have "zeroDeps S E x = []" by (simp add: ZEnum zeroDeps_def zeroFields_def domIff map_filter_simps)
      then show ?thesis by - (rule groundedI, simp)
    qed (use assms(2) ZEnum in blast)
  qed
qed

lemma loadTables_outcome:
  "(\<exists>e. loadTables I prog = Some (Inl e)) \<and> \<not> (typeNamesDistinct prog \<and> acyclic (edges (zeroDeps (programStructs prog) (programEnums prog)))) \<or>
   loadTables I prog = Some (Inr (programStructs prog, programEnums prog)) \<and> typeNamesDistinct prog \<and>
     acyclic (edges (zeroDeps (programStructs prog) (programEnums prog))) \<and> (\<forall>x. x \<in> grounded (zeroDeps (programStructs prog) (programEnums prog)))"
proof (cases "typeNamesDistinct prog")
  case True
  let ?S = "programStructs prog" and ?E = "programEnums prog"
  let ?sn = "canonicalErrorStructName # map sName (Structs prog)" and ?en = "map edName (Enums prog)"
  have d: "dom ?S \<inter> dom ?E = {}" using True by (simp add: typeNamesDistinct_iff)
  have s: "(\<exists>e. checkStructCycles ?S ?sn = Some (Inl e)) \<and> \<not> acyclic (edges (structDeps ?S)) \<or>
      checkStructCycles ?S ?sn = Some (Inr ()) \<and> acyclic (edges (structDeps ?S)) \<and> (\<forall>x. x \<in> grounded (structDeps ?S))"
    by (rule checkStructCycles_decides) (simp only: programStructs_dom)
  have e: "(\<exists>e. checkEnumZeroCycles ?S ?E ?sn ?en = Some (Inl e)) \<and> \<not> acyclic (edges (zeroDeps ?S ?E)) \<or>
      checkEnumZeroCycles ?S ?E ?sn ?en = Some (Inr ()) \<and> (\<forall>n \<in> dom ?E. ZEnum n \<in> grounded (zeroDeps ?S ?E))"
    by (rule checkEnumZeroCycles_decides) (simp_all only: programStructs_dom programEnums_dom)
  note l = loadTables_checks [OF True, of I, unfolded Let_def]
  from s show ?thesis
  proof (elim disjE conjE exE)
    fix x
    assume "checkStructCycles ?S ?sn = Some (Inl x)" "\<not> acyclic (edges (structDeps ?S))"
    then show ?thesis using struct_edges_acyclic [OF d] l by auto
  next
    assume a: "checkStructCycles ?S ?sn = Some (Inr ())" "\<forall>x. x \<in> grounded (structDeps ?S)"
    from e show ?thesis
    proof (elim disjE conjE exE)
      assume b: "checkEnumZeroCycles ?S ?E ?sn ?en = Some (Inr ())" "\<forall>n \<in> dom ?E. ZEnum n \<in> grounded (zeroDeps ?S ?E)"
      from zero_grounded [OF a(2) b(2)] have g: "\<forall>x. x \<in> grounded (zeroDeps ?S ?E)" .
      then have "acyclic (edges (zeroDeps ?S ?E))" by (intro acyclic_grounded) blast
      with g l a b True show ?thesis by simp
    qed (use a l in auto)
  qed
qed (use loadTables_duplicate in blast)

lemma loadProgram_Inr:
  "loadProgram I isModule prog = Some (Inr I') \<longleftrightarrow>
    (isModule \<or> rejectExportInScript prog = Inr ()) \<and> typeNamesDistinct prog \<and> acyclic (edges (zeroDeps (programStructs prog) (programEnums prog))) \<and>
    (\<exists>M. hoistMethods I (Methods prog) Map.empty = Inr M \<and>
      I' = I\<lparr>structs := programStructs prog, enums := programEnums prog, methods := M, entryGlobalsImmutable := \<not> isModule \<and> \<not> hasMutableTopLevelGlobal prog\<rparr>)"
    (is "_ \<longleftrightarrow> ?x \<and> ?n \<and> ?a \<and> _")
proof -
  have "(if isModule then Inr () else rejectExportInScript prog) = Inr () \<longleftrightarrow> ?x" by simp
  moreover have "loadTables I prog = Some (Inr (programStructs prog, programEnums prog))" if "?n" "?a"
    using loadTables_outcome [of I prog] that by blast
  moreover have "\<exists>e. loadTables I prog = Some (Inl e)" if "\<not> (?n \<and> ?a)"
    using loadTables_outcome [of I prog] that by blast
  ultimately show ?thesis unfolding loadProgram_def
    by (cases "?n \<and> ?a"; cases "if isModule then Inr () else rejectExportInScript prog"; cases "hoistMethods I (Methods prog) Map.empty") auto
qed

lemma loadProgram_total: "loadProgram I isModule prog \<noteq> None"
  using loadTables_outcome [of I prog] by (auto simp: loadProgram_def split: sum.split option.split)

lemma loaded_lookup:
  assumes "loadProgram I isModule prog = Some (Inr I')"
  shows "methods I' n = Some m \<longleftrightarrow> m \<in> set (Methods prog) \<and> mName m = n"
    and "structs I' n = Some s \<longleftrightarrow> s \<in> set (canonicalErrorStructDef # Structs prog) \<and> sName s = n"
    and "enums I' n = Some e \<longleftrightarrow> e \<in> set (Enums prog) \<and> edName e = n"
proof -
  obtain M where h: "typeNamesDistinct prog" "builds mName (Methods prog) Map.empty M"
    "I' = I\<lparr>structs := programStructs prog, enums := programEnums prog, methods := M, entryGlobalsImmutable := \<not> isModule \<and> \<not> hasMutableTopLevelGlobal prog\<rparr>"
    using assms by (auto simp: loadProgram_Inr hoistMethods_builds)
  have b: "builds sName (canonicalErrorStructDef # Structs prog) Map.empty (programStructs prog)"
    "builds edName (Enums prog) Map.empty (programEnums prog)"
    using h(1) by (auto simp: builds_def programStructs_def programEnums_def typeNamesDistinct_def canonicalErrorStructDef_def simp del: builds_Cons)
  show "methods I' n = Some m \<longleftrightarrow> m \<in> set (Methods prog) \<and> mName m = n"
    "structs I' n = Some s \<longleftrightarrow> s \<in> set (canonicalErrorStructDef # Structs prog) \<and> sName s = n"
    "enums I' n = Some e \<longleftrightarrow> e \<in> set (Enums prog) \<and> edName e = n"
    using builds_lookup [OF h(2), of n m] builds_lookup [OF b(1), of n s] builds_lookup [OF b(2), of n e] unfolding h(3) by simp_all
qed

text \<open>Every type of a loaded program has a zero value.\<close>

lemma loaded_zero:
  assumes "loadProgram I isModule prog = Some (Inr I')" "libRank I rank" "variants_ok (programEnums prog)"
  shows "\<exists>k. zeroField I' k p t \<noteq> None"
proof -
  obtain M where I': "I' = I\<lparr>structs := programStructs prog, enums := programEnums prog, methods := M, entryGlobalsImmutable := \<not> isModule \<and> \<not> hasMutableTopLevelGlobal prog\<rparr>"
    and n: "typeNamesDistinct prog" "acyclic (edges (zeroDeps (programStructs prog) (programEnums prog)))"
    using assms(1) by (auto simp: loadProgram_Inr)
  have g: "\<forall>x. x \<in> grounded (zeroDeps (structs I') (enums I'))" using loadTables_outcome [of I prog] n unfolding I' by auto
  have "canonicalNS I' = canonicalNS I" by (simp add: I' fun_eq_iff canonicalNS_def resolveNamespacePrefix_def split: option.split)
  with assms(2) have r: "libRank I' rank" by (simp add: libRank_def I')
  have v: "variants_ok (enums I')" using assms(3) by (simp add: I')
  show ?thesis
  proof (rule field_zero [OF r])
    fix y
    assume "localNamedDep (structs I') (enums I') t = Some y"
    then have "case y of ZStruct n \<Rightarrow> True | ZEnum n \<Rightarrow> enums I' n \<noteq> None" by (auto simp: localNamedDep_Some)
    then show "node_zero I' p y" using grounded_zero [OF r v] g by blast
  qed
qed

end
