(* ===== verification/Token.thy ===== *)
theory Token
  imports Utf8
begin

text \<open>
  The tokens of a source file (\<open>internal/lexer/token.go\<close>): the token kinds with their names, the pieces of an
  interpolated string, and the keyword table.
\<close>

text \<open>\<open>TokenType\<close> is an \<open>int\<close> and its constants count from zero (\<open>iota\<close>).\<close>

type_synonym tokenType = nat

abbreviation (input) "TOKEN_EOF \<equiv> 0 :: tokenType"
abbreviation (input) "TOKEN_ILLEGAL \<equiv> 1 :: tokenType"
abbreviation (input) "TOKEN_INT \<equiv> 2 :: tokenType"
abbreviation (input) "TOKEN_FLOAT \<equiv> 3 :: tokenType"
abbreviation (input) "TOKEN_STRING \<equiv> 4 :: tokenType"
abbreviation (input) "TOKEN_STRING_INTERP \<equiv> 5 :: tokenType"
abbreviation (input) "TOKEN_IDENT \<equiv> 6 :: tokenType"
abbreviation (input) "TOKEN_VARREF \<equiv> 7 :: tokenType"
abbreviation (input) "TOKEN_DEFINE \<equiv> 8 :: tokenType"
abbreviation (input) "TOKEN_FUNC \<equiv> 9 :: tokenType"
abbreviation (input) "TOKEN_AS \<equiv> 10 :: tokenType"
abbreviation (input) "TOKEN_INIT \<equiv> 11 :: tokenType"
abbreviation (input) "TOKEN_CONST \<equiv> 12 :: tokenType"
abbreviation (input) "TOKEN_INCLUDE \<equiv> 13 :: tokenType"
abbreviation (input) "TOKEN_IMPORT \<equiv> 14 :: tokenType"
abbreviation (input) "TOKEN_USE \<equiv> 15 :: tokenType"
abbreviation (input) "TOKEN_RETURN \<equiv> 16 :: tokenType"
abbreviation (input) "TOKEN_IF \<equiv> 17 :: tokenType"
abbreviation (input) "TOKEN_ELSEIF \<equiv> 18 :: tokenType"
abbreviation (input) "TOKEN_ELSE \<equiv> 19 :: tokenType"
abbreviation (input) "TOKEN_WHILE \<equiv> 20 :: tokenType"
abbreviation (input) "TOKEN_FOR \<equiv> 21 :: tokenType"
abbreviation (input) "TOKEN_REPEAT \<equiv> 22 :: tokenType"
abbreviation (input) "TOKEN_UNTIL \<equiv> 23 :: tokenType"
abbreviation (input) "TOKEN_MATCH \<equiv> 24 :: tokenType"
abbreviation (input) "TOKEN_WHEN \<equiv> 25 :: tokenType"
abbreviation (input) "TOKEN_BREAK \<equiv> 26 :: tokenType"
abbreviation (input) "TOKEN_CONTINUE \<equiv> 27 :: tokenType"
abbreviation (input) "TOKEN_EXIT \<equiv> 28 :: tokenType"
abbreviation (input) "TOKEN_TRY \<equiv> 29 :: tokenType"
abbreviation (input) "TOKEN_CATCH \<equiv> 30 :: tokenType"
abbreviation (input) "TOKEN_THROW \<equiv> 31 :: tokenType"
abbreviation (input) "TOKEN_DEFER \<equiv> 32 :: tokenType"
abbreviation (input) "TOKEN_ERRDEFER \<equiv> 33 :: tokenType"
abbreviation (input) "TOKEN_TRUE \<equiv> 34 :: tokenType"
abbreviation (input) "TOKEN_FALSE \<equiv> 35 :: tokenType"
abbreviation (input) "TOKEN_NULL \<equiv> 36 :: tokenType"
abbreviation (input) "TOKEN_AND \<equiv> 37 :: tokenType"
abbreviation (input) "TOKEN_OR \<equiv> 38 :: tokenType"
abbreviation (input) "TOKEN_NOT \<equiv> 39 :: tokenType"
abbreviation (input) "TOKEN_DIV \<equiv> 40 :: tokenType"
abbreviation (input) "TOKEN_INT_TYPE \<equiv> 41 :: tokenType"
abbreviation (input) "TOKEN_FLOAT_TYPE \<equiv> 42 :: tokenType"
abbreviation (input) "TOKEN_STRING_TYPE \<equiv> 43 :: tokenType"
abbreviation (input) "TOKEN_BOOL_TYPE \<equiv> 44 :: tokenType"
abbreviation (input) "TOKEN_BYTES_TYPE \<equiv> 45 :: tokenType"
abbreviation (input) "TOKEN_LIST \<equiv> 46 :: tokenType"
abbreviation (input) "TOKEN_MAP \<equiv> 47 :: tokenType"
abbreviation (input) "TOKEN_OF \<equiv> 48 :: tokenType"
abbreviation (input) "TOKEN_TO \<equiv> 49 :: tokenType"
abbreviation (input) "TOKEN_IN \<equiv> 50 :: tokenType"
abbreviation (input) "TOKEN_STRUCT \<equiv> 51 :: tokenType"
abbreviation (input) "TOKEN_ENUM \<equiv> 52 :: tokenType"
abbreviation (input) "TOKEN_LEN \<equiv> 53 :: tokenType"
abbreviation (input) "TOKEN_TASK \<equiv> 54 :: tokenType"
abbreviation (input) "TOKEN_SPAWN \<equiv> 55 :: tokenType"
abbreviation (input) "TOKEN_EXPORT \<equiv> 56 :: tokenType"
abbreviation (input) "TOKEN_LBRACE \<equiv> 57 :: tokenType"
abbreviation (input) "TOKEN_RBRACE \<equiv> 58 :: tokenType"
abbreviation (input) "TOKEN_LPAREN \<equiv> 59 :: tokenType"
abbreviation (input) "TOKEN_RPAREN \<equiv> 60 :: tokenType"
abbreviation (input) "TOKEN_LBRACKET \<equiv> 61 :: tokenType"
abbreviation (input) "TOKEN_RBRACKET \<equiv> 62 :: tokenType"
abbreviation (input) "TOKEN_SEMI \<equiv> 63 :: tokenType"
abbreviation (input) "TOKEN_COMMA \<equiv> 64 :: tokenType"
abbreviation (input) "TOKEN_COLON \<equiv> 65 :: tokenType"
abbreviation (input) "TOKEN_ASSIGN \<equiv> 66 :: tokenType"
abbreviation (input) "TOKEN_DOT \<equiv> 67 :: tokenType"
abbreviation (input) "TOKEN_DOTDOT \<equiv> 68 :: tokenType"
abbreviation (input) "TOKEN_PLUS \<equiv> 69 :: tokenType"
abbreviation (input) "TOKEN_MINUS \<equiv> 70 :: tokenType"
abbreviation (input) "TOKEN_STAR \<equiv> 71 :: tokenType"
abbreviation (input) "TOKEN_SLASH \<equiv> 72 :: tokenType"
abbreviation (input) "TOKEN_PERCENT \<equiv> 73 :: tokenType"
abbreviation (input) "TOKEN_LT \<equiv> 74 :: tokenType"
abbreviation (input) "TOKEN_GT \<equiv> 75 :: tokenType"
abbreviation (input) "TOKEN_LE \<equiv> 76 :: tokenType"
abbreviation (input) "TOKEN_GE \<equiv> 77 :: tokenType"
abbreviation (input) "TOKEN_EQ \<equiv> 78 :: tokenType"
abbreviation (input) "TOKEN_NEQ \<equiv> 79 :: tokenType"
abbreviation (input) "TOKEN_BIT_AND \<equiv> 80 :: tokenType"
abbreviation (input) "TOKEN_BIT_OR \<equiv> 81 :: tokenType"
abbreviation (input) "TOKEN_BIT_XOR \<equiv> 82 :: tokenType"
abbreviation (input) "TOKEN_BIT_NOT \<equiv> 83 :: tokenType"
abbreviation (input) "TOKEN_SHL \<equiv> 84 :: tokenType"
abbreviation (input) "TOKEN_SHR \<equiv> 85 :: tokenType"
abbreviation (input) "TOKEN_COMMENT_LINE \<equiv> 86 :: tokenType"
abbreviation (input) "TOKEN_COMMENT_BLOCK \<equiv> 87 :: tokenType"
abbreviation (input) "TOKEN_COMMENT_SHEBANG \<equiv> 88 :: tokenType"
abbreviation (input) "TOKEN_BLANK_LINE \<equiv> 89 :: tokenType"

definition tokenNames :: "(tokenType \<times> string) list" where
  "tokenNames =
    [(TOKEN_EOF, ''EOF''),
     (TOKEN_ILLEGAL, ''ILLEGAL''),
     (TOKEN_INT, ''INT''),
     (TOKEN_FLOAT, ''FLOAT''),
     (TOKEN_STRING, ''STRING''),
     (TOKEN_STRING_INTERP, ''STRING_INTERP''),
     (TOKEN_IDENT, ''IDENT''),
     (TOKEN_VARREF, ''VARREF''),
     (TOKEN_DEFINE, ''DEF''),
     (TOKEN_FUNC, ''FUNC''),
     (TOKEN_AS, ''AS''),
     (TOKEN_INIT, ''INIT''),
     (TOKEN_CONST, ''CONST''),
     (TOKEN_INCLUDE, ''INCLUDE''),
     (TOKEN_IMPORT, ''IMPORT''),
     (TOKEN_USE, ''USE''),
     (TOKEN_RETURN, ''RETURN''),
     (TOKEN_IF, ''IF''),
     (TOKEN_ELSEIF, ''ELSEIF''),
     (TOKEN_ELSE, ''ELSE''),
     (TOKEN_WHILE, ''WHILE''),
     (TOKEN_FOR, ''FOR''),
     (TOKEN_REPEAT, ''REPEAT''),
     (TOKEN_UNTIL, ''UNTIL''),
     (TOKEN_MATCH, ''MATCH''),
     (TOKEN_WHEN, ''WHEN''),
     (TOKEN_BREAK, ''BREAK''),
     (TOKEN_CONTINUE, ''CONTINUE''),
     (TOKEN_EXIT, ''EXIT''),
     (TOKEN_TRY, ''TRY''),
     (TOKEN_CATCH, ''CATCH''),
     (TOKEN_THROW, ''THROW''),
     (TOKEN_DEFER, ''DEFER''),
     (TOKEN_ERRDEFER, ''ERRDEFER''),
     (TOKEN_TRUE, ''TRUE''),
     (TOKEN_FALSE, ''FALSE''),
     (TOKEN_NULL, ''NULL''),
     (TOKEN_AND, ''AND''),
     (TOKEN_OR, ''OR''),
     (TOKEN_NOT, ''NOT''),
     (TOKEN_DIV, ''DIV''),
     (TOKEN_INT_TYPE, ''INT_TYPE''),
     (TOKEN_FLOAT_TYPE, ''FLOAT_TYPE''),
     (TOKEN_BYTES_TYPE, ''BYTES_TYPE''),
     (TOKEN_STRING_TYPE, ''STRING_TYPE''),
     (TOKEN_BOOL_TYPE, ''BOOL_TYPE''),
     (TOKEN_LIST, ''LIST''),
     (TOKEN_MAP, ''MAP''),
     (TOKEN_OF, ''OF''),
     (TOKEN_TO, ''TO''),
     (TOKEN_IN, ''IN''),
     (TOKEN_STRUCT, ''STRUCT''),
     (TOKEN_ENUM, ''ENUM''),
     (TOKEN_LEN, ''LEN''),
     (TOKEN_TASK, ''TASK''),
     (TOKEN_SPAWN, ''SPAWN''),
     (TOKEN_EXPORT, ''EXPORT''),
     (TOKEN_LBRACE, ''LBRACE''),
     (TOKEN_RBRACE, ''RBRACE''),
     (TOKEN_LPAREN, ''LPAREN''),
     (TOKEN_RPAREN, ''RPAREN''),
     (TOKEN_LBRACKET, ''LBRACKET''),
     (TOKEN_RBRACKET, ''RBRACKET''),
     (TOKEN_SEMI, ''SEMI''),
     (TOKEN_COMMA, ''COMMA''),
     (TOKEN_COLON, ''COLON''),
     (TOKEN_ASSIGN, ''ASSIGN''),
     (TOKEN_DOT, ''DOT''),
     (TOKEN_DOTDOT, ''DOTDOT''),
     (TOKEN_PLUS, ''PLUS''),
     (TOKEN_MINUS, ''MINUS''),
     (TOKEN_STAR, ''STAR''),
     (TOKEN_SLASH, ''SLASH''),
     (TOKEN_PERCENT, ''PERCENT''),
     (TOKEN_LT, ''LT''),
     (TOKEN_GT, ''GT''),
     (TOKEN_LE, ''LE''),
     (TOKEN_GE, ''GE''),
     (TOKEN_EQ, ''EQ''),
     (TOKEN_NEQ, ''NEQ''),
     (TOKEN_BIT_AND, ''BIT_AND''),
     (TOKEN_BIT_OR, ''BIT_OR''),
     (TOKEN_BIT_XOR, ''BIT_XOR''),
     (TOKEN_BIT_NOT, ''BIT_NOT''),
     (TOKEN_SHL, ''SHL''),
     (TOKEN_SHR, ''SHR''),
     (TOKEN_COMMENT_LINE, ''COMMENT_LINE''),
     (TOKEN_COMMENT_BLOCK, ''COMMENT_BLOCK''),
     (TOKEN_COMMENT_SHEBANG, ''COMMENT_SHEBANG''),
     (TOKEN_BLANK_LINE, ''BLANK_LINE'')]"

record stringPart =
  IsExpr :: bool
  Text :: string
  pLine :: nat
  pCol :: nat

record token =
  tType :: tokenType
  Lexeme :: string
  Raw :: string
  Parts :: "stringPart list"
  tLine :: nat
  tCol :: nat
  tFile :: string

definition keywordTable :: "(string \<times> tokenType) list" where
  "keywordTable =
    [(''def'', TOKEN_DEFINE),
     (''func'', TOKEN_FUNC),
     (''as'', TOKEN_AS),
     (''init'', TOKEN_INIT),
     (''const'', TOKEN_CONST),
     (''include'', TOKEN_INCLUDE),
     (''import'', TOKEN_IMPORT),
     (''use'', TOKEN_USE),
     (''return'', TOKEN_RETURN),
     (''if'', TOKEN_IF),
     (''elseif'', TOKEN_ELSEIF),
     (''else'', TOKEN_ELSE),
     (''while'', TOKEN_WHILE),
     (''for'', TOKEN_FOR),
     (''repeat'', TOKEN_REPEAT),
     (''until'', TOKEN_UNTIL),
     (''match'', TOKEN_MATCH),
     (''when'', TOKEN_WHEN),
     (''break'', TOKEN_BREAK),
     (''continue'', TOKEN_CONTINUE),
     (''exit'', TOKEN_EXIT),
     (''try'', TOKEN_TRY),
     (''catch'', TOKEN_CATCH),
     (''throw'', TOKEN_THROW),
     (''defer'', TOKEN_DEFER),
     (''errdefer'', TOKEN_ERRDEFER),
     (''true'', TOKEN_TRUE),
     (''false'', TOKEN_FALSE),
     (''null'', TOKEN_NULL),
     (''and'', TOKEN_AND),
     (''or'', TOKEN_OR),
     (''not'', TOKEN_NOT),
     (''int'', TOKEN_INT_TYPE),
     (''float'', TOKEN_FLOAT_TYPE),
     (''string'', TOKEN_STRING_TYPE),
     (''bool'', TOKEN_BOOL_TYPE),
     (''bytes'', TOKEN_BYTES_TYPE),
     (''list'', TOKEN_LIST),
     (''map'', TOKEN_MAP),
     (''of'', TOKEN_OF),
     (''to'', TOKEN_TO),
     (''in'', TOKEN_IN),
     (''struct'', TOKEN_STRUCT),
     (''enum'', TOKEN_ENUM),
     (''len'', TOKEN_LEN),
     (''task'', TOKEN_TASK),
     (''spawn'', TOKEN_SPAWN),
     (''export'', TOKEN_EXPORT)]"

definition lookupKeyword :: "string \<Rightarrow> tokenType option" where
  "lookupKeyword ident = map_of keywordTable ident"

lemma tokenNames_total: "t \<le> TOKEN_BLANK_LINE \<Longrightarrow> \<exists>n. map_of tokenNames t = Some n"
proof -
  have "sort (map fst tokenNames) = [0..<Suc TOKEN_BLANK_LINE]" by code_simp
  then have "set (map fst tokenNames) = set [0..<Suc TOKEN_BLANK_LINE]" by (metis set_sort)
  then show "t \<le> TOKEN_BLANK_LINE \<Longrightarrow> \<exists>n. map_of tokenNames t = Some n" by (auto simp: map_of_eq_None_iff less_Suc_eq_le simp flip: not_None_eq)
qed

text \<open>A keyword is spelled in one way, and no two keywords are the same token.\<close>

lemma keywords_inject: "lookupKeyword a = Some t \<Longrightarrow> lookupKeyword b = Some t \<Longrightarrow> a = b"
  unfolding lookupKeyword_def
proof -
  assume k: "map_of keywordTable a = Some t" "map_of keywordTable b = Some t"
  have "inj_on snd (set keywordTable)" using distinct_map [of snd keywordTable] by (simp add: keywordTable_def)
  from inj_onD [OF this _ map_of_SomeD [OF k(1)] map_of_SomeD [OF k(2)]] show "a = b" by simp
qed

end
