(* ===== verification/Lexer.thy ===== *)
theory Lexer
  imports Token
begin

text \<open>
  The scanner (\<open>internal/lexer/lexer.go\<close>): source text to tokens. The state keeps the runes still to read
  (\<open>src[pos:]\<close> of the code) and the position of the first of them. Line and column are natural numbers:
  a source has fewer runes than an \<open>int\<close> counts.
\<close>

section \<open>State and errors\<close>

text \<open>The limits of the build (\<open>internal/limits\<close>).\<close>

record limits =
  maxTokens :: nat
  MaxNestingDepth :: nat
  MaxSourceBytes :: nat

record lexer =
  rest :: "nat list"
  l_line :: nat
  l_col :: nat
  l_file :: string

datatype lexArg = LStr string | LNum nat | LRune nat

record lexError =
  leFmt :: string
  leArgs :: "lexArg list"
  leFile :: string
  leLine :: nat
  leCol :: nat

type_synonym 'a lexed = "lexError + 'a"

definition lexErr :: "lexer \<Rightarrow> string \<Rightarrow> lexArg list \<Rightarrow> nat \<Rightarrow> nat \<Rightarrow> 'a lexed" where
  "lexErr l f args sl sc = Inl \<lparr>leFmt = f, leArgs = args, leFile = l_file l, leLine = sl, leCol = sc\<rparr>"

text \<open>A token without \<open>Raw\<close>, \<open>Parts\<close> and \<open>File\<close>.\<close>

definition mkToken :: "tokenType \<Rightarrow> string \<Rightarrow> nat \<Rightarrow> nat \<Rightarrow> token" where
  "mkToken ty s sl sc = \<lparr>tType = ty, Lexeme = s, Raw = [], Parts = [], tLine = sl, tCol = sc, tFile = []\<rparr>"

definition newLexer :: "string \<Rightarrow> string \<Rightarrow> lexer" where
  "newLexer source file =
     (let runes = toRunes source
      in \<lparr>rest = (case runes of r # rs \<Rightarrow> if r = 0xFEFF then rs else runes | [] \<Rightarrow> []),
          l_line = 1, l_col = 1, l_file = file\<rparr>)"

definition advance :: "lexer \<Rightarrow> lexer" where
  "advance l = (case rest l of
     [] \<Rightarrow> l
   | c # cs \<Rightarrow> if c = 10 then l\<lparr>rest := cs, l_line := Suc (l_line l), l_col := 1\<rparr>
               else l\<lparr>rest := cs, l_col := Suc (l_col l)\<rparr>)"

definition peek :: "lexer \<Rightarrow> nat \<Rightarrow> nat option" where
  "peek l offset = (if offset < length (rest l) then Some (rest l ! offset) else None)"

lemma advance_rest [simp]: "rest (advance l) = tl (rest l)" "l_file (advance l) = l_file l"
  by (auto simp: advance_def split: list.split)

text \<open>What was read on the way from one state to another: \<open>c\<close>, which moves line and column.\<close>

fun moved :: "nat \<times> nat \<Rightarrow> nat list \<Rightarrow> nat \<times> nat" where
  "moved p [] = p"
| "moved (li, co) (r # rs) = moved (if r = 10 then (Suc li, 1) else (li, Suc co)) rs"

definition consumes :: "lexer \<Rightarrow> nat list \<Rightarrow> lexer \<Rightarrow> bool" where
  "consumes l c l' \<longleftrightarrow> rest l = c @ rest l' \<and> (l_line l', l_col l') = moved (l_line l, l_col l) c \<and> l_file l' = l_file l"

lemma moved_append: "moved p (c @ d) = moved (moved p c) d"
  by (induction p c rule: moved.induct) auto

lemma consumes_refl [simp]: "consumes l [] l"
  by (simp add: consumes_def)

lemma consumes_trans: "consumes l c l' \<Longrightarrow> consumes l' d l'' \<Longrightarrow> consumes l (c @ d) l''"
  by (auto simp: consumes_def moved_append)

lemma consumes_advance: "rest l = r # rs \<Longrightarrow> consumes l [r] (advance l)"
  by (simp add: consumes_def) (simp add: advance_def)

lemma consumes_step: "rest l = r # rs \<Longrightarrow> consumes (advance l) c l' \<Longrightarrow> consumes l (r # c) l'"
  using consumes_trans [OF consumes_advance] by fastforce

lemma consumes_shorter: "consumes l c l' \<Longrightarrow> length (rest l') + length c = length (rest l)"
  by (simp add: consumes_def)

text \<open>The runes read were appended to the builder.\<close>

definition copies :: "string \<Rightarrow> lexer \<Rightarrow> string \<Rightarrow> lexer \<Rightarrow> bool" where
  "copies b l b' l' \<longleftrightarrow> (\<exists>c. consumes l c l' \<and> b' = b @ ofRunes c)"

lemma ofRunes_Cons: "ofRunes (r # rs) = EncodeRune r @ ofRunes rs"
  by (simp add: ofRunes_def)

lemma char_of_byte: "char_of (byte c) = c"
  by (simp add: byte_def)

lemma EncodeRune_ascii: "byte c < 128 \<Longrightarrow> EncodeRune (byte c) = [c]"
  by (simp add: EncodeRune_def encodeScalar_def scalar_def) (simp add: byte_def)

lemma copies_refl [simp, intro]: "copies b l b l"
  unfolding copies_def by (rule exI [of _ "[]"]) (simp add: ofRunes_def)

lemma copies_step: "rest l = r # rs \<Longrightarrow> copies (b @ EncodeRune r) (advance l) b' l' \<Longrightarrow> copies b l b' l'"
  unfolding copies_def using consumes_step by (metis append.assoc ofRunes_Cons)

lemma copies_trans: "copies b l b' l' \<Longrightarrow> copies b' l' b'' l'' \<Longrightarrow> copies b l b'' l''"
  unfolding copies_def using consumes_trans by (fastforce simp: ofRunes_def)

lemma copies_shorter: "copies b l b' l' \<Longrightarrow> length (rest l') \<le> length (rest l)"
  unfolding copies_def using consumes_shorter by fastforce

lemma peek_1: "peek l 1 = Some c \<longleftrightarrow> (\<exists>r rs. rest l = r # c # rs)"
  by (cases "rest l"; cases "tl (rest l)") (auto simp: peek_def)

section \<open>Character classes\<close>

definition isASCIIDigit :: "nat \<Rightarrow> bool" where
  "isASCIIDigit r \<longleftrightarrow> byte (CHR ''0'') \<le> r \<and> r \<le> byte (CHR ''9'')"

definition isHexDigit :: "nat \<Rightarrow> bool" where
  "isHexDigit r \<longleftrightarrow> isASCIIDigit r \<or> byte (CHR ''a'') \<le> r \<and> r \<le> byte (CHR ''f'') \<or> byte (CHR ''A'') \<le> r \<and> r \<le> byte (CHR ''F'')"

definition isOctDigit :: "nat \<Rightarrow> bool" where
  "isOctDigit r \<longleftrightarrow> byte (CHR ''0'') \<le> r \<and> r \<le> byte (CHR ''7'')"

definition isBinDigit :: "nat \<Rightarrow> bool" where
  "isBinDigit r \<longleftrightarrow> r = byte (CHR ''0'') \<or> r = byte (CHR ''1'')"

definition hexDigitValue :: "nat \<Rightarrow> nat" where
  "hexDigitValue r =
     (if byte (CHR ''0'') \<le> r \<and> r \<le> byte (CHR ''9'') then r - byte (CHR ''0'')
      else if byte (CHR ''a'') \<le> r \<and> r \<le> byte (CHR ''f'') then r - byte (CHR ''a'') + 10
      else r - byte (CHR ''A'') + 10)"

definition baseName :: "nat \<Rightarrow> string" where
  "baseName base = (if base = 2 then ''binary'' else if base = 8 then ''octal'' else if base = 16 then ''hex'' else ''decimal'')"

definition isIdentStart :: "nat \<Rightarrow> bool" where
  "isIdentStart r \<longleftrightarrow> byte (CHR ''a'') \<le> r \<and> r \<le> byte (CHR ''z'') \<or> byte (CHR ''A'') \<le> r \<and> r \<le> byte (CHR ''Z'')"

definition isIdentPart :: "nat \<Rightarrow> bool" where
  "isIdentPart r \<longleftrightarrow> isIdentStart r \<or> isASCIIDigit r"

definition isIdentPartLoose :: "nat \<Rightarrow> bool" where
  "isIdentPartLoose r \<longleftrightarrow> isIdentStart r \<or> isASCIIDigit r \<or> r = byte (CHR ''_'')"

section \<open>Comments and blank lines\<close>

definition isSpace :: "nat \<Rightarrow> bool" where
  "isSpace r \<longleftrightarrow> r = 32 \<or> r = 9 \<or> r = 13"

function skipSpace :: "nat \<Rightarrow> lexer \<Rightarrow> nat \<times> lexer" where
  "skipSpace newlines l = (case rest l of
     [] \<Rightarrow> (newlines, l)
   | ch # _ \<Rightarrow>
       if ch = 10 then skipSpace (Suc newlines) (advance l)
       else if isSpace ch then skipSpace newlines (advance l)
       else (newlines, l))"
  by pat_completeness auto
termination
  by (relation "measure (\<lambda>(_, l). length (rest l))") auto

declare skipSpace.simps [simp del]

function lineLoop :: "string \<Rightarrow> lexer \<Rightarrow> string \<times> lexer" where
  "lineLoop b l = (case rest l of
     [] \<Rightarrow> (b, l)
   | ch # _ \<Rightarrow> if ch = 10 then (b, l) else lineLoop (b @ EncodeRune ch) (advance l))"
  by pat_completeness auto
termination
  by (relation "measure (\<lambda>(_, l). length (rest l))") auto

declare lineLoop.simps [simp del]

definition readLineComment :: "lexer \<Rightarrow> token \<times> lexer" where
  "readLineComment l =
     (let isShebang = (l_line l = 1 \<and> l_col l = 1 \<and> peek l 1 = Some (byte (CHR ''!'')));
          (b, l') = lineLoop [] l
      in (mkToken (if isShebang then TOKEN_COMMENT_SHEBANG else TOKEN_COMMENT_LINE) b (l_line l) (l_col l), l'))"

function blockLoop :: "limits \<Rightarrow> nat \<Rightarrow> nat \<Rightarrow> nat \<Rightarrow> string \<Rightarrow> lexer \<Rightarrow> (string \<times> lexer) lexed" where
  "blockLoop L sl sc depth b l =
     (if depth = 0 then Inr (b, l)
      else case rest l of
        [] \<Rightarrow> lexErr l ''unterminated block comment'' [] sl sc
      | ch # _ \<Rightarrow>
          if ch = byte (CHR ''/'') \<and> peek l 1 = Some (byte (CHR ''*'')) then
            (if MaxNestingDepth L < Suc depth then lexErr l ''block comment nesting exceeds %d levels'' [LNum (MaxNestingDepth L)] sl sc
             else blockLoop L sl sc (Suc depth) (b @ ''/*'') (advance (advance l)))
          else if ch = byte (CHR ''*'') \<and> peek l 1 = Some (byte (CHR ''/'')) then
            blockLoop L sl sc (depth - 1) (b @ ''*/'') (advance (advance l))
          else blockLoop L sl sc depth (b @ EncodeRune ch) (advance l))"
  by pat_completeness auto
termination
  by (relation "measure (\<lambda>(_, _, _, _, _, l). length (rest l))") auto

declare blockLoop.simps [simp del]

definition readBlockComment :: "limits \<Rightarrow> lexer \<Rightarrow> (token \<times> lexer) lexed" where
  "readBlockComment L l = (case blockLoop L (l_line l) (l_col l) 1 ''/*'' (advance (advance l)) of
     Inl e \<Rightarrow> Inl e
   | Inr (b, l') \<Rightarrow> Inr (mkToken TOKEN_COMMENT_BLOCK b (l_line l) (l_col l), l'))"

text \<open>\<open>None\<close>: the caller reads a regular token from here.\<close>

definition nextTrivia :: "limits \<Rightarrow> lexer \<Rightarrow> (token option \<times> lexer) lexed" where
  "nextTrivia L l0 = (let (newlines, l) = skipSpace 0 l0 in
     if 2 \<le> newlines then Inr (Some (mkToken TOKEN_BLANK_LINE [] (l_line l0) (l_col l0)), l)
     else case rest l of
       [] \<Rightarrow> Inr (None, l)
     | ch # _ \<Rightarrow>
         if ch = byte (CHR ''#'') then Inr (apfst Some (readLineComment l))
         else if ch = byte (CHR ''/'') \<and> peek l 1 = Some (byte (CHR ''*'')) then map_sum id (apfst Some) (readBlockComment L l)
         else Inr (None, l))"

section \<open>Strings\<close>

function readRawString :: "nat \<Rightarrow> nat \<Rightarrow> string \<Rightarrow> lexer \<Rightarrow> (token \<times> lexer) lexed" where
  "readRawString sl sc b l = (case rest l of
     [] \<Rightarrow> lexErr l ''unterminated string literal'' [] sl sc
   | ch # _ \<Rightarrow>
       if ch = 39 then Inr (mkToken TOKEN_STRING b sl sc, advance l)
       else readRawString sl sc (b @ EncodeRune ch) (advance l))"
  by pat_completeness auto
termination
  by (relation "measure (\<lambda>(_, _, _, l). length (rest l))") auto

declare readRawString.simps [simp del]

text \<open>The hex digits of a Unicode escape, \<open>n\<close> still to read.\<close>

fun hexLoop :: "nat \<Rightarrow> nat \<Rightarrow> lexer \<Rightarrow> (nat \<times> lexer) option" where
  "hexLoop 0 v l = Some (v, l)"
| "hexLoop (Suc n) v l = (case rest l of
     [] \<Rightarrow> None
   | ch # _ \<Rightarrow> if isHexDigit ch then hexLoop n (v * 16 + hexDigitValue ch) (advance l) else None)"

definition readUnicodeEscape :: "nat \<Rightarrow> lexer \<Rightarrow> (nat \<times> lexer) lexed" where
  "readUnicodeEscape width l = (let letter = hd (rest l) in
     case hexLoop width 0 (advance l) of
       None \<Rightarrow> lexErr l (CHR 0x5C # ''%c escape needs exactly %d hex digits'') [LRune letter, LNum width] (l_line l) (l_col l)
     | Some (v, l') \<Rightarrow>
         if 0x10FFFF < v \<or> 0xD800 \<le> v \<and> v \<le> 0xDFFF
         then lexErr l (CHR 0x5C # ''%c escape U+%04X is not a valid Unicode code point'') [LRune letter, LNum v] (l_line l) (l_col l)
         else Inr (v, l'))"

text \<open>The escapes of one letter.\<close>

definition simpleEscape :: "nat \<Rightarrow> nat option" where
  "simpleEscape esc = map_of
     [(byte (CHR ''n''), 10), (byte (CHR ''r''), 13), (byte (CHR ''t''), 9), (92, 92), (34, 34), (39, 39),
      (byte (CHR ''{''), byte (CHR ''{'')), (byte (CHR ''}''), byte (CHR ''}'')), (byte (CHR ''0''), 0)] esc"

definition readCookedEscape :: "nat \<Rightarrow> nat \<Rightarrow> lexer \<Rightarrow> (nat \<times> lexer) lexed" where
  "readCookedEscape sl sc l0 = (let l = advance l0 in
     case rest l of
       [] \<Rightarrow> lexErr l ''unterminated escape in string'' [] sl sc
     | esc # _ \<Rightarrow> (case simpleEscape esc of
         Some r \<Rightarrow> Inr (r, advance l)
       | None \<Rightarrow>
           if esc = byte (CHR ''u'') then readUnicodeEscape 4 l
           else if esc = byte (CHR ''U'') then readUnicodeEscape 8 l
           else lexErr l (''unknown escape sequence '' @ [CHR 0x5C] @ ''%c'') [LRune esc] (l_line l) (l_col l)))"

text \<open>A string literal inside an interpolation slot, copied up to its closing quote.\<close>

function nestedLoop :: "nat \<Rightarrow> nat \<Rightarrow> nat \<Rightarrow> string \<Rightarrow> lexer \<Rightarrow> (string \<times> lexer) lexed" where
  "nestedLoop quote sl sc b l = (case rest l of
     [] \<Rightarrow> lexErr l ''unterminated string literal in interpolation slot'' [] sl sc
   | ch # cs \<Rightarrow>
       if quote \<noteq> 39 \<and> ch = 92 then
         (case cs of
            [] \<Rightarrow> lexErr l ''unterminated escape in string'' [] sl sc
          | c # _ \<Rightarrow> nestedLoop quote sl sc (b @ EncodeRune ch @ EncodeRune c) (advance (advance l)))
       else if ch = quote then Inr (b @ EncodeRune ch, advance l)
       else nestedLoop quote sl sc (b @ EncodeRune ch) (advance l))"
  by pat_completeness auto
termination
  by (relation "measure (\<lambda>(_, _, _, _, l). length (rest l))") auto

declare nestedLoop.simps [simp del]

definition copyNestedString :: "string \<Rightarrow> nat \<Rightarrow> lexer \<Rightarrow> (string \<times> lexer) lexed" where
  "copyNestedString b quote l = nestedLoop quote (l_line l) (l_col l) (b @ EncodeRune quote) (advance l)"

lemma nestedLoop_copies: "nestedLoop quote sl sc b l = Inr (b', l') \<Longrightarrow> copies b l b' l'"
proof (induction quote sl sc b l arbitrary: b' l' rule: nestedLoop.induct)
  case (1 quote sl sc b l)
  show ?case
  proof (cases "rest l")
    case Nil
    with 1(3) show ?thesis by (subst (asm) nestedLoop.simps) (simp add: lexErr_def)
  next
    case (Cons ch cs)
    note step = copies_step [OF Cons, of b b' l']
    show ?thesis
    proof (cases "quote \<noteq> 39 \<and> ch = 92")
      case True
      with 1(3) Cons obtain c cs' where c: "cs = c # cs'"
        and n: "nestedLoop quote sl sc (b @ EncodeRune ch @ EncodeRune c) (advance (advance l)) = Inr (b', l')"
        by (subst (asm) nestedLoop.simps) (auto simp: lexErr_def split: list.splits)
      have r: "rest (advance l) = c # cs'" using Cons c by simp
      show ?thesis by (rule step, rule copies_step [OF r]) (use 1(1) [OF Cons True c n] in simp)
    next
      case False
      with 1(3) Cons step 1(2) [OF Cons False] show ?thesis by (subst (asm) nestedLoop.simps) (auto split: if_splits)
    qed
  qed
qed

lemma copyNestedString_copies:
  assumes "rest l = quote # cs" "copyNestedString b quote l = Inr (b', l')"
  shows "copies b l b' l' \<and> length (rest l') < length (rest l)"
proof -
  have "copies (b @ EncodeRune quote) (advance l) b' l'" using assms(2) nestedLoop_copies unfolding copyNestedString_def by blast
  with copies_step [OF assms(1)] copies_shorter [OF this] assms(1) show ?thesis by fastforce
qed

function slotLoop :: "limits \<Rightarrow> nat \<Rightarrow> nat \<Rightarrow> nat \<Rightarrow> string \<Rightarrow> lexer \<Rightarrow> (string \<times> lexer) lexed" where
  "slotLoop L sl sc depth b l = (case rest l of
     [] \<Rightarrow> lexErr l ''unterminated interpolation slot `{` in string literal'' [] sl sc
   | ch # cs \<Rightarrow>
       if ch = byte (CHR ''{'') then
         (if MaxNestingDepth L < Suc depth then lexErr l ''interpolation slot nesting exceeds %d levels'' [LNum (MaxNestingDepth L)] sl sc
          else slotLoop L sl sc (Suc depth) (b @ EncodeRune ch) (advance l))
       else if ch = byte (CHR ''}'') then
         (if depth - 1 = 0 then Inr (b, advance l)
          else slotLoop L sl sc (depth - 1) (b @ EncodeRune ch) (advance l))
       else if ch = 34 \<or> ch = 39 then
         (case copyNestedString b ch l of
            Inl e \<Rightarrow> Inl e
          | Inr (b', l') \<Rightarrow> slotLoop L sl sc depth b' l')
       else if ch = 92 then
         (case cs of
            [] \<Rightarrow> slotLoop L sl sc depth (b @ EncodeRune ch) (advance l)
          | c # _ \<Rightarrow> slotLoop L sl sc depth (b @ EncodeRune ch @ EncodeRune c) (advance (advance l)))
       else slotLoop L sl sc depth (b @ EncodeRune ch) (advance l))"
  by pat_completeness auto
termination
  by (relation "measure (\<lambda>(_, _, _, _, _, l). length (rest l))") (use copyNestedString_copies in fastforce)+

declare slotLoop.simps [simp del]

definition scanInterpSlot :: "limits \<Rightarrow> nat \<Rightarrow> nat \<Rightarrow> lexer \<Rightarrow> (string \<times> lexer) lexed" where
  "scanInterpSlot L sl sc l = slotLoop L sl sc 1 [] l"

lemma slotLoop_copies:
  "slotLoop L sl sc depth b l = Inr (b', l') \<Longrightarrow>
    \<exists>l1 rs. copies b l b' l1 \<and> rest l1 = byte (CHR ''}'') # rs \<and> l' = advance l1"
proof (induction L sl sc depth b l arbitrary: b' l' rule: slotLoop.induct)
  case (1 L sl sc depth b l)
  show ?case
  proof (cases "rest l")
    case Nil
    with 1(7) show ?thesis by (subst (asm) slotLoop.simps) (simp add: lexErr_def)
  next
    case (Cons ch cs)
    note step = copies_step [OF Cons]
    consider (brace) "ch = byte (CHR ''{'')" | (close) "ch = byte (CHR ''}'')"
      | (string) "ch = 34 \<or> ch = 39" | (bslash) "ch = 92" | (other) "ch \<noteq> byte (CHR ''{'')" "ch \<noteq> byte (CHR ''}'')" "\<not> (ch = 34 \<or> ch = 39)" "ch \<noteq> 92"
      by blast
    then show ?thesis
    proof cases
      case brace
      with 1(7) Cons have "\<not> MaxNestingDepth L < Suc depth" "slotLoop L sl sc (Suc depth) (b @ EncodeRune ch) (advance l) = Inr (b', l')"
        by (subst (asm) slotLoop.simps, auto simp: lexErr_def split: if_splits)+
      with 1(1) [OF Cons brace] step show ?thesis by blast
    next
      case close
      have n: "ch \<noteq> byte (CHR ''{'')" unfolding close by (simp add: byte_def)
      show ?thesis
      proof (cases "depth - 1 = 0")
        case True
        with 1(7) Cons close n have "b' = b" "l' = advance l" by (subst (asm) slotLoop.simps, simp)+
        with Cons close show ?thesis by blast
      next
        case False
        with 1(7) Cons close n have "slotLoop L sl sc (depth - 1) (b @ EncodeRune ch) (advance l) = Inr (b', l')"
          by (subst (asm) slotLoop.simps) simp
        with 1(2) [OF Cons n close False] step show ?thesis by blast
      qed
    next
      case string
      then have n: "ch \<noteq> byte (CHR ''{'')" "ch \<noteq> byte (CHR ''}'')" by (auto simp: byte_def)
      with 1(7) Cons string obtain b1 l1 where c: "copyNestedString b ch l = Inr (b1, l1)" "slotLoop L sl sc depth b1 l1 = Inr (b', l')"
        by (subst (asm) slotLoop.simps) (auto split: sum.splits)
      from 1(3) [OF Cons n string c(1) refl c(2)] copyNestedString_copies [OF Cons c(1)] copies_trans show ?thesis by blast
    next
      case bslash
      then have n: "ch \<noteq> byte (CHR ''{'')" "ch \<noteq> byte (CHR ''}'')" "\<not> (ch = 34 \<or> ch = 39)" by (auto simp: byte_def)
      show ?thesis
      proof (cases cs)
        case Nil
        with 1(7) Cons bslash n have "slotLoop L sl sc depth (b @ EncodeRune ch) (advance l) = Inr (b', l')"
          by (subst (asm) slotLoop.simps) simp
        with 1(4) [OF Cons n bslash Nil] step show ?thesis by blast
      next
        case c: (Cons c cs')
        with 1(7) Cons bslash n have "slotLoop L sl sc depth (b @ EncodeRune ch @ EncodeRune c) (advance (advance l)) = Inr (b', l')"
          by (subst (asm) slotLoop.simps) simp
        from 1(5) [OF Cons n bslash c this] obtain l1 rs where l1: "copies (b @ EncodeRune ch @ EncodeRune c) (advance (advance l)) b' l1"
          "rest l1 = byte (CHR ''}'') # rs" "l' = advance l1" by blast
        have "rest (advance l) = c # cs'" using Cons c by simp
        from step [OF copies_step [OF this]] l1 show ?thesis by auto
      qed
    next
      case other
      with 1(7) Cons have "slotLoop L sl sc depth (b @ EncodeRune ch) (advance l) = Inr (b', l')"
        by (subst (asm) slotLoop.simps) simp
      with 1(6) [OF Cons other] step show ?thesis by blast
    qed
  qed
qed

lemma hexLoop_consumes: "hexLoop n v l = Some (v', l') \<Longrightarrow> \<exists>c. consumes l c l' \<and> length c = n"
proof (induction n v l arbitrary: v' l' rule: hexLoop.induct)
  case (2 n v l)
  then obtain ch cs where ch: "rest l = ch # cs" "isHexDigit ch" "hexLoop n (v * 16 + hexDigitValue ch) (advance l) = Some (v', l')"
    by (auto split: list.splits if_splits)
  from 2(1) [OF this] consumes_step [OF ch(1)] show ?case by (metis length_Cons)
qed auto

lemma readCookedEscape_consumes:
  assumes "rest l = r # rs" "readCookedEscape sl sc l = Inr (v, l')"
  shows "\<exists>c. consumes l c l' \<and> c \<noteq> []"
proof -
  from assms(2) obtain esc cs where e: "rest (advance l) = esc # cs"
    by (cases "rest (advance l)") (auto simp: readCookedEscape_def Let_def lexErr_def)
  have u: "\<exists>c. consumes (advance l) c l'" if "readUnicodeEscape n (advance l) = Inr (v, l')" for n
    using that hexLoop_consumes [of n 0 "advance (advance l)"] consumes_step [OF e]
    by (fastforce simp: readUnicodeEscape_def Let_def lexErr_def split: option.splits if_splits)
  have "\<exists>c. consumes (advance l) c l'"
    using assms(2) u consumes_advance [OF e]
    unfolding readCookedEscape_def Let_def e by (auto simp: lexErr_def split: option.splits if_splits)
  then show ?thesis using consumes_step [OF assms(1)] by blast
qed

definition flush :: "string \<Rightarrow> stringPart list \<Rightarrow> stringPart list" where
  "flush lit parts = (if lit \<noteq> [] then parts @ [\<lparr>IsExpr = False, Text = lit, pLine = 0, pCol = 0\<rparr>] else parts)"

function cookedLoop :: "limits \<Rightarrow> nat \<Rightarrow> nat \<Rightarrow> string \<Rightarrow> stringPart list \<Rightarrow> bool \<Rightarrow> lexer \<Rightarrow> (token \<times> lexer) lexed" where
  "cookedLoop L sl sc lit parts hasExpr l = (case rest l of
     [] \<Rightarrow> lexErr l ''unterminated string literal'' [] sl sc
   | ch # _ \<Rightarrow>
       if ch = 34 then
         Inr (if \<not> hasExpr then mkToken TOKEN_STRING lit sl sc
              else (mkToken TOKEN_STRING_INTERP [] sl sc)\<lparr>Parts := flush lit parts\<rparr>, advance l)
       else if ch = 92 then
         (case readCookedEscape sl sc l of
            Inl e \<Rightarrow> Inl e
          | Inr (r, l') \<Rightarrow> cookedLoop L sl sc (lit @ EncodeRune r) parts hasExpr l')
       else if ch = byte (CHR ''{'') then
         (if maxTokens L \<le> length parts
          then lexErr l ''interpolated string exceeds %d slots; the literal is too large'' [LNum (maxTokens L)] sl sc
          else case scanInterpSlot L sl sc (advance l) of
            Inl e \<Rightarrow> Inl e
          | Inr (src, l') \<Rightarrow>
              cookedLoop L sl sc [] (flush lit parts @ [\<lparr>IsExpr = True, Text = src, pLine = l_line (advance l), pCol = l_col (advance l)\<rparr>]) True l')
       else if ch = byte (CHR ''}'') then
         lexErr l (''unexpected `}` in string literal; write `'' @ [CHR 0x5C] @ ''}` for a literal `}`'') [] (l_line l) (l_col l)
       else cookedLoop L sl sc (lit @ EncodeRune ch) parts hasExpr (advance l))"
  by pat_completeness auto

lemma scanInterpSlot_consumes:
  assumes "rest l = r # rs" "scanInterpSlot L sl sc (advance l) = Inr (src, l')"
  shows "\<exists>c. consumes l (r # c) l' \<and> ofRunes c = src @ ''}''"
proof -
  obtain l1 cs where "copies [] (advance l) src l1" "rest l1 = byte (CHR ''}'') # cs" "l' = advance l1"
    using slotLoop_copies assms(2) unfolding scanInterpSlot_def by blast
  then obtain c where c: "consumes (advance l) c l1" "src = ofRunes c" "consumes l1 [byte (CHR ''}'')] l'"
    unfolding copies_def using consumes_advance by auto
  have "ofRunes [byte (CHR ''}'')] = ''}''" using EncodeRune_ascii [of "CHR ''}''"] by (simp add: ofRunes_def byte_def)
  then have "ofRunes (c @ [byte (CHR ''}'')]) = src @ ''}''" using c(2) by (simp add: ofRunes_def)
  then show ?thesis using consumes_step [OF assms(1) consumes_trans [OF c(1,3)]] by blast
qed

termination cookedLoop
proof (relation "measure (\<lambda>(_, _, _, _, _, _, l). length (rest l))", goal_cases)
  case (2 L sl sc lit parts hasExpr l ch cs p r l')
  then obtain c where "consumes l c l'" "c \<noteq> []" using readCookedEscape_consumes [of l ch cs sl sc r l'] by auto
  then show ?case using consumes_shorter [of l c l'] by (simp flip: length_greater_0_conv)
next
  case (3 L sl sc lit parts hasExpr l ch cs p src l')
  then obtain c where "consumes l (ch # c) l'" using scanInterpSlot_consumes [of l ch cs L sl sc src l'] by auto
  then show ?case using consumes_shorter [of l "ch # c" l'] by simp
qed auto

declare cookedLoop.simps [simp del]

definition readCookedString :: "limits \<Rightarrow> nat \<Rightarrow> nat \<Rightarrow> lexer \<Rightarrow> (token \<times> lexer) lexed" where
  "readCookedString L sl sc l = cookedLoop L sl sc [] [] False l"

definition readString :: "limits \<Rightarrow> nat \<Rightarrow> nat \<Rightarrow> nat \<Rightarrow> lexer \<Rightarrow> (token \<times> lexer) lexed" where
  "readString L quote sl sc l =
     (if quote = 39 then readRawString sl sc [] (advance l) else readCookedString L sl sc (advance l))"

section \<open>Names and numbers\<close>

function identLoop :: "(nat \<Rightarrow> bool) \<Rightarrow> string \<Rightarrow> nat \<Rightarrow> nat \<Rightarrow> string \<Rightarrow> lexer \<Rightarrow> (string \<times> lexer) lexed" where
  "identLoop part msg sl sc b l = (case rest l of
     [] \<Rightarrow> Inr (b, l)
   | ch # _ \<Rightarrow>
       if part ch then
         (if 64 < length (b @ EncodeRune ch) then lexErr l msg [LStr (b @ EncodeRune ch)] sl sc
          else identLoop part msg sl sc (b @ EncodeRune ch) (advance l))
       else Inr (b, l))"
  by pat_completeness auto
termination
  by (relation "measure (\<lambda>(_, _, _, _, _, l). length (rest l))") auto

declare identLoop.simps [simp del]

definition readVarRef :: "nat \<Rightarrow> nat \<Rightarrow> lexer \<Rightarrow> (token \<times> lexer) lexed" where
  "readVarRef sl sc l0 = (let l = advance l0 in
     if (case rest l of [] \<Rightarrow> True | ch # _ \<Rightarrow> \<not> isIdentStart ch)
     then lexErr l (''expected identifier after '' @ [CHR 0x27, CHR ''$'', CHR 0x27]) [] sl sc
     else map_sum id (apfst (\<lambda>name. mkToken TOKEN_VARREF name sl sc))
       (identLoop isIdentPart (''variable name '' @ [CHR 0x22] @ ''%.40s...'' @ [CHR 0x22] @ '' exceeds 64 characters'') sl sc [] l))"

definition readIdentifierOrKeyword :: "nat \<Rightarrow> nat \<Rightarrow> lexer \<Rightarrow> (token \<times> lexer) lexed" where
  "readIdentifierOrKeyword sl sc l =
     (case identLoop isIdentPartLoose (''identifier '' @ [CHR 0x22] @ ''%.40s...'' @ [CHR 0x22] @ '' exceeds 64 characters'') sl sc [] l of
        Inl e \<Rightarrow> Inl e
      | Inr (name, l') \<Rightarrow> (case lookupKeyword name of
          Some tt \<Rightarrow> Inr (mkToken tt name sl sc, l')
        | None \<Rightarrow>
            if last name = CHR ''_'' then lexErr l ''identifier %q may not end with `_`'' [LStr name] sl sc
            else Inr (mkToken TOKEN_IDENT name sl sc, l')))"

text \<open>The digits of a literal, without their separators.\<close>

function digitsLoop :: "(nat \<Rightarrow> bool) \<Rightarrow> string \<Rightarrow> nat \<Rightarrow> nat \<Rightarrow> string \<Rightarrow> bool \<Rightarrow> lexer \<Rightarrow> (string \<times> bool \<times> lexer) lexed" where
  "digitsLoop isDigit kind sl sc b prevWasUnderscore l = (case rest l of
     [] \<Rightarrow> Inr (b, prevWasUnderscore, l)
   | c # _ \<Rightarrow>
       if isDigit c then digitsLoop isDigit kind sl sc (b @ EncodeRune c) False (advance l)
       else if c = byte (CHR ''_'') then
         (if b = [] then lexErr l ''`_` digit separator may not start a %s literal'' [LStr kind] sl sc
          else if prevWasUnderscore then lexErr l ''consecutive `_` in numeric literal'' [] sl sc
          else digitsLoop isDigit kind sl sc b True (advance l))
       else Inr (b, prevWasUnderscore, l))"
  by pat_completeness auto
termination
  by (relation "measure (\<lambda>(_, _, _, _, _, _, l). length (rest l))") auto

declare digitsLoop.simps [simp del]

definition readSeparatedDigits :: "nat \<Rightarrow> nat \<Rightarrow> (nat \<Rightarrow> bool) \<Rightarrow> string \<Rightarrow> lexer \<Rightarrow> (string \<times> lexer) lexed" where
  "readSeparatedDigits sl sc isDigit kind l = (case digitsLoop isDigit kind sl sc [] False l of
     Inl e \<Rightarrow> Inl e
   | Inr (b, prevWasUnderscore, l') \<Rightarrow>
       if prevWasUnderscore then lexErr l ''`_` digit separator may not end a %s literal'' [LStr kind] sl sc
       else Inr (b, l'))"

definition readBasedInt :: "nat \<Rightarrow> nat \<Rightarrow> nat \<Rightarrow> string \<Rightarrow> (nat \<Rightarrow> bool) \<Rightarrow> lexer \<Rightarrow> (token \<times> lexer) lexed" where
  "readBasedInt sl sc base prefix isDigit l0 = (let l = advance (advance l0) in
     if (case rest l of [] \<Rightarrow> True | ch # _ \<Rightarrow> \<not> isDigit ch)
     then lexErr l ''expected %s digit after `%s`'' [LStr (baseName base), LStr prefix] sl sc
     else map_sum id (apfst (\<lambda>digits. mkToken TOKEN_INT (prefix @ digits) sl sc))
       (readSeparatedDigits sl sc isDigit (baseName base) l))"

function skipDigits :: "lexer \<Rightarrow> lexer" where
  "skipDigits l = (case rest l of [] \<Rightarrow> l | ch # _ \<Rightarrow> if isASCIIDigit ch then skipDigits (advance l) else l)"
  by pat_completeness auto
termination
  by (relation "measure (\<lambda>l. length (rest l))") auto

declare skipDigits.simps [simp del]

text \<open>\<open>string(l.src[p:q])\<close>, the states at \<open>p\<close> and at \<open>q\<close> given.\<close>

definition between :: "lexer \<Rightarrow> lexer \<Rightarrow> string" where
  "between l l' = ofRunes (take (length (rest l) - length (rest l')) (rest l))"

definition readFraction :: "nat \<Rightarrow> nat \<Rightarrow> string \<Rightarrow> lexer \<Rightarrow> (string \<times> bool \<times> lexer) lexed" where
  "readFraction sl sc lexeme l = (case rest l of
     c # d # _ \<Rightarrow>
       if c = byte (CHR ''.'') \<and> isASCIIDigit d
       then map_sum id (\<lambda>(fraction, l'). (lexeme @ ''.'' @ fraction, True, l'))
         (readSeparatedDigits sl sc isASCIIDigit ''decimal'' (advance l))
       else Inr (lexeme, False, l)
   | _ \<Rightarrow> Inr (lexeme, False, l))"

definition readExponent :: "nat \<Rightarrow> nat \<Rightarrow> string \<Rightarrow> bool \<Rightarrow> lexer \<Rightarrow> (string \<times> bool \<times> lexer) lexed" where
  "readExponent sl sc lexeme isFloat l =
     (if peek l 0 = Some (byte (CHR ''e'')) \<or> peek l 0 = Some (byte (CHR ''E'')) then
        (let l1 = advance l;
             l2 = (if peek l1 0 = Some (byte (CHR ''+'')) \<or> peek l1 0 = Some (byte (CHR ''-'')) then advance l1 else l1)
         in if (case rest l2 of [] \<Rightarrow> True | ch # _ \<Rightarrow> \<not> isASCIIDigit ch)
            then lexErr l ''exponent in float literal requires at least one digit'' [] sl sc
            else Inr (lexeme @ between l (skipDigits l2), True, skipDigits l2))
      else Inr (lexeme, isFloat, l))"

definition readDecimal :: "nat \<Rightarrow> nat \<Rightarrow> lexer \<Rightarrow> (token \<times> lexer) lexed" where
  "readDecimal sl sc l = (case readSeparatedDigits sl sc isASCIIDigit ''decimal'' l of
     Inl e \<Rightarrow> Inl e
   | Inr (digits, l1) \<Rightarrow> (case readFraction sl sc digits l1 of
       Inl e \<Rightarrow> Inl e
     | Inr (lexeme, isFloat, l2) \<Rightarrow> (case readExponent sl sc lexeme isFloat l2 of
         Inl e \<Rightarrow> Inl e
       | Inr (lexeme', isFloat', l3) \<Rightarrow> Inr (mkToken (if isFloat' then TOKEN_FLOAT else TOKEN_INT) lexeme' sl sc, l3))))"

text \<open>The base that a prefix selects.\<close>

definition basePrefix :: "lexer \<Rightarrow> (nat \<times> string \<times> (nat \<Rightarrow> bool)) option" where
  "basePrefix l = (case rest l of
     z # c # _ \<Rightarrow>
       if z \<noteq> byte (CHR ''0'') then None
       else if c = byte (CHR ''x'') \<or> c = byte (CHR ''X'') then Some (16, ''0x'', isHexDigit)
       else if c = byte (CHR ''o'') \<or> c = byte (CHR ''O'') then Some (8, ''0o'', isOctDigit)
       else if c = byte (CHR ''b'') \<or> c = byte (CHR ''B'') then Some (2, ''0b'', isBinDigit)
       else None
   | _ \<Rightarrow> None)"

definition readNumber :: "nat \<Rightarrow> nat \<Rightarrow> lexer \<Rightarrow> (token \<times> lexer) lexed" where
  "readNumber sl sc l = (case basePrefix l of
     Some (base, prefix, isDigit) \<Rightarrow> readBasedInt sl sc base prefix isDigit l
   | None \<Rightarrow> readDecimal sl sc l)"

section \<open>Tokens\<close>

definition withRaw :: "lexer \<Rightarrow> (token \<times> lexer) lexed \<Rightarrow> (token \<times> lexer) lexed" where
  "withRaw l r = map_sum id (\<lambda>(tok, l'). (tok\<lparr>Raw := between l l'\<rparr>, l')) r"

text \<open>The tokens of one character.\<close>

definition punctuation :: "nat \<Rightarrow> tokenType option" where
  "punctuation ch = map_of
     [(byte (CHR ''{''), TOKEN_LBRACE), (byte (CHR ''}''), TOKEN_RBRACE), (byte (CHR ''(''), TOKEN_LPAREN),
      (byte (CHR '')''), TOKEN_RPAREN), (byte (CHR ''[''), TOKEN_LBRACKET), (byte (CHR '']''), TOKEN_RBRACKET),
      (byte (CHR '';''), TOKEN_SEMI), (byte (CHR '':''), TOKEN_COLON), (byte (CHR '',''), TOKEN_COMMA),
      (byte (CHR ''&''), TOKEN_BIT_AND), (byte (CHR ''|''), TOKEN_BIT_OR), (byte (CHR ''^''), TOKEN_BIT_XOR),
      (byte (CHR ''~''), TOKEN_BIT_NOT), (byte (CHR ''+''), TOKEN_PLUS), (byte (CHR ''-''), TOKEN_MINUS),
      (byte (CHR ''*''), TOKEN_STAR), (byte (CHR ''%''), TOKEN_PERCENT)] ch"

text \<open>The operators of one character that a second one extends: the extensions, and the token without.\<close>

definition operatorStart :: "nat \<Rightarrow> ((nat \<times> tokenType) list \<times> tokenType) option" where
  "operatorStart ch = map_of
     [(byte (CHR ''=''), ([(byte (CHR ''=''), TOKEN_EQ)], TOKEN_ASSIGN)),
      (byte (CHR ''<''), ([(byte (CHR ''=''), TOKEN_LE), (byte (CHR ''<''), TOKEN_SHL)], TOKEN_LT)),
      (byte (CHR ''>''), ([(byte (CHR ''=''), TOKEN_GE), (byte (CHR ''>''), TOKEN_SHR)], TOKEN_GT)),
      (byte (CHR ''/''), ([(byte (CHR ''/''), TOKEN_DIV)], TOKEN_SLASH)),
      (byte (CHR ''.''), ([(byte (CHR ''.''), TOKEN_DOTDOT)], TOKEN_DOT))] ch"

definition readOperator :: "(nat \<times> tokenType) list \<Rightarrow> tokenType \<Rightarrow> lexer \<Rightarrow> token \<times> lexer" where
  "readOperator exts ty l = (case Option.bind (peek (advance l) 0) (\<lambda>c. map_option (Pair c) (map_of exts c)) of
     Some (c, ty') \<Rightarrow> (mkToken ty' [char_of (hd (rest l)), char_of c] (l_line l) (l_col l), advance (advance l))
   | None \<Rightarrow> (mkToken ty [char_of (hd (rest l))] (l_line l) (l_col l), advance l))"

definition readToken :: "limits \<Rightarrow> nat \<Rightarrow> lexer \<Rightarrow> (token \<times> lexer) lexed" where
  "readToken L ch l = (let sl = l_line l; sc = l_col l in
     case punctuation ch of
       Some ty \<Rightarrow> Inr (mkToken ty [char_of ch] sl sc, advance l)
     | None \<Rightarrow> (case operatorStart ch of
         Some (exts, ty) \<Rightarrow> Inr (readOperator exts ty l)
       | None \<Rightarrow>
           if ch = byte (CHR ''!'') then
             (if peek (advance l) 0 = Some (byte (CHR ''='')) then Inr (mkToken TOKEN_NEQ ''!='' sl sc, advance (advance l))
              else lexErr l (''unexpected character '' @ [CHR 0x27] @ ''!'' @ [CHR 0x27] @ ''; use `not` for logical negation, or `!=` for inequality'') [] sl sc)
           else if ch = 34 \<or> ch = 39 then withRaw l (readString L ch sl sc l)
           else if ch = byte (CHR ''$'') then readVarRef sl sc l
           else if isASCIIDigit ch then withRaw l (readNumber sl sc l)
           else if isIdentStart ch then readIdentifierOrKeyword sl sc l
           else lexErr l ''unexpected character %q'' [LRune ch] sl sc))"

definition Next :: "limits \<Rightarrow> lexer \<Rightarrow> (token \<times> lexer) lexed" where
  "Next L l0 = (case nextTrivia L l0 of
     Inl e \<Rightarrow> Inl e
   | Inr (Some tok, l) \<Rightarrow> Inr (tok, l)
   | Inr (None, l) \<Rightarrow> (case rest l of
       [] \<Rightarrow> Inr (mkToken TOKEN_EOF [] (l_line l) (l_col l), l)
     | ch # _ \<Rightarrow> readToken L ch l))"

function tokenizeAll :: "limits \<Rightarrow> token list \<Rightarrow> lexer \<Rightarrow> token list lexed" where
  "tokenizeAll L out l = (case Next L l of
     Inl e \<Rightarrow> Inl e
   | Inr (tok0, l') \<Rightarrow>
       let tok = (if l_file l \<noteq> [] then tok0\<lparr>tFile := l_file l\<rparr> else tok0)
       in if maxTokens L \<le> length out
          then Inl \<lparr>leFmt = ''token budget exceeded (over %d tokens); the source file is too large to lex'', leArgs = [LNum (maxTokens L)],
            leFile = tFile tok, leLine = tLine tok, leCol = tCol tok\<rparr>
          else if tType tok = TOKEN_EOF then Inr (out @ [tok])
          else tokenizeAll L (out @ [tok]) l')"
  by pat_completeness auto

section \<open>What a token was read from\<close>

lemma between_consumes: "consumes l c l' \<Longrightarrow> between l l' = ofRunes c"
  by (simp add: between_def consumes_def)

lemma skipSpace_consumes:
  "skipSpace n l = (n', l') \<Longrightarrow> \<exists>g. consumes l g l' \<and> (\<forall>r \<in> set g. r = 10 \<or> isSpace r) \<and> n' = n + count_list g 10 \<and>
    (\<forall>r rs. rest l' = r # rs \<longrightarrow> r \<noteq> 10 \<and> \<not> isSpace r)"
proof (induction n l arbitrary: n' l' rule: skipSpace.induct)
  case (1 n l)
  show ?case
  proof (cases "rest l")
    case Nil
    with 1(3) show ?thesis by (subst (asm) skipSpace.simps) (auto intro!: exI [of _ "[]"])
  next
    case (Cons ch cs)
    consider (nl) "ch = 10" "skipSpace (Suc n) (advance l) = (n', l')" | (sp) "ch \<noteq> 10" "isSpace ch" "skipSpace n (advance l) = (n', l')"
      | (stop) "ch \<noteq> 10" "\<not> isSpace ch" "n' = n" "l' = l"
      using 1(3) Cons by (subst (asm) skipSpace.simps) (auto split: if_splits)
    then show ?thesis
    proof cases
      case nl
      from 1(1) [OF Cons nl] obtain g where "consumes (advance l) g l'" "\<forall>r \<in> set g. r = 10 \<or> isSpace r" "n' = Suc n + count_list g 10"
        "\<forall>r rs. rest l' = r # rs \<longrightarrow> r \<noteq> 10 \<and> \<not> isSpace r" by blast
      with consumes_step [OF Cons] nl(1) show ?thesis by (intro exI [of _ "ch # g"]) auto
    next
      case sp
      from 1(2) [OF Cons sp] obtain g where "consumes (advance l) g l'" "\<forall>r \<in> set g. r = 10 \<or> isSpace r" "n' = n + count_list g 10"
        "\<forall>r rs. rest l' = r # rs \<longrightarrow> r \<noteq> 10 \<and> \<not> isSpace r" by blast
      with consumes_step [OF Cons] sp(1,2) show ?thesis by (intro exI [of _ "ch # g"]) auto
    qed (use Cons in \<open>auto intro!: exI [of _ "[]"]\<close>)
  qed
qed

lemma lineLoop_copies: "lineLoop b l = (b', l') \<Longrightarrow> copies b l b' l'"
proof (induction b l rule: lineLoop.induct)
  case (1 b l)
  show ?case
  proof (cases "rest l")
    case (Cons ch cs)
    then show ?thesis using 1 copies_step [OF Cons, of b b' l'] by (subst (asm) (2) lineLoop.simps) (auto split: if_splits)
  qed (use 1(2) in \<open>auto simp: lineLoop.simps\<close>)
qed

lemma byte_slash_star: "EncodeRune (byte (CHR ''/'')) = ''/''" "EncodeRune (byte (CHR ''*'')) = ''*''"
  by (rule EncodeRune_ascii, simp add: byte_def)+

lemma blockLoop_copies: "blockLoop L sl sc depth b l = Inr (b', l') \<Longrightarrow> copies b l b' l'"
proof (induction L sl sc depth b l rule: blockLoop.induct)
  case (1 L sl sc depth b l)
  show ?case
  proof (cases "depth = 0")
    case True
    with 1(4) show ?thesis by (auto simp: blockLoop.simps)
  next
    case d: False
    show ?thesis
    proof (cases "rest l")
      case Nil
      with 1(4) d show ?thesis by (simp add: blockLoop.simps lexErr_def)
    next
      case (Cons ch cs)
      have two: "copies b l b' l'" if "copies (b @ EncodeRune ch @ EncodeRune c) (advance (advance l)) b' l'" "peek l 1 = Some c" for c
      proof -
        from that(2) obtain rs where "rest (advance l) = c # rs" using Cons unfolding peek_1 by auto
        from copies_step [OF Cons copies_step [OF this]] that(1) show ?thesis by simp
      qed
      consider (start) "ch = byte (CHR ''/'')" "peek l 1 = Some (byte (CHR ''*''))"
        | (fin) "ch = byte (CHR ''*'')" "peek l 1 = Some (byte (CHR ''/''))"
        | (go) "\<not> (ch = byte (CHR ''/'') \<and> peek l 1 = Some (byte (CHR ''*'')))" "\<not> (ch = byte (CHR ''*'') \<and> peek l 1 = Some (byte (CHR ''/'')))"
        by blast
      then show ?thesis
      proof cases
        case start
        with 1(4) d Cons have n: "\<not> MaxNestingDepth L < Suc depth" "blockLoop L sl sc (Suc depth) (b @ ''/*'') (advance (advance l)) = Inr (b', l')"
          by (subst (asm) blockLoop.simps, auto simp: lexErr_def split: if_splits)+
        from 1(1) [OF d Cons _ n] start two [OF _ start(2)] show ?thesis by (simp add: byte_slash_star)
      next
        case fin
        have ne: "byte (CHR ''*'') \<noteq> byte (CHR ''/'')" by (simp add: byte_def)
        with fin 1(4) d Cons have n: "blockLoop L sl sc (depth - 1) (b @ ''*/'') (advance (advance l)) = Inr (b', l')"
          by (subst (asm) blockLoop.simps) auto
        from 1(2) [OF d Cons _ _ n] fin ne two [OF _ fin(2)] show ?thesis by (simp add: byte_slash_star)
      next
        case go
        with 1(4) d Cons have n: "blockLoop L sl sc depth (b @ EncodeRune ch) (advance l) = Inr (b', l')"
          by (subst (asm) blockLoop.simps) (auto split: if_splits)
        from 1(3) [OF d Cons go n] copies_step [OF Cons] show ?thesis by blast
      qed
    qed
  qed
qed

text \<open>A literal read from \<open>l\<close>: its kind, position, and that something was read.\<close>

definition literal :: "nat \<Rightarrow> nat \<Rightarrow> lexer \<Rightarrow> token \<Rightarrow> lexer \<Rightarrow> bool" where
  "literal sl sc l t l' \<longleftrightarrow> (\<exists>c. c \<noteq> [] \<and> consumes l c l') \<and>
     tType t \<in> {TOKEN_INT, TOKEN_FLOAT, TOKEN_STRING, TOKEN_STRING_INTERP} \<and> tLine t = sl \<and> tCol t = sc"

lemma literal_step: "rest l = r # rs \<Longrightarrow> literal sl sc (advance l) t l' \<Longrightarrow> literal sl sc l t l'"
  unfolding literal_def using consumes_step by blast

lemma literal_trans: "consumes l c l1 \<Longrightarrow> literal sl sc l1 t l' \<Longrightarrow> literal sl sc l t l'"
  unfolding literal_def using consumes_trans by (metis append_is_Nil_conv)

lemma mkToken_simps [simp]: "tType (mkToken ty s sl sc) = ty" "Lexeme (mkToken ty s sl sc) = s" "Raw (mkToken ty s sl sc) = []"
  "Parts (mkToken ty s sl sc) = []" "tLine (mkToken ty s sl sc) = sl" "tCol (mkToken ty s sl sc) = sc" "tFile (mkToken ty s sl sc) = []"
  by (simp_all add: mkToken_def)

lemma literal_end: "rest l = r # rs \<Longrightarrow> tType t \<in> {TOKEN_INT, TOKEN_FLOAT, TOKEN_STRING, TOKEN_STRING_INTERP} \<Longrightarrow> tLine t = sl \<Longrightarrow> tCol t = sc \<Longrightarrow>
    literal sl sc l t (advance l)"
  unfolding literal_def using consumes_advance by blast

lemma readRawString_literal: "readRawString sl sc b l = Inr (t, l') \<Longrightarrow> literal sl sc l t l'"
proof (induction sl sc b l rule: readRawString.induct)
  case (1 sl sc b l)
  show ?case
  proof (cases "rest l")
    case Nil
    with 1(2) show ?thesis by (simp add: readRawString.simps lexErr_def)
  next
    case (Cons ch cs)
    show ?thesis
    proof (cases "ch = 39")
      case True
      with 1(2) Cons show ?thesis by (subst (asm) readRawString.simps) (auto intro!: literal_end)
    next
      case False
      with 1 Cons literal_step [OF Cons] show ?thesis by (subst (asm) (2) readRawString.simps) auto
    qed
  qed
qed

lemma cookedLoop_literal: "cookedLoop L sl sc lit parts hasExpr l = Inr (t, l') \<Longrightarrow> literal sl sc l t l'"
proof (induction L sl sc lit parts hasExpr l rule: cookedLoop.induct)
  case (1 L sl sc lit parts hasExpr l)
  show ?case
  proof (cases "rest l")
    case Nil
    with 1(4) show ?thesis by (simp add: cookedLoop.simps lexErr_def)
  next
    case (Cons ch cs)
    consider (quote) "ch = 34" | (esc) "ch = 92" | (slot) "ch \<noteq> 34" "ch \<noteq> 92" "ch = byte (CHR ''{'')"
      | (other) "ch \<noteq> 34" "ch \<noteq> 92" "ch \<noteq> byte (CHR ''{'')" by blast
    then show ?thesis
    proof cases
      case quote
      with 1(4) Cons show ?thesis by (cases hasExpr; subst (asm) cookedLoop.simps) (auto intro!: literal_end)
    next
      case esc
      with 1(4) Cons obtain r l1 where e: "readCookedEscape sl sc l = Inr (r, l1)" "cookedLoop L sl sc (lit @ EncodeRune r) parts hasExpr l1 = Inr (t, l')"
        by (subst (asm) cookedLoop.simps) (auto split: sum.splits)
      from 1(1) [OF Cons _ esc e(1) refl e(2)] esc readCookedEscape_consumes [OF Cons e(1)] literal_trans show ?thesis by auto
    next
      case slot
      with 1(4) Cons obtain src l1 where n: "\<not> maxTokens L \<le> length parts" and e: "scanInterpSlot L sl sc (advance l) = Inr (src, l1)"
        and c: "cookedLoop L sl sc [] (flush lit parts @ [\<lparr>IsExpr = True, Text = src, pLine = l_line (advance l), pCol = l_col (advance l)\<rparr>]) True l1 = Inr (t, l')"
        by (subst (asm) cookedLoop.simps) (auto simp: lexErr_def split: sum.splits if_splits)
      from 1(2) [OF Cons slot n e refl c] scanInterpSlot_consumes [OF Cons e] literal_trans show ?thesis by blast
    next
      case other
      with 1(4) Cons have "ch \<noteq> byte (CHR ''}'')" "cookedLoop L sl sc (lit @ EncodeRune ch) parts hasExpr (advance l) = Inr (t, l')"
        by (subst (asm) cookedLoop.simps, auto simp: lexErr_def split: if_splits)+
      with 1(3) [OF Cons other] literal_step [OF Cons] show ?thesis by blast
    qed
  qed
qed

lemma identLoop_copies:
  "identLoop part msg sl sc b l = Inr (b', l') \<Longrightarrow> copies b l b' l' \<and> (\<forall>r rs. rest l = r # rs \<longrightarrow> part r \<longrightarrow> length (rest l') < length (rest l))"
proof (induction part msg sl sc b l rule: identLoop.induct)
  case (1 part msg sl sc b l)
  show ?case
  proof (cases "rest l")
    case Nil
    with 1(2) show ?thesis by (auto simp: identLoop.simps)
  next
    case (Cons ch cs)
    show ?thesis
    proof (cases "part ch")
      case True
      with 1(2) Cons have n: "\<not> 64 < length (b @ EncodeRune ch)" "identLoop part msg sl sc (b @ EncodeRune ch) (advance l) = Inr (b', l')"
        by (subst (asm) identLoop.simps, auto simp: lexErr_def split: if_splits)+
      from 1(1) [OF Cons True n] copies_step [OF Cons] copies_shorter [of _ "advance l" b' l'] Cons show ?thesis by fastforce
    next
      case False
      with 1(2) Cons show ?thesis by (subst (asm) identLoop.simps) auto
    qed
  qed
qed

lemma digitsLoop_consumes:
  "digitsLoop isDigit kind sl sc b u l = Inr (b', u', l') \<Longrightarrow>
    \<exists>c. consumes l c l' \<and> (\<forall>r rs. rest l = r # rs \<longrightarrow> isDigit r \<longrightarrow> c \<noteq> [])"
proof (induction isDigit kind sl sc b u l rule: digitsLoop.induct)
  case (1 isDigit kind sl sc b u l)
  show ?case
  proof (cases "rest l")
    case Nil
    with 1(3) show ?thesis by (auto simp: digitsLoop.simps intro: exI [of _ "[]"])
  next
    case (Cons ch cs)
    consider (digit) "isDigit ch" "digitsLoop isDigit kind sl sc (b @ EncodeRune ch) False (advance l) = Inr (b', u', l')"
      | (sep) "\<not> isDigit ch" "ch = byte (CHR ''_'')" "b \<noteq> []" "\<not> u" "digitsLoop isDigit kind sl sc b True (advance l) = Inr (b', u', l')"
      | (stop) "\<not> isDigit ch" "l' = l"
      using 1(3) Cons by (subst (asm) digitsLoop.simps) (auto simp: lexErr_def split: if_splits)
    then show ?thesis
    proof cases
      case digit
      from 1(1) [OF Cons digit] consumes_step [OF Cons] show ?thesis by blast
    next
      case sep
      from 1(2) [OF Cons sep] consumes_step [OF Cons] show ?thesis by blast
    next
      case stop
      then show ?thesis using Cons by (intro exI [of _ "[]"]) simp
    qed
  qed
qed

lemma readSeparatedDigits_consumes:
  "readSeparatedDigits sl sc isDigit kind l = Inr (b, l') \<Longrightarrow> \<exists>c. consumes l c l' \<and> (\<forall>r rs. rest l = r # rs \<longrightarrow> isDigit r \<longrightarrow> c \<noteq> [])"
  by (auto simp: readSeparatedDigits_def lexErr_def split: sum.splits if_splits dest!: digitsLoop_consumes)

lemma skipDigits_consumes: "\<exists>c. consumes l c (skipDigits l)"
proof (induction l rule: skipDigits.induct)
  case (1 l)
  show ?case
  proof (cases "rest l")
    case Nil
    then show ?thesis by (auto simp: skipDigits.simps intro: exI [of _ "[]"])
  next
    case (Cons ch cs)
    show ?thesis
    proof (cases "isASCIIDigit ch")
      case True
      with 1 [OF Cons True] consumes_step [OF Cons] Cons show ?thesis by (subst skipDigits.simps) auto
    next
      case False
      then show ?thesis using Cons by (subst skipDigits.simps) (auto intro: exI [of _ "[]"])
    qed
  qed
qed

lemma peek_0: "peek l 0 = Some c \<longleftrightarrow> (\<exists>rs. rest l = c # rs)"
  by (cases "rest l") (auto simp: peek_def)

lemma map_sum_Inr_iff: "map_sum f g r = Inr y \<longleftrightarrow> (\<exists>x. r = Inr x \<and> y = g x)"
  by (cases r) auto

lemma readFraction_consumes:
  assumes "readFraction sl sc s l = Inr (s', f, l')"
  shows "\<exists>c. consumes l c l'"
proof (cases "\<exists>d rs. rest l = byte (CHR ''.'') # d # rs \<and> isASCIIDigit d")
  case True
  then obtain d rs where d: "rest l = byte (CHR ''.'') # d # rs" "isASCIIDigit d" by blast
  with assms obtain b where "readSeparatedDigits sl sc isASCIIDigit ''decimal'' (advance l) = Inr (b, l')"
    by (auto simp: readFraction_def map_sum_Inr_iff)
  from readSeparatedDigits_consumes [OF this] consumes_step [OF d(1)] show ?thesis by blast
next
  case False
  with assms have "l' = l" by (auto simp: readFraction_def split: list.splits if_splits)
  then show ?thesis by (intro exI [of _ "[]"]) simp
qed

lemma readExponent_consumes:
  assumes "readExponent sl sc s f l = Inr (s', f', l')"
  shows "\<exists>c. consumes l c l'"
proof (cases "peek l 0 = Some (byte (CHR ''e'')) \<or> peek l 0 = Some (byte (CHR ''E''))")
  case True
  then obtain e rs where e: "rest l = e # rs" unfolding peek_0 by blast
  define l2 where "l2 = (if peek (advance l) 0 = Some (byte (CHR ''+'')) \<or> peek (advance l) 0 = Some (byte (CHR ''-'')) then advance (advance l) else advance l)"
  have "\<exists>c. consumes (advance l) c l2"
    using consumes_advance [of "advance l"] unfolding l2_def peek_0 by (auto intro: exI [of _ "[]"])
  moreover have "l' = skipDigits l2" using assms True unfolding readExponent_def Let_def l2_def [symmetric] by (auto simp: lexErr_def split: if_splits)
  ultimately show ?thesis using skipDigits_consumes [of l2] consumes_trans consumes_step [OF e] by blast
next
  case False
  then show ?thesis using assms by (auto simp: readExponent_def intro: exI [of _ "[]"])
qed

lemma readNumber_literal:
  assumes "rest l = ch # cs" "isASCIIDigit ch" "readNumber sl sc l = Inr (t, l')"
  shows "literal sl sc l t l'"
proof (cases "basePrefix l")
  case (Some p)
  obtain base prefix isDigit where p: "p = (base, prefix, isDigit)" by (cases p)
  obtain c cs' where c: "cs = c # cs'" using Some assms(1) by (cases cs) (auto simp: basePrefix_def)
  from assms(3) Some p obtain b where "readSeparatedDigits sl sc isDigit (baseName base) (advance (advance l)) = Inr (b, l')" "t = mkToken TOKEN_INT (prefix @ b) sl sc"
    by (auto simp: readNumber_def readBasedInt_def Let_def lexErr_def map_sum_Inr_iff split: if_splits)
  moreover have r: "rest (advance l) = c # cs'" using assms(1) c by simp
  ultimately obtain d where "consumes (advance (advance l)) d l'" "t = mkToken TOKEN_INT (prefix @ b) sl sc"
    using readSeparatedDigits_consumes by blast
  with consumes_step [OF assms(1) consumes_step [OF r]] show ?thesis unfolding literal_def by auto
next
  case None
  with assms(3) obtain digits l1 s f l2 s' f' where
    r: "readSeparatedDigits sl sc isASCIIDigit ''decimal'' l = Inr (digits, l1)" "readFraction sl sc digits l1 = Inr (s, f, l2)"
      "readExponent sl sc s f l2 = Inr (s', f', l')" "t = mkToken (if f' then TOKEN_FLOAT else TOKEN_INT) s' sl sc"
    by (auto simp: readNumber_def readDecimal_def split: sum.splits)
  from readSeparatedDigits_consumes [OF r(1)] assms(1,2) obtain c where "consumes l c l1" "c \<noteq> []" by blast
  moreover obtain d where "consumes l1 d l'" using readFraction_consumes [OF r(2)] readExponent_consumes [OF r(3)] consumes_trans by blast
  ultimately show ?thesis using consumes_trans [of l c l1 d l'] r(4) unfolding literal_def by auto
qed

text \<open>The source text of a token.\<close>

definition spelling :: "token \<Rightarrow> string" where
  "spelling t =
     (if tType t \<in> {TOKEN_INT, TOKEN_FLOAT, TOKEN_STRING, TOKEN_STRING_INTERP} then Raw t
      else if tType t = TOKEN_VARREF then CHR ''$'' # Lexeme t
      else Lexeme t)"

text \<open>A token read right at \<open>l\<close>.\<close>

definition lexes :: "lexer \<Rightarrow> token \<Rightarrow> lexer \<Rightarrow> bool" where
  "lexes l t l' \<longleftrightarrow> (\<exists>c. c \<noteq> [] \<and> consumes l c l' \<and> spelling t = ofRunes c) \<and> tLine t = l_line l \<and> tCol t = l_col l \<and>
     tType t \<noteq> TOKEN_EOF \<and> tType t \<noteq> TOKEN_BLANK_LINE"

lemma lexes_literal:
  assumes "literal (l_line l) (l_col l) l t l'" "r = Inr (t, l')" "withRaw l r = Inr (t', l'')"
  shows "lexes l t' l''"
  using assms between_consumes [of l _ l'] by (auto simp: literal_def lexes_def withRaw_def spelling_def)

lemma copies_nonempty:
  assumes "copies [] l b l'" "length (rest l') < length (rest l)"
  shows "\<exists>c. c \<noteq> [] \<and> consumes l c l' \<and> b = ofRunes c"
proof -
  from assms(1) obtain c where c: "consumes l c l'" "b = ofRunes c" by (auto simp: copies_def)
  moreover have "c \<noteq> []" using consumes_shorter [OF c(1)] assms(2) by auto
  ultimately show ?thesis by blast
qed

lemma keyword_types: "lookupKeyword s = Some t \<Longrightarrow> TOKEN_DEFINE \<le> t \<and> t \<le> TOKEN_EXPORT"
proof -
  have "list_all (\<lambda>(_, t). TOKEN_DEFINE \<le> t \<and> t \<le> TOKEN_EXPORT) keywordTable" by (simp add: keywordTable_def)
  moreover assume "lookupKeyword s = Some t"
  ultimately show ?thesis unfolding lookupKeyword_def list_all_iff by (auto dest!: map_of_SomeD)
qed

lemma readIdentifier_lexes:
  assumes "rest l = ch # cs" "isIdentStart ch" "readIdentifierOrKeyword (l_line l) (l_col l) l = Inr (t, l')"
  shows "lexes l t l'"
proof -
  obtain msg name ty where n: "identLoop isIdentPartLoose msg (l_line l) (l_col l) [] l = Inr (name, l')"
    and t: "t = mkToken ty name (l_line l) (l_col l)" "ty = TOKEN_IDENT \<or> lookupKeyword name = Some ty"
    using assms(3) by (auto simp: readIdentifierOrKeyword_def lexErr_def split: sum.splits option.splits if_splits)
  from identLoop_copies [OF n] assms(1,2) have "copies [] l name l'" "length (rest l') < length (rest l)"
    by (auto simp: isIdentPartLoose_def)
  with copies_nonempty show ?thesis using t keyword_types [of name ty] by (auto simp: lexes_def spelling_def)
qed

lemma readVarRef_lexes:
  assumes "rest l = byte (CHR ''$'') # cs" "readVarRef (l_line l) (l_col l) l = Inr (t, l')"
  shows "lexes l t l'"
proof -
  obtain msg name where n: "identLoop isIdentPart msg (l_line l) (l_col l) [] (advance l) = Inr (name, l')"
    and t: "t = mkToken TOKEN_VARREF name (l_line l) (l_col l)"
    using assms(2) by (auto simp: readVarRef_def Let_def lexErr_def map_sum_Inr_iff split: if_splits)
  from identLoop_copies [OF n] obtain c where "consumes (advance l) c l'" "name = ofRunes c" by (auto simp: copies_def)
  moreover have "EncodeRune (byte (CHR ''$'')) = ''$''" by (rule EncodeRune_ascii) (simp add: byte_def)
  ultimately show ?thesis using consumes_step [OF assms(1)] t
    by (auto simp: lexes_def spelling_def ofRunes_Cons intro!: exI [of _ "byte (CHR ''$'') # c"])
qed

lemma encode_ascii: "r < 128 \<Longrightarrow> EncodeRune r = [char_of r]"
  by (simp add: EncodeRune_def encodeScalar_def scalar_def)

lemma punctuation_ascii: "punctuation ch = Some ty \<Longrightarrow> ch < 128 \<and> TOKEN_VARREF < ty \<and> ty < TOKEN_COMMENT_LINE"
  by (auto simp: punctuation_def byte_def split: if_splits)

lemma operator_ascii:
  "operatorStart ch = Some (exts, ty) \<Longrightarrow> ch < 128 \<and> TOKEN_VARREF < ty \<and> ty < TOKEN_COMMENT_LINE \<and>
    (\<forall>c ty'. map_of exts c = Some ty' \<longrightarrow> c < 128 \<and> TOKEN_VARREF < ty' \<and> ty' < TOKEN_COMMENT_LINE)"
  by (auto simp: operatorStart_def byte_def split: if_splits)

lemma lexes_one:
  assumes "rest l = ch # cs" "ch < 128" "TOKEN_VARREF < ty" "ty < TOKEN_COMMENT_LINE"
  shows "lexes l (mkToken ty [char_of ch] (l_line l) (l_col l)) (advance l)"
  using assms consumes_advance [OF assms(1)]
  by (auto simp: lexes_def spelling_def ofRunes_def encode_ascii intro!: exI [of _ "[ch]"])

lemma lexes_two:
  assumes "rest l = ch # c # cs" "ch < 128" "c < 128" "TOKEN_VARREF < ty" "ty < TOKEN_COMMENT_LINE"
  shows "lexes l (mkToken ty [char_of ch, char_of c] (l_line l) (l_col l)) (advance (advance l))"
proof -
  have "rest (advance l) = c # cs" using assms(1) by simp
  from consumes_step [OF assms(1) consumes_advance [OF this]] show ?thesis
    using assms(2-) by (auto simp: lexes_def spelling_def ofRunes_def encode_ascii intro!: exI [of _ "[ch, c]"])
qed

lemma readOperator_lexes:
  assumes "rest l = ch # cs" "operatorStart ch = Some (exts, ty)" "readOperator exts ty l = (t, l')"
  shows "lexes l t l'"
proof (cases "Option.bind (peek (advance l) 0) (\<lambda>c. map_option (Pair c) (map_of exts c))")
  case None
  then show ?thesis using assms lexes_one [OF assms(1)] operator_ascii [OF assms(2)] by (auto simp: readOperator_def)
next
  case (Some p)
  then obtain c ty' where p: "p = (c, ty')" "peek (advance l) 0 = Some c" "map_of exts c = Some ty'"
    by (cases "peek (advance l) 0") auto
  obtain cs' where r: "rest l = ch # c # cs'" using p(2) assms(1) unfolding peek_0 by auto
  show ?thesis using assms(3) Some p(1) lexes_two [OF r] operator_ascii [OF assms(2)] p(3) by (auto simp: readOperator_def r)
qed

lemma readToken_lexes:
  assumes r: "rest l = ch # cs" and t: "readToken L ch l = Inr (t, l')"
  shows "lexes l t l'"
proof (cases "punctuation ch")
  case (Some ty)
  then show ?thesis using t lexes_one [OF r] punctuation_ascii [OF Some] by (auto simp: readToken_def Let_def)
next
  case p: None
  show ?thesis
  proof (cases "operatorStart ch")
    case (Some x)
    then show ?thesis using t p readOperator_lexes [OF r, of "fst x" "snd x" t l'] by (cases x) (auto simp: readToken_def Let_def)
  next
    case None
    note t' = t [unfolded readToken_def Let_def p None option.case]
    consider (ne) "ch = byte (CHR ''!'')" | (str) "ch \<noteq> byte (CHR ''!'')" "ch = 34 \<or> ch = 39"
      | (var) "ch = byte (CHR ''$'')" | (num) "\<not> (ch = 34 \<or> ch = 39)" "isASCIIDigit ch"
      | (id) "\<not> (ch = 34 \<or> ch = 39)" "\<not> isASCIIDigit ch" "isIdentStart ch"
      | (bad) "ch \<noteq> byte (CHR ''!'')" "\<not> (ch = 34 \<or> ch = 39)" "ch \<noteq> byte (CHR ''$'')" "\<not> isASCIIDigit ch" "\<not> isIdentStart ch"
      by blast
    then show ?thesis
    proof cases
      case ne
      with t' have q: "peek (advance l) 0 = Some (byte (CHR ''=''))" "t = mkToken TOKEN_NEQ ''!='' (l_line l) (l_col l)" "l' = advance (advance l)"
        by (auto simp: lexErr_def split: if_splits)
      then obtain cs' where r': "rest l = ch # byte (CHR ''='') # cs'" using r unfolding peek_0 by auto
      have "''!='' = [char_of ch, char_of (byte (CHR ''=''))]" unfolding ne by (simp add: char_of_byte)
      with lexes_two [OF r', of TOKEN_NEQ] ne q show ?thesis by (simp add: byte_def)
    next
      case str
      with t' have w: "withRaw l (readString L ch (l_line l) (l_col l) l) = Inr (t, l')" by simp
      then obtain t0 l0 where s: "readString L ch (l_line l) (l_col l) l = Inr (t0, l0)" by (auto simp: withRaw_def map_sum_Inr_iff)
      have "literal (l_line l) (l_col l) l t0 l0"
        using s readRawString_literal cookedLoop_literal literal_step [OF r]
        by (auto simp: readString_def readCookedString_def split: if_splits)
      from lexes_literal [OF this s w] show ?thesis .
    next
      case var
      with t' r readVarRef_lexes show ?thesis by (auto simp: byte_def)
    next
      case num
      then have "ch \<noteq> byte (CHR ''!'')" "ch \<noteq> byte (CHR ''$'')" by (auto simp: isASCIIDigit_def byte_def)
      with num t' have w: "withRaw l (readNumber (l_line l) (l_col l) l) = Inr (t, l')" by simp
      then obtain t0 l0 where s: "readNumber (l_line l) (l_col l) l = Inr (t0, l0)" by (auto simp: withRaw_def map_sum_Inr_iff)
      from lexes_literal [OF readNumber_literal [OF r num(2) s] s w] show ?thesis .
    next
      case id
      then have "ch \<noteq> byte (CHR ''!'')" "ch \<noteq> byte (CHR ''$'')" by (auto simp: isIdentStart_def byte_def)
      with id t' readIdentifier_lexes [OF r] show ?thesis by simp
    next
      case bad
      with t' show ?thesis by (simp add: lexErr_def)
    qed
  qed
qed

text \<open>What \<open>Next\<close> reads: white space, then the token. A blank line is white space and stands where it begins.\<close>

definition reads :: "lexer \<Rightarrow> nat list \<Rightarrow> token \<Rightarrow> lexer \<Rightarrow> bool" where
  "reads l g t l' \<longleftrightarrow> (\<forall>r \<in> set g. r = 10 \<or> isSpace r) \<and>
     (if tType t = TOKEN_EOF then consumes l g l' \<and> rest l' = [] \<and> spelling t = [] \<and> (tLine t, tCol t) = moved (l_line l, l_col l) g
      else if tType t = TOKEN_BLANK_LINE then consumes l g l' \<and> 2 \<le> count_list g 10 \<and> spelling t = [] \<and> (tLine t, tCol t) = (l_line l, l_col l)
      else \<exists>c. c \<noteq> [] \<and> consumes l (g @ c) l' \<and> spelling t = ofRunes c \<and> (tLine t, tCol t) = moved (l_line l, l_col l) g)"

lemma lexes_reads:
  assumes "lexes l1 t l'" "consumes l g l1" "\<forall>r \<in> set g. r = 10 \<or> isSpace r"
  shows "reads l g t l'"
  using assms consumes_trans [OF assms(2)] by (auto simp: lexes_def reads_def consumes_def)

lemma readLineComment_lexes:
  assumes "rest l = byte (CHR ''#'') # cs" "readLineComment l = (t, l')"
  shows "lexes l t l'"
proof -
  obtain b where b: "lineLoop [] l = (b, l')" using assms(2) by (auto simp: readLineComment_def Let_def split: prod.splits)
  have "lineLoop [] l = lineLoop (EncodeRune (byte (CHR ''#''))) (advance l)"
    using assms(1) by (subst lineLoop.simps) (simp add: byte_def)
  with b lineLoop_copies have "copies (EncodeRune (byte (CHR ''#''))) (advance l) b l'" by simp
  from copies_step [OF assms(1), of "[]"] this copies_shorter [OF this] assms(1)
  have "copies [] l b l'" "length (rest l') < length (rest l)" by simp_all
  from copies_nonempty [OF this] show ?thesis
    using assms(2) b by (auto simp: readLineComment_def Let_def lexes_def spelling_def split: if_splits)
qed

lemma readBlockComment_lexes:
  assumes "rest l = byte (CHR ''/'') # byte (CHR ''*'') # cs" "readBlockComment L l = Inr (t, l')"
  shows "lexes l t l'"
proof -
  obtain b where b: "blockLoop L (l_line l) (l_col l) 1 ''/*'' (advance (advance l)) = Inr (b, l')"
    and t: "t = mkToken TOKEN_COMMENT_BLOCK b (l_line l) (l_col l)"
    using assms(2) by (auto simp: readBlockComment_def split: sum.splits)
  have r: "rest (advance l) = byte (CHR ''*'') # cs" using assms(1) by simp
  have c: "copies (([] @ EncodeRune (byte (CHR ''/''))) @ EncodeRune (byte (CHR ''*''))) (advance (advance l)) b l'"
    using blockLoop_copies [OF b] by (simp add: byte_slash_star)
  from copies_nonempty [OF copies_step [OF assms(1) copies_step [OF r c]]] copies_shorter [OF c] assms(1) show ?thesis
    using t by (auto simp: lexes_def spelling_def)
qed

lemma Next_reads:
  assumes "Next L l = Inr (t, l')"
  shows "\<exists>g. reads l g t l'"
proof -
  obtain n l1 where s: "skipSpace 0 l = (n, l1)" by force
  from skipSpace_consumes [OF s] obtain g where g: "consumes l g l1" "\<forall>r \<in> set g. r = 10 \<or> isSpace r" "n = count_list g 10" by auto
  note N = assms [unfolded Next_def nextTrivia_def s Let_def prod.case]
  show ?thesis
  proof (cases "2 \<le> n")
    case True
    with N g show ?thesis by (intro exI [of _ g]) (auto simp: reads_def spelling_def)
  next
    case n: False
    show ?thesis
    proof (cases "rest l1")
      case Nil
      with N n g show ?thesis by (intro exI [of _ g]) (auto simp: reads_def spelling_def consumes_def)
    next
      case (Cons ch cs)
      have "lexes l1 t l'"
      proof (cases "ch = byte (CHR ''#'')")
        case True
        with N n Cons readLineComment_lexes [of l1 cs t l'] show ?thesis by (cases "readLineComment l1") auto
      next
        case h: False
        show ?thesis
        proof (cases "ch = byte (CHR ''/'') \<and> peek l1 1 = Some (byte (CHR ''*''))")
          case True
          then obtain cs' where r: "rest l1 = byte (CHR ''/'') # byte (CHR ''*'') # cs'" using Cons unfolding peek_1 by auto
          from True N n Cons h have "readBlockComment L l1 = Inr (t, l')" by (cases "readBlockComment L l1") auto
          from readBlockComment_lexes [OF r this] show ?thesis .
        next
          case False
          with N n Cons h readToken_lexes [OF Cons] show ?thesis by auto
        qed
      qed
      from lexes_reads [OF this g(1,2)] show ?thesis by blast
    qed
  qed
qed

lemma Next_progress:
  assumes "Next L l = Inr (t, l')" "tType t \<noteq> TOKEN_EOF"
  shows "length (rest l') < length (rest l)"
proof -
  from Next_reads [OF assms(1)] obtain g where "reads l g t l'" by blast
  then have "\<exists>c. c \<noteq> [] \<and> consumes l c l'"
    using assms(2) by (cases "tType t = TOKEN_BLANK_LINE"; cases g) (auto simp: reads_def)
  then show ?thesis using consumes_shorter by (metis add_diff_cancel_left' length_greater_0_conv less_add_same_cancel1)
qed

termination tokenizeAll
proof (relation "measure (\<lambda>(_, _, l). length (rest l))", goal_cases)
  case (2 L out l p t l' tok)
  then show ?case using Next_progress [of L l t l'] by (auto split: if_splits)
qed simp

declare tokenizeAll.simps [simp del]

definition TokenizeWithFile :: "limits \<Rightarrow> string \<Rightarrow> string \<Rightarrow> token list lexed" where
  "TokenizeWithFile L source file = tokenizeAll L [] (newLexer source file)"

definition Tokenize :: "limits \<Rightarrow> string \<Rightarrow> token list lexed" where
  "Tokenize L source = TokenizeWithFile L source []"

definition TokenizeAt :: "limits \<Rightarrow> string \<Rightarrow> string \<Rightarrow> nat \<Rightarrow> nat \<Rightarrow> token list lexed" where
  "TokenizeAt L source file li co = tokenizeAll L [] ((newLexer source file)\<lparr>l_line := li, l_col := co\<rparr>)"

section \<open>The token stream\<close>

text \<open>How the tokens lie in the source from position \<open>p\<close> on: before each a gap of white space, then its
  spelling; the end of the source is the one \<open>EOF\<close>.\<close>

fun layout :: "nat \<times> nat \<Rightarrow> nat list \<Rightarrow> (nat list \<times> nat list) list \<Rightarrow> token list \<Rightarrow> bool" where
  "layout p src ((g, c) # cs) (t # ts) \<longleftrightarrow>
     src = g @ c @ drop (length (g @ c)) src \<and> (\<forall>r \<in> set g. r = 10 \<or> isSpace r) \<and> spelling t = ofRunes c \<and>
     (tLine t, tCol t) = (if tType t = TOKEN_BLANK_LINE then p else moved p g) \<and> (tType t = TOKEN_EOF \<longleftrightarrow> ts = []) \<and>
     (if ts = [] then src = g \<and> cs = [] else layout (moved p (g @ c)) (drop (length (g @ c)) src) cs ts)"
| "layout p src _ _ \<longleftrightarrow> False"

lemma reads_chunk:
  assumes "reads l g t l'" "tType t \<noteq> TOKEN_EOF"
  shows "\<exists>c. rest l = g @ c @ rest l' \<and> spelling t = ofRunes c \<and> (l_line l', l_col l') = moved (l_line l, l_col l) (g @ c) \<and>
    (tLine t, tCol t) = (if tType t = TOKEN_BLANK_LINE then (l_line l, l_col l) else moved (l_line l, l_col l) g)"
  using assms by (cases "tType t = TOKEN_BLANK_LINE") (auto simp: reads_def consumes_def ofRunes_def intro: exI [of _ "[]"])

lemma spelling_file [simp]: "spelling (t\<lparr>tFile := f\<rparr>) = spelling t"
  by (simp add: spelling_def)

lemma reads_file [simp]: "reads l g (t\<lparr>tFile := f\<rparr>) l' = reads l g t l'"
  by (simp add: reads_def)

lemma Next_file: "Next L l = Inr (t, l') \<Longrightarrow> l_file l' = l_file l"
  using Next_reads by (fastforce simp: reads_def consumes_def split: if_splits)

lemma tokenizeAll_layout:
  "tokenizeAll L out l = Inr ts \<Longrightarrow> \<exists>cs new. ts = out @ new \<and> layout (l_line l, l_col l) (rest l) cs new \<and>
    length ts \<le> maxTokens L \<and> (l_file l \<noteq> [] \<longrightarrow> (\<forall>t \<in> set new. tFile t = l_file l))"
proof (induction L out l rule: tokenizeAll.induct)
  case (1 L out l)
  from 1(2) obtain t0 l' where n: "Next L l = Inr (t0, l')" by (subst (asm) tokenizeAll.simps) (auto split: sum.splits)
  define t where "t = (if l_file l \<noteq> [] then t0\<lparr>tFile := l_file l\<rparr> else t0)"
  have f: "l_file l \<noteq> [] \<longrightarrow> tFile t = l_file l" by (simp add: t_def)
  note T = 1(2) [unfolded tokenizeAll.simps [of L out l] n sum.case prod.case Let_def t_def [symmetric]]
  from Next_reads [OF n] obtain g where g: "reads l g t l'" unfolding t_def by (cases "l_file l") auto
  have b: "\<not> maxTokens L \<le> length out" using T by (auto split: if_splits)
  show ?case
  proof (cases "tType t = TOKEN_EOF")
    case True
    then have "layout (l_line l, l_col l) (rest l) [(g, [])] [t]" using g by (auto simp: reads_def consumes_def ofRunes_def)
    moreover have "ts = out @ [t]" using T True b by simp
    ultimately show ?thesis using b f by (intro exI [of _ "[(g, [])]"] exI [of _ "[t]"]) simp
  next
    case False
    from reads_chunk [OF g False] obtain c where c: "rest l = g @ c @ rest l'" "spelling t = ofRunes c"
      "(l_line l', l_col l') = moved (l_line l, l_col l) (g @ c)"
      "(tLine t, tCol t) = (if tType t = TOKEN_BLANK_LINE then (l_line l, l_col l) else moved (l_line l, l_col l) g)" by blast
    from False b T have "tokenizeAll L (out @ [t]) l' = Inr ts" by simp
    from 1(1) [OF n refl t_def b False this] obtain cs new where
      k: "ts = (out @ [t]) @ new" "layout (l_line l', l_col l') (rest l') cs new" "length ts \<le> maxTokens L"
        "l_file l' \<noteq> [] \<longrightarrow> (\<forall>t \<in> set new. tFile t = l_file l')" by blast
    have "new \<noteq> []" using k(2) by (cases new) auto
    then have "layout (l_line l, l_col l) (rest l) ((g, c) # cs) (t # new)"
      using c k(2) g False by (simp add: reads_def)
    with k(1,3,4) f Next_file [OF n] show ?thesis by (intro exI [of _ "(g, c) # cs"] exI [of _ "t # new"]) auto
  qed
qed

lemma layout_source: "layout p src cs ts \<Longrightarrow> length cs = length ts \<and> src = concat (map (\<lambda>(g, c). g @ c) cs)"
proof (induction p src cs ts rule: layout.induct)
  case (1 p src g c cs t ts)
  then show ?case by (cases "ts = []") auto
qed auto

lemma layout_spells: "layout p src cs ts \<Longrightarrow> ofRunes src = concat (map2 (\<lambda>(g, c) t. ofRunes g @ spelling t) cs ts) \<and> (\<forall>(g, c) \<in> set cs. \<forall>r \<in> set g. r = 10 \<or> isSpace r)"
proof (induction p src cs ts rule: layout.induct)
  case (1 p src g c cs t ts)
  show ?case
  proof (cases "ts = []")
    case True
    then show ?thesis using 1(2) by (auto simp: ofRunes_def)
  next
    case False
    have s: "src = g @ c @ drop (length (g @ c)) src" using 1(2) by simp
    have "ofRunes src = ofRunes g @ ofRunes c @ ofRunes (drop (length (g @ c)) src)" by (subst s) (simp add: ofRunes_def)
    then show ?thesis using 1(1) [OF False] 1(2) False by auto
  qed
qed auto

lemma layout_positions:
  "layout p src cs ts \<Longrightarrow> i < length ts \<Longrightarrow>
    \<exists>pre post. src = pre @ post \<and> (tLine (ts ! i), tCol (ts ! i)) = moved p pre \<and>
      (tType (ts ! i) \<noteq> TOKEN_BLANK_LINE \<longrightarrow> (\<exists>c post'. post = c @ post' \<and> spelling (ts ! i) = ofRunes c)) \<and>
      (tType (ts ! i) = TOKEN_EOF \<longleftrightarrow> Suc i = length ts)"
proof (induction p src cs ts arbitrary: i rule: layout.induct)
  case (1 p src g c cs t ts)
  have s: "src = g @ c @ drop (length (g @ c)) src" using 1(2) by simp
  show ?case
  proof (cases i)
    case 0
    show ?thesis
    proof (cases "tType t = TOKEN_BLANK_LINE")
      case True
      then show ?thesis using 1(2) 0 by (intro exI [of _ "[]"] exI [of _ src]) auto
    next
      case False
      then show ?thesis using 1(2) 0 s by (intro exI [of _ g] exI [of _ "c @ drop (length (g @ c)) src"]) auto
    qed
  next
    case (Suc j)
    then have n: "ts \<noteq> []" "j < length ts" using 1(3) by auto
    have "layout (moved p (g @ c)) (drop (length (g @ c)) src) cs ts" using 1(2) n(1) by simp
    from 1(1) [OF n(1) this n(2)] obtain pre post where
      d: "drop (length (g @ c)) src = pre @ post" "(tLine (ts ! j), tCol (ts ! j)) = moved (moved p (g @ c)) pre"
      "tType (ts ! j) \<noteq> TOKEN_BLANK_LINE \<longrightarrow> (\<exists>c post'. post = c @ post' \<and> spelling (ts ! j) = ofRunes c)"
      "tType (ts ! j) = TOKEN_EOF \<longleftrightarrow> Suc j = length ts" by (elim exE conjE) (rule that; assumption)
    moreover have "src = (g @ c @ pre) @ post" using s unfolding d append_assoc .
    ultimately show ?thesis unfolding Suc nth_Cons_Suc append_assoc
      by (intro exI [of _ "g @ c @ pre"] exI [of _ post]) (simp only: moved_append append_assoc list.size add_Suc_right add_0_right nat.inject)
  qed
qed auto

section \<open>String literals\<close>

text \<open>A text written as a cooked literal: the quote, the backslash and braces escaped.\<close>

definition escapeRune :: "nat \<Rightarrow> nat list" where
  "escapeRune r = (if r \<in> {92, 34, byte (CHR ''{''), byte (CHR ''}'')} then [92, r] else [r])"

definition cookedLiteral :: "nat list \<Rightarrow> nat list" where
  "cookedLiteral rs = 34 # concat (map escapeRune rs) @ [34]"

lemma simpleEscape_special: "r \<in> {92, 34, byte (CHR ''{''), byte (CHR ''}'')} \<Longrightarrow> simpleEscape r = Some r"
  by (auto simp: simpleEscape_def byte_def)

lemma cookedLoop_escaped:
  "rest l = concat (map escapeRune rs) @ 34 # tail \<Longrightarrow>
    \<exists>l'. cookedLoop L sl sc lit parts False l = Inr (mkToken TOKEN_STRING (lit @ ofRunes rs) sl sc, l') \<and> rest l' = tail \<and> l_file l' = l_file l"
proof (induction rs arbitrary: l lit)
  case Nil
  then show ?case by (subst cookedLoop.simps) (simp add: ofRunes_def)
next
  case (Cons r rs)
  show ?case
  proof (cases "r \<in> {92, 34, byte (CHR ''{''), byte (CHR ''}'')}")
    case True
    then have l: "rest l = 92 # r # concat (map escapeRune rs) @ 34 # tail" using Cons.prems by (simp add: escapeRune_def [of r])
    then have "readCookedEscape sl sc l = Inr (r, advance (advance l))"
      by (simp add: readCookedEscape_def Let_def simpleEscape_special [OF True])
    with Cons.IH [of "advance (advance l)" "lit @ EncodeRune r"] l show ?thesis
      by (subst cookedLoop.simps) (simp add: ofRunes_Cons)
  next
    case False
    then have l: "rest l = r # concat (map escapeRune rs) @ 34 # tail" using Cons.prems by (simp add: escapeRune_def [of r])
    with Cons.IH [of "advance l" "lit @ EncodeRune r"] False show ?thesis by (subst cookedLoop.simps) (simp add: ofRunes_Cons)
  qed
qed

lemma Next_cookedLiteral:
  assumes "rest l = cookedLiteral rs @ tail"
  shows "\<exists>l'. Next L l = Inr ((mkToken TOKEN_STRING (ofRunes rs) (l_line l) (l_col l))\<lparr>Raw := ofRunes (cookedLiteral rs)\<rparr>, l') \<and> rest l' = tail \<and> l_file l' = l_file l"
proof -
  have r: "rest l = 34 # concat (map escapeRune rs) @ 34 # tail" using assms by (simp add: cookedLiteral_def)
  have "skipSpace 0 l = (0, l)" using r by (simp add: skipSpace.simps isSpace_def)
  then have N: "Next L l = readToken L 34 l" using r by (simp add: Next_def nextTrivia_def byte_def)
  have p: "punctuation 34 = None" "operatorStart 34 = None" by (simp_all add: punctuation_def operatorStart_def byte_def)
  obtain l' where l': "cookedLoop L (l_line l) (l_col l) [] [] False (advance l) = Inr (mkToken TOKEN_STRING (ofRunes rs) (l_line l) (l_col l), l')"
    "rest l' = tail" "l_file l' = l_file l"
    using cookedLoop_escaped [of "advance l" rs tail L "l_line l" "l_col l" "[]" "[]"] r by auto
  have "between l l' = ofRunes (cookedLiteral rs)" using assms l'(2) by (simp add: between_def)
  then show ?thesis unfolding N using l' by (auto simp: readToken_def p Let_def withRaw_def readString_def readCookedString_def byte_def)
qed

text \<open>What a run of the scanner on a concrete source unfolds.\<close>

lemmas lexer_run = TokenizeWithFile_def newLexer_def toRunes_def runeChunks.simps byte_def tokenizeAll.simps Next_def nextTrivia_def
  skipSpace.simps advance_def peek_def isSpace_def readToken_def punctuation_def operatorStart_def readOperator_def readVarRef_def
  identLoop.simps isIdentPart_def isIdentStart_def isASCIIDigit_def isHexDigit_def readNumber_def basePrefix_def readDecimal_def
  readSeparatedDigits_def digitsLoop.simps readFraction_def readExponent_def readBasedInt_def withRaw_def between_def readLineComment_def
  lineLoop.simps mkToken_def EncodeRune_def encodeScalar_def scalar_def ofRunes_def lexErr_def Let_def

end
