(* ===== verification/ParseBase.thy ===== *)
theory ParseBase
  imports Ast Lexer
begin

text \<open>
  The ground of the parser (\<open>internal/parser/parser.go\<close>): its state, errors and token operations, literals as
  \<open>strconv\<close> reads them, and the names of the language. A parsing step maps a state to an error or a
  result and the next state; \<open>None\<close> is a step that has not ended yet. Reading past the end of the
  token slice, which would panic, is an error value of its own.
\<close>

section \<open>State\<close>

datatype parseArg = PStr string | PNum nat | PTok tokenType

datatype parseError =
    ParseError string "parseArg list" pos
  | LexFailure lexError
  | Panic

record pstate =
  p_toks :: "token list"
  p_seed :: "expr option"
  p_exprDepth :: nat
  p_stmtDepth :: nat
  p_typeDepth :: nat
  p_budget :: "int option"
  p_noStructLit :: bool

type_synonym 'a P = "pstate \<Rightarrow> (parseError + 'a \<times> pstate) option"

definition retP :: "'a \<Rightarrow> 'a P" where
  "retP x = (\<lambda>s. Some (Inr (x, s)))"

definition failP :: "parseError \<Rightarrow> 'a P" where
  "failP e = (\<lambda>s. Some (Inl e))"

definition bindP :: "'a P \<Rightarrow> ('a \<Rightarrow> 'b P) \<Rightarrow> 'b P" where
  "bindP m f = (\<lambda>s. case m s of
     None \<Rightarrow> None
   | Some (Inl e) \<Rightarrow> Some (Inl e)
   | Some (Inr (x, s')) \<Rightarrow> f x s')"

definition thenP :: "'a P \<Rightarrow> 'b P \<Rightarrow> 'b P" where
  "thenP m n = bindP m (\<lambda>_. n)"

definition getsP :: "(pstate \<Rightarrow> 'a) \<Rightarrow> 'a P" where
  "getsP f = (\<lambda>s. Some (Inr (f s, s)))"

definition modP :: "(pstate \<Rightarrow> pstate) \<Rightarrow> unit P" where
  "modP f = (\<lambda>s. Some (Inr ((), f s)))"

definition outP :: "'a P" where
  "outP = (\<lambda>s. None)"

text \<open>A loop: the body gives \<open>Inl\<close> what the next pass starts from, or \<open>Inr\<close> the result. A pass that
  goes on has read a token, so the tokens left bound the passes.\<close>

fun passesP :: "nat \<Rightarrow> ('a \<Rightarrow> ('a + 'b) P) \<Rightarrow> 'a \<Rightarrow> 'b P" where
  "passesP 0 f a = outP"
| "passesP (Suc k) f a = bindP (f a) (\<lambda>r. case r of Inl a' \<Rightarrow> passesP k f a' | Inr b \<Rightarrow> retP b)"

definition loopP :: "('a \<Rightarrow> ('a + 'b) P) \<Rightarrow> 'a \<Rightarrow> 'b P" where
  "loopP f a = (\<lambda>s. passesP (Suc (length (p_toks s))) f a s)"

section \<open>Tokens\<close>

definition isTrivia :: "tokenType \<Rightarrow> bool" where
  "isTrivia t \<longleftrightarrow> t = TOKEN_COMMENT_LINE \<or> t = TOKEN_COMMENT_BLOCK \<or> t = TOKEN_COMMENT_SHEBANG \<or> t = TOKEN_BLANK_LINE"

definition stripTrivia :: "token list \<Rightarrow> token list" where
  "stripTrivia toks = filter (\<lambda>t. \<not> isTrivia (tType t)) toks"

definition tokPos :: "token \<Rightarrow> pos" where
  "tokPos t = \<lparr>File = tFile t, Line = int (tLine t), Col = int (tCol t)\<rparr>"

definition peekN :: "nat \<Rightarrow> token P" where
  "peekN n = (\<lambda>s. if n < length (p_toks s) then Some (Inr (p_toks s ! n, s)) else Some (Inl Panic))"

definition peekP :: "token P" where
  "peekP = peekN 0"

definition advanceP :: "token P" where
  "advanceP = (\<lambda>s. case p_toks s of
     [] \<Rightarrow> Some (Inl Panic)
   | t # ts \<Rightarrow> Some (Inr (t, if tType t \<noteq> TOKEN_EOF then s\<lparr>p_toks := ts\<rparr> else s)))"

definition checkP :: "tokenType \<Rightarrow> bool P" where
  "checkP tt = bindP peekP (\<lambda>t. retP (tType t = tt))"

definition matchP :: "tokenType \<Rightarrow> token option P" where
  "matchP tt = bindP (checkP tt) (\<lambda>b. if b then bindP advanceP (\<lambda>t. retP (Some t)) else retP None)"

text \<open>\<open>matchP\<close> whose second result is not looked at: the zero token when the kind differs.\<close>

definition noToken :: token where
  "noToken = mkToken TOKEN_EOF [] 0 0"

definition takeP :: "tokenType \<Rightarrow> token P" where
  "takeP tt = bindP (matchP tt) (\<lambda>r. retP (case r of Some t \<Rightarrow> t | None \<Rightarrow> noToken))"

definition errAt :: "token \<Rightarrow> string \<Rightarrow> parseArg list \<Rightarrow> 'a P" where
  "errAt t f args = failP (ParseError f args (tokPos t))"

definition describeLexeme :: "string \<Rightarrow> string" where
  "describeLexeme lx = (let cs = runeChunks lx in
     if 128 < length cs then concat (map snd (take 128 cs)) @ ''...'' else lx)"

definition isLetter :: "char \<Rightarrow> bool" where
  "isLetter c \<longleftrightarrow> byte (CHR ''a'') \<le> byte c \<and> byte c \<le> byte (CHR ''z'') \<or> byte (CHR ''A'') \<le> byte c \<and> byte c \<le> byte (CHR ''Z'')"

definition isReservedWordToken :: "token \<Rightarrow> bool" where
  "isReservedWordToken t \<longleftrightarrow> tType t \<noteq> TOKEN_IDENT \<and> (case Lexeme t of [] \<Rightarrow> False | c # _ \<Rightarrow> isLetter c)"

definition expectP :: "tokenType \<Rightarrow> string \<Rightarrow> token P" where
  "expectP tt ctx = bindP peekP (\<lambda>t.
     if tType t \<noteq> tt then
       (let args = [PTok tt, PStr ctx, PTok (tType t), PStr (describeLexeme (Lexeme t))]
        in if tt = TOKEN_IDENT \<and> isReservedWordToken t
           then errAt t ''expected %s %s, got %s (%q) - `%s` is a reserved word and cannot be used as a name'' (args @ [PStr (Lexeme t)])
           else errAt t ''expected %s %s, got %s (%q)'' args)
     else advanceP)"

section \<open>Names\<close>

text \<open>The rule for constants, character by character: \<open>start\<close> at the beginning of a chunk, \<open>prev\<close> after \<open>_\<close>.\<close>

fun constChars :: "bool \<Rightarrow> bool \<Rightarrow> string \<Rightarrow> bool" where
  "constChars start prev [] = True"
| "constChars start prev (c # cs) =
     (if c = CHR ''_'' then \<not> prev \<and> constChars True True cs
      else if start then byte (CHR ''A'') \<le> byte c \<and> byte c \<le> byte (CHR ''Z'') \<and> constChars False False cs
      else (byte (CHR ''A'') \<le> byte c \<and> byte c \<le> byte (CHR ''Z'') \<or> byte (CHR ''0'') \<le> byte c \<and> byte c \<le> byte (CHR ''9'')) \<and>
        constChars False False cs)"

definition isValidConstName :: "string \<Rightarrow> bool" where
  "isValidConstName s \<longleftrightarrow> s \<noteq> [] \<and> hd s \<noteq> CHR ''_'' \<and> last s \<noteq> CHR ''_'' \<and> constChars True False s"

definition containsUnderscore :: "string \<Rightarrow> bool" where
  "containsUnderscore s \<longleftrightarrow> CHR ''_'' \<in> set s"

definition isPostDotName :: "token \<Rightarrow> bool" where
  "isPostDotName t \<longleftrightarrow> tType t = TOKEN_IDENT \<or> (case Lexeme t of [] \<Rightarrow> False | c # _ \<Rightarrow> isLetter c)"

definition expectFieldName :: "string \<Rightarrow> token P" where
  "expectFieldName ctx = bindP peekP (\<lambda>t.
     if isPostDotName t then thenP advanceP (retP t)
     else errAt t ''expected identifier %s, got %s (%q)'' [PStr ctx, PTok (tType t), PStr (Lexeme t)])"

text \<open>A name that must not contain \<open>_\<close>.\<close>

definition plainName :: "token \<Rightarrow> string \<Rightarrow> 'a P \<Rightarrow> 'a P" where
  "plainName name msg k = (if containsUnderscore (Lexeme name) then errAt name msg [PStr (Lexeme name)] else k)"

section \<open>Numbers\<close>

definition digitVal :: "char \<Rightarrow> nat" where
  "digitVal c =
     (if byte (CHR ''0'') \<le> byte c \<and> byte c \<le> byte (CHR ''9'') then byte c - byte (CHR ''0'')
      else if byte (CHR ''a'') \<le> byte c \<and> byte c \<le> byte (CHR ''z'') then byte c - byte (CHR ''a'') + 10
      else if byte (CHR ''A'') \<le> byte c \<and> byte c \<le> byte (CHR ''Z'') then byte c - byte (CHR ''A'') + 10
      else 255)"

text \<open>\<open>strconv.ParseUint\<close> and \<open>ParseInt\<close>, for the bases in use: the prefix decides. A syntax error is \<open>Inl False\<close>,
  a value out of range \<open>Inl True\<close>. The lexer leaves no digit separator in a lexeme.\<close>

definition numeralParts :: "string \<Rightarrow> nat \<times> string" where
  "numeralParts lx =
     (if take 2 lx = ''0x'' then (16, drop 2 lx) else if take 2 lx = ''0o'' then (8, drop 2 lx)
      else if take 2 lx = ''0b'' then (2, drop 2 lx) else (10, lx))"

definition ParseUint :: "string \<Rightarrow> bool + nat" where
  "ParseUint lx = (let (base, ds) = numeralParts lx in
     if ds = [] \<or> (\<exists>c \<in> set ds. base \<le> digitVal c) then Inl False
     else let n = foldl (\<lambda>n c. n * base + digitVal c) 0 ds
       in if 2 ^ 64 \<le> n then Inl True else Inr n)"

definition ParseInt :: "string \<Rightarrow> bool + int64" where
  "ParseInt lx = (let neg = (lx \<noteq> [] \<and> hd lx = CHR ''-''); signed = (lx \<noteq> [] \<and> (hd lx = CHR ''-'' \<or> hd lx = CHR ''+''))
     in case ParseUint (if signed then tl lx else lx) of
       Inl e \<Rightarrow> Inl e
     | Inr n \<Rightarrow>
         if \<not> neg \<and> 2 ^ 63 \<le> n \<or> neg \<and> 2 ^ 63 < n then Inl True
         else Inr (word_of_int (if neg then - int n else int n)))"

definition decDigit :: "char \<Rightarrow> bool" where
  "decDigit c \<longleftrightarrow> byte (CHR ''0'') \<le> byte c \<and> byte c \<le> byte (CHR ''9'')"

text \<open>The parts of a decimal literal: the digits before and after the point, and the exponent.\<close>

definition splitExponent :: "string \<Rightarrow> string \<times> string option" where
  "splitExponent s = (case dropWhile (\<lambda>c. c \<noteq> CHR ''e'' \<and> c \<noteq> CHR ''E'') s of
     [] \<Rightarrow> (s, None)
   | _ # e \<Rightarrow> (takeWhile (\<lambda>c. c \<noteq> CHR ''e'' \<and> c \<noteq> CHR ''E'') s, Some e))"

definition exponentValue :: "string \<Rightarrow> int option" where
  "exponentValue e = (let neg = (e \<noteq> [] \<and> hd e = CHR ''-''); ds = (if e \<noteq> [] \<and> (hd e = CHR ''-'' \<or> hd e = CHR ''+'') then tl e else e)
     in if ds = [] \<or> (\<exists>c \<in> set ds. \<not> decDigit c) then None
        else let n = int (foldl (\<lambda>n c. n * 10 + digitVal c) 0 ds) in Some (if neg then - n else n))"

text \<open>\<open>strconv.ParseFloat\<close> on decimal syntax, which is what a float token has: the nearest \<open>float64\<close>, ties to
  even.\<close>

definition ParseFloat :: "string \<Rightarrow> bool + float64" where
  "ParseFloat lx = (let (m, e) = splitExponent lx; ip = takeWhile (\<lambda>c. c \<noteq> CHR ''.'') m; fp = drop (Suc (length ip)) m
     in case (case e of None \<Rightarrow> Some 0 | Some x \<Rightarrow> exponentValue x) of
          None \<Rightarrow> Inl False
        | Some x \<Rightarrow>
            if ip @ fp = [] \<or> (\<exists>c \<in> set (ip @ fp). \<not> decDigit c) then Inl False
            else let n = foldl (\<lambda>n c. n * 10 + digitVal c) 0 (ip @ fp); k = x - int (length fp);
                     f = (if 0 \<le> k then fround False (n * 10 ^ nat k * funit) 1 else fround False (n * funit) (10 ^ nat (- k)))
              in case f of CInf _ \<Rightarrow> Inl True | _ \<Rightarrow> Inr (fenc f))"

definition numErrReason :: "bool \<Rightarrow> string" where
  "numErrReason outOfRange = (if outOfRange then ''value out of range'' else ''invalid syntax'')"

text \<open>\<open>strings.TrimSpace\<close> leaves nothing.\<close>

definition unicodeSpace :: "nat \<Rightarrow> bool" where
  "unicodeSpace r \<longleftrightarrow> 9 \<le> r \<and> r \<le> 13 \<or> r = 32 \<or> r = 0x85 \<or> r = 0xA0 \<or> r = 0x1680 \<or> 0x2000 \<le> r \<and> r \<le> 0x200A \<or>
     r = 0x2028 \<or> r = 0x2029 \<or> r = 0x202F \<or> r = 0x205F \<or> r = 0x3000"

definition blankText :: "string \<Rightarrow> bool" where
  "blankText s \<longleftrightarrow> list_all unicodeSpace (toRunes s)"

end
