(* ===== verification/ParseExpr.thy ===== *)
theory ParseExpr
  imports ParseBase
begin

text \<open>
  The expression and type grammar of the parser (\<open>internal/parser/parser.go\<close>): declared types, the ladder of
  binary operators, prefix operators, postfix chains, literals and interpolated strings. The functions that
  the grammar re-enters are the fields of a record, one level of recursion deeper; \<open>Parse\<close> ties the knot.
\<close>

record parsers =
  rExpr :: "expr P"
  rOr :: "expr P"
  rNot :: "expr P"
  rUnary :: "expr P"
  rBlock :: "block P"
  rType :: "ty P"

text \<open>A counter up on entry and down on return, or a field restored on return. After an error nothing reads
  the state again.\<close>

definition withinP :: "(pstate \<Rightarrow> pstate) \<Rightarrow> (pstate \<Rightarrow> pstate \<Rightarrow> pstate) \<Rightarrow> 'a P \<Rightarrow> 'a P" where
  "withinP enter leave m = (\<lambda>s. bindP m (\<lambda>x. bindP (modP (leave s)) (\<lambda>_. retP x)) (enter s))"

definition allowStructLit :: "'a P \<Rightarrow> 'a P" where
  "allowStructLit m = withinP (\<lambda>s. s\<lparr>p_noStructLit := False\<rparr>) (\<lambda>s0 s. s\<lparr>p_noStructLit := p_noStructLit s0\<rparr>) m"

section \<open>Types\<close>

definition parseTypeBody :: "parsers \<Rightarrow> token \<Rightarrow> ty P" where
  "parseTypeBody R t =
     (if tType t = TOKEN_INT_TYPE then thenP advanceP (retP TypeInt)
      else if tType t = TOKEN_FLOAT_TYPE then thenP advanceP (retP TypeFloat)
      else if tType t = TOKEN_STRING_TYPE then thenP advanceP (retP TypeString)
      else if tType t = TOKEN_BOOL_TYPE then thenP advanceP (retP TypeBool)
      else if tType t = TOKEN_BYTES_TYPE then thenP advanceP (retP TypeBytes)
      else if tType t = TOKEN_NULL then thenP advanceP (retP TypeNull)
      else if tType t = TOKEN_LIST then
        thenP advanceP (thenP (expectP TOKEN_OF ''after `list`'') (bindP (rType R) (\<lambda>e. retP (TypeList (Some e)))))
      else if tType t = TOKEN_MAP then
        thenP advanceP (thenP (expectP TOKEN_OF ''after `map`'') (bindP (rType R) (\<lambda>k.
          thenP (expectP TOKEN_TO ''after map key type'') (bindP (rType R) (\<lambda>v. retP (TypeMap (Some k) (Some v)))))))
      else if tType t = TOKEN_TASK then
        thenP advanceP (thenP (expectP TOKEN_OF ''after `task`'') (bindP (rType R) (\<lambda>e. retP (TypeTask (Some e)))))
      else if tType t = TOKEN_FUNC then thenP advanceP (retP TypeFunc)
      else if tType t = TOKEN_IDENT then
        thenP advanceP (bindP (checkP TOKEN_OF) (\<lambda>isOf.
          if Lexeme t = ''channel'' \<and> isOf then thenP advanceP (bindP (rType R) (\<lambda>e. retP (TypeChannel (Some e))))
          else bindP (checkP TOKEN_DOT) (\<lambda>dot.
            if dot then bindP (peekN 1) (\<lambda>n.
              if tType n = TOKEN_IDENT then thenP advanceP (bindP advanceP (\<lambda>name. retP (TypeStruct (Lexeme name) (Lexeme t) [])))
              else retP (TypeStruct (Lexeme t) [] []))
            else retP (TypeStruct (Lexeme t) [] []))))
      else errAt t ''expected type, got %s (%q)'' [PTok (tType t), PStr (Lexeme t)])"

definition parseType :: "limits \<Rightarrow> parsers \<Rightarrow> ty P" where
  "parseType L R = bindP peekP (\<lambda>t. bindP (getsP p_typeDepth) (\<lambda>d.
     if MaxNestingDepth L \<le> d then errAt t ''compound type nesting exceeds %d levels'' [PNum (MaxNestingDepth L)]
     else withinP (\<lambda>s. s\<lparr>p_typeDepth := Suc (p_typeDepth s)\<rparr>) (\<lambda>_ s. s\<lparr>p_typeDepth := p_typeDepth s - 1\<rparr>) (parseTypeBody R t)))"

section \<open>Arguments and literals\<close>

text \<open>\<open>expr { "," expr }\<close>.\<close>

definition exprsP :: "parsers \<Rightarrow> expr list P" where
  "exprsP R = loopP (\<lambda>es. bindP (rExpr R) (\<lambda>e. bindP (matchP TOKEN_COMMA) (\<lambda>c.
     retP (if c \<noteq> None then Inl (es @ [e]) else Inr (es @ [e]))))) []"

definition argsP :: "parsers \<Rightarrow> string \<Rightarrow> expr list P" where
  "argsP R ctx = thenP advanceP (allowStructLit (bindP (checkP TOKEN_RPAREN) (\<lambda>closed.
     bindP (if closed then retP [] else exprsP R) (\<lambda>args.
     thenP (expectP TOKEN_RPAREN ctx) (retP args)))))"

definition parseParenArgs :: "parsers \<Rightarrow> expr list P" where
  "parseParenArgs R = argsP R ''to close call argument list''"

definition parseCallTail :: "parsers \<Rightarrow> token \<Rightarrow> expr P" where
  "parseCallTail R callee =
     (if tType callee = TOKEN_IDENT \<and> containsUnderscore (Lexeme callee)
      then errAt callee ''function name %q may not contain `_` (use camelCase)'' [PStr (Lexeme callee)]
      else bindP (parseParenArgs R) (\<lambda>args. retP (CallExpr (tokPos callee) (Lexeme callee) args None 0 [])))"

definition structLitPass :: "parsers \<Rightarrow> (string \<times> pos \<times> expr) list \<Rightarrow> ((string \<times> pos \<times> expr) list + (string \<times> pos \<times> expr) list) P" where
  "structLitPass R fs = bindP (expectFieldName ''for struct field name in literal'') (\<lambda>fname.
     if Lexeme fname \<in> fst ` set fs then errAt fname ''field %q assigned twice in struct literal'' [PStr (Lexeme fname)]
     else thenP (expectP TOKEN_COLON ''after struct field name'') (bindP (rExpr R) (\<lambda>val.
       let fs' = fs @ [(Lexeme fname, tokPos fname, val)]
       in bindP (matchP TOKEN_COMMA) (\<lambda>c. if c = None then retP (Inr fs')
         else bindP (checkP TOKEN_RBRACE) (\<lambda>closed. retP (if closed then Inr fs' else Inl fs'))))))"

text \<open>The fields of a struct literal, from its brace on.\<close>

definition structLitFields :: "parsers \<Rightarrow> (string \<times> pos \<times> expr) list P" where
  "structLitFields R = thenP advanceP (allowStructLit (bindP (checkP TOKEN_RBRACE) (\<lambda>closed.
     bindP (if closed then retP [] else loopP (structLitPass R) []) (\<lambda>fs.
     thenP (expectP TOKEN_RBRACE ''to close struct literal'') (retP fs)))))"

definition parseStructLitTail :: "parsers \<Rightarrow> token \<Rightarrow> expr P" where
  "parseStructLitTail R name = bindP (structLitFields R) (\<lambda>fs. retP (StructLit (tokPos name) [] [] (Lexeme name) False fs))"

definition postDotName :: "string \<Rightarrow> token P" where
  "postDotName ctx = bindP peekP (\<lambda>t. if isPostDotName t then thenP advanceP (retP t) else expectP TOKEN_IDENT ctx)"

definition structBrace :: "bool P" where
  "structBrace = bindP (getsP p_noStructLit) (\<lambda>no. if no then retP False else checkP TOKEN_LBRACE)"

text \<open>The rest of \<open>prefix.name\<close> once it is no three-part enum construction.\<close>

definition qualifiedRest :: "parsers \<Rightarrow> token \<Rightarrow> token \<Rightarrow> expr P" where
  "qualifiedRest R pre name = (let base = tokPos pre in
     bindP (checkP TOKEN_LPAREN) (\<lambda>lp.
     if lp then
       (if containsUnderscore (Lexeme name)
        then errAt name ''function name %q may not contain `_` (use camelCase)'' [PStr (Lexeme name)]
        else bindP (argsP R ''to close qualified call argument list'') (\<lambda>args.
          retP (QualifiedCallExpr base (Lexeme pre) (Lexeme name) args 0 [])))
     else bindP structBrace (\<lambda>brace.
       if brace then bindP (structLitFields R) (\<lambda>fs. retP (StructLit base (Lexeme pre) [] (Lexeme name) False fs))
       else if \<not> isValidConstName (Lexeme name) \<and> isValidConstName (Lexeme pre)
       then retP (FieldAccessExpr base (ConstRefExpr base (Lexeme pre) (- 1) (- 1)) (Lexeme name))
       else retP (QualifiedConstRefExpr base (Lexeme pre) (Lexeme name)))))"

definition parseQualifiedTail :: "parsers \<Rightarrow> token \<Rightarrow> expr P" where
  "parseQualifiedTail R pre = thenP advanceP (bindP (postDotName ''after `.` in qualified call'') (\<lambda>name.
     bindP (checkP TOKEN_DOT) (\<lambda>dot.
     if dot \<and> \<not> isValidConstName (Lexeme pre) \<and> \<not> isValidConstName (Lexeme name) then
       thenP advanceP (bindP (postDotName ''for enum variant after `.`'') (\<lambda>variant.
         bindP structBrace (\<lambda>brace.
           if brace then bindP (structLitFields R) (\<lambda>fs.
             retP (StructLit (tokPos pre) (Lexeme pre) (Lexeme name) (Lexeme variant) False fs))
           else retP (StructLit (tokPos pre) (Lexeme pre) (Lexeme name) (Lexeme variant) True []))))
     else qualifiedRest R pre name)))"

definition parseListLit :: "parsers \<Rightarrow> expr P" where
  "parseListLit R = bindP (takeP TOKEN_LBRACKET) (\<lambda>bra. allowStructLit (bindP
     (loopP (\<lambda>es. bindP (checkP TOKEN_RBRACKET) (\<lambda>closed.
        if closed then retP (Inr es)
        else bindP (rExpr R) (\<lambda>e. bindP (matchP TOKEN_COMMA) (\<lambda>c.
          retP (if c \<noteq> None then Inl (es @ [e]) else Inr (es @ [e])))))) [])
     (\<lambda>es. thenP (expectP TOKEN_RBRACKET ''to close list literal'') (retP (ListLit (tokPos bra) es)))))"

definition parseMapLit :: "parsers \<Rightarrow> expr P" where
  "parseMapLit R = bindP (takeP TOKEN_LBRACE) (\<lambda>brace. allowStructLit (bindP
     (loopP (\<lambda>kvs. bindP (checkP TOKEN_RBRACE) (\<lambda>closed.
        if closed then retP (Inr kvs)
        else bindP (rExpr R) (\<lambda>k. thenP (expectP TOKEN_COLON ''between map key and value'') (bindP (rExpr R) (\<lambda>v.
          bindP (matchP TOKEN_COMMA) (\<lambda>c. retP (if c \<noteq> None then Inl (kvs @ [(k, v)]) else Inr (kvs @ [(k, v)]))))))))  [])
     (\<lambda>kvs. thenP (expectP TOKEN_RBRACE ''to close map literal'') (retP (MapLit (tokPos brace) kvs)))))"

section \<open>Interpolated strings\<close>

definition slotPos :: "token \<Rightarrow> stringPart \<Rightarrow> pos" where
  "slotPos t sp = \<lparr>File = tFile t, Line = int (pLine sp), Col = int (pCol sp)\<rparr>"

text \<open>One slot, by a parser of its own that shares depth and budget: its expression and the budget left.\<close>

definition slotExpr :: "limits \<Rightarrow> parsers \<Rightarrow> token \<Rightarrow> nat \<Rightarrow> stringPart \<Rightarrow> int \<Rightarrow> (parseError + expr \<times> int) option" where
  "slotExpr L R t depth sp b =
     (if blankText (Text sp) then Some (Inl (ParseError ''empty interpolation slot `{}`; a slot must hold one expression'' [] (slotPos t sp)))
      else if b - int (length (Text sp)) < 0
      then Some (Inl (ParseError ''nested string interpolation re-lexes more than %d bytes; flatten the interpolation'' [PNum (MaxSourceBytes L)] (slotPos t sp)))
      else case TokenizeAt L (Text sp) (tFile t) (pLine sp) (pCol sp) of
        Inl e \<Rightarrow> Some (Inl (LexFailure e))
      | Inr toks \<Rightarrow>
          (case bindP (rExpr R) (\<lambda>e. bindP peekP (\<lambda>next.
              if tType next \<noteq> TOKEN_EOF
              then errAt next ''interpolation slot must be a single expression, got extra %s (%q)'' [PTok (tType next), PStr (describeLexeme (Lexeme next))]
              else bindP (getsP p_budget) (\<lambda>b'. retP (e, b'))))
            \<lparr>p_toks = stripTrivia toks, p_seed = None, p_exprDepth = depth, p_stmtDepth = 0, p_typeDepth = 0,
              p_budget = Some (b - int (length (Text sp))), p_noStructLit = False\<rparr> of
             None \<Rightarrow> None
           | Some (Inl e) \<Rightarrow> Some (Inl e)
           | Some (Inr ((e, b'), _)) \<Rightarrow> Some (Inr (e, case b' of Some x \<Rightarrow> x | None \<Rightarrow> 0))))"

fun interpParts :: "limits \<Rightarrow> parsers \<Rightarrow> token \<Rightarrow> nat \<Rightarrow> stringPart list \<Rightarrow> int \<Rightarrow> (parseError + (string + expr) list \<times> int) option" where
  "interpParts L R t depth [] b = Some (Inr ([], b))"
| "interpParts L R t depth (sp # sps) b =
     (case (if \<not> IsExpr sp then Some (Inr (Inl (Text sp), b)) else map_option (map_sum id (apfst Inr)) (slotExpr L R t depth sp b)) of
        None \<Rightarrow> None
      | Some (Inl e) \<Rightarrow> Some (Inl e)
      | Some (Inr (p, b')) \<Rightarrow> map_option (map_sum id (apfst ((#) p))) (interpParts L R t depth sps b'))"

definition buildInterpString :: "limits \<Rightarrow> parsers \<Rightarrow> token \<Rightarrow> expr P" where
  "buildInterpString L R t = (\<lambda>s.
     case interpParts L R t (p_exprDepth s) (Parts t) (case p_budget s of Some b \<Rightarrow> b | None \<Rightarrow> int (MaxSourceBytes L)) of
       None \<Rightarrow> None
     | Some (Inl e) \<Rightarrow> Some (Inl e)
     | Some (Inr (ps, b)) \<Rightarrow> Some (Inr (InterpStringExpr (tokPos t) ps, if p_budget s = None then s else s\<lparr>p_budget := Some b\<rparr>)))"

section \<open>Atoms\<close>

definition upperFirst :: "string \<Rightarrow> string" where
  "upperFirst s = (case s of [] \<Rightarrow> [] | c # cs \<Rightarrow>
     (if byte (CHR ''a'') \<le> byte c \<and> byte c \<le> byte (CHR ''z'') then char_of (byte c - 32) else c) # cs)"

definition typeNameError :: "token \<Rightarrow> expr P" where
  "typeNameError t = bindP (peekN 1) (\<lambda>n.
     if tType n = TOKEN_LPAREN \<and> tType t \<noteq> TOKEN_BYTES_TYPE then
       (if Lexeme t = [] then failP Panic
        else errAt t ''type name %q cannot appear in expression position (use `convert.to%s(...)` to convert a value)'' [PStr (Lexeme t), PStr (upperFirst (Lexeme t))])
     else if tType t = TOKEN_BYTES_TYPE then
       errAt t ''type name %q cannot appear in expression position (use `convert.bytesFromString(s, codec)` to build bytes from a string)'' [PStr (Lexeme t)]
     else errAt t ''type name %q cannot appear in expression position (type names belong after `as` in a declaration)'' [PStr (Lexeme t)])"

definition intAtom :: "token \<Rightarrow> expr P" where
  "intAtom t = thenP advanceP (case ParseInt (Lexeme t) of
     Inr n \<Rightarrow> retP (IntLit (tokPos t) n)
   | Inl e \<Rightarrow> errAt t ''invalid int literal %q: %s'' [PStr (describeLexeme (Lexeme t)), PStr (numErrReason e)])"

definition floatAtom :: "token \<Rightarrow> expr P" where
  "floatAtom t = thenP advanceP (case ParseFloat (Lexeme t) of
     Inr f \<Rightarrow> retP (FloatLit (tokPos t) f)
   | Inl e \<Rightarrow> errAt t ''invalid float literal %q: %s'' [PStr (describeLexeme (Lexeme t)), PStr (numErrReason e)])"

definition identAtom :: "parsers \<Rightarrow> token \<Rightarrow> expr P" where
  "identAtom R t = thenP advanceP (bindP (checkP TOKEN_DOT) (\<lambda>dot.
     if dot then parseQualifiedTail R t
     else bindP structBrace (\<lambda>brace.
       if brace then parseStructLitTail R t
       else bindP (checkP TOKEN_LPAREN) (\<lambda>lp.
         if \<not> lp then retP (ConstRefExpr (tokPos t) (Lexeme t) (- 1) (- 1)) else parseCallTail R t))))"

definition taskAtom :: "parsers \<Rightarrow> token \<Rightarrow> expr P" where
  "taskAtom R t = thenP advanceP (bindP (checkP TOKEN_DOT) (\<lambda>dot.
     if \<not> dot then errAt t ''`task` in expression position must be followed by `.function(...)` (the `task` library); for the type, write `task of T` in a declaration'' []
     else parseQualifiedTail R ((mkToken TOKEN_IDENT ''task'' (tLine t) (tCol t))\<lparr>tFile := tFile t\<rparr>)))"

definition lenAtom :: "parsers \<Rightarrow> token \<Rightarrow> expr P" where
  "lenAtom R t = thenP advanceP (thenP (expectP TOKEN_LPAREN ''after `len`'') (bindP (rExpr R) (\<lambda>operand.
     thenP (expectP TOKEN_RPAREN ''to close `len` argument'') (retP (LenExpr (tokPos t) operand)))))"

definition spawnAtom :: "parsers \<Rightarrow> token \<Rightarrow> expr P" where
  "spawnAtom R t = thenP advanceP (bindP (rBlock R) (\<lambda>body. retP (SpawnExpr (tokPos t) (Stmts body))))"

definition groupAtom :: "parsers \<Rightarrow> expr P" where
  "groupAtom R = thenP advanceP (bindP (allowStructLit (rExpr R)) (\<lambda>e.
     thenP (expectP TOKEN_RPAREN ''to close grouped expression'') (retP e)))"

definition atomAt :: "limits \<Rightarrow> parsers \<Rightarrow> token \<Rightarrow> expr P" where
  "atomAt L R t =
     (if tType t = TOKEN_INT then intAtom t
      else if tType t = TOKEN_FLOAT then floatAtom t
      else if tType t = TOKEN_STRING then thenP advanceP (retP (StringLit (tokPos t) (Lexeme t)))
      else if tType t = TOKEN_STRING_INTERP then thenP advanceP (buildInterpString L R t)
      else if tType t = TOKEN_TRUE then thenP advanceP (retP (BoolLit (tokPos t) True))
      else if tType t = TOKEN_FALSE then thenP advanceP (retP (BoolLit (tokPos t) False))
      else if tType t = TOKEN_NULL then thenP advanceP (retP (NullLit (tokPos t)))
      else if tType t = TOKEN_LEN then lenAtom R t
      else if tType t = TOKEN_SPAWN then spawnAtom R t
      else if tType t = TOKEN_TASK then taskAtom R t
      else if tType t = TOKEN_VARREF then thenP advanceP (retP (VarExpr (tokPos t) (Lexeme t) (- 1) (- 1) False))
      else if tType t = TOKEN_IDENT then identAtom R t
      else if tType t \<in> {TOKEN_INT_TYPE, TOKEN_FLOAT_TYPE, TOKEN_STRING_TYPE, TOKEN_BOOL_TYPE, TOKEN_BYTES_TYPE} then typeNameError t
      else if tType t = TOKEN_LPAREN then groupAtom R
      else if tType t = TOKEN_LBRACKET then parseListLit R
      else if tType t = TOKEN_LBRACE then parseMapLit R
      else errAt t ''unexpected token %s (%q) in expression'' [PTok (tType t), PStr (Lexeme t)])"

definition parsePrimaryAtom :: "limits \<Rightarrow> parsers \<Rightarrow> expr P" where
  "parsePrimaryAtom L R = bindP (getsP p_seed) (\<lambda>seed. case seed of
     Some e \<Rightarrow> thenP (modP (\<lambda>s. s\<lparr>p_seed := None\<rparr>)) (retP e)
   | None \<Rightarrow> bindP peekP (atomAt L R))"

section \<open>Postfix chains\<close>

definition sliceHi :: "parsers \<Rightarrow> expr option P" where
  "sliceHi R = bindP (checkP TOKEN_RBRACKET) (\<lambda>closed. if closed then retP None else bindP (rOr R) (\<lambda>e. retP (Some e)))"

definition parseBracketSuffix :: "parsers \<Rightarrow> expr \<Rightarrow> expr P" where
  "parseBracketSuffix R target = bindP advanceP (\<lambda>bra. allowStructLit (
     bindP (checkP TOKEN_DOTDOT) (\<lambda>openLo.
     bindP (if openLo then retP None else bindP (rOr R) (\<lambda>e. retP (Some e))) (\<lambda>lo.
     bindP (checkP TOKEN_DOTDOT) (\<lambda>isSlice.
       if isSlice then thenP advanceP (bindP (sliceHi R) (\<lambda>hi.
         thenP (expectP TOKEN_RBRACKET ''to close slice expression'') (retP (SliceExpr (tokPos bra) target lo hi))))
       else thenP (expectP TOKEN_RBRACKET ''to close index expression'')
         (retP (IndexExpr (tokPos bra) target (case lo of Some e \<Rightarrow> e | None \<Rightarrow> NullLit (tokPos bra)))))))))"

definition fieldSuffix :: "expr \<Rightarrow> expr P" where
  "fieldSuffix target = bindP advanceP (\<lambda>dot. bindP (expectFieldName ''after `.` for field name'') (\<lambda>name.
     retP (FieldAccessExpr (tokPos dot) target (Lexeme name))))"

definition callSuffix :: "parsers \<Rightarrow> expr \<Rightarrow> expr P" where
  "callSuffix R callee = bindP peekP (\<lambda>lp. bindP (parseParenArgs R) (\<lambda>args. retP (CallValueExpr (tokPos lp) callee args [])))"

definition suffixPass :: "parsers \<Rightarrow> expr \<Rightarrow> (expr + expr) P" where
  "suffixPass R e = bindP peekP (\<lambda>t.
     if tType t = TOKEN_LBRACKET then bindP (peekN 1) (\<lambda>n.
       if tType n = TOKEN_RBRACKET
       then errAt t ''`[]` is the append form, only valid as a write target: `$xs[] = item;` or `$s.items[] = item;`'' []
       else bindP (parseBracketSuffix R e) (\<lambda>e'. retP (Inl e')))
     else if tType t = TOKEN_DOT then bindP (fieldSuffix e) (\<lambda>e'. retP (Inl e'))
     else if tType t = TOKEN_LPAREN then bindP (callSuffix R e) (\<lambda>e'. retP (Inl e'))
     else retP (Inr e))"

definition parsePrimary :: "limits \<Rightarrow> parsers \<Rightarrow> expr P" where
  "parsePrimary L R = bindP (parsePrimaryAtom L R) (loopP (suffixPass R))"

section \<open>Operators\<close>

definition deepenExpr :: "limits \<Rightarrow> unit P" where
  "deepenExpr L = bindP (getsP p_exprDepth) (\<lambda>d.
     if MaxNestingDepth L \<le> d then bindP peekP (\<lambda>t. errAt t ''expression nesting exceeds %d levels'' [PNum (MaxNestingDepth L)])
     else modP (\<lambda>s. s\<lparr>p_exprDepth := Suc (p_exprDepth s)\<rparr>))"

text \<open>A prefix operator over its operand, one level deeper.\<close>

definition prefixP :: "limits \<Rightarrow> token \<Rightarrow> unop \<Rightarrow> expr P \<Rightarrow> expr P" where
  "prefixP L t op operand = thenP (deepenExpr L) (bindP operand (\<lambda>e.
     thenP (modP (\<lambda>s. s\<lparr>p_exprDepth := p_exprDepth s - 1\<rparr>)) (retP (UnaryExpr (tokPos t) op e None))))"

definition foldMostNegativeInt :: "expr option P" where
  "foldMostNegativeInt = bindP peekP (\<lambda>t.
     if ParseUint (Lexeme t) = Inr (2 ^ 63) then thenP advanceP (retP (Some (IntLit (tokPos t) minInt64))) else retP None)"

definition minusP :: "limits \<Rightarrow> parsers \<Rightarrow> token \<Rightarrow> expr P" where
  "minusP L R t = bindP (checkP TOKEN_INT) (\<lambda>isInt.
     bindP (if isInt then foldMostNegativeInt else retP None) (\<lambda>lit. case lit of
       Some e \<Rightarrow> retP e
     | None \<Rightarrow> prefixP L t OpNeg (rUnary R)))"

definition parseUnaryMinus :: "limits \<Rightarrow> parsers \<Rightarrow> expr P" where
  "parseUnaryMinus L R = bindP (getsP p_seed) (\<lambda>seed.
     if seed \<noteq> None then parsePrimary L R
     else bindP (matchP TOKEN_MINUS) (\<lambda>m. case m of
       Some t \<Rightarrow> minusP L R t
     | None \<Rightarrow> bindP (matchP TOKEN_BIT_NOT) (\<lambda>b. case b of
         Some t \<Rightarrow> prefixP L t OpBitNot (rUnary R)
       | None \<Rightarrow> parsePrimary L R)))"

text \<open>One rung of the ladder: operands of the next rung joined from the left by the operators of this one.\<close>

definition binaryPass :: "limits \<Rightarrow> (tokenType \<times> binop) list \<Rightarrow> expr P \<Rightarrow> expr \<Rightarrow> (expr + expr) P" where
  "binaryPass L ops operand left = bindP peekP (\<lambda>t. case map_of ops (tType t) of
     None \<Rightarrow> retP (Inr left)
   | Some op \<Rightarrow> thenP (deepenExpr L) (thenP advanceP (bindP operand (\<lambda>right.
       retP (Inl (BinaryExpr (exprPos left) op left right None))))))"

definition binaryP :: "limits \<Rightarrow> (tokenType \<times> binop) list \<Rightarrow> expr P \<Rightarrow> expr P" where
  "binaryP L ops operand = bindP operand (\<lambda>left.
     withinP id (\<lambda>s0 s. s\<lparr>p_exprDepth := p_exprDepth s0\<rparr>) (loopP (binaryPass L ops operand) left))"

definition parseMul :: "limits \<Rightarrow> parsers \<Rightarrow> expr P" where
  "parseMul L R = binaryP L [(TOKEN_STAR, OpMul), (TOKEN_SLASH, OpDiv), (TOKEN_DIV, OpFloorDiv), (TOKEN_PERCENT, OpMod)] (parseUnaryMinus L R)"

definition parseAdd :: "limits \<Rightarrow> parsers \<Rightarrow> expr P" where
  "parseAdd L R = binaryP L [(TOKEN_PLUS, OpAdd), (TOKEN_MINUS, OpSub)] (parseMul L R)"

definition parseShift :: "limits \<Rightarrow> parsers \<Rightarrow> expr P" where
  "parseShift L R = binaryP L [(TOKEN_SHL, OpShl), (TOKEN_SHR, OpShr)] (parseAdd L R)"

definition parseBitAnd :: "limits \<Rightarrow> parsers \<Rightarrow> expr P" where
  "parseBitAnd L R = binaryP L [(TOKEN_BIT_AND, OpBitAnd)] (parseShift L R)"

definition parseBitXor :: "limits \<Rightarrow> parsers \<Rightarrow> expr P" where
  "parseBitXor L R = binaryP L [(TOKEN_BIT_XOR, OpBitXor)] (parseBitAnd L R)"

definition parseBitOr :: "limits \<Rightarrow> parsers \<Rightarrow> expr P" where
  "parseBitOr L R = binaryP L [(TOKEN_BIT_OR, OpBitOr)] (parseBitXor L R)"

definition parseComparison :: "limits \<Rightarrow> parsers \<Rightarrow> expr P" where
  "parseComparison L R = binaryP L
     [(TOKEN_LT, OpLt), (TOKEN_GT, OpGt), (TOKEN_LE, OpLe), (TOKEN_GE, OpGe), (TOKEN_EQ, OpEq), (TOKEN_NEQ, OpNeq)] (parseBitOr L R)"

definition parseNot :: "limits \<Rightarrow> parsers \<Rightarrow> expr P" where
  "parseNot L R = bindP (getsP p_seed) (\<lambda>seed.
     if seed \<noteq> None then parseComparison L R
     else bindP (matchP TOKEN_NOT) (\<lambda>m. case m of
       Some t \<Rightarrow> prefixP L t OpNot (rNot R)
     | None \<Rightarrow> parseComparison L R))"

definition parseAnd :: "limits \<Rightarrow> parsers \<Rightarrow> expr P" where
  "parseAnd L R = binaryP L [(TOKEN_AND, OpAnd)] (parseNot L R)"

definition parseOr :: "limits \<Rightarrow> parsers \<Rightarrow> expr P" where
  "parseOr L R = binaryP L [(TOKEN_OR, OpOr)] (parseAnd L R)"

definition parseRange :: "limits \<Rightarrow> parsers \<Rightarrow> expr P" where
  "parseRange L R = bindP (parseOr L R) (\<lambda>lo. bindP (checkP TOKEN_DOTDOT) (\<lambda>isRange.
     if \<not> isRange then retP lo
     else thenP advanceP (bindP (parseOr L R) (\<lambda>hi. bindP peekP (\<lambda>t.
       if tType t = TOKEN_DOTDOT then errAt t ''range `..` is non-associative; write `a..b`, not `a..b..c`'' []
       else retP (RangeExpr (exprPos lo) lo hi))))))"

definition parseExpr :: "limits \<Rightarrow> parsers \<Rightarrow> expr P" where
  "parseExpr L R = bindP (getsP p_exprDepth) (\<lambda>d.
     if MaxNestingDepth L \<le> d then bindP peekP (\<lambda>t. errAt t ''expression nesting exceeds %d levels'' [PNum (MaxNestingDepth L)])
     else withinP (\<lambda>s. s\<lparr>p_exprDepth := Suc (p_exprDepth s)\<rparr>) (\<lambda>_ s. s\<lparr>p_exprDepth := p_exprDepth s - 1\<rparr>) (parseRange L R))"

end
