(* ===== verification/ParseStmt.thy ===== *)
theory ParseStmt
  imports ParseExpr
begin

text \<open>
  Statements, declarations and whole programs (\<open>internal/parser/parser.go\<close>), and the recursion of the parser as
  a whole: \<open>parserN n\<close> is the parser whose grammar functions re-enter one another at most \<open>n\<close> levels deep.
  The slots and marks of the tree start as the parser leaves them (\<open>-1\<close>, nothing folded).
\<close>

section \<open>Declarations\<close>

definition constDefine :: "limits \<Rightarrow> parsers \<Rightarrow> token \<Rightarrow> stmt P" where
  "constDefine L R def = bindP (expectP TOKEN_IDENT ''after `const`'') (\<lambda>name.
     if \<not> isValidConstName (Lexeme name)
     then errAt name ''constant name %q must be uppercase letters and digits in single-`_`-separated chunks, each chunk starting with a letter (e.g. MAX_RETRIES, SHA256); `_` must be followed by a letter, with no leading, trailing, or consecutive `_`'' [PStr (Lexeme name)]
     else thenP (expectP TOKEN_AS ''after constant name'') (bindP (parseType L R) (\<lambda>tt.
       thenP (expectP TOKEN_INIT ''(constants require an `init` initializer)'') (bindP (parseExpr L R) (\<lambda>initExpr.
         thenP (expectP TOKEN_SEMI ''to terminate constant define'')
           (retP (DefineStmt (tokPos def) True (Lexeme name) tt (Some initExpr) (- 1) False)))))))"

definition varDefine :: "limits \<Rightarrow> parsers \<Rightarrow> token \<Rightarrow> stmt P" where
  "varDefine L R def = bindP (expectP TOKEN_IDENT ''after `def`'') (\<lambda>name.
     plainName name ''variable name %q may not contain `_` (use camelCase; `_` is only allowed in constant names)'' (
     thenP (expectP TOKEN_AS ''after variable name'') (bindP (parseType L R) (\<lambda>tt.
     bindP (matchP TOKEN_INIT) (\<lambda>i.
     bindP (if i \<noteq> None then bindP (parseExpr L R) (\<lambda>e. retP (Some e)) else retP None) (\<lambda>initExpr.
     thenP (expectP TOKEN_SEMI ''to terminate define'')
       (retP (DefineStmt (tokPos def) False (Lexeme name) tt initExpr (- 1) False))))))))"

definition parseDefineLike :: "limits \<Rightarrow> parsers \<Rightarrow> stmt P" where
  "parseDefineLike L R = bindP (takeP TOKEN_DEFINE) (\<lambda>def. bindP (matchP TOKEN_CONST) (\<lambda>isConst. bindP peekP (\<lambda>v.
     if tType v = TOKEN_VARREF
     then errAt v ''drop the `$` here: write `def %s` (the `$` is only for use-site references)'' [PStr (Lexeme v)]
     else if isConst \<noteq> None then constDefine L R def else varDefine L R def)))"

section \<open>Simple statements\<close>

text \<open>\<open>[ expr ] ";"\<close>.\<close>

definition optionalExpr :: "limits \<Rightarrow> parsers \<Rightarrow> expr option P" where
  "optionalExpr L R = bindP (checkP TOKEN_SEMI) (\<lambda>bare. if bare then retP None else bindP (parseExpr L R) (\<lambda>e. retP (Some e)))"

definition parseReturn :: "limits \<Rightarrow> parsers \<Rightarrow> stmt P" where
  "parseReturn L R = bindP (takeP TOKEN_RETURN) (\<lambda>ret. bindP (optionalExpr L R) (\<lambda>v.
     thenP (expectP TOKEN_SEMI ''to terminate return'') (retP (ReturnStmt (tokPos ret) v))))"

definition parseBreak :: "stmt P" where
  "parseBreak = bindP (takeP TOKEN_BREAK) (\<lambda>bk. thenP (expectP TOKEN_SEMI ''to terminate break'') (retP (BreakStmt (tokPos bk))))"

definition parseContinue :: "stmt P" where
  "parseContinue = bindP (takeP TOKEN_CONTINUE) (\<lambda>ct. thenP (expectP TOKEN_SEMI ''to terminate continue'') (retP (ContinueStmt (tokPos ct))))"

definition parseRepeat :: "limits \<Rightarrow> parsers \<Rightarrow> stmt P" where
  "parseRepeat L R = bindP (takeP TOKEN_REPEAT) (\<lambda>rp. bindP (rBlock R) (\<lambda>body.
     thenP (expectP TOKEN_UNTIL ''after `repeat { ... }` body'') (
     thenP (expectP TOKEN_LPAREN ''before `repeat ... until` condition'') (bindP (parseExpr L R) (\<lambda>cond.
     thenP (expectP TOKEN_RPAREN ''to close `repeat ... until` condition'') (
     thenP (expectP TOKEN_SEMI ''to terminate `repeat ... until` statement'') (retP (RepeatStmt (tokPos rp) body cond))))))))"

definition parseExit :: "limits \<Rightarrow> parsers \<Rightarrow> stmt P" where
  "parseExit L R = bindP (takeP TOKEN_EXIT) (\<lambda>ex. bindP (optionalExpr L R) (\<lambda>code.
     thenP (expectP TOKEN_SEMI ''to terminate exit'') (retP (ExitStmt (tokPos ex) code))))"

definition parseTry :: "parsers \<Rightarrow> stmt P" where
  "parseTry R = bindP (takeP TOKEN_TRY) (\<lambda>tk. bindP (rBlock R) (\<lambda>body.
     bindP (expectP TOKEN_CATCH ''after `try { ... }` body'') (\<lambda>catchTok.
     thenP (expectP TOKEN_LPAREN ''before catch binding'') (
     bindP (expectP TOKEN_IDENT ''for catch binding name'') (\<lambda>name.
     plainName name ''catch variable name %q may not contain `_` (use camelCase)'' (
     thenP (expectP TOKEN_RPAREN ''to close catch binding'') (bindP (rBlock R) (\<lambda>handler.
       retP (TryStmt (tokPos tk) body (Lexeme name) handler (tokPos catchTok) (- 1))))))))))"

definition parseThrow :: "limits \<Rightarrow> parsers \<Rightarrow> stmt P" where
  "parseThrow L R = bindP (takeP TOKEN_THROW) (\<lambda>tk. bindP (parseExpr L R) (\<lambda>e.
     thenP (expectP TOKEN_SEMI ''to terminate throw'') (retP (ThrowStmt (tokPos tk) e))))"

fun isCall :: "expr \<Rightarrow> bool" where
  "isCall (CallExpr _ _ _ _ _ _) = True"
| "isCall (QualifiedCallExpr _ _ _ _ _ _) = True"
| "isCall _ = False"

definition parseDefer :: "limits \<Rightarrow> parsers \<Rightarrow> stmt P" where
  "parseDefer L R = bindP (checkP TOKEN_ERRDEFER) (\<lambda>onError. let word = (if onError then ''errdefer'' else ''defer'') in
     bindP advanceP (\<lambda>tk. bindP (parseExpr L R) (\<lambda>e.
       if \<not> isCall e then failP (ParseError ''`%s` requires a function call, e.g. `%s fs.close($f);`'' [PStr word, PStr word] (exprPos e))
       else thenP (expectP TOKEN_SEMI (''to terminate '' @ word)) (retP (DeferStmt (tokPos tk) e onError)))))"

section \<open>Assignments\<close>

definition parseAppend :: "limits \<Rightarrow> parsers \<Rightarrow> token \<Rightarrow> expr \<Rightarrow> stmt P" where
  "parseAppend L R vref target = thenP advanceP (thenP advanceP (bindP (matchP TOKEN_ASSIGN) (\<lambda>a.
     if a = None then errAt vref ''`$%s[]` is write-only (append form); reads are not allowed'' [PStr (Lexeme vref)]
     else bindP (parseExpr L R) (\<lambda>val. thenP (expectP TOKEN_SEMI ''to terminate append'')
       (retP (AppendStmt (tokPos vref) target val))))))"

definition parseExprFrom :: "limits \<Rightarrow> parsers \<Rightarrow> expr \<Rightarrow> expr P" where
  "parseExprFrom L R primary = thenP (modP (\<lambda>s. s\<lparr>p_seed := Some primary\<rparr>)) (parseExpr L R)"

text \<open>The statement that an assignment to a chain is, by its last link.\<close>

definition chainAssign :: "token \<Rightarrow> expr \<Rightarrow> expr \<Rightarrow> stmt P" where
  "chainAssign vref target val = (case target of
     IndexExpr _ _ _ \<Rightarrow> retP (IndexAssignStmt (tokPos vref) target val)
   | FieldAccessExpr _ _ _ \<Rightarrow> retP (FieldAssignStmt (tokPos vref) target val)
   | SliceExpr p _ _ _ \<Rightarrow> failP (ParseError ''slice assignment (`$xs[a..b] = ...`) is not supported; a slice is a read-only copy'' [] p)
   | _ \<Rightarrow> errAt vref ''expected index or field expression on left of `=`'' [])"

definition chainEnd :: "limits \<Rightarrow> parsers \<Rightarrow> token \<Rightarrow> expr \<Rightarrow> stmt P" where
  "chainEnd L R vref target = bindP (matchP TOKEN_ASSIGN) (\<lambda>a.
     if a = None then bindP (parseExprFrom L R target) (\<lambda>e.
       thenP (expectP TOKEN_SEMI ''to terminate statement'') (retP (ExprStmt (tokPos vref) e)))
     else bindP (parseExpr L R) (\<lambda>val. thenP (expectP TOKEN_SEMI ''to terminate assignment'') (chainAssign vref target val)))"

definition chainPass :: "limits \<Rightarrow> parsers \<Rightarrow> token \<Rightarrow> expr \<Rightarrow> (expr + stmt) P" where
  "chainPass L R vref target = bindP peekP (\<lambda>t.
     if tType t = TOKEN_LBRACKET then bindP (peekN 1) (\<lambda>n.
       if tType n = TOKEN_RBRACKET then bindP (parseAppend L R vref target) (\<lambda>st. retP (Inr st))
       else bindP (parseBracketSuffix R target) (\<lambda>e. retP (Inl e)))
     else if tType t = TOKEN_DOT then bindP (fieldSuffix target) (\<lambda>e. retP (Inl e))
     else bindP (chainEnd L R vref target) (\<lambda>st. retP (Inr st)))"

definition tryParseIndexAssign :: "limits \<Rightarrow> parsers \<Rightarrow> stmt P" where
  "tryParseIndexAssign L R = bindP (takeP TOKEN_VARREF) (\<lambda>vref.
     loopP (chainPass L R vref) (VarExpr (tokPos vref) (Lexeme vref) (- 1) (- 1) False))"

definition parseAssign :: "limits \<Rightarrow> parsers \<Rightarrow> bool \<Rightarrow> stmt P" where
  "parseAssign L R consumeSemi = bindP (takeP TOKEN_VARREF) (\<lambda>vref.
     thenP (expectP TOKEN_ASSIGN ''in assignment'') (bindP (parseExpr L R) (\<lambda>val.
     thenP (if consumeSemi then thenP (expectP TOKEN_SEMI ''to terminate assignment'') (retP ()) else retP ())
       (retP (AssignStmt (tokPos vref) (Lexeme vref) val (- 1) (- 1))))))"

section \<open>Branches and loops\<close>

definition parseParenCond :: "limits \<Rightarrow> parsers \<Rightarrow> string \<Rightarrow> expr P" where
  "parseParenCond L R ctx = thenP (expectP TOKEN_LPAREN (''after `'' @ ctx @ ''`'')) (bindP (parseExpr L R) (\<lambda>c.
     thenP (expectP TOKEN_RPAREN (''to close `'' @ ctx @ ''` condition'')) (retP c)))"

definition elseIfPass :: "limits \<Rightarrow> parsers \<Rightarrow> (expr \<times> block) list \<Rightarrow> ((expr \<times> block) list + (expr \<times> block) list) P" where
  "elseIfPass L R arms = bindP (checkP TOKEN_ELSEIF) (\<lambda>more.
     if \<not> more then retP (Inr arms)
     else thenP advanceP (bindP (parseParenCond L R ''elseif'') (\<lambda>c. bindP (rBlock R) (\<lambda>b. retP (Inl (arms @ [(c, b)]))))))"

definition parseElse :: "parsers \<Rightarrow> block option P" where
  "parseElse R = bindP (checkP TOKEN_ELSE) (\<lambda>more. if more then thenP advanceP (bindP (rBlock R) (\<lambda>b. retP (Some b))) else retP None)"

definition parseIf :: "limits \<Rightarrow> parsers \<Rightarrow> stmt P" where
  "parseIf L R = bindP (takeP TOKEN_IF) (\<lambda>ift. bindP (parseParenCond L R ''if'') (\<lambda>cond. bindP (rBlock R) (\<lambda>body.
     bindP (loopP (elseIfPass L R) []) (\<lambda>arms. bindP (parseElse R) (\<lambda>els.
       retP (IfStmt (tokPos ift) cond body arms els))))))"

definition parseWhile :: "limits \<Rightarrow> parsers \<Rightarrow> stmt P" where
  "parseWhile L R = bindP (takeP TOKEN_WHILE) (\<lambda>wt. bindP (parseParenCond L R ''while'') (\<lambda>cond. bindP (rBlock R) (\<lambda>body.
     retP (WhileStmt (tokPos wt) cond body))))"

text \<open>The values of a \<open>when\<close> arm, a header where no struct literal is read.\<close>

definition whenValues :: "limits \<Rightarrow> parsers \<Rightarrow> expr list P" where
  "whenValues L R = withinP (\<lambda>s. s\<lparr>p_noStructLit := True\<rparr>) (\<lambda>s0 s. s\<lparr>p_noStructLit := p_noStructLit s0\<rparr>)
     (loopP (\<lambda>vs. bindP (parseExpr L R) (\<lambda>v. bindP (checkP TOKEN_COMMA) (\<lambda>more.
        if more then thenP advanceP (retP (Inl (vs @ [v]))) else retP (Inr (vs @ [v]))))) [])"

definition whenArm :: "limits \<Rightarrow> parsers \<Rightarrow> matchArm P" where
  "whenArm L R = bindP advanceP (\<lambda>wt. bindP (whenValues L R) (\<lambda>vs. bindP (rBlock R) (\<lambda>body.
     retP (MatchArm (tokPos wt) vs body [] [] (- 1)))))"

definition matchPass :: "limits \<Rightarrow> parsers \<Rightarrow> matchArm list \<times> block option \<Rightarrow> (matchArm list \<times> block option + matchArm list \<times> block option) P" where
  "matchPass L R = (\<lambda>(arms, els). bindP peekP (\<lambda>t.
     if tType t = TOKEN_WHEN then
       (if els \<noteq> None then errAt t ''a `when` arm cannot follow `else` in a `match` (else must be last)'' []
        else bindP (whenArm L R) (\<lambda>arm. retP (Inl (arms @ [arm], els))))
     else if tType t = TOKEN_ELSE then
       (if els \<noteq> None then errAt t ''a `match` can have only one `else`'' []
        else thenP advanceP (bindP (rBlock R) (\<lambda>body. retP (Inl (arms, Some body)))))
     else retP (Inr (arms, els))))"

definition parseMatch :: "limits \<Rightarrow> parsers \<Rightarrow> stmt P" where
  "parseMatch L R = bindP (takeP TOKEN_MATCH) (\<lambda>mt. bindP (parseParenCond L R ''match'') (\<lambda>subject.
     thenP (expectP TOKEN_LBRACE ''to begin `match` body'') (bindP (loopP (matchPass L R) ([], None)) (\<lambda>(arms, els).
     thenP (expectP TOKEN_RBRACE ''to end `match` body (each arm is `when V { ... }` or `else { ... }`)'')
       (retP (MatchStmt (tokPos mt) subject arms els None))))))"

definition parseForEachTail :: "limits \<Rightarrow> parsers \<Rightarrow> token \<Rightarrow> stmt P" where
  "parseForEachTail L R ft = thenP (takeP TOKEN_DEFINE) (bindP (expectP TOKEN_IDENT ''after `def` in for-each'') (\<lambda>name.
     plainName name ''iteration variable name %q may not contain `_` (use camelCase)'' (
     thenP (expectP TOKEN_IN ''after for-each variable'') (bindP (parseExpr L R) (\<lambda>coll.
     thenP (expectP TOKEN_RPAREN ''to close for-each header'') (bindP (rBlock R) (\<lambda>body.
       retP (ForEachStmt (tokPos ft) (Lexeme name) coll body (- 1)))))))))"

text \<open>A variable with \<open>=\<close> behind it, at the current token.\<close>

definition atAssign :: "bool P" where
  "atAssign = bindP (checkP TOKEN_VARREF) (\<lambda>v. if v then bindP (peekN 1) (\<lambda>n. retP (tType n = TOKEN_ASSIGN)) else retP False)"

definition atForEach :: "bool P" where
  "atForEach = bindP (checkP TOKEN_DEFINE) (\<lambda>d. if \<not> d then retP False else bindP (peekN 1) (\<lambda>n.
     if tType n \<noteq> TOKEN_IDENT then retP False else bindP (peekN 2) (\<lambda>m. retP (tType m = TOKEN_IN))))"

definition forInit :: "limits \<Rightarrow> parsers \<Rightarrow> stmt option P" where
  "forInit L R = bindP (checkP TOKEN_DEFINE) (\<lambda>d.
     if d then bindP (parseDefineLike L R) (\<lambda>st. retP (Some st))
     else bindP atAssign (\<lambda>a.
       if a then bindP (parseAssign L R True) (\<lambda>st. retP (Some st))
       else bindP peekP (\<lambda>t.
         if tType t \<noteq> TOKEN_SEMI then errAt t ''expected for-init (define or assignment), got %s (%q)'' [PTok (tType t), PStr (Lexeme t)]
         else thenP advanceP (retP None))))"

definition forStep :: "limits \<Rightarrow> parsers \<Rightarrow> stmt option P" where
  "forStep L R = bindP atAssign (\<lambda>a.
     if a then bindP (parseAssign L R False) (\<lambda>st. retP (Some st))
     else bindP peekP (\<lambda>t.
       if tType t \<noteq> TOKEN_RPAREN then errAt t ''expected for-step (assignment) or `)`, got %s (%q)'' [PTok (tType t), PStr (Lexeme t)]
       else retP None))"

definition parseFor :: "limits \<Rightarrow> parsers \<Rightarrow> stmt P" where
  "parseFor L R = bindP (takeP TOKEN_FOR) (\<lambda>ft. thenP (expectP TOKEN_LPAREN ''after `for`'') (bindP atForEach (\<lambda>each.
     if each then parseForEachTail L R ft
     else bindP (forInit L R) (\<lambda>i. bindP (optionalExpr L R) (\<lambda>cond.
       thenP (expectP TOKEN_SEMI ''after for-condition'') (bindP (forStep L R) (\<lambda>step.
       thenP (expectP TOKEN_RPAREN ''to close for-header'') (bindP (rBlock R) (\<lambda>body.
         retP (ForStmt (tokPos ft) i cond step body 0))))))))))"

section \<open>Statements and blocks\<close>

definition exprStatement :: "limits \<Rightarrow> parsers \<Rightarrow> stmt P" where
  "exprStatement L R = bindP peekP (\<lambda>start. bindP (parseExpr L R) (\<lambda>e.
     thenP (expectP TOKEN_SEMI ''to terminate statement'') (retP (ExprStmt (tokPos start) e))))"

definition varStatement :: "limits \<Rightarrow> parsers \<Rightarrow> stmt P" where
  "varStatement L R = bindP (peekN 1) (\<lambda>n.
     if tType n = TOKEN_ASSIGN then parseAssign L R True
     else if tType n = TOKEN_LBRACKET \<or> tType n = TOKEN_DOT then tryParseIndexAssign L R
     else exprStatement L R)"

definition parseStatement :: "limits \<Rightarrow> parsers \<Rightarrow> stmt P" where
  "parseStatement L R = bindP peekP (\<lambda>t.
     if tType t = TOKEN_DEFINE then parseDefineLike L R
     else if tType t = TOKEN_FUNC then errAt t ''functions can only be defined at the top level'' []
     else if tType t = TOKEN_IF then parseIf L R
     else if tType t = TOKEN_WHILE then parseWhile L R
     else if tType t = TOKEN_FOR then parseFor L R
     else if tType t = TOKEN_REPEAT then parseRepeat L R
     else if tType t = TOKEN_MATCH then parseMatch L R
     else if tType t = TOKEN_BREAK then parseBreak
     else if tType t = TOKEN_CONTINUE then parseContinue
     else if tType t = TOKEN_RETURN then parseReturn L R
     else if tType t = TOKEN_EXIT then parseExit L R
     else if tType t = TOKEN_TRY then parseTry R
     else if tType t = TOKEN_THROW then parseThrow L R
     else if tType t = TOKEN_DEFER \<or> tType t = TOKEN_ERRDEFER then parseDefer L R
     else if tType t = TOKEN_VARREF then varStatement L R
     else exprStatement L R)"

definition blockPass :: "limits \<Rightarrow> parsers \<Rightarrow> stmt list \<Rightarrow> (stmt list + stmt list) P" where
  "blockPass L R ss = bindP peekP (\<lambda>t.
     if tType t = TOKEN_RBRACE \<or> tType t = TOKEN_EOF then retP (Inr ss)
     else bindP (parseStatement L R) (\<lambda>st. retP (Inl (ss @ [st]))))"

definition parseBlock :: "limits \<Rightarrow> parsers \<Rightarrow> block P" where
  "parseBlock L R = bindP (expectP TOKEN_LBRACE ''to begin block'') (\<lambda>lb. bindP (getsP p_stmtDepth) (\<lambda>d.
     if MaxNestingDepth L \<le> d then errAt lb ''block nesting exceeds %d levels'' [PNum (MaxNestingDepth L)]
     else withinP (\<lambda>s. s\<lparr>p_stmtDepth := Suc (p_stmtDepth s)\<rparr>) (\<lambda>_ s. s\<lparr>p_stmtDepth := p_stmtDepth s - 1\<rparr>)
       (bindP (loopP (blockPass L R) []) (\<lambda>ss.
         thenP (expectP TOKEN_RBRACE ''to end block'') (retP (Block (tokPos lb) ss 0))))))"

section \<open>Programs\<close>

text \<open>\<open>[ "as" IDENT ] ";"\<close> of an import.\<close>

definition importTail :: "string \<Rightarrow> string \<Rightarrow> string \<Rightarrow> string P" where
  "importTail ctx msg semi = bindP (matchP TOKEN_AS) (\<lambda>a.
     bindP (if a = None then retP []
       else bindP (expectP TOKEN_IDENT ctx) (\<lambda>alias. plainName alias msg (retP (Lexeme alias)))) (\<lambda>asName.
     thenP (expectP TOKEN_SEMI semi) (retP asName)))"

definition hasSuffix :: "string \<Rightarrow> string \<Rightarrow> bool" where
  "hasSuffix s x \<longleftrightarrow> length x \<le> length s \<and> drop (length s - length x) s = x"

definition parseModuleImport :: "moduleImportStmt P" where
  "parseModuleImport = bindP (takeP TOKEN_IMPORT) (\<lambda>imp. bindP (expectP TOKEN_STRING ''a quoted module path after `import`'') (\<lambda>path.
     if \<not> hasSuffix (Lexeme path) ''.j'' \<and> take 1 (Lexeme path) \<noteq> ''@''
     then errAt path ''module path %q must end in `.j`'' [PStr (describeLexeme (Lexeme path))]
     else bindP (importTail ''after `as` in `import`'' ''module alias %q may not contain `_`'' ''after `import` statement'') (\<lambda>asName.
       retP \<lparr>miPos = tokPos imp, miPath = Lexeme path, miAsName = asName\<rparr>)))"

definition parseImport :: "importStmt P" where
  "parseImport = bindP (takeP TOKEN_USE) (\<lambda>use. bindP (matchP TOKEN_TASK) (\<lambda>task.
     bindP (if task \<noteq> None then retP ''task''
       else bindP (expectP TOKEN_IDENT ''after `use`'') (\<lambda>name. plainName name ''library name %q may not contain `_`'' (retP (Lexeme name)))) (\<lambda>lib.
     bindP (importTail ''after `as` in `use`'' ''library alias %q may not contain `_`'' ''after `use` statement'') (\<lambda>asName.
       retP \<lparr>iPos = tokPos use, iName = lib, iAsName = asName\<rparr>))))"

definition paramPass :: "limits \<Rightarrow> parsers \<Rightarrow> param list \<Rightarrow> (param list + param list) P" where
  "paramPass L R ps = bindP peekP (\<lambda>v.
     if tType v = TOKEN_VARREF then errAt v ''parameter name has no `$`: write `%s as TYPE`'' [PStr (Lexeme v)]
     else bindP (expectP TOKEN_IDENT ''for parameter name'') (\<lambda>pname.
       plainName pname ''parameter name %q may not contain `_` (use camelCase)'' (
       thenP (expectP TOKEN_AS ''after parameter name'') (bindP (parseType L R) (\<lambda>ptype.
       let ps' = ps @ [\<lparr>pName = Lexeme pname, pType = ptype, pPos = tokPos pname, pBorrow = False\<rparr>]
       in bindP (matchP TOKEN_COMMA) (\<lambda>c. retP (if c \<noteq> None then Inl ps' else Inr ps')))))))"

definition parseMethodDef :: "limits \<Rightarrow> parsers \<Rightarrow> methodDef P" where
  "parseMethodDef L R = bindP (takeP TOKEN_FUNC) (\<lambda>def. bindP (expectP TOKEN_IDENT ''after `func`'') (\<lambda>name.
     plainName name ''function name %q may not contain `_` (use camelCase: `myFunction`)'' (
     thenP (expectP TOKEN_LPAREN ''after function name'') (
     bindP (checkP TOKEN_RPAREN) (\<lambda>none. bindP (if none then retP [] else loopP (paramPass L R) []) (\<lambda>params.
     thenP (expectP TOKEN_RPAREN ''to close parameter list'') (bindP (parseBlock L R) (\<lambda>body.
       retP \<lparr>mPos = tokPos def, mName = Lexeme name, mParams = params, mBody = body, mGlobalSafe = False,
         mReturnsOwned = False, mExported = False\<rparr>))))))))"

text \<open>The fields of a struct or of an enum variant; the words differ.\<close>

record fieldWords =
  wName :: string
  wUnderscore :: string
  wTwice :: string
  wAs :: string

definition fieldPass :: "limits \<Rightarrow> parsers \<Rightarrow> fieldWords \<Rightarrow> structField list \<Rightarrow> (structField list + structField list) P" where
  "fieldPass L R w fs = bindP peekP (\<lambda>v.
     if tType v = TOKEN_VARREF then errAt v ''field name has no `$`: write `%s as TYPE`'' [PStr (Lexeme v)]
     else bindP (expectFieldName (wName w)) (\<lambda>fname. plainName fname (wUnderscore w) (
       if Lexeme fname \<in> fName ` set fs then errAt fname (wTwice w) [PStr (Lexeme fname)]
       else thenP (expectP TOKEN_AS (wAs w)) (bindP (parseType L R) (\<lambda>ftype.
         let fs' = fs @ [\<lparr>fName = Lexeme fname, fType = ftype, fPos = tokPos fname\<rparr>]
         in bindP (matchP TOKEN_COMMA) (\<lambda>c. if c = None then retP (Inr fs')
           else bindP (checkP TOKEN_RBRACE) (\<lambda>closed. retP (if closed then Inr fs' else Inl fs'))))))))"

definition parseStructDef :: "limits \<Rightarrow> parsers \<Rightarrow> structDef P" where
  "parseStructDef L R = bindP (takeP TOKEN_DEFINE) (\<lambda>def. thenP (expectP TOKEN_STRUCT ''after `def`'') (
     bindP (expectP TOKEN_IDENT ''for struct name'') (\<lambda>name.
     plainName name ''struct name %q may not contain `_` (use PascalCase or camelCase)'' (
     thenP (expectP TOKEN_LBRACE ''after struct name'') (bindP (checkP TOKEN_RBRACE) (\<lambda>none.
     bindP (if none then retP [] else loopP (fieldPass L R \<lparr>wName = ''for struct field name'',
         wUnderscore = ''struct field name %q may not contain `_` (use camelCase)'',
         wTwice = ''struct field %q declared twice'', wAs = ''after struct field name''\<rparr>) []) (\<lambda>fs.
     thenP (expectP TOKEN_RBRACE ''to close struct field list'') (
     thenP (expectP TOKEN_SEMI ''to terminate struct definition'')
       (retP \<lparr>sPos = tokPos def, sName = Lexeme name, sFields = fs, sExported = False\<rparr>)))))))))"

definition variantFields :: "limits \<Rightarrow> parsers \<Rightarrow> structField list P" where
  "variantFields L R = bindP (checkP TOKEN_LBRACE) (\<lambda>payload.
     if \<not> payload then retP []
     else thenP advanceP (bindP (checkP TOKEN_RBRACE) (\<lambda>none.
       bindP (if none then retP [] else loopP (fieldPass L R \<lparr>wName = ''for enum variant field name'',
           wUnderscore = ''enum variant field name %q may not contain `_` (use camelCase)'',
           wTwice = ''enum variant field %q declared twice'', wAs = ''after enum variant field name''\<rparr>) []) (\<lambda>fs.
       thenP (expectP TOKEN_RBRACE ''to close enum variant field list'') (retP fs)))))"

definition variantPass :: "limits \<Rightarrow> parsers \<Rightarrow> enumVariant list \<Rightarrow> (enumVariant list + enumVariant list) P" where
  "variantPass L R vs = bindP (expectP TOKEN_IDENT ''for enum variant name'') (\<lambda>vname.
     plainName vname ''enum variant name %q may not contain `_` (use PascalCase)'' (
     if Lexeme vname \<in> evName ` set vs then errAt vname ''enum variant %q declared twice'' [PStr (Lexeme vname)]
     else bindP (variantFields L R) (\<lambda>fs.
       let vs' = vs @ [\<lparr>evName = Lexeme vname, evFields = fs, evPos = tokPos vname\<rparr>]
       in bindP (matchP TOKEN_COMMA) (\<lambda>c. if c = None then retP (Inr vs')
         else bindP (checkP TOKEN_RBRACE) (\<lambda>closed. retP (if closed then Inr vs' else Inl vs'))))))"

definition parseEnumDef :: "limits \<Rightarrow> parsers \<Rightarrow> enumDef P" where
  "parseEnumDef L R = bindP (takeP TOKEN_DEFINE) (\<lambda>def. thenP (expectP TOKEN_ENUM ''after `def`'') (
     bindP (expectP TOKEN_IDENT ''for enum name'') (\<lambda>name.
     plainName name ''enum name %q may not contain `_` (use PascalCase)'' (
     thenP (expectP TOKEN_LBRACE ''after enum name'') (bindP (checkP TOKEN_RBRACE) (\<lambda>none.
     if none then errAt name ''enum %q must declare at least one variant'' [PStr (Lexeme name)]
     else bindP (loopP (variantPass L R) []) (\<lambda>vs.
     thenP (expectP TOKEN_RBRACE ''to close enum variant list'') (
     thenP (expectP TOKEN_SEMI ''to terminate enum definition'')
       (retP \<lparr>edPos = tokPos def, edName = Lexeme name, edVariants = vs, edExported = False\<rparr>)))))))))"

fun isConstDefine :: "stmt \<Rightarrow> bool" where
  "isConstDefine (DefineStmt _ c _ _ _ _ _) = c"
| "isConstDefine _ = False"

definition parseExported :: "limits \<Rightarrow> parsers \<Rightarrow> program \<Rightarrow> program P" where
  "parseExported L R prog = bindP (takeP TOKEN_EXPORT) (\<lambda>exp. bindP peekP (\<lambda>t.
     if tType t = TOKEN_FUNC then bindP (parseMethodDef L R) (\<lambda>m. retP (prog\<lparr>Methods := Methods prog @ [m\<lparr>mExported := True\<rparr>]\<rparr>))
     else bindP (if tType t = TOKEN_DEFINE then bindP (peekN 1) (\<lambda>n. retP (tType n)) else retP TOKEN_EOF) (\<lambda>kind.
       if kind = TOKEN_STRUCT then bindP (parseStructDef L R) (\<lambda>sd. retP (prog\<lparr>Structs := Structs prog @ [sd\<lparr>sExported := True\<rparr>]\<rparr>))
       else if kind = TOKEN_ENUM then bindP (parseEnumDef L R) (\<lambda>ed. retP (prog\<lparr>Enums := Enums prog @ [ed\<lparr>edExported := True\<rparr>]\<rparr>))
       else if kind = TOKEN_CONST then bindP (parseDefineLike L R) (\<lambda>st.
         if \<not> isConstDefine st then errAt exp ''only `def const`, `def struct`, `def enum`, and `func` can be exported'' []
         else retP (prog\<lparr>TopLevel := TopLevel prog @ [(True, st)]\<rparr>))
       else errAt exp ''`export` must precede a top-level `def const`, `def struct`, `def enum`, or `func`'' [])))"

definition topStatement :: "limits \<Rightarrow> parsers \<Rightarrow> program \<Rightarrow> program P" where
  "topStatement L R prog = bindP (parseStatement L R) (\<lambda>st. retP (prog\<lparr>TopLevel := TopLevel prog @ [(False, st)]\<rparr>))"

definition topDefine :: "limits \<Rightarrow> parsers \<Rightarrow> program \<Rightarrow> program P" where
  "topDefine L R prog = bindP (peekN 1) (\<lambda>n.
     if tType n = TOKEN_STRUCT then bindP (parseStructDef L R) (\<lambda>sd. retP (prog\<lparr>Structs := Structs prog @ [sd]\<rparr>))
     else if tType n = TOKEN_ENUM then bindP (parseEnumDef L R) (\<lambda>ed. retP (prog\<lparr>Enums := Enums prog @ [ed]\<rparr>))
     else topStatement L R prog)"

definition programPass :: "limits \<Rightarrow> parsers \<Rightarrow> program \<Rightarrow> (program + program) P" where
  "programPass L R prog = bindP peekP (\<lambda>t.
     if tType t = TOKEN_EOF then retP (Inr prog)
     else bindP (if tType t = TOKEN_USE then bindP parseImport (\<lambda>imp. retP (prog\<lparr>Imports := Imports prog @ [imp]\<rparr>))
       else if tType t = TOKEN_IMPORT then bindP parseModuleImport (\<lambda>m. retP (prog\<lparr>ModuleImports := ModuleImports prog @ [m]\<rparr>))
       else if tType t = TOKEN_EXPORT then parseExported L R prog
       else if tType t = TOKEN_FUNC then bindP (parseMethodDef L R) (\<lambda>m. retP (prog\<lparr>Methods := Methods prog @ [m]\<rparr>))
       else if tType t = TOKEN_DEFINE then topDefine L R prog
       else topStatement L R prog) (\<lambda>prog'. retP (Inl prog')))"

definition emptyProgram :: program where
  "emptyProgram = \<lparr>Imports = [], ModuleImports = [], Methods = [], Structs = [], Enums = [], TopLevel = [], NumGlobals = 0, PendingEnumMatches = []\<rparr>"

definition parseProgram :: "limits \<Rightarrow> parsers \<Rightarrow> program P" where
  "parseProgram L R = loopP (programPass L R) emptyProgram"

section \<open>The parser\<close>

definition parserStep :: "limits \<Rightarrow> parsers \<Rightarrow> parsers" where
  "parserStep L R = \<lparr>rExpr = parseExpr L R, rOr = parseOr L R, rNot = parseNot L R, rUnary = parseUnaryMinus L R,
     rBlock = parseBlock L R, rType = parseType L R\<rparr>"

fun parserN :: "limits \<Rightarrow> nat \<Rightarrow> parsers" where
  "parserN L 0 = \<lparr>rExpr = outP, rOr = outP, rNot = outP, rUnary = outP, rBlock = outP, rType = outP\<rparr>"
| "parserN L (Suc n) = parserStep L (parserN L n)"

definition newParser :: "token list \<Rightarrow> pstate" where
  "newParser toks = \<lparr>p_toks = toks, p_seed = None, p_exprDepth = 0, p_stmtDepth = 0, p_typeDepth = 0, p_budget = None, p_noStructLit = False\<rparr>"

text \<open>How deep the grammar functions can re-enter one another: every level has read a token, and a slot of an
  interpolated string is read as tokens of its own.\<close>

definition slotWeight :: "stringPart \<Rightarrow> nat" where
  "slotWeight sp = (if IsExpr sp then 2 * length (toRunes (Text sp)) + 2 else 0)"

definition tokWeight :: "token \<Rightarrow> nat" where
  "tokWeight t = 1 + sum_list (map slotWeight (Parts t))"

definition toksWeight :: "token list \<Rightarrow> nat" where
  "toksWeight ts = sum_list (map tokWeight ts)"

definition runParser :: "limits \<Rightarrow> token list \<Rightarrow> (parseError + program) option" where
  "runParser L toks = map_option (map_sum id fst) (parseProgram L (parserN L (toksWeight toks)) (newParser toks))"

definition Parse :: "limits \<Rightarrow> string \<Rightarrow> (parseError + program) option" where
  "Parse L source = (case Tokenize L source of
     Inl e \<Rightarrow> Some (Inl (LexFailure e))
   | Inr toks \<Rightarrow> runParser L (stripTrivia toks))"

definition ParseTokens :: "limits \<Rightarrow> token list \<Rightarrow> (parseError + program) option" where
  "ParseTokens L toks = (let stripped = stripTrivia toks in
     if stripped = [] \<or> tType (last stripped) \<noteq> TOKEN_EOF
     then Some (Inl (ParseError ''token stream must be non-empty and end with EOF'' [] \<lparr>File = [], Line = 0, Col = 0\<rparr>))
     else runParser L stripped)"

end
