(* ===== verification/ParseSafe.thy ===== *)
theory ParseSafe
  imports ParseStmt "HOL-Library.Sublist"
begin

text \<open>
  The parser returns: on every stream of tokens that ends with \<open>EOF\<close> it reads no token past the end, gets out of
  every loop and recursion, restores its nesting counters, and what it returns is a well-formed tree. The
  proofs go by a judgement on parsing steps with one rule per combinator; the re-entry of the grammar is a
  locale, interpreted on the parser itself.
\<close>

section \<open>Well-formed trees\<close>

text \<open>Types as the parser builds them, at most \<open>d\<close> levels high.\<close>

fun parsedTy :: "nat \<Rightarrow> ty \<Rightarrow> bool" where
  "parsedTy 0 t \<longleftrightarrow> False"
| "parsedTy (Suc d) (TypeList t) \<longleftrightarrow> (case t of None \<Rightarrow> False | Some u \<Rightarrow> parsedTy d u)"
| "parsedTy (Suc d) (TypeTask t) \<longleftrightarrow> (case t of None \<Rightarrow> False | Some u \<Rightarrow> parsedTy d u)"
| "parsedTy (Suc d) (TypeChannel t) \<longleftrightarrow> (case t of None \<Rightarrow> False | Some u \<Rightarrow> parsedTy d u)"
| "parsedTy (Suc d) (TypeMap k v) \<longleftrightarrow>
     (case k of None \<Rightarrow> False | Some u \<Rightarrow> parsedTy d u) \<and> (case v of None \<Rightarrow> False | Some u \<Rightarrow> parsedTy d u)"
| "parsedTy (Suc d) (TypeStruct n ns mp) \<longleftrightarrow> mp = []"
| "parsedTy (Suc d) TypeInvalid \<longleftrightarrow> False"
| "parsedTy (Suc d) _ \<longleftrightarrow> True"

text \<open>The chain of a write, down to its variable.\<close>

fun rooted :: "expr \<Rightarrow> bool" where
  "rooted (VarExpr _ _ _ _ _) = True"
| "rooted (IndexExpr _ t _) = rooted t"
| "rooted (SliceExpr _ t _ _) = rooted t"
| "rooted (FieldAccessExpr _ t _) = rooted t"
| "rooted _ = False"

definition isIndex :: "expr \<Rightarrow> bool" where
  "isIndex e \<longleftrightarrow> (case e of IndexExpr _ _ _ \<Rightarrow> True | _ \<Rightarrow> False)"

definition isField :: "expr \<Rightarrow> bool" where
  "isField e \<longleftrightarrow> (case e of FieldAccessExpr _ _ _ \<Rightarrow> True | _ \<Rightarrow> False)"

definition isAssign :: "stmt \<Rightarrow> bool" where
  "isAssign s \<longleftrightarrow> (case s of AssignStmt _ _ _ _ _ \<Rightarrow> True | _ \<Rightarrow> False)"

definition isDefine :: "stmt \<Rightarrow> bool" where
  "isDefine s \<longleftrightarrow> (case s of DefineStmt _ _ _ _ _ _ _ \<Rightarrow> True | _ \<Rightarrow> False)"

text \<open>Trees as the parser leaves them: names keep to the spelling rules, no slot or mark is set yet, the fields of a
  literal are distinct, constants have an initializer, a deferred expression is a call, written chains
  start at a variable, and declared types are complete and at most \<open>M\<close> levels high.\<close>

primrec parsedE :: "nat \<Rightarrow> expr \<Rightarrow> bool" and parsedS :: "nat \<Rightarrow> stmt \<Rightarrow> bool" and parsedB :: "nat \<Rightarrow> block \<Rightarrow> bool" and parsedA :: "nat \<Rightarrow> matchArm \<Rightarrow> bool" where
  "parsedE M (IntLit p n) = True"
| "parsedE M (FloatLit p f) = True"
| "parsedE M (StringLit p s) = True"
| "parsedE M (InterpStringExpr p ps) = list_all (case_sum (\<lambda>_. True) id) (map (map_sum id (parsedE M)) ps)"
| "parsedE M (BoolLit p b) = True"
| "parsedE M (NullLit p) = True"
| "parsedE M (ListLit p es) = list_all id (map (parsedE M) es)"
| "parsedE M (MapLit p kvs) = list_all (\<lambda>x. fst x \<and> snd x) (map (map_prod (parsedE M) (parsedE M)) kvs)"
| "parsedE M (IndexExpr p t i) = (parsedE M t \<and> parsedE M i)"
| "parsedE M (RangeExpr p lo hi) = (parsedE M lo \<and> parsedE M hi)"
| "parsedE M (SliceExpr p t lo hi) = (parsedE M t \<and> pred_option id (map_option (parsedE M) lo) \<and> pred_option id (map_option (parsedE M) hi))"
| "parsedE M (StructLit p ns en n bare fs) = (distinct (map fst fs) \<and> (bare \<longrightarrow> fs = [] \<and> en \<noteq> []) \<and>
     list_all (\<lambda>x. snd (snd x)) (map (map_prod id (map_prod id (parsedE M))) fs))"
| "parsedE M (FieldAccessExpr p t f) = parsedE M t"
| "parsedE M (VarExpr p n d sl m) = (d = - 1 \<and> sl = - 1 \<and> \<not> m)"
| "parsedE M (ConstRefExpr p n d sl) = (d = - 1 \<and> sl = - 1)"
| "parsedE M (CallExpr p n args m mv snap) = (\<not> containsUnderscore n \<and> m = None \<and> mv = 0 \<and> snap = [] \<and> list_all id (map (parsedE M) args))"
| "parsedE M (CallValueExpr p c args snap) = (parsedE M c \<and> snap = [] \<and> list_all id (map (parsedE M) args))"
| "parsedE M (LenExpr p e) = parsedE M e"
| "parsedE M (SpawnExpr p sts) = list_all id (map (parsedS M) sts)"
| "parsedE M (QualifiedCallExpr p pre n args mv snap) = (\<not> containsUnderscore n \<and> mv = 0 \<and> snap = [] \<and> list_all id (map (parsedE M) args))"
| "parsedE M (QualifiedConstRefExpr p pre n) = True"
| "parsedE M (UnaryExpr p op e f) = (parsedE M e \<and> f = None)"
| "parsedE M (BinaryExpr p op l r f) = (parsedE M l \<and> parsedE M r \<and> f = None)"
| "parsedE M (PreEval p v) = False"
| "parsedS M (DefineStmt p c n t e sl b) = ((if c then isValidConstName n \<and> e \<noteq> None else \<not> containsUnderscore n) \<and>
     parsedTy M t \<and> pred_option id (map_option (parsedE M) e) \<and> sl = - 1 \<and> \<not> b)"
| "parsedS M (AssignStmt p n e d sl) = (parsedE M e \<and> d = - 1 \<and> sl = - 1)"
| "parsedS M (IndexAssignStmt p t e) = (isIndex t \<and> rooted t \<and> parsedE M t \<and> parsedE M e)"
| "parsedS M (AppendStmt p t e) = (rooted t \<and> parsedE M t \<and> parsedE M e)"
| "parsedS M (FieldAssignStmt p t e) = (isField t \<and> rooted t \<and> parsedE M t \<and> parsedE M e)"
| "parsedS M (IfStmt p c b eis els) = (parsedE M c \<and> parsedB M b \<and>
     list_all (\<lambda>x. fst x \<and> snd x) (map (map_prod (parsedE M) (parsedB M)) eis) \<and> pred_option id (map_option (parsedB M) els))"
| "parsedS M (MatchStmt p e arms els et) = (et = None \<and> parsedE M e \<and> list_all id (map (parsedA M) arms) \<and> pred_option id (map_option (parsedB M) els))"
| "parsedS M (WhileStmt p c b) = (parsedE M c \<and> parsedB M b)"
| "parsedS M (ForStmt p i c s b h) = (pred_option (\<lambda>x. isDefine x \<or> isAssign x) i \<and> pred_option isAssign s \<and>
     pred_option id (map_option (parsedS M) i) \<and> pred_option id (map_option (parsedE M) c) \<and>
     pred_option id (map_option (parsedS M) s) \<and> parsedB M b \<and> h = 0)"
| "parsedS M (ForEachStmt p n c b sl) = (\<not> containsUnderscore n \<and> parsedE M c \<and> parsedB M b \<and> sl = - 1)"
| "parsedS M (ReturnStmt p e) = pred_option id (map_option (parsedE M) e)"
| "parsedS M (BreakStmt p) = True"
| "parsedS M (ContinueStmt p) = True"
| "parsedS M (RepeatStmt p b c) = (parsedB M b \<and> parsedE M c)"
| "parsedS M (ExitStmt p e) = pred_option id (map_option (parsedE M) e)"
| "parsedS M (TryStmt p b n cb cp sl) = (\<not> containsUnderscore n \<and> parsedB M b \<and> parsedB M cb \<and> sl = - 1)"
| "parsedS M (ThrowStmt p e) = parsedE M e"
| "parsedS M (DeferStmt p c oe) = (isCall c \<and> parsedE M c)"
| "parsedS M (ExprStmt p e) = parsedE M e"
| "parsedB M (Block p sts n) = (n = 0 \<and> list_all id (map (parsedS M) sts))"
| "parsedA M (MatchArm p vals b v bind sl) = (vals \<noteq> [] \<and> list_all id (map (parsedE M) vals) \<and> parsedB M b \<and> v = [] \<and> bind = [] \<and> sl = - 1)"

lemmas parsed_lists = list.pred_map option.pred_map comp_def

definition parsedFields :: "nat \<Rightarrow> structField list \<Rightarrow> bool" where
  "parsedFields M fs \<longleftrightarrow> distinct (map fName fs) \<and> list_all (\<lambda>f. parsedTy M (fType f) \<and> \<not> containsUnderscore (fName f)) fs"

definition parsedStruct :: "nat \<Rightarrow> structDef \<Rightarrow> bool" where
  "parsedStruct M d \<longleftrightarrow> \<not> containsUnderscore (sName d) \<and> parsedFields M (sFields d)"

definition parsedEnum :: "nat \<Rightarrow> enumDef \<Rightarrow> bool" where
  "parsedEnum M d \<longleftrightarrow> \<not> containsUnderscore (edName d) \<and> edVariants d \<noteq> [] \<and> distinct (map evName (edVariants d)) \<and>
     list_all (\<lambda>v. \<not> containsUnderscore (evName v) \<and> parsedFields M (evFields v)) (edVariants d)"

definition parsedMethod :: "nat \<Rightarrow> methodDef \<Rightarrow> bool" where
  "parsedMethod M m \<longleftrightarrow> \<not> containsUnderscore (mName m) \<and> parsedB M (mBody m) \<and>
     list_all (\<lambda>p. parsedTy M (pType p) \<and> \<not> containsUnderscore (pName p) \<and> \<not> pBorrow p) (mParams m)"

definition parsedProgram :: "nat \<Rightarrow> program \<Rightarrow> bool" where
  "parsedProgram M prog \<longleftrightarrow> list_all (parsedStruct M) (Structs prog) \<and> list_all (parsedEnum M) (Enums prog) \<and>
     list_all (parsedMethod M) (Methods prog) \<and> list_all (\<lambda>(exported, st). parsedS M st \<and> (exported \<longrightarrow> isConstDefine st)) (TopLevel prog)"

section \<open>The judgement\<close>

definition goodTok :: "token \<Rightarrow> bool" where
  "goodTok t \<longleftrightarrow> (tType t = TOKEN_EOF \<longrightarrow> Lexeme t = []) \<and>
     (tType t \<in> {TOKEN_IDENT, TOKEN_INT_TYPE, TOKEN_FLOAT_TYPE, TOKEN_STRING_TYPE, TOKEN_BOOL_TYPE, TOKEN_BYTES_TYPE} \<longrightarrow> Lexeme t \<noteq> [])"

definition stream :: "token list \<Rightarrow> bool" where
  "stream ts \<longleftrightarrow> ts \<noteq> [] \<and> tType (last ts) = TOKEN_EOF \<and> list_all goodTok ts"

text \<open>A step that ends, without running off the tokens, in a state of \<open>Q\<close> or with an error.\<close>

definition wp :: "'a P \<Rightarrow> ('a \<Rightarrow> pstate \<Rightarrow> bool) \<Rightarrow> pstate \<Rightarrow> bool" where
  "wp m Q s \<longleftrightarrow> (case m s of None \<Rightarrow> False | Some (Inl e) \<Rightarrow> e \<noteq> Panic | Some (Inr (x, s')) \<Rightarrow> Q x s')"

text \<open>Where a step may start: a seed of \<open>E\<close>, a known current token, the type nesting, the weight of the tokens.\<close>

definition entry :: "(expr \<Rightarrow> bool) \<Rightarrow> token option \<Rightarrow> nat \<Rightarrow> nat \<Rightarrow> pstate \<Rightarrow> bool" where
  "entry E c td w s \<longleftrightarrow> stream (p_toks s) \<and> pred_option E (p_seed s) \<and> p_typeDepth s = td \<and> toksWeight (p_toks s) \<le> w \<and>
     pred_option (\<lambda>t. hd (p_toks s) = t) c"

text \<open>What a step does to the state: it goes forward, by a token at least if \<open>b\<close>, and keeps the counters, the
  nesting of expressions if \<open>d\<close>.\<close>

definition onward :: "bool \<Rightarrow> bool \<Rightarrow> pstate \<Rightarrow> pstate \<Rightarrow> bool" where
  "onward b d s s' \<longleftrightarrow> suffix (p_toks s') (p_toks s) \<and> stream (p_toks s') \<and> (b \<longrightarrow> p_seed s = None \<longrightarrow> p_toks s' \<noteq> p_toks s) \<and> p_seed s' = None \<and>
     (d \<longrightarrow> p_exprDepth s' = p_exprDepth s) \<and> p_stmtDepth s' = p_stmtDepth s \<and> p_typeDepth s' = p_typeDepth s \<and>
     p_noStructLit s' = p_noStructLit s \<and> (p_budget s' = None \<longleftrightarrow> p_budget s = None)"

definition J :: "(expr \<Rightarrow> bool) \<Rightarrow> token option \<Rightarrow> nat \<Rightarrow> nat \<Rightarrow> ('a \<Rightarrow> bool) \<Rightarrow> bool \<Rightarrow> ('a \<Rightarrow> bool) \<Rightarrow> 'a P \<Rightarrow> bool" where
  "J E c td w b d A m \<longleftrightarrow> (\<forall>s. entry E c td w s \<longrightarrow> wp m (\<lambda>x s'. A x \<and> onward (b x) d s s') s)"

abbreviation noSeed :: "expr \<Rightarrow> bool" where
  "noSeed \<equiv> (\<lambda>_. False)"

lemma wp_bind: "wp (bindP m f) Q s \<longleftrightarrow> wp m (\<lambda>x. wp (f x) Q) s"
  by (auto simp: wp_def bindP_def split: option.splits sum.splits)

lemma wp_mono: "wp m Q s \<Longrightarrow> (\<And>x s'. Q x s' \<Longrightarrow> Q' x s') \<Longrightarrow> wp m Q' s"
  by (auto simp: wp_def split: option.splits sum.splits)

lemma wp_simps [simp]: "wp (retP x) Q s = Q x s" "wp (failP e) Q s = (e \<noteq> Panic)" "wp (errAt t f args) Q s" "\<not> wp outP Q s"
  by (simp_all add: wp_def retP_def failP_def errAt_def outP_def)

lemma wp_state [simp]: "wp (getsP g) Q s = Q (g s) s" "wp (modP h) Q' s = Q' () (h s)"
  by (simp_all add: wp_def getsP_def modP_def)

lemma stream_ne [simp]: "stream ts \<Longrightarrow> ts \<noteq> []"
  by (simp add: stream_def)

lemma stream_tl: "stream (t # ts) \<Longrightarrow> tType t \<noteq> TOKEN_EOF \<Longrightarrow> stream ts"
  by (auto simp: stream_def split: if_splits)

lemma toksWeight_suffix: "suffix ts us \<Longrightarrow> toksWeight ts \<le> toksWeight us"
  by (auto simp: suffix_def toksWeight_def)

lemma toksWeight_strict: "suffix ts us \<Longrightarrow> ts \<noteq> us \<Longrightarrow> toksWeight ts < toksWeight us"
proof -
  assume "suffix ts us" "ts \<noteq> us"
  then obtain zs where "us = zs @ ts" "zs \<noteq> []" by (auto simp: suffix_def)
  then show ?thesis by (cases zs) (auto simp: toksWeight_def tokWeight_def)
qed

lemma wp_peekN: "n < length (p_toks s) \<Longrightarrow> wp (peekN n) Q s = Q (p_toks s ! n) s"
  by (simp add: wp_def peekN_def)

lemma wp_peekP [simp]: "stream (p_toks s) \<Longrightarrow> wp peekP Q s = Q (hd (p_toks s)) s"
  by (cases "p_toks s") (auto simp: wp_def peekP_def peekN_def stream_def)

lemma wp_advanceP:
  assumes "stream (p_toks s)" "tType (hd (p_toks s)) \<noteq> TOKEN_EOF"
  shows "wp advanceP Q s = Q (hd (p_toks s)) (s\<lparr>p_toks := tl (p_toks s)\<rparr>)"
  using assms by (cases "p_toks s") (auto simp: wp_def advanceP_def stream_def)

lemma onward_trans:
  assumes "onward b d s s'" "onward b' d s' s''"
  shows "onward (b \<or> b') d s s''"
proof -
  note * = assms [unfolded onward_def]
  have "suffix (p_toks s'') (p_toks s)" using * suffix_order.trans by blast
  moreover have "p_toks s'' \<noteq> p_toks s" if "b \<or> b'" "p_seed s = None"
    using that * by (metis suffix_order.antisym)
  ultimately show ?thesis using * unfolding onward_def by presburger
qed

lemma onward_weaken: "onward b d s s' \<Longrightarrow> (b' \<Longrightarrow> b) \<Longrightarrow> (d' \<Longrightarrow> d) \<Longrightarrow> onward b' d' s s'"
  by (auto simp: onward_def)

lemma onward_entry: "entry E c td w s \<Longrightarrow> onward b d s s' \<Longrightarrow> entry noSeed None td w s'"
  by (auto simp: entry_def onward_def dest: toksWeight_suffix)

lemma onward_entry_less: "entry noSeed c td w s \<Longrightarrow> onward True d s s' \<Longrightarrow> entry noSeed None td (w - 1) s'"
  by (auto simp: entry_def onward_def dest!: toksWeight_strict)

lemma pred_option_none [simp]: "pred_option (\<lambda>_. False) x \<longleftrightarrow> x = None"
  by (cases x) auto

section \<open>Rules\<close>

named_theorems J_rules

lemma J_weaken: "J E c td w b d A m \<Longrightarrow> (\<And>x. b' x \<Longrightarrow> b x) \<Longrightarrow> (d' \<Longrightarrow> d) \<Longrightarrow> (\<And>x. A x \<Longrightarrow> A' x) \<Longrightarrow> w' \<le> w \<Longrightarrow> J E c td w' b' d' A' m"
  unfolding J_def by (fastforce simp: entry_def intro: wp_mono onward_weaken)

lemma J_any: "J E None td w b d A m \<Longrightarrow> J E c td w b d A m"
  by (auto simp: J_def entry_def)

lemma J_at: "(\<And>t. J E (Some t) td w b d A m) \<Longrightarrow> J E None td w b d A m"
  by (auto simp: J_def entry_def)

lemma J_unseeded: "J E c td w b d A m \<Longrightarrow> J noSeed c td w b d A m"
  by (auto simp: J_def entry_def pred_option_def)

lemma J_ret [J_rules]: "\<not> b x \<Longrightarrow> A x \<Longrightarrow> J noSeed c td w b d A (retP x)"
  by (auto simp: J_def entry_def onward_def)

lemma J_err [J_rules]: "J E c td w b d A (errAt t f args)"
  by (simp add: J_def)

lemma J_fail [J_rules]: "e \<noteq> Panic \<Longrightarrow> J E c td w b d A (failP e)"
  by (simp add: J_def)

lemma J_if [J_rules]: "(P \<Longrightarrow> J E c td w b d A m) \<Longrightarrow> (\<not> P \<Longrightarrow> J E c td w b d A m') \<Longrightarrow> J E c td w b d A (if P then m else m')"
  by simp

lemma J_bind:
  assumes "J E c td w b d A m" "\<And>x. A x \<Longrightarrow> \<not> b x \<Longrightarrow> J noSeed None td w b' d B (f x)"
    "\<And>x. A x \<Longrightarrow> b x \<Longrightarrow> J noSeed None td (if E = noSeed then w - 1 else w) (\<lambda>_. False) d B (f x)"
  shows "J E c td w b' d B (bindP m f)"
  unfolding J_def wp_bind
proof (intro allI impI)
  fix s
  assume s: "entry E c td w s"
  have 1: "wp m (\<lambda>x s'. A x \<and> onward (b x) d s s') s" using assms(1) s by (simp add: J_def)
  have 2: "wp (f x) (\<lambda>y s''. B y \<and> onward (b' y) d s s'') s'" if "A x" "onward (b x) d s s'" for x s'
  proof (cases "b x")
    case False
    have "entry noSeed None td w s'" using onward_entry [OF s that(2)] .
    then have "wp (f x) (\<lambda>y s''. B y \<and> onward (b' y) d s' s'') s'" using assms(2) [OF that(1) False] by (simp add: J_def)
    then show ?thesis by (rule wp_mono) (auto dest: onward_trans [OF that(2)] intro: onward_weaken)
  next
    case True
    have "entry noSeed None td (if E = noSeed then w - 1 else w) s'"
      using onward_entry [OF s that(2)] onward_entry_less [of c td w s d s'] s that(2) True by auto
    then have "wp (f x) (\<lambda>y s''. B y \<and> onward False d s' s'') s'" using assms(3) [OF that(1) True] by (simp add: J_def)
    then show ?thesis by (rule wp_mono) (use True in \<open>auto dest: onward_trans [OF that(2)] intro: onward_weaken\<close>)
  qed
  from 1 show "wp m (\<lambda>x. wp (f x) (\<lambda>x s'. B x \<and> onward (b' x) d s s')) s" by (rule wp_mono) (use 2 in blast)
qed

lemma J_fewer: "J E c td w b d A m \<Longrightarrow> w' \<le> w \<Longrightarrow> J E c td w' (\<lambda>_. False) d A m"
  by (erule J_weaken) auto

lemma J_bindF: "J E c td w (\<lambda>_. False) d A m \<Longrightarrow> (\<And>x. A x \<Longrightarrow> J noSeed None td w b d B (f x)) \<Longrightarrow> J E c td w b d B (bindP m f)"
  by (rule J_bind, assumption) auto

lemma J_bindT: "J noSeed c td w (\<lambda>_. True) d A m \<Longrightarrow> (\<And>x. A x \<Longrightarrow> J noSeed None td (w - 1) (\<lambda>_. False) d B (f x)) \<Longrightarrow>
    J noSeed c td w b d B (bindP m f)"
  by (rule J_bind, assumption) auto

lemma J_bindS: "J E c td w (\<lambda>_. True) d A m \<Longrightarrow> (\<And>x. A x \<Longrightarrow> J noSeed None td w (\<lambda>_. False) d B (f x)) \<Longrightarrow> J E c td w b d B (bindP m f)"
  by (rule J_bind, assumption) (auto intro: J_fewer [where w = w and b = "\<lambda>_. False"])

lemma thenP_bind [simp]: "thenP (bindP m f) n = bindP m (\<lambda>x. thenP (f x) n)" "thenP (retP x) n = n"
  by (auto simp: thenP_def bindP_def retP_def fun_eq_iff split: option.splits sum.splits)

lemma bindP_ret [simp]: "bindP (retP x) f = f x"
  by (simp add: bindP_def retP_def)

lemma bindP_assoc: "bindP (bindP m f) g = bindP m (\<lambda>x. bindP (f x) g)"
  by (auto simp: bindP_def fun_eq_iff split: option.splits sum.splits)

lemma J_bind_ret [J_rules]: "J E c td w b d B (f x) \<Longrightarrow> J E c td w b d B (bindP (retP x) f)"
  by simp

lemma J_bind_assoc [J_rules]: "J E c td w b d B (bindP m (\<lambda>x. bindP (f x) g)) \<Longrightarrow> J E c td w b d B (bindP (bindP m f) g)"
  by (simp add: bindP_assoc)

lemma J_bind_then [J_rules]: "J E c td w b d B (bindP m (\<lambda>_. bindP n g)) \<Longrightarrow> J E c td w b d B (bindP (thenP m n) g)"
  by (simp add: thenP_def bindP_assoc)

lemma J_then [J_rules]: "J E c td w b d B (bindP m (\<lambda>_. n)) \<Longrightarrow> J E c td w b d B (thenP m n)"
  by (simp add: thenP_def)

lemma J_bind_if [J_rules]: "(P \<Longrightarrow> J E c td w b d B (bindP m f)) \<Longrightarrow> (\<not> P \<Longrightarrow> J E c td w b d B (bindP m' f)) \<Longrightarrow> J E c td w b d B (bindP (if P then m else m') f)"
  by simp

lemma J_bind_err [J_rules]: "J E c td w b d A (bindP (errAt t f args) g)"
  by (simp add: J_def wp_bind)

lemma J_gets [J_rules]: "(\<And>x. J E c td w b d B (f x)) \<Longrightarrow> J E c td w b d B (bindP (getsP g) f)"
  by (simp add: J_def wp_bind)

text \<open>Looking at the current token.\<close>

lemma entryD: "entry E c td w s \<Longrightarrow> stream (p_toks s) \<and> goodTok (hd (p_toks s)) \<and> tokWeight (hd (p_toks s)) \<le> w"
  by (cases "p_toks s") (auto simp: entry_def stream_def toksWeight_def)

lemma J_peek [J_rules]: "(\<And>t. goodTok t \<Longrightarrow> tokWeight t \<le> w \<Longrightarrow> J E (Some t) td w b d B (f t)) \<Longrightarrow> J E None td w b d B (bindP peekP f)"
  unfolding J_def wp_bind
proof (intro allI impI)
  fix s
  assume a: "\<And>t. goodTok t \<Longrightarrow> tokWeight t \<le> w \<Longrightarrow> \<forall>s. entry E (Some t) td w s \<longrightarrow> wp (f t) (\<lambda>x s'. B x \<and> onward (b x) d s s') s"
    and s: "entry E None td w s"
  have "entry E (Some (hd (p_toks s))) td w s" using s by (simp add: entry_def)
  with a entryD [OF s] show "wp peekP (\<lambda>x. wp (f x) (\<lambda>x s'. B x \<and> onward (b x) d s s')) s" by simp
qed

lemma J_peek_at [J_rules]: "J E (Some t) td w b d B (f t) \<Longrightarrow> J E (Some t) td w b d B (bindP peekP f)"
  unfolding J_def wp_bind by (auto simp: entry_def)

lemma bind_check: "bindP (checkP tt) f = bindP peekP (\<lambda>t. f (tType t = tt))"
  by (simp add: checkP_def bindP_assoc)

lemma J_check [J_rules]:
  "(\<And>t. goodTok t \<Longrightarrow> tokWeight t \<le> w \<Longrightarrow> J E (Some t) td w b d B (f (tType t = tt))) \<Longrightarrow> J E None td w b d B (bindP (checkP tt) f)"
  "J E (Some t) td w b d B (f (tType t = tt)) \<Longrightarrow> J E (Some t) td w b d B (bindP (checkP tt) f)"
  unfolding bind_check by (rule J_peek J_peek_at; blast)+

text \<open>Taking it.\<close>

lemma onward_advance:
  assumes "entry noSeed c td w s" "tType (hd (p_toks s)) \<noteq> TOKEN_EOF"
  shows "onward True d s (s\<lparr>p_toks := tl (p_toks s)\<rparr>)"
proof -
  obtain t ts where "p_toks s = t # ts" using assms(1) by (cases "p_toks s") (auto simp: entry_def stream_def)
  with assms show ?thesis by (auto simp: entry_def onward_def suffix_def intro: stream_tl)
qed

lemma J_advance [J_rules]:
  assumes "tType t \<noteq> TOKEN_EOF" "J noSeed None td (w - 1) (\<lambda>_. False) d B (f t)"
  shows "J noSeed (Some t) td w b d B (bindP advanceP f)"
proof (rule J_bindT [where A = "\<lambda>x. x = t"])
  show "J noSeed (Some t) td w (\<lambda>_. True) d (\<lambda>x. x = t) advanceP"
    unfolding J_def
  proof (intro allI impI)
    fix s
    assume s: "entry noSeed (Some t) td w s"
    then have h: "stream (p_toks s)" "hd (p_toks s) = t" by (auto simp: entry_def)
    with assms(1) show "wp advanceP (\<lambda>x s'. x = t \<and> onward True d s s') s"
      using onward_advance [OF s] by (simp add: wp_advanceP)
  qed
qed (use assms in blast)

lemma J_advance_any [J_rules]:
  assumes "\<And>t. J noSeed None td w b d B (f t)"
  shows "J noSeed None td w b d B (bindP advanceP f)"
proof (rule J_at)
  fix t
  show "J noSeed (Some t) td w b d B (bindP advanceP f)"
  proof (cases "tType t = TOKEN_EOF")
    case True
    have "wp advanceP Q s = Q t s" if "entry noSeed (Some t) td w s" for Q s
      using that True by (cases "p_toks s") (auto simp: entry_def stream_def wp_def advanceP_def)
    then show ?thesis using J_any [OF assms [of t], of "Some t"] unfolding J_def wp_bind by simp
  next
    case False
    then show ?thesis by (rule J_advance) (rule J_fewer [OF assms], simp)
  qed
qed

lemma J_match [J_rules]:
  assumes "tt \<noteq> TOKEN_EOF" "\<And>t. tType t = tt \<Longrightarrow> goodTok t \<Longrightarrow> J noSeed None td (w - 1) (\<lambda>_. False) d B (f (Some t))"
    "J noSeed None td w b d B (f None)"
  shows "J noSeed c td w b d B (bindP (matchP tt) f)"
proof -
  have "J noSeed None td w b d B (bindP (matchP tt) f)"
    unfolding matchP_def bindP_assoc
    by (rule J_check, intro J_rules) (use assms in \<open>auto intro: J_any\<close>)
  then show ?thesis by (rule J_any)
qed

lemma J_take [J_rules]:
  assumes "tType t = tt" "tt \<noteq> TOKEN_EOF" "J noSeed None td (w - 1) (\<lambda>_. False) d B (f t)"
  shows "J noSeed (Some t) td w b d B (bindP (takeP tt) f)"
proof -
  have *: "J noSeed (Some t) td w b d B (bindP advanceP f)" using assms by (intro J_advance) auto
  show ?thesis unfolding takeP_def matchP_def bindP_assoc by (rule J_check(2)) (use assms(1) * in \<open>simp add: bindP_assoc\<close>)
qed

lemma J_take_any [J_rules]:
  assumes "tt \<noteq> TOKEN_EOF" "\<And>t. J noSeed None td w b d B (f t)"
  shows "J noSeed None td w b d B (bindP (takeP tt) f)"
  unfolding takeP_def bindP_assoc using assms by (intro J_match J_fewer [of _ _ _ w b]) auto

lemma J_expect [J_rules]:
  assumes "tt \<noteq> TOKEN_EOF" "\<And>t. tType t = tt \<Longrightarrow> goodTok t \<Longrightarrow> J noSeed None td (w - 1) (\<lambda>_. False) d B (f t)"
  shows "J noSeed c td w b d B (bindP (expectP tt ctx) f)"
proof -
  have "J noSeed None td w b d B (bindP (expectP tt ctx) f)"
    unfolding expectP_def Let_def bindP_assoc by (rule J_peek, intro J_rules) (use assms in auto)
  then show ?thesis by (rule J_any)
qed

lemma J_peekN [J_rules]:
  assumes "tType t \<noteq> TOKEN_EOF" "\<And>u. J E (Some t) td w b d B (f u)"
  shows "J E (Some t) td w b d B (bindP (peekN 1) f)"
  unfolding J_def wp_bind
proof (intro allI impI)
  fix s
  assume s: "entry E (Some t) td w s"
  then obtain ts where "p_toks s = t # ts" by (cases "p_toks s") (auto simp: entry_def stream_def)
  with s assms(1) stream_tl [of t ts] have "1 < length (p_toks s)" by (auto simp: entry_def stream_def)
  then show "wp (peekN 1) (\<lambda>x. wp (f x) (\<lambda>x s'. B x \<and> onward (b x) d s s')) s"
    using assms(2) s by (simp add: wp_peekN J_def)
qed

text \<open>Loops: every pass that goes on has taken a token.\<close>

lemma passesP_ends:
  assumes "\<And>a. I a \<Longrightarrow> J noSeed None td w isl d (case_sum I A) (f a)"
  shows "entry noSeed None td w s \<Longrightarrow> I a \<Longrightarrow> length (p_toks s) < k \<Longrightarrow> wp (passesP k f a) (\<lambda>x s'. A x \<and> onward False d s s') s"
proof (induction k arbitrary: a s)
  case (Suc k)
  have next': "wp (case r of Inl a' \<Rightarrow> passesP k f a' | Inr x \<Rightarrow> retP x) (\<lambda>x s'. A x \<and> onward False d s s') s1"
    if r: "case_sum I A r \<and> onward (isl r) d s s1" for r s1
  proof (cases r)
    case (Inl a')
    have "p_seed s = None" using Suc.prems(1) by (simp add: entry_def)
    then have "length (p_toks s1) < length (p_toks s)"
      using r Inl by (auto simp: onward_def suffix_def)
    moreover have "entry noSeed None td w s1" using onward_entry [OF Suc.prems(1)] r by blast
    ultimately have "wp (passesP k f a') (\<lambda>x s'. A x \<and> onward False d s1 s') s1" using Suc.IH [of s1 a'] Suc.prems(3) r Inl by simp
    then show ?thesis unfolding Inl sum.case
      by (rule wp_mono) (use r onward_trans [of _ d s s1] in \<open>auto intro: onward_weaken\<close>)
  next
    case (Inr x)
    then show ?thesis using r by (auto intro: onward_weaken)
  qed
  have "wp (f a) (\<lambda>r s1. case_sum I A r \<and> onward (isl r) d s s1) s" using assms [OF Suc.prems(2)] Suc.prems(1) by (simp add: J_def)
  then show ?case unfolding passesP.simps wp_bind by (rule wp_mono) (rule next')
qed simp

lemma J_loop:
  assumes "I a" "\<And>a. I a \<Longrightarrow> J noSeed None td w isl d (case_sum I A) (f a)"
  shows "J noSeed c td w (\<lambda>_. False) d A (loopP f a)"
proof (rule J_any, unfold J_def, intro allI impI)
  fix s
  assume "entry noSeed None td w s"
  then show "wp (loopP f a) (\<lambda>x s'. A x \<and> onward False d s s') s"
    using passesP_ends [of I td w d A f s a "Suc (length (p_toks s))"] assms unfolding loopP_def wp_def by simp
qed

lemma J_bind_loop:
  assumes "I a" "\<And>a. I a \<Longrightarrow> J noSeed None td w isl d (case_sum I A) (f a)" "\<And>x. A x \<Longrightarrow> J noSeed None td w b d B (g x)"
  shows "J noSeed c td w b d B (bindP (loopP f a) g)"
  by (rule J_bindF [OF J_loop [OF assms(1,2)] assms(3)])

text \<open>Steps inside a changed state.\<close>

lemma wp_within: "wp (withinP enter leave m) Q s \<longleftrightarrow> wp m (\<lambda>x s'. Q x (leave s s')) (enter s)"
  by (simp add: withinP_def wp_def bindP_def modP_def retP_def split: option.splits sum.splits)

lemma J_within:
  assumes "\<And>s. entry E c td w s \<Longrightarrow> entry E c td' w (enter s)" "J E c td' w b d A m"
    "\<And>x s s'. A x \<Longrightarrow> onward (b x) d (enter s) s' \<Longrightarrow> onward (b x) d' s (leave s s')"
  shows "J E c td w b d' A (withinP enter leave m)"
  unfolding J_def wp_within
proof (intro allI impI)
  fix s
  assume "entry E c td w s"
  from assms(2) assms(1) [OF this] have "wp m (\<lambda>x s'. A x \<and> onward (b x) d (enter s) s') (enter s)" by (simp add: J_def)
  then show "wp m (\<lambda>x s'. A x \<and> onward (b x) d' s (leave s s')) (enter s)" by (rule wp_mono) (use assms(3) in blast)
qed

lemma J_allow [J_rules]: "J noSeed c td w b d A m \<Longrightarrow> J noSeed c td w b d A (allowStructLit m)"
  unfolding allowStructLit_def by (rule J_within [where d = d]) (auto simp: entry_def onward_def)

text \<open>A parser that takes a token at least, called and at the end.\<close>

abbreviation takes :: "nat \<Rightarrow> nat \<Rightarrow> ('a \<Rightarrow> bool) \<Rightarrow> 'a P \<Rightarrow> bool" where
  "takes td w A p \<equiv> J noSeed None td w (\<lambda>_. True) True A p"

lemma J_tail: "takes td w0 A p \<Longrightarrow> w \<le> w0 \<Longrightarrow> (\<And>x. A x \<Longrightarrow> B x) \<Longrightarrow> J noSeed c td w b d B p"
  by (rule J_any) (erule J_weaken; blast)

lemma J_call: "takes td w0 A p \<Longrightarrow> w \<le> w0 \<Longrightarrow> (\<And>x. A x \<Longrightarrow> J noSeed None td (w - 1) (\<lambda>_. False) d B (f x)) \<Longrightarrow>
    J noSeed c td w b d B (bindP p f)"
  by (rule J_bindT [where A = A]) (auto intro: J_tail)

lemma J_allow_call:
  "takes td w0 A p \<Longrightarrow> w \<le> w0 \<Longrightarrow> (\<And>x. A x \<Longrightarrow> J noSeed None td (w - 1) (\<lambda>_. False) d B (f x)) \<Longrightarrow> J noSeed c td w b d B (bindP (allowStructLit p) f)"
  by (rule J_bindT [where A = A], rule J_allow) (auto intro: J_tail)

text \<open>Names and braces.\<close>

lemma J_plainName [J_rules]: "(\<not> containsUnderscore (Lexeme t) \<Longrightarrow> J E c td w b d A m) \<Longrightarrow> J E c td w b d A (plainName t msg m)"
  by (simp add: plainName_def J_err)

lemma J_bind_plainName [J_rules]:
  "(\<not> containsUnderscore (Lexeme t) \<Longrightarrow> J E c td w b d A (bindP m f)) \<Longrightarrow> J E c td w b d A (bindP (plainName t msg m) f)"
  by (simp add: plainName_def J_bind_err)

lemma postDot_not_EOF: "goodTok t \<Longrightarrow> isPostDotName t \<Longrightarrow> tType t \<noteq> TOKEN_EOF"
  by (auto simp: goodTok_def isPostDotName_def)

lemma postDot_lexeme: "goodTok t \<Longrightarrow> isPostDotName t \<Longrightarrow> Lexeme t \<noteq> []"
  by (auto simp: goodTok_def isPostDotName_def)

lemma J_fieldName [J_rules]:
  assumes "\<And>t. isPostDotName t \<Longrightarrow> J noSeed None td (w - 1) (\<lambda>_. False) d B (f t)"
  shows "J noSeed None td w b d B (bindP (expectFieldName ctx) f)"
  unfolding expectFieldName_def bindP_assoc by (intro J_rules) (use assms postDot_not_EOF in auto)

lemma J_fieldName_at [J_rules]:
  "(\<And>t. isPostDotName t \<Longrightarrow> J noSeed None td (w - 1) (\<lambda>_. False) d B (f t)) \<Longrightarrow> J noSeed (Some u) td w b d B (bindP (expectFieldName ctx) f)"
  by (rule J_any) (rule J_fieldName)

lemma J_postDotName [J_rules]:
  assumes "\<And>t. Lexeme t \<noteq> [] \<Longrightarrow> J noSeed None td (w - 1) (\<lambda>_. False) d B (f t)"
  shows "J noSeed None td w b d B (bindP (postDotName ctx) f)"
proof -
  have *: "goodTok t \<Longrightarrow> tType t = TOKEN_IDENT \<Longrightarrow> Lexeme t \<noteq> []" for t by (simp add: goodTok_def)
  show ?thesis unfolding postDotName_def bindP_assoc by (intro J_rules assms) (simp_all add: * postDot_not_EOF postDot_lexeme)
qed

lemma J_structBrace [J_rules]:
  assumes "\<And>t b'. (b' \<longrightarrow> tType t = TOKEN_LBRACE) \<Longrightarrow> J noSeed (Some t) td w b d B (f b')"
  shows "J noSeed None td w b d B (bindP structBrace f)"
  unfolding structBrace_def bindP_assoc
  by (rule J_gets, rule J_bind_if, rule J_bind_ret, rule J_at, rule assms, simp, rule J_check, rule assms, simp)

lemma J_structBrace_at [J_rules]:
  assumes "\<And>b'. (b' \<longrightarrow> tType t = TOKEN_LBRACE) \<Longrightarrow> J noSeed (Some t) td w b d B (f b')"
  shows "J noSeed (Some t) td w b d B (bindP structBrace f)"
  unfolding structBrace_def bindP_assoc
  by (rule J_gets, rule J_bind_if, rule J_bind_ret, rule assms, simp, rule J_check, rule assms, simp)

lemma J_depth: "J E c td w b d B (f td) \<Longrightarrow> J E c td w b d B (bindP (getsP p_typeDepth) f)"
  by (auto simp: J_def wp_bind entry_def)

lemma J_fewer_isl: "J E c td w isl d A m \<Longrightarrow> w' \<le> w \<Longrightarrow> J E c td w' isl d A m"
  by (erule J_weaken) auto
end
