(* ===== verification/TokenStream.thy ===== *)
theory TokenStream
  imports ParseSafe
begin

text \<open>
  What the parser can rely on of the lexer: a token stream ends with \<open>EOF\<close>, its names are not empty, and its weight, the
  slots of interpolated strings included, is bounded by the length of the source.
\<close>

lemma runes_ofRunes: "toRunes (ofRunes c) = map (\<lambda>r. if scalar r then r else RuneError) c"
proof (induction c)
  case Nil
  then show ?case by (simp add: ofRunes_def toRunes_def runeChunks.simps)
next
  case (Cons r c)
  have "scalar (if scalar r then r else RuneError)" by (simp add: scalar_def RuneError_def)
  from toRunes_encode [OF this] Cons show ?case by (simp add: ofRunes_Cons EncodeRune_def)
qed

lemma ofRunes_empty: "ofRunes c = [] \<longleftrightarrow> c = []"
proof
  assume "ofRunes c = []"
  then have "toRunes (ofRunes c) = []" by (simp add: toRunes_def runeChunks.simps)
  then show "c = []" by (simp add: runes_ofRunes)
qed (simp add: ofRunes_def)

lemma scanInterpSlot_runes:
  assumes "rest l = r # rs" "scanInterpSlot L sl sc (advance l) = Inr (src, l')"
  shows "length (toRunes src) + 2 + length (rest l') = length (rest l)"
proof -
  from slotLoop_copies [OF assms(2) [unfolded scanInterpSlot_def]] obtain l1 cs where
    "copies [] (advance l) src l1" "rest l1 = byte (CHR ''}'') # cs" "l' = advance l1" by blast
  moreover from this(1) obtain c where "consumes (advance l) c l1" "src = ofRunes c" by (auto simp: copies_def)
  ultimately show ?thesis using assms(1) consumes_shorter [of "advance l" c l1] by (simp add: runes_ofRunes)
qed

abbreviation slotsWeight :: "stringPart list \<Rightarrow> nat" where
  "slotsWeight ps \<equiv> sum_list (map slotWeight ps)"

lemma slotsWeight_flush: "slotsWeight (flush lit parts) = slotsWeight parts"
  by (simp add: flush_def slotWeight_def)

lemma slotWeight_slot: "slotWeight \<lparr>IsExpr = True, Text = src, pLine = a, pCol = b\<rparr> = 2 * length (toRunes src) + 2"
  by (simp add: slotWeight_def)

lemma cookedLoop_weight:
  "cookedLoop L sl sc lit parts hasExpr l = Inr (t, l') \<Longrightarrow> slotsWeight (Parts t) + 2 * length (rest l') \<le> slotsWeight parts + 2 * length (rest l)"
proof (induction L sl sc lit parts hasExpr l rule: cookedLoop.induct)
  case (1 L sl sc lit parts hasExpr l)
  show ?case
  proof (cases "rest l")
    case Nil
    with 1(4) show ?thesis by (simp add: cookedLoop.simps lexErr_def)
  next
    case (Cons ch cs)
    consider (quote) "ch = 34" | (esc) "ch = 92" | (slot) "ch \<noteq> 34" "ch \<noteq> 92" "ch = byte (CHR ''{'')"
      | (other) "ch \<noteq> 34" "ch \<noteq> 92" "ch \<noteq> byte (CHR ''{'')" by blast
    then show ?thesis
    proof cases
      case quote
      with 1(4) Cons show ?thesis by (cases hasExpr; subst (asm) cookedLoop.simps) (auto simp: slotsWeight_flush)
    next
      case esc
      with 1(4) Cons obtain r l1 where e: "readCookedEscape sl sc l = Inr (r, l1)" "cookedLoop L sl sc (lit @ EncodeRune r) parts hasExpr l1 = Inr (t, l')"
        by (subst (asm) cookedLoop.simps) (auto split: sum.splits)
      from readCookedEscape_consumes [OF Cons e(1)] consumes_shorter have "length (rest l1) \<le> length (rest l)" by (metis le_add1)
      with 1(1) [OF Cons _ esc e(1) refl e(2)] esc show ?thesis by simp
    next
      case slot
      with 1(4) Cons obtain src l1 where n: "\<not> maxTokens L \<le> length parts" and e: "scanInterpSlot L sl sc (advance l) = Inr (src, l1)"
        and c: "cookedLoop L sl sc [] (flush lit parts @ [\<lparr>IsExpr = True, Text = src, pLine = l_line (advance l), pCol = l_col (advance l)\<rparr>]) True l1 = Inr (t, l')"
        by (subst (asm) cookedLoop.simps) (auto simp: lexErr_def split: sum.splits if_splits)
      from 1(2) [OF Cons slot n e refl c] scanInterpSlot_runes [OF Cons e] show ?thesis by (simp add: slotsWeight_flush slotWeight_slot)
    next
      case other
      with 1(4) Cons have "ch \<noteq> byte (CHR ''}'')" "cookedLoop L sl sc (lit @ EncodeRune ch) parts hasExpr (advance l) = Inr (t, l')"
        by (subst (asm) cookedLoop.simps, auto simp: lexErr_def split: if_splits)+
      with 1(3) [OF Cons other] Cons show ?thesis by simp
    qed
  qed
qed

lemma readRawString_parts: "readRawString sl sc b l = Inr (t, l') \<Longrightarrow> Parts t = []"
proof (induction sl sc b l rule: readRawString.induct)
  case (1 sl sc b l)
  then show ?case by (subst (asm) (2) readRawString.simps) (auto simp: lexErr_def split: list.splits if_splits)
qed

lemma readNumber_parts: "readNumber sl sc l = Inr (t, l') \<Longrightarrow> Parts t = []"
  by (auto simp: readNumber_def readBasedInt_def readDecimal_def Let_def lexErr_def map_sum_Inr_iff split: option.splits if_splits sum.splits)

lemma readToken_parts:
  assumes "readToken L ch l = Inr (t, l')" "ch \<noteq> 34"
  shows "Parts t = []"
proof -
  consider (made) ty s where "t = mkToken ty s (l_line l) (l_col l)" | (op) exts ty where "t = fst (readOperator exts ty l)"
    | (raw) u where "readRawString (l_line l) (l_col l) [] (advance l) = Inr (u, l')" "Parts t = Parts u"
    | (var) "readVarRef (l_line l) (l_col l) l = Inr (t, l')"
    | (number) u where "readNumber (l_line l) (l_col l) l = Inr (u, l')" "Parts t = Parts u"
    | (name) "readIdentifierOrKeyword (l_line l) (l_col l) l = Inr (t, l')"
  proof (cases "punctuation ch")
    case (Some ty)
    then show thesis using assms(1) made by (auto simp: readToken_def Let_def)
  next
    case p: None
    show thesis
    proof (cases "operatorStart ch")
      case (Some x)
      moreover obtain exts ty where "x = (exts, ty)" by (cases x)
      ultimately have "readOperator exts ty l = (t, l')" using assms(1) p by (simp add: readToken_def)
      with op [of exts ty] show thesis by simp
    next
      case None
      then show thesis using assms p made raw var number name unfolding readToken_def Let_def withRaw_def readString_def
        by (auto simp: lexErr_def map_sum_Inr_iff split: if_splits)
    qed
  qed
  then show ?thesis
  proof cases
    case op
    then show ?thesis by (auto simp: readOperator_def split: option.splits)
  next
    case var
    then show ?thesis by (auto simp: readVarRef_def Let_def lexErr_def map_sum_Inr_iff split: if_splits)
  next
    case name
    then show ?thesis by (auto simp: readIdentifierOrKeyword_def lexErr_def split: sum.splits option.splits if_splits)
  qed (auto dest: readRawString_parts readNumber_parts)
qed

lemma readToken_weight:
  assumes "readToken L ch l = Inr (t, l')" "rest l = ch # cs" "length (rest l') < length (rest l)"
  shows "tokWeight t + 2 * length (rest l') \<le> 2 * length (rest l)"
proof (cases "ch = 34")
  case True
  have "punctuation 34 = None" "operatorStart 34 = None" by (simp_all add: punctuation_def operatorStart_def byte_def)
  then obtain u where "cookedLoop L (l_line l) (l_col l) [] [] False (advance l) = Inr (u, l')" "Parts t = Parts u"
    using assms(1) True by (auto simp: readToken_def Let_def withRaw_def readString_def readCookedString_def byte_def map_sum_Inr_iff)
  from cookedLoop_weight [OF this(1)] this(2) assms(2) show ?thesis by (simp add: tokWeight_def)
next
  case False
  then show ?thesis using readToken_parts [OF assms(1)] assms(3) by (simp add: tokWeight_def)
qed

lemma Next_weight:
  assumes "Next L l = Inr (t, l')"
  shows "if tType t = TOKEN_EOF then Parts t = [] else tokWeight t + 2 * length (rest l') \<le> 2 * length (rest l)"
proof -
  obtain k l1 where s: "skipSpace 0 l = (k, l1)" by force
  have le: "length (rest l1) \<le> length (rest l)" using skipSpace_consumes [OF s] consumes_shorter by (metis le_add1)
  note N = assms [unfolded Next_def nextTrivia_def s Let_def prod.case]
  have "Parts t = []" if "\<not> (\<exists>ch cs. rest l1 = ch # cs \<and> readToken L ch l1 = Inr (t, l'))"
    using that N
    by (auto simp: readLineComment_def readBlockComment_def Let_def split: if_splits list.splits sum.splits prod.splits)
  moreover have "tokWeight t + 2 * length (rest l') \<le> 2 * length (rest l1)" if "rest l1 = ch # cs" "readToken L ch l1 = Inr (t, l')" for ch cs
  proof -
    from readToken_lexes [OF that] obtain c where "c \<noteq> []" "consumes l1 c l'" by (auto simp: lexes_def)
    then show ?thesis using readToken_weight [OF that(2,1)] consumes_shorter [of l1 c l'] by (simp flip: length_greater_0_conv)
  qed
  moreover have "tType t \<noteq> TOKEN_EOF" if "rest l1 = ch # cs" "readToken L ch l1 = Inr (t, l')" for ch cs
    using readToken_lexes [OF that] by (simp add: lexes_def)
  ultimately show ?thesis using Next_progress [OF assms] le
    by (cases "\<exists>ch cs. rest l1 = ch # cs \<and> readToken L ch l1 = Inr (t, l')") (auto simp: tokWeight_def simp del: One_nat_def intro: order.trans)
qed

lemma Next_good: "Next L l = Inr (t, l') \<Longrightarrow> goodTok t"
proof -
  assume "Next L l = Inr (t, l')"
  from Next_reads [OF this] obtain g where "reads l g t l'" by blast
  then show ?thesis by (auto simp: reads_def goodTok_def spelling_def ofRunes_empty ofRunes_empty [THEN eq_commute [THEN trans]] split: if_splits)
qed

lemma tokenizeAll_stream:
  "tokenizeAll L out l = Inr ts \<Longrightarrow> \<exists>new. ts = out @ new \<and> stream new \<and> toksWeight new \<le> Suc (2 * length (rest l))"
proof (induction L out l rule: tokenizeAll.induct)
  case (1 L out l)
  from 1(2) obtain t0 l' where n: "Next L l = Inr (t0, l')" by (subst (asm) tokenizeAll.simps) (auto split: sum.splits)
  define t where "t = (if l_file l \<noteq> [] then t0\<lparr>tFile := l_file l\<rparr> else t0)"
  note T = 1(2) [unfolded tokenizeAll.simps [of L out l] n sum.case prod.case Let_def t_def [symmetric]]
  have b: "\<not> maxTokens L \<le> length out" using T by (auto split: if_splits)
  have t: "goodTok t" "tokWeight t = tokWeight t0" "tType t = tType t0"
    using Next_good [OF n] by (auto simp: t_def goodTok_def tokWeight_def)
  show ?case
  proof (cases "tType t = TOKEN_EOF")
    case True
    then have "tokWeight t = 1" using Next_weight [OF n] t by (simp add: tokWeight_def)
    then show ?thesis using T True b t(1) by (auto simp: stream_def toksWeight_def)
  next
    case False
    from False b T have "tokenizeAll L (out @ [t]) l' = Inr ts" by simp
    from 1(1) [OF n refl t_def b False this] obtain new where
      k: "ts = (out @ [t]) @ new" "stream new" "toksWeight new \<le> Suc (2 * length (rest l'))" by blast
    moreover have "tokWeight t + 2 * length (rest l') \<le> 2 * length (rest l)" using Next_weight [OF n] False t by simp
    ultimately show ?thesis using t(1) by (auto simp: stream_def toksWeight_def)
  qed
qed

lemma stripTrivia_stream:
  assumes "stream ts"
  shows "stream (stripTrivia ts)" "toksWeight (stripTrivia ts) \<le> toksWeight ts"
proof -
  have "\<not> isTrivia (tType (last ts))" using assms by (simp add: stream_def isTrivia_def)
  moreover obtain us u where u: "ts = us @ [u]" using assms by (metis stream_ne rev_exhaust)
  ultimately show "stream (stripTrivia ts)" using assms by (auto simp: stream_def stripTrivia_def list_all_iff)
  show "toksWeight (stripTrivia ts) \<le> toksWeight ts" unfolding stripTrivia_def toksWeight_def by (induction ts) auto
qed

lemma newLexer_length: "length (rest (newLexer source file)) \<le> length (toRunes source)"
  by (auto simp: newLexer_def Let_def split: list.splits)

lemma TokenizeAt_stream:
  assumes "TokenizeAt L source file li co = Inr ts"
  shows "stream (stripTrivia ts) \<and> toksWeight (stripTrivia ts) \<le> Suc (2 * length (toRunes source))"
  using tokenizeAll_stream [OF assms [unfolded TokenizeAt_def]] stripTrivia_stream [of ts] newLexer_length [of source "file"] by auto

lemma Tokenize_stream:
  assumes "Tokenize L source = Inr ts"
  shows "stream (stripTrivia ts) \<and> toksWeight (stripTrivia ts) \<le> Suc (2 * length (toRunes source))"
  using tokenizeAll_stream [OF assms [unfolded Tokenize_def TokenizeWithFile_def]] stripTrivia_stream [of ts] newLexer_length [of source "[]"] by auto
end
