(* ===== verification/ParseTotal.thy ===== *)
theory ParseTotal
  imports TokenStream
begin

text \<open>
  Every function of the grammar returns and yields well-formed trees, given that the functions it re-enters
  do so on the tokens it leaves them: the locale \<open>reentry\<close>. The parser is an instance of it at every depth, which
  makes the parse of a source total.
\<close>

text \<open>A parse that ends, and not by running off the tokens.\<close>

definition returns :: "('a \<Rightarrow> bool) \<Rightarrow> (parseError + 'a) option \<Rightarrow> bool" where
  "returns A r \<longleftrightarrow> (case r of None \<Rightarrow> False | Some (Inl e) \<Rightarrow> e \<noteq> Panic | Some (Inr x) \<Rightarrow> A x)"

lemma returns_map: "returns A (map_option (map_sum id f) r) \<longleftrightarrow> returns (\<lambda>x. A (f x)) r"
  by (auto simp: returns_def split: option.splits sum.splits)

lemma returns_mono: "returns A r \<Longrightarrow> (\<And>x. A x \<Longrightarrow> B x) \<Longrightarrow> returns B r"
  by (auto simp: returns_def split: option.splits sum.splits)

locale reentry =
  fixes L :: limits and R :: parsers and n :: nat
  assumes expr: "takes 0 n (parsedE (MaxNestingDepth L)) (rExpr R)"
    and or_: "takes 0 n (parsedE (MaxNestingDepth L)) (rOr R)"
    and not_: "takes 0 n (parsedE (MaxNestingDepth L)) (rNot R)"
    and unary: "takes 0 n (parsedE (MaxNestingDepth L)) (rUnary R)"
    and block: "takes 0 n (parsedB (MaxNestingDepth L)) (rBlock R)"
    and type: "takes td n (parsedTy (MaxNestingDepth L - td)) (rType R)"
begin

abbreviation "M \<equiv> MaxNestingDepth L"

lemmas calls = J_call [OF expr] J_call [OF or_] J_call [OF not_] J_call [OF unary] J_call [OF block] J_call [OF type]
lemmas tails = J_tail [OF expr] J_tail [OF or_] J_tail [OF not_] J_tail [OF unary] J_tail [OF block] J_tail [OF type]

section \<open>Types\<close>

lemma typeBody:
  assumes "td < M"
  shows "J noSeed (Some t) (Suc td) (Suc n) (\<lambda>_. True) True (parsedTy (M - td)) (parseTypeBody R t)"
proof -
  have *: "M - td = Suc (M - Suc td)" using assms by simp
  show ?thesis unfolding parseTypeBody_def * by (intro J_rules calls) auto
qed

lemma type': "takes td (Suc n) (parsedTy (M - td)) (parseType L R)"
  unfolding parseType_def
proof (rule J_peek, rule J_depth, rule J_if, rule J_err)
  fix t
  assume "\<not> M \<le> td"
  then show "J noSeed (Some t) td (Suc n) (\<lambda>_. True) True (parsedTy (M - td))
      (withinP (\<lambda>s. s\<lparr>p_typeDepth := Suc (p_typeDepth s)\<rparr>) (\<lambda>_ s. s\<lparr>p_typeDepth := p_typeDepth s - 1\<rparr>) (parseTypeBody R t))"
    by (intro J_within [OF _ typeBody]) (auto simp: entry_def onward_def)
qed

section \<open>Expressions\<close>

lemmas parsed_trees = parsed_lists list_all_iff

lemma exprs: "w \<le> n \<Longrightarrow> J noSeed c 0 w (\<lambda>_. False) True (list_all (parsedE M)) (exprsP R)"
  unfolding exprsP_def by (rule J_loop [where I = "list_all (parsedE M)"]) (auto intro!: J_rules calls)

lemma args:
  assumes "tType t = TOKEN_LPAREN" "w \<le> Suc n"
  shows "J noSeed (Some t) 0 w (\<lambda>_. True) True (list_all (parsedE M)) (argsP R ctx)"
  unfolding argsP_def using assms
  by (intro J_rules J_bindF [OF exprs]) auto

lemma callTail:
  assumes "tType t = TOKEN_LPAREN" "w \<le> Suc n" "tType callee = TOKEN_IDENT"
  shows "J noSeed (Some t) 0 w (\<lambda>_. True) True (parsedE M) (parseCallTail R callee)"
  unfolding parseCallTail_def parseParenArgs_def using assms
  by (intro J_rules J_bindT [OF args]) (auto simp: parsed_trees)

abbreviation "litFields fs \<equiv> distinct (map fst fs) \<and> list_all (\<lambda>f. parsedE M (snd (snd f))) fs"

lemma structLitPass: "litFields fs \<Longrightarrow> w \<le> n \<Longrightarrow> J noSeed None 0 w isl True (case_sum (\<lambda>fs. litFields fs) (\<lambda>fs. litFields fs)) (structLitPass R fs)"
  unfolding structLitPass_def Let_def by (intro J_rules calls) auto

lemma structLitFields:
  assumes "tType t = TOKEN_LBRACE" "w \<le> Suc n"
  shows "J noSeed (Some t) 0 w (\<lambda>_. True) True (\<lambda>fs. litFields fs) (structLitFields R)"
  unfolding structLitFields_def using assms
  by (intro J_rules J_bind_loop [OF _ structLitPass]) auto

lemma structLitTail:
  assumes "tType t = TOKEN_LBRACE" "w \<le> Suc n"
  shows "J noSeed (Some t) 0 w (\<lambda>_. True) True (parsedE M) (parseStructLitTail R name)"
  unfolding parseStructLitTail_def using assms
  by (intro J_rules J_bindT [OF structLitFields]) (auto simp: parsed_lists)

lemma qualifiedRest: "w \<le> n \<Longrightarrow> J noSeed None 0 w (\<lambda>_. False) True (parsedE M) (qualifiedRest R pre name)"
  unfolding qualifiedRest_def Let_def
  by (intro J_rules J_bindT [OF args] J_bindT [OF structLitFields]) (auto simp: parsed_lists)

lemma qualifiedTail:
  assumes "tType t = TOKEN_DOT" "w \<le> Suc n"
  shows "J noSeed (Some t) 0 w (\<lambda>_. True) True (parsedE M) (parseQualifiedTail R pre)"
  unfolding parseQualifiedTail_def using assms
  by (intro J_rules J_any [OF qualifiedRest] J_bindT [OF structLitFields]) (auto simp: parsed_lists)

lemma listLit:
  assumes "tType t = TOKEN_LBRACKET"
  shows "J noSeed (Some t) 0 (Suc n) (\<lambda>_. True) True (parsedE M) (parseListLit R)"
  unfolding parseListLit_def using assms
  by (intro J_rules J_bind_loop [where I = "list_all (parsedE M)" and A = "list_all (parsedE M)"] calls) (auto simp: parsed_lists)

lemma mapLit:
  assumes "tType t = TOKEN_LBRACE"
  shows "J noSeed (Some t) 0 (Suc n) (\<lambda>_. True) True (parsedE M) (parseMapLit R)"
  unfolding parseMapLit_def using assms
  by (intro J_rules J_bind_loop [where I = "list_all (\<lambda>x. parsedE M (fst x) \<and> parsedE M (snd x))" and A = "list_all (\<lambda>x. parsedE M (fst x) \<and> parsedE M (snd x))"] calls)
    (auto simp: parsed_lists)

text \<open>A slot is parsed from tokens of its own, which weigh less than the string.\<close>

lemma slotExpr:
  assumes "slotWeight sp \<le> n" "IsExpr sp"
  shows "returns (\<lambda>(e, b'). parsedE M e) (slotExpr L R t k sp b)"
proof (cases "TokenizeAt L (Text sp) (tFile t) (pLine sp) (pCol sp)")
  case (Inr toks)
  define s where "s = \<lparr>p_toks = stripTrivia toks, p_seed = None, p_exprDepth = k, p_stmtDepth = 0, p_typeDepth = 0,
    p_budget = Some (b - int (length (Text sp))), p_noStructLit = False\<rparr>"
  define p where "p = bindP (rExpr R) (\<lambda>e. bindP peekP (\<lambda>next.
      if tType next \<noteq> TOKEN_EOF
      then errAt next ''interpolation slot must be a single expression, got extra %s (%q)'' [PTok (tType next), PStr (describeLexeme (Lexeme next))]
      else bindP (getsP p_budget) (\<lambda>b'. retP (e, b'))))"
  have "entry noSeed None 0 n s"
    using TokenizeAt_stream [OF Inr] assms by (simp add: entry_def s_def slotWeight_def)
  moreover have "J noSeed None 0 n (\<lambda>_. True) True (\<lambda>(e, b'). parsedE M e) p"
    unfolding p_def by (intro J_rules calls) auto
  ultimately have "wp p (\<lambda>(e, b') s'. parsedE M e) s" unfolding J_def by (auto elim!: wp_mono)
  then show ?thesis
    unfolding slotExpr_def Inr sum.case s_def [symmetric] p_def [symmetric] returns_def wp_def by (auto split: option.splits sum.splits)
qed (simp add: slotExpr_def returns_def)

lemma interpParts:
  "slotsWeight sps \<le> n \<Longrightarrow> returns (\<lambda>(ps, b'). list_all (case_sum (\<lambda>_. True) (parsedE M)) ps) (interpParts L R t k sps b)"
proof (induction sps arbitrary: b)
  case (Cons sp sps)
  have rest: "returns (\<lambda>(ps, b'). list_all (case_sum (\<lambda>_. True) (parsedE M)) ps) (interpParts L R t k sps b')" for b'
    using Cons by simp
  show ?case
  proof (cases "IsExpr sp")
    case True
    with Cons.prems have "returns (\<lambda>(e, b'). parsedE M e) (slotExpr L R t k sp b)" by (intro slotExpr) auto
    then consider e where "slotExpr L R t k sp b = Some (Inl e)" "e \<noteq> Panic" | e b' where "slotExpr L R t k sp b = Some (Inr (e, b'))" "parsedE M e"
      by (auto simp: returns_def split: option.splits sum.splits)
    then show ?thesis
    proof cases
      case (2 e b')
      then show ?thesis using rest [of b'] True by (auto simp: returns_map elim!: returns_mono)
    qed (simp add: True returns_def)
  next
    case False
    then show ?thesis using rest [of b] by (auto simp: returns_map elim!: returns_mono)
  qed
qed (simp add: returns_def)

lemma interpString:
  assumes "tokWeight t \<le> Suc n"
  shows "J noSeed c 0 w (\<lambda>_. False) True (parsedE M) (buildInterpString L R t)"
  unfolding J_def
proof (intro allI impI)
  fix s
  assume s: "entry noSeed c 0 w s"
  define b where "b = (case p_budget s of Some b \<Rightarrow> b | None \<Rightarrow> int (MaxSourceBytes L))"
  have "slotsWeight (Parts t) \<le> n" using assms by (simp add: tokWeight_def)
  from interpParts [OF this, of t "p_exprDepth s" b] s
  show "wp (buildInterpString L R t) (\<lambda>x s'. parsedE M x \<and> onward False True s s') s"
    unfolding buildInterpString_def b_def [symmetric] wp_def returns_def
    by (auto simp: entry_def onward_def parsed_lists case_sum_map_sum split: option.splits sum.splits)
qed

lemma typeNameError: "goodTok t \<Longrightarrow> tType t \<in> {TOKEN_INT_TYPE, TOKEN_FLOAT_TYPE, TOKEN_STRING_TYPE, TOKEN_BOOL_TYPE, TOKEN_BYTES_TYPE} \<Longrightarrow>
    J noSeed (Some t) 0 w b d A (typeNameError t)"
  unfolding typeNameError_def by (intro J_rules) (auto simp: goodTok_def intro: J_err)

lemma literals:
  assumes "tType t \<noteq> TOKEN_EOF"
  shows "J noSeed (Some t) 0 w (\<lambda>_. True) True (parsedE M) (intAtom t)" "J noSeed (Some t) 0 w (\<lambda>_. True) True (parsedE M) (floatAtom t)"
  unfolding intAtom_def floatAtom_def using assms by (intro J_rules; auto split: sum.split intro: J_err J_ret)+

lemma keywordAtoms:
  assumes "tType t \<noteq> TOKEN_EOF"
  shows "J noSeed (Some t) 0 (Suc n) (\<lambda>_. True) True (parsedE M) (lenAtom R t)"
    "J noSeed (Some t) 0 (Suc n) (\<lambda>_. True) True (parsedE M) (taskAtom R t)"
proof -
  show "J noSeed (Some t) 0 (Suc n) (\<lambda>_. True) True (parsedE M) (lenAtom R t)"
    unfolding lenAtom_def using assms by (intro J_rules calls) auto
  show "J noSeed (Some t) 0 (Suc n) (\<lambda>_. True) True (parsedE M) (taskAtom R t)"
    unfolding taskAtom_def using assms by (intro J_rules J_weaken [OF qualifiedTail [where w = n]]) auto
qed

lemma parsedB_Stmts: "parsedB M b \<Longrightarrow> list_all (parsedS M) (Stmts b)"
  by (cases b) (simp add: parsed_lists)

lemma groupedAtoms:
  assumes "tType t \<noteq> TOKEN_EOF"
  shows "J noSeed (Some t) 0 (Suc n) (\<lambda>_. True) True (parsedE M) (spawnAtom R t)"
    "J noSeed (Some t) 0 (Suc n) (\<lambda>_. True) True (parsedE M) (groupAtom R)"
proof -
  show "J noSeed (Some t) 0 (Suc n) (\<lambda>_. True) True (parsedE M) (spawnAtom R t)"
    unfolding spawnAtom_def using assms by (intro J_rules calls) (auto simp: parsed_lists dest: parsedB_Stmts)
  show "J noSeed (Some t) 0 (Suc n) (\<lambda>_. True) True (parsedE M) (groupAtom R)"
    unfolding groupAtom_def using assms by (intro J_rules J_allow_call [OF expr]) auto
qed

lemma identAtom:
  assumes "tType t = TOKEN_IDENT"
  shows "J noSeed (Some t) 0 (Suc n) (\<lambda>_. True) True (parsedE M) (identAtom R t)"
  unfolding identAtom_def using assms
  by (intro J_rules J_weaken [OF qualifiedTail [where w = n]] J_weaken [OF structLitTail [where w = n]] J_weaken [OF callTail [where w = n]]) auto

lemma atom:
  assumes "goodTok t" "tokWeight t \<le> Suc n"
  shows "J noSeed (Some t) 0 (Suc n) (\<lambda>_. True) True (parsedE M) (atomAt L R t)"
  unfolding atomAt_def using assms
  by (intro J_rules literals keywordAtoms groupedAtoms identAtom listLit mapLit typeNameError J_weaken [OF interpString]) auto

text \<open>The ladder also starts from a primary that was read before, the seed.\<close>

abbreviation "climbs p \<equiv> J (parsedE M) None 0 (Suc n) (\<lambda>_. True) True (parsedE M) p"

lemma primaryAtom: "climbs (parsePrimaryAtom L R)"
  unfolding J_def
proof (intro allI impI)
  fix s
  assume s: "entry (parsedE M) None 0 (Suc n) s"
  show "wp (parsePrimaryAtom L R) (\<lambda>x s'. parsedE M x \<and> onward True True s s') s"
  proof (cases "p_seed s")
    case None
    with s have "entry noSeed None 0 (Suc n) s" by (simp add: entry_def)
    moreover have "takes 0 (Suc n) (parsedE M) (bindP peekP (atomAt L R))" by (intro J_rules atom)
    ultimately show ?thesis using None by (simp add: parsePrimaryAtom_def wp_bind J_def)
  next
    case (Some e)
    with s show ?thesis by (simp add: parsePrimaryAtom_def wp_bind thenP_def entry_def onward_def)
  qed
qed

lemma bracketSuffix:
  assumes "tType t = TOKEN_LBRACKET" "parsedE M e"
  shows "J noSeed (Some t) 0 (Suc n) (\<lambda>_. True) True (\<lambda>x. parsedE M x \<and> (rooted e \<longrightarrow> rooted x)) (parseBracketSuffix R e)"
  unfolding parseBracketSuffix_def sliceHi_def using assms by (intro J_rules calls) auto

lemma fieldSuffix:
  assumes "tType t = TOKEN_DOT" "parsedE M e"
  shows "J noSeed (Some t) 0 (Suc n) (\<lambda>_. True) True (\<lambda>x. parsedE M x \<and> (rooted e \<longrightarrow> rooted x)) (fieldSuffix e)"
  unfolding fieldSuffix_def using assms by (intro J_rules) auto

lemma callSuffix:
  assumes "tType t = TOKEN_LPAREN" "parsedE M e"
  shows "J noSeed (Some t) 0 (Suc n) (\<lambda>_. True) True (parsedE M) (callSuffix R e)"
  unfolding callSuffix_def parseParenArgs_def using assms by (intro J_rules J_bindT [OF args]) (auto simp: parsed_lists)

lemma suffixPass: "parsedE M e \<Longrightarrow> J noSeed None 0 (Suc n) isl True (case_sum (parsedE M) (parsedE M)) (suffixPass R e)"
  unfolding suffixPass_def by (intro J_rules J_bindT [OF bracketSuffix] J_bindT [OF fieldSuffix] J_bindT [OF callSuffix]) auto

lemma primary: "climbs (parsePrimary L R)"
  unfolding parsePrimary_def by (rule J_bindS [OF primaryAtom]) (rule J_loop [OF _ suffixPass])

text \<open>A step that goes one level down and comes back.\<close>

lemma deepen: "entry E c td w s \<Longrightarrow> wp m Q (s\<lparr>p_exprDepth := Suc (p_exprDepth s)\<rparr>) \<Longrightarrow> wp (thenP (deepenExpr L) m) Q s"
  by (auto simp: thenP_def wp_bind deepenExpr_def entry_def)

lemma prefixed:
  assumes "takes 0 w (parsedE M) p"
  shows "J noSeed None 0 w (\<lambda>_. True) True (parsedE M) (prefixP L t op p)"
  unfolding J_def prefixP_def
proof (intro allI impI)
  fix s :: pstate
  define s1 where "s1 = s\<lparr>p_exprDepth := Suc (p_exprDepth s)\<rparr>"
  assume s: "entry noSeed None 0 w s"
  then have "entry noSeed None 0 w s1" by (simp add: entry_def s1_def)
  with assms have "wp p (\<lambda>x s'. parsedE M x \<and> onward True True s1 s') s1" by (simp add: J_def)
  then have "wp (bindP p (\<lambda>e. thenP (modP (\<lambda>s. s\<lparr>p_exprDepth := p_exprDepth s - 1\<rparr>)) (retP (UnaryExpr (tokPos t) op e None))))
      (\<lambda>x s'. parsedE M x \<and> onward True True s s') s1"
    unfolding wp_bind thenP_def by (rule wp_mono) (auto simp: onward_def s1_def)
  then show "wp (thenP (deepenExpr L) (bindP p (\<lambda>e. thenP (modP (\<lambda>s. s\<lparr>p_exprDepth := p_exprDepth s - 1\<rparr>)) (retP (UnaryExpr (tokPos t) op e None)))))
      (\<lambda>x s'. parsedE M x \<and> onward True True s s') s"
    unfolding s1_def by (rule deepen [OF s])
qed

text \<open>The rungs.\<close>

lemma unseeded:
  assumes "climbs p" "takes 0 (Suc n) (parsedE M) q"
  shows "climbs (bindP (getsP p_seed) (\<lambda>seed. if seed \<noteq> None then p else q))"
  unfolding J_def wp_bind
proof (intro allI impI)
  fix s
  assume s: "entry (parsedE M) None 0 (Suc n) s"
  show "wp (getsP p_seed) (\<lambda>seed. wp (if seed \<noteq> None then p else q) (\<lambda>x s'. parsedE M x \<and> onward True True s s')) s"
  proof (cases "p_seed s")
    case None
    with s have "entry noSeed None 0 (Suc n) s" by (simp add: entry_def)
    then show ?thesis using assms(2) None by (simp add: J_def)
  next
    case (Some e)
    then show ?thesis using assms(1) s by (simp add: J_def)
  qed
qed

lemma climbs_takes: "climbs p \<Longrightarrow> takes 0 (Suc n) (parsedE M) p"
  by (rule J_unseeded)

lemma foldMost: "J noSeed (Some t) 0 w b True B (bindP foldMostNegativeInt f)"
  if "tType t \<noteq> TOKEN_EOF" "\<And>p. J noSeed None 0 (w - 1) (\<lambda>_. False) True B (f (Some (IntLit p minInt64)))" "J noSeed None 0 w b True B (f None)"
  unfolding foldMostNegativeInt_def bindP_assoc using that by (intro J_rules) (auto intro: J_any)

lemma minus: "w \<le> n \<Longrightarrow> J noSeed None 0 w (\<lambda>_. False) True (parsedE M) (minusP L R t)"
  unfolding minusP_def
  by (intro J_rules foldMost; (simp only: option.case)?; (intro J_rules J_any [OF J_weaken [OF prefixed [OF unary]]])?; auto)

lemma unaryMinus: "climbs (parseUnaryMinus L R)"
  unfolding parseUnaryMinus_def
proof (rule unseeded [OF primary])
  show "takes 0 (Suc n) (parsedE M) (bindP (matchP TOKEN_MINUS) (\<lambda>m. case m of
       Some t \<Rightarrow> minusP L R t
     | None \<Rightarrow> bindP (matchP TOKEN_BIT_NOT) (\<lambda>b. case b of
         Some t \<Rightarrow> prefixP L t OpBitNot (rUnary R)
       | None \<Rightarrow> parsePrimary L R)))"
    by (rule J_match, simp, simp add: minus, simp, rule J_match, simp, simp add: J_weaken [OF prefixed [OF unary]], simp add: climbs_takes [OF primary])
qed

lemma J_deepen:
  assumes "J E c td w b False A m"
  shows "J E c td w b False A (thenP (deepenExpr L) m)"
  unfolding J_def
proof (intro allI impI)
  fix s :: pstate
  define s1 where "s1 = s\<lparr>p_exprDepth := Suc (p_exprDepth s)\<rparr>"
  assume s: "entry E c td w s"
  then have "entry E c td w s1" by (simp add: entry_def s1_def)
  with assms have "wp m (\<lambda>x s'. A x \<and> onward (b x) False s1 s') s1" by (simp add: J_def)
  then have "wp m (\<lambda>x s'. A x \<and> onward (b x) False s s') s1" by (rule wp_mono) (auto simp: onward_def s1_def)
  then show "wp (thenP (deepenExpr L) m) (\<lambda>x s'. A x \<and> onward (b x) False s s') s" unfolding s1_def by (rule deepen [OF s])
qed

lemma binaryPass:
  assumes "climbs p" "map_of ops TOKEN_EOF = None" "parsedE M left"
  shows "J noSeed None 0 (Suc n) isl False (case_sum (parsedE M) (parsedE M)) (binaryPass L ops p left)"
  unfolding binaryPass_def
proof (rule J_peek)
  fix t
  show "J noSeed (Some t) 0 (Suc n) isl False (case_sum (parsedE M) (parsedE M)) (case map_of ops (tType t) of
     None \<Rightarrow> retP (Inr left)
   | Some op \<Rightarrow> thenP (deepenExpr L) (thenP advanceP (bindP p (\<lambda>right. retP (Inl (BinaryExpr (exprPos left) op left right None))))))"
  proof (cases "map_of ops (tType t)")
    case None
    then show ?thesis using assms(3) by (auto intro: J_ret)
  next
    case (Some op)
    then have "tType t \<noteq> TOKEN_EOF" using assms(2) by (metis option.distinct(1))
    then show ?thesis unfolding Some option.case
      by (intro J_deepen J_rules J_call [OF climbs_takes [OF assms(1)]]) (use assms(3) in auto)
  qed
qed

lemma binary:
  assumes "climbs p" "map_of ops TOKEN_EOF = None"
  shows "climbs (binaryP L ops p)"
  unfolding binaryP_def
proof (rule J_bindS [OF assms(1)])
  fix left
  assume "parsedE M left"
  then show "J noSeed None 0 (Suc n) (\<lambda>_. False) True (parsedE M) (withinP id (\<lambda>s0 s. s\<lparr>p_exprDepth := p_exprDepth s0\<rparr>) (loopP (binaryPass L ops p) left))"
    by (intro J_within [where d = False and td' = 0] J_loop [where I = "parsedE M"] binaryPass [OF assms]) (auto simp: onward_def)
qed

lemmas rungs = parseMul_def parseAdd_def parseShift_def parseBitAnd_def parseBitXor_def parseBitOr_def parseComparison_def

lemma comparison: "climbs (parseComparison L R)"
  unfolding rungs by (intro binary unaryMinus) auto

lemma not': "climbs (parseNot L R)"
  unfolding parseNot_def
proof (rule unseeded [OF comparison])
  show "takes 0 (Suc n) (parsedE M) (bindP (matchP TOKEN_NOT) (\<lambda>m. case m of Some t \<Rightarrow> prefixP L t OpNot (rNot R) | None \<Rightarrow> parseComparison L R))"
    by (rule J_match, simp, simp add: J_weaken [OF prefixed [OF not_]], simp add: climbs_takes [OF comparison])
qed

lemma or': "climbs (parseOr L R)"
  unfolding parseOr_def parseAnd_def by (intro binary not') auto

lemma range: "climbs (parseRange L R)"
  unfolding parseRange_def
  by (rule J_bindS [OF or']) (intro J_rules J_call [OF climbs_takes [OF or']]; auto)

lemma expr': "climbs (parseExpr L R)"
  unfolding parseExpr_def
  by (intro J_rules J_within [OF _ range]) (auto simp: entry_def onward_def intro!: J_peek J_err)

section \<open>Statements\<close>

abbreviation "statement t p \<equiv> J noSeed (Some t) 0 (Suc n) (\<lambda>_. True) True (parsedS M) p"

lemma exprT: "takes 0 (Suc n) (parsedE M) (parseExpr L R)"
  by (rule climbs_takes [OF expr'])

lemma typeT: "takes 0 (Suc n) (parsedTy M) (parseType L R)"
  using type' [of 0] by simp

lemmas stmt_calls = J_call [OF exprT] J_call [OF typeT] calls

lemma defineLike:
  assumes "tType t = TOKEN_DEFINE" "w \<le> Suc n"
  shows "J noSeed (Some t) 0 w (\<lambda>_. True) True (\<lambda>st. parsedS M st \<and> isDefine st) (parseDefineLike L R)"
  unfolding parseDefineLike_def constDefine_def varDefine_def using assms by (intro J_rules stmt_calls) (auto simp: isDefine_def)

lemma J_optionalExpr:
  assumes "w \<le> Suc n" "\<And>e. pred_option (parsedE M) e \<Longrightarrow> J noSeed None 0 w (\<lambda>_. False) True B (f e)"
  shows "J noSeed None 0 w (\<lambda>_. False) True B (bindP (optionalExpr L R) f)"
  unfolding optionalExpr_def
  by (intro J_rules stmt_calls) (use assms in \<open>auto intro: J_any J_fewer [where w = w and b = "\<lambda>_. False"]\<close>)

lemma simpleStatements:
  shows "tType t = TOKEN_RETURN \<Longrightarrow> statement t (parseReturn L R)"
    and "tType t = TOKEN_BREAK \<Longrightarrow> statement t parseBreak"
    and "tType t = TOKEN_CONTINUE \<Longrightarrow> statement t parseContinue"
    and "tType t = TOKEN_EXIT \<Longrightarrow> statement t (parseExit L R)"
    and "tType t = TOKEN_THROW \<Longrightarrow> statement t (parseThrow L R)"
    and "tType t = TOKEN_DEFER \<or> tType t = TOKEN_ERRDEFER \<Longrightarrow> statement t (parseDefer L R)"
  unfolding parseReturn_def parseBreak_def parseContinue_def parseExit_def parseThrow_def parseDefer_def Let_def
  by (intro J_rules stmt_calls J_optionalExpr; auto simp: parsed_lists)+

lemma blockStatements:
  shows "tType t = TOKEN_REPEAT \<Longrightarrow> statement t (parseRepeat L R)"
    and "tType t = TOKEN_TRY \<Longrightarrow> statement t (parseTry R)"
    and "tType t = TOKEN_WHILE \<Longrightarrow> statement t (parseWhile L R)"
  unfolding parseRepeat_def parseTry_def parseWhile_def parseParenCond_def
  by (intro J_rules stmt_calls; auto)+

lemma ifStatement: "tType t = TOKEN_IF \<Longrightarrow> statement t (parseIf L R)"
  unfolding parseIf_def parseParenCond_def parseElse_def elseIfPass_def
  by (intro J_rules stmt_calls J_bind_loop [where I = "list_all (\<lambda>x. parsedE M (fst x) \<and> parsedB M (snd x))"
        and A = "list_all (\<lambda>x. parsedE M (fst x) \<and> parsedB M (snd x))"]) (auto simp: parsed_lists)

lemma whenValues: "w \<le> Suc n \<Longrightarrow> J noSeed c 0 w (\<lambda>_. False) True (\<lambda>vs. vs \<noteq> [] \<and> list_all (parsedE M) vs) (whenValues L R)"
  unfolding whenValues_def
  by (intro J_within [where d = True and td' = 0] J_loop [where I = "list_all (parsedE M)"] J_rules stmt_calls) (auto simp: entry_def onward_def)

lemma whenArm: "tType t = TOKEN_WHEN \<Longrightarrow> J noSeed (Some t) 0 (Suc n) (\<lambda>_. True) True (parsedA M) (whenArm L R)"
  unfolding whenArm_def by (intro J_rules calls J_bindF [OF whenValues]) (auto simp: parsed_lists)

abbreviation "parsedArms x \<equiv> list_all (parsedA M) (fst x) \<and> pred_option (parsedB M) (snd x)"

lemma matchPass: "parsedArms x \<Longrightarrow> J noSeed None 0 (Suc n) isl True (case_sum (\<lambda>x. parsedArms x) (\<lambda>x. parsedArms x)) (matchPass L R x)"
  unfolding matchPass_def by (cases x; simp only: prod.case) (intro J_rules calls J_bindT [OF whenArm]; auto)

lemma matchStatement: "tType t = TOKEN_MATCH \<Longrightarrow> statement t (parseMatch L R)"
  unfolding parseMatch_def parseParenCond_def
  by (intro J_rules stmt_calls J_bind_loop [where I = "\<lambda>x. parsedArms x" and A = "\<lambda>x. parsedArms x"] J_weaken [OF matchPass])
    (auto simp: parsed_lists intro!: J_rules)

lemma assign: "takes 0 (Suc n) (\<lambda>st. parsedS M st \<and> isAssign st) (parseAssign L R semi)"
  unfolding parseAssign_def by (intro J_rules stmt_calls; (intro J_rules)?; auto simp: isAssign_def)

lemma J_atAssign: "(\<And>x. J noSeed None 0 w b d B (f x)) \<Longrightarrow> J noSeed None 0 w b d B (bindP atAssign f)"
  unfolding atAssign_def bindP_assoc by (intro J_rules) (auto intro: J_any)

lemma J_atForEach:
  assumes "\<And>x. J noSeed None 0 w b d B (f x)"
  shows "J noSeed None 0 w b d B (bindP atForEach f)"
proof -
  have each: "wp atForEach (\<lambda>x s'. s' = s) s" if "stream (p_toks s)" for s
  proof -
    have "2 < length (p_toks s)" if "tType (p_toks s ! 0) = TOKEN_DEFINE" "tType (p_toks s ! 1) = TOKEN_IDENT" "1 < length (p_toks s)"
      using that \<open>stream (p_toks s)\<close> by (cases "p_toks s"; cases "tl (p_toks s)"; cases "tl (tl (p_toks s))") (auto simp: stream_def)
    moreover have "1 < length (p_toks s)" if "tType (p_toks s ! 0) = TOKEN_DEFINE"
      using that \<open>stream (p_toks s)\<close> by (cases "p_toks s"; cases "tl (p_toks s)") (auto simp: stream_def)
    ultimately show ?thesis
      using that by (auto simp: atForEach_def checkP_def wp_bind hd_conv_nth wp_peekN)
  qed
  show ?thesis unfolding J_def wp_bind
  proof (intro allI impI)
    fix s
    assume s: "entry noSeed None 0 w s"
    then have "wp atForEach (\<lambda>x s'. s' = s) s" by (intro each) (simp add: entry_def)
    then show "wp atForEach (\<lambda>x. wp (f x) (\<lambda>x s'. B x \<and> onward (b x) d s s')) s"
      by (rule wp_mono) (use assms s in \<open>simp add: J_def\<close>)
  qed
qed

lemma forInit: "w \<le> n \<Longrightarrow> J noSeed None 0 w (\<lambda>_. False) True (\<lambda>st. pred_option (\<lambda>x. parsedS M x \<and> (isDefine x \<or> isAssign x)) st) (forInit L R)"
  unfolding forInit_def by (intro J_rules J_atAssign J_call [OF assign] J_bindT [OF defineLike] J_any [OF J_atAssign]) auto

lemma forStep: "w \<le> n \<Longrightarrow> J noSeed None 0 w (\<lambda>_. False) True (\<lambda>st. pred_option (\<lambda>x. parsedS M x \<and> isAssign x) st) (forStep L R)"
  unfolding forStep_def by (intro J_rules J_atAssign J_call [OF assign]) auto

lemma forEach: "J noSeed None 0 n (\<lambda>_. False) True (parsedS M) (parseForEachTail L R t)"
  unfolding parseForEachTail_def by (intro J_rules stmt_calls) auto

lemma forStatement: "tType t = TOKEN_FOR \<Longrightarrow> statement t (parseFor L R)"
  unfolding parseFor_def
  by (intro J_rules J_atForEach stmt_calls J_optionalExpr J_weaken [OF forEach] J_bindF [OF forInit] J_bindF [OF forStep])
    (auto simp: parsed_lists pred_option_def)

lemma append:
  assumes "tType t = TOKEN_LBRACKET" "parsedE M e" "rooted e"
  shows "statement t (parseAppend L R vref e)"
  unfolding parseAppend_def using assms by (intro J_rules stmt_calls) auto

lemma exprFrom:
  assumes "parsedE M e"
  shows "J noSeed c 0 (Suc n) (\<lambda>_. False) True (parsedE M) (parseExprFrom L R e)"
  unfolding J_def parseExprFrom_def thenP_def wp_bind
proof (intro allI impI)
  fix s :: pstate
  assume "entry noSeed c 0 (Suc n) s"
  then have "entry (parsedE M) None 0 (Suc n) (s\<lparr>p_seed := Some e\<rparr>)" using assms by (simp add: entry_def)
  with expr' have "wp (parseExpr L R) (\<lambda>x s'. parsedE M x \<and> onward True True (s\<lparr>p_seed := Some e\<rparr>) s') (s\<lparr>p_seed := Some e\<rparr>)" by (simp add: J_def)
  then have "wp (parseExpr L R) (\<lambda>x s'. parsedE M x \<and> onward False True s s') (s\<lparr>p_seed := Some e\<rparr>)"
    by (rule wp_mono) (auto simp: onward_def)
  then show "wp (modP (\<lambda>s. s\<lparr>p_seed := Some e\<rparr>)) (\<lambda>_. wp (parseExpr L R) (\<lambda>x s'. parsedE M x \<and> onward False True s s')) s" by simp
qed

lemma chainAssign: "parsedE M e \<Longrightarrow> rooted e \<Longrightarrow> parsedE M v \<Longrightarrow> J noSeed None 0 w (\<lambda>_. False) True (parsedS M) (chainAssign vref e v)"
  unfolding chainAssign_def by (cases e) (auto intro!: J_rules simp: isIndex_def isField_def)

lemma chainEnd: "parsedE M e \<Longrightarrow> rooted e \<Longrightarrow> takes 0 (Suc n) (parsedS M) (chainEnd L R vref e)"
  unfolding chainEnd_def by (intro J_rules stmt_calls J_bindF [OF exprFrom] chainAssign) auto

lemma chainPass: "parsedE M e \<and> rooted e \<Longrightarrow>
    J noSeed None 0 (Suc n) isl True (case_sum (\<lambda>e. parsedE M e \<and> rooted e) (parsedS M)) (chainPass L R vref e)"
  unfolding chainPass_def
  by (intro J_rules J_bindT [OF append] J_bindT [OF bracketSuffix] J_bindT [OF fieldSuffix] J_call [OF chainEnd]) auto

lemma indexAssign: "tType t = TOKEN_VARREF \<Longrightarrow> statement t (tryParseIndexAssign L R)"
  unfolding tryParseIndexAssign_def
  by (intro J_rules J_loop [where I = "\<lambda>e. parsedE M e \<and> rooted e"] J_weaken [OF chainPass]) auto

lemma exprStmt: "statement t (exprStatement L R)"
  unfolding exprStatement_def by (intro J_rules stmt_calls) auto

lemma varStatement: "tType t = TOKEN_VARREF \<Longrightarrow> statement t (varStatement L R)"
  unfolding varStatement_def by (intro J_rules indexAssign exprStmt J_tail [OF assign]) auto

lemma statement': "takes 0 (Suc n) (parsedS M) (parseStatement L R)"
  unfolding parseStatement_def
  by (intro J_rules J_weaken [OF defineLike [where w = "Suc n"]] simpleStatements blockStatements ifStatement forStatement matchStatement varStatement exprStmt) auto

lemma blockBody: "takes 0 (Suc n) (parsedB M) (parseBlock L R)"
  unfolding parseBlock_def blockPass_def
  by (intro J_rules J_within [where d = True and td' = 0] J_bind_loop [where I = "list_all (parsedS M)" and A = "list_all (parsedS M)"] J_call [OF statement'])
    (auto simp: parsed_lists entry_def onward_def)

section \<open>Programs\<close>

lemma importTail: "w \<le> Suc n \<Longrightarrow> J noSeed c 0 w (\<lambda>_. True) True (\<lambda>_. True) (importTail ctx msg semi)"
  unfolding importTail_def by (rule J_any) (intro J_rules, auto)

lemma imports':
  shows "tType t = TOKEN_IMPORT \<Longrightarrow> J noSeed (Some t) 0 (Suc n) (\<lambda>_. True) True (\<lambda>_. True) parseModuleImport"
    and "tType t = TOKEN_USE \<Longrightarrow> J noSeed (Some t) 0 (Suc n) (\<lambda>_. True) True (\<lambda>_. True) parseImport"
  unfolding parseModuleImport_def parseImport_def
  by (intro J_rules J_bindT [OF importTail]; auto)+

abbreviation "parsedParams ps \<equiv> list_all (\<lambda>p. parsedTy M (pType p) \<and> \<not> containsUnderscore (pName p) \<and> \<not> pBorrow p) ps"

lemma paramPass: "parsedParams ps \<Longrightarrow> J noSeed None 0 (Suc n) isl True (case_sum (\<lambda>ps. parsedParams ps) (\<lambda>ps. parsedParams ps)) (paramPass L R ps)"
  unfolding paramPass_def Let_def by (intro J_rules stmt_calls) auto

lemma methodDef: "tType t = TOKEN_FUNC \<Longrightarrow> J noSeed (Some t) 0 (Suc n) (\<lambda>_. True) True (parsedMethod M) (parseMethodDef L R)"
  unfolding parseMethodDef_def
  by (intro J_rules J_bind_loop [OF _ J_fewer_isl [OF paramPass]] J_call [OF blockBody]) (auto simp: parsedMethod_def)

lemma fieldPass: "parsedFields M fs \<Longrightarrow> J noSeed None 0 (Suc n) isl True (case_sum (parsedFields M) (parsedFields M)) (fieldPass L R words fs)"
  unfolding fieldPass_def Let_def by (intro J_rules stmt_calls) (auto simp: parsedFields_def)

lemma structDef: "tType t = TOKEN_DEFINE \<Longrightarrow> J noSeed (Some t) 0 (Suc n) (\<lambda>_. True) True (parsedStruct M) (parseStructDef L R)"
  unfolding parseStructDef_def
  by (intro J_rules J_bind_loop [OF _ J_fewer_isl [OF fieldPass]]) (auto simp: parsedStruct_def parsedFields_def)

lemma variantFields: "w \<le> n \<Longrightarrow> J noSeed None 0 w (\<lambda>_. False) True (parsedFields M) (variantFields L R)"
  unfolding variantFields_def
  by (intro J_rules J_bind_loop [OF _ J_fewer_isl [OF fieldPass]]) (auto simp: parsedFields_def)

abbreviation "parsedVariants vs \<equiv> distinct (map evName vs) \<and> list_all (\<lambda>v. \<not> containsUnderscore (evName v) \<and> parsedFields M (evFields v)) vs"

lemma variantPass: "parsedVariants vs \<Longrightarrow>
    J noSeed None 0 (Suc n) isl True (case_sum (\<lambda>vs. parsedVariants vs) (\<lambda>vs. vs \<noteq> [] \<and> parsedVariants vs)) (variantPass L R vs)"
  unfolding variantPass_def Let_def by (intro J_rules J_bindF [OF variantFields]) auto

lemma enumDef: "tType t = TOKEN_DEFINE \<Longrightarrow> J noSeed (Some t) 0 (Suc n) (\<lambda>_. True) True (parsedEnum M) (parseEnumDef L R)"
  unfolding parseEnumDef_def
  by (intro J_rules J_bind_loop [OF _ J_fewer_isl [OF variantPass]]) (auto simp: parsedEnum_def)

lemma fewer: "J noSeed c 0 (Suc n) (\<lambda>_. True) True A p \<Longrightarrow> w \<le> Suc n \<Longrightarrow> J noSeed c 0 w (\<lambda>_. True) True A p"
  by (erule J_weaken) auto

lemmas declarations = J_bindT [OF fewer [OF methodDef]] J_bindT [OF fewer [OF structDef]] J_bindT [OF fewer [OF enumDef]] J_bindT [OF defineLike]

lemma exported: "tType t = TOKEN_EXPORT \<Longrightarrow> parsedProgram M prog \<Longrightarrow> J noSeed (Some t) 0 (Suc n) (\<lambda>_. True) True (parsedProgram M) (parseExported L R prog)"
  unfolding parseExported_def
  by (intro J_rules declarations) (auto simp: parsedProgram_def parsedMethod_def parsedStruct_def parsedEnum_def)

lemma topStatement: "parsedProgram M prog \<Longrightarrow> J noSeed c 0 (Suc n) (\<lambda>_. True) True (parsedProgram M) (topStatement L R prog)"
  unfolding topStatement_def by (intro J_rules J_call [OF statement']) (auto simp: parsedProgram_def)

lemma topDefine: "tType t = TOKEN_DEFINE \<Longrightarrow> parsedProgram M prog \<Longrightarrow> J noSeed (Some t) 0 (Suc n) (\<lambda>_. True) True (parsedProgram M) (topDefine L R prog)"
  unfolding topDefine_def by (intro J_rules declarations topStatement) (auto simp: parsedProgram_def)

lemma programPass: "parsedProgram M prog \<Longrightarrow> J noSeed None 0 (Suc n) isl True (case_sum (parsedProgram M) (parsedProgram M)) (programPass L R prog)"
  unfolding programPass_def
  by (intro J_rules declarations J_bindT [OF imports'(1)] J_bindT [OF imports'(2)] J_bindT [OF exported] J_bindT [OF topDefine] J_bindT [OF topStatement])
    (auto simp: parsedProgram_def)

lemma program: "J noSeed None 0 (Suc n) (\<lambda>_. False) True (parsedProgram M) (parseProgram L R)"
  unfolding parseProgram_def
  by (rule J_loop [OF _ programPass]) (simp_all add: parsedProgram_def emptyProgram_def)

end

section \<open>The parser\<close>

lemma parser_entry: "reentry L (parserN L n) n"
proof (induction n)
  case 0
  have "\<not> entry noSeed None td 0 s" for td s by (cases "p_toks s") (auto simp: entry_def stream_def toksWeight_def tokWeight_def)
  then show ?case by unfold_locales (auto simp: J_def)
next
  case (Suc n)
  then show ?case
    by unfold_locales (simp_all add: parserStep_def reentry.exprT reentry.type' reentry.blockBody reentry.climbs_takes reentry.or' reentry.not' reentry.unaryMinus)
qed

interpretation parser: reentry L "parserN L n" n for L n
  by (rule parser_entry)

lemma runParser_returns:
  assumes "stream toks"
  shows "returns (parsedProgram (MaxNestingDepth L)) (runParser L toks)"
proof -
  have "entry noSeed None 0 (toksWeight toks) (newParser toks)" using assms by (simp add: entry_def newParser_def)
  then have "wp (parseProgram L (parserN L (toksWeight toks))) (\<lambda>x s'. parsedProgram (MaxNestingDepth L) x) (newParser toks)"
    using J_fewer [OF parser.program [where L = L], of "toksWeight toks" "toksWeight toks"] unfolding J_def by (auto elim: wp_mono)
  then show ?thesis unfolding runParser_def returns_map by (auto simp: returns_def wp_def split: option.splits sum.splits)
qed


text \<open>What a run of the parser on concrete tokens unfolds.\<close>

lemma bind_run: "bindP m f s = (case m s of None \<Rightarrow> None | Some (Inl e) \<Rightarrow> Some (Inl e) | Some (Inr (x, s')) \<Rightarrow> f x s')"
  by (simp add: bindP_def)

lemmas monad_run = retP_def failP_def bind_run thenP_def getsP_def modP_def withinP_def loopP_def errAt_def

lemmas token_run = peekP_def peekN_def advanceP_def checkP_def matchP_def takeP_def expectP_def

lemmas ladder_run = parseExpr_def parseRange_def parseOr_def parseAnd_def parseNot_def parseComparison_def parseBitOr_def parseBitXor_def parseBitAnd_def
  parseShift_def parseAdd_def parseMul_def parseUnaryMinus_def parsePrimary_def parsePrimaryAtom_def binaryP_def binaryPass_def suffixPass_def
  atomAt_def deepenExpr_def

lemmas parser_run = runParser_def newParser_def parseProgram_def monad_run token_run programPass_def topStatement_def topDefine_def parseStatement_def
  emptyProgram_def tokPos_def stripTrivia_def isTrivia_def
end
