(* ===== verification/Grammar.thy ===== *)
theory Grammar
  imports ParseTotal
begin

text \<open>
  The expression grammar as the comments of \<open>parser.go\<close> give it, level by level, and that the parser keeps to it: the
  tree it returns derives exactly the tokens it has read. Precedence and associativity are those of the
  levels: an operator of level \<open>k\<close> has a left operand of level \<open>k\<close> and a right operand of the next level. The
  statements inside a \<open>spawn\<close> block are not constrained, only its braces.
\<close>

section \<open>The grammar\<close>

text \<open>The levels, loosest first.\<close>

abbreviation "rangeLevel \<equiv> 0 :: nat"
abbreviation "orLevel \<equiv> 1 :: nat"
abbreviation "notLevel \<equiv> 3 :: nat"
abbreviation "unaryLevel \<equiv> 11 :: nat"
abbreviation "chainLevel \<equiv> 12 :: nat"
abbreviation "atomLevel \<equiv> 13 :: nat"

definition levelOps :: "nat \<Rightarrow> (tokenType \<times> binop) list" where
  "levelOps k =
     (if k = 1 then [(TOKEN_OR, OpOr)] else if k = 2 then [(TOKEN_AND, OpAnd)]
      else if k = 4 then [(TOKEN_LT, OpLt), (TOKEN_GT, OpGt), (TOKEN_LE, OpLe), (TOKEN_GE, OpGe), (TOKEN_EQ, OpEq), (TOKEN_NEQ, OpNeq)]
      else if k = 5 then [(TOKEN_BIT_OR, OpBitOr)] else if k = 6 then [(TOKEN_BIT_XOR, OpBitXor)] else if k = 7 then [(TOKEN_BIT_AND, OpBitAnd)]
      else if k = 8 then [(TOKEN_SHL, OpShl), (TOKEN_SHR, OpShr)] else if k = 9 then [(TOKEN_PLUS, OpAdd), (TOKEN_MINUS, OpSub)]
      else if k = 10 then [(TOKEN_STAR, OpMul), (TOKEN_SLASH, OpDiv), (TOKEN_DIV, OpFloorDiv), (TOKEN_PERCENT, OpMod)] else [])"

text \<open>Items with a comma behind each; a list of items, where a comma behind the last one may be allowed.\<close>

inductive listed :: "('a \<Rightarrow> token list \<Rightarrow> bool) \<Rightarrow> 'a list \<Rightarrow> token list \<Rightarrow> bool" for P where
  listed_Nil: "listed P [] []"
| listed_snoc: "listed P xs us \<Longrightarrow> P x ts \<Longrightarrow> tType c = TOKEN_COMMA \<Longrightarrow> listed P (xs @ [x]) (us @ ts @ [c])"

definition items :: "bool \<Rightarrow> ('a \<Rightarrow> token list \<Rightarrow> bool) \<Rightarrow> 'a list \<Rightarrow> token list \<Rightarrow> bool" where
  "items trailing P xs us \<longleftrightarrow> (xs = [] \<and> us = []) \<or> (\<exists>ys y vs ts. xs = ys @ [y] \<and> us = vs @ ts \<and> listed P ys vs \<and> P y ts) \<or> (trailing \<and> listed P xs us)"

lemma listed_mono [mono]:
  assumes "\<And>x ts. P x ts \<longrightarrow> Q x ts"
  shows "listed P xs us \<longrightarrow> listed Q xs us"
proof
  assume "listed P xs us"
  then show "listed Q xs us" by induction (use assms in \<open>auto intro: listed.intros\<close>)
qed

lemma items_mono [mono]: "(\<And>x ts. P x ts \<longrightarrow> Q x ts) \<Longrightarrow> items tr P xs us \<longrightarrow> items tr Q xs us"
  unfolding items_def using listed_mono [of P Q] by blast

text \<open>\<open>A B C\<close> with \<open>A\<close> and \<open>C\<close> single tokens.\<close>

definition enclosed :: "tokenType \<Rightarrow> (token list \<Rightarrow> bool) \<Rightarrow> tokenType \<Rightarrow> token \<Rightarrow> token list \<Rightarrow> bool" where
  "enclosed op P cl t us \<longleftrightarrow> tType t = op \<and> (\<exists>ts u. us = ts @ [u] \<and> tType u = cl \<and> P ts)"

lemma enclosed_mono [mono]: "(\<And>ts. P ts \<longrightarrow> Q ts) \<Longrightarrow> enclosed op P cl t us \<longrightarrow> enclosed op Q cl t us"
  unfolding enclosed_def by blast

definition paired :: "('a \<Rightarrow> token list \<Rightarrow> bool) \<Rightarrow> ('b \<Rightarrow> token list \<Rightarrow> bool) \<Rightarrow> 'a \<times> 'b \<Rightarrow> token list \<Rightarrow> bool" where
  "paired P Q x ts \<longleftrightarrow> (\<exists>us c vs. ts = us @ c # vs \<and> tType c = TOKEN_COLON \<and> P (fst x) us \<and> Q (snd x) vs)"

lemma paired_mono [mono]: "(\<And>x ts. P x ts \<longrightarrow> P' x ts) \<Longrightarrow> (\<And>x ts. Q x ts \<longrightarrow> Q' x ts) \<Longrightarrow> paired P Q x ts \<longrightarrow> paired P' Q' x ts"
  unfolding paired_def by blast

text \<open>The fields of a struct literal.\<close>

definition fieldItem :: "(expr \<Rightarrow> token list \<Rightarrow> bool) \<Rightarrow> string \<times> pos \<times> expr \<Rightarrow> token list \<Rightarrow> bool" where
  "fieldItem P x ts \<longleftrightarrow> (\<exists>n c us. ts = n # c # us \<and> isPostDotName n \<and> tType c = TOKEN_COLON \<and> fst x = Lexeme n \<and> fst (snd x) = tokPos n \<and> P (snd (snd x)) us)"

lemma fieldItem_mono [mono]: "(\<And>x ts. P x ts \<longrightarrow> Q x ts) \<Longrightarrow> fieldItem P x ts \<longrightarrow> fieldItem Q x ts"
  unfolding fieldItem_def by blast

definition optional :: "('a \<Rightarrow> token list \<Rightarrow> bool) \<Rightarrow> 'a option \<Rightarrow> token list \<Rightarrow> bool" where
  "optional P x ts \<longleftrightarrow> (case x of None \<Rightarrow> ts = [] | Some y \<Rightarrow> P y ts)"

lemma optional_mono [mono]: "(\<And>x ts. P x ts \<longrightarrow> Q x ts) \<Longrightarrow> optional P x ts \<longrightarrow> optional Q x ts"
  unfolding optional_def by (cases x) auto

text \<open>A part of an interpolated string: text, or an expression that derives all tokens of the slot.\<close>

definition slotPart :: "limits \<Rightarrow> (expr \<Rightarrow> token list \<Rightarrow> bool) \<Rightarrow> token \<Rightarrow> stringPart \<Rightarrow> string + expr \<Rightarrow> bool" where
  "slotPart L P t sp x \<longleftrightarrow> (if IsExpr sp
     then \<exists>toks e ts eof rest. TokenizeAt L (Text sp) (tFile t) (pLine sp) (pCol sp) = Inr toks \<and> stripTrivia toks = ts @ eof # rest \<and>
       tType eof = TOKEN_EOF \<and> x = Inr e \<and> P e ts
     else x = Inl (Text sp))"

lemma slotPart_mono [mono]: "(\<And>x ts. P x ts \<longrightarrow> Q x ts) \<Longrightarrow> slotPart L P t sp x \<longrightarrow> slotPart L Q t sp x"
  unfolding slotPart_def by (auto, blast)

inductive derives :: "limits \<Rightarrow> nat \<Rightarrow> expr \<Rightarrow> token list \<Rightarrow> bool" and derivesName :: "limits \<Rightarrow> string \<Rightarrow> pos \<Rightarrow> expr \<Rightarrow> token list \<Rightarrow> bool" for L where
  sub: "derives L (Suc k) e ts \<Longrightarrow> k < atomLevel \<Longrightarrow> derives L k e ts"
| range: "derives L orLevel lo ts \<Longrightarrow> tType t = TOKEN_DOTDOT \<Longrightarrow> derives L orLevel hi us \<Longrightarrow>
    derives L rangeLevel (RangeExpr (exprPos lo) lo hi) (ts @ t # us)"
| binary: "derives L k l ts \<Longrightarrow> map_of (levelOps k) (tType t) = Some op \<Longrightarrow> derives L (Suc k) r us \<Longrightarrow>
    derives L k (BinaryExpr (exprPos l) op l r None) (ts @ t # us)"
| not_: "tType t = TOKEN_NOT \<Longrightarrow> derives L notLevel e ts \<Longrightarrow> derives L notLevel (UnaryExpr (tokPos t) OpNot e None) (t # ts)"
| neg: "tType t = TOKEN_MINUS \<Longrightarrow> derives L unaryLevel e ts \<Longrightarrow> derives L unaryLevel (UnaryExpr (tokPos t) OpNeg e None) (t # ts)"
| bitnot: "tType t = TOKEN_BIT_NOT \<Longrightarrow> derives L unaryLevel e ts \<Longrightarrow> derives L unaryLevel (UnaryExpr (tokPos t) OpBitNot e None) (t # ts)"
| minint: "tType t = TOKEN_MINUS \<Longrightarrow> tType u = TOKEN_INT \<Longrightarrow> ParseUint (Lexeme u) = Inr (2 ^ 63) \<Longrightarrow>
    derives L unaryLevel (IntLit (tokPos u) minInt64) [t, u]"
| index: "derives L chainLevel e ts \<Longrightarrow> enclosed TOKEN_LBRACKET (derives L orLevel i) TOKEN_RBRACKET t us \<Longrightarrow>
    derives L chainLevel (IndexExpr (tokPos t) e i) (ts @ t # us)"
| slice: "derives L chainLevel e ts \<Longrightarrow> enclosed TOKEN_LBRACKET (\<lambda>us. \<exists>vs d ws. us = vs @ d # ws \<and> tType d = TOKEN_DOTDOT \<and>
      optional (derives L orLevel) lo vs \<and> optional (derives L orLevel) hi ws) TOKEN_RBRACKET t us \<Longrightarrow>
    derives L chainLevel (SliceExpr (tokPos t) e lo hi) (ts @ t # us)"
| field: "derives L chainLevel e ts \<Longrightarrow> tType t = TOKEN_DOT \<Longrightarrow> isPostDotName n \<Longrightarrow>
    derives L chainLevel (FieldAccessExpr (tokPos t) e (Lexeme n)) (ts @ [t, n])"
| callValue: "derives L chainLevel e ts \<Longrightarrow> enclosed TOKEN_LPAREN (items False (derives L rangeLevel) es) TOKEN_RPAREN t us \<Longrightarrow>
    derives L chainLevel (CallValueExpr (tokPos t) e es []) (ts @ t # us)"
| int_: "tType t = TOKEN_INT \<Longrightarrow> ParseInt (Lexeme t) = Inr n \<Longrightarrow> derives L atomLevel (IntLit (tokPos t) n) [t]"
| float_: "tType t = TOKEN_FLOAT \<Longrightarrow> ParseFloat (Lexeme t) = Inr f \<Longrightarrow> derives L atomLevel (FloatLit (tokPos t) f) [t]"
| string_: "tType t = TOKEN_STRING \<Longrightarrow> derives L atomLevel (StringLit (tokPos t) (Lexeme t)) [t]"
| interp_: "tType t = TOKEN_STRING_INTERP \<Longrightarrow> list_all2 (slotPart L (derives L rangeLevel) t) (Parts t) ps \<Longrightarrow>
    derives L atomLevel (InterpStringExpr (tokPos t) ps) [t]"
| true_: "tType t = TOKEN_TRUE \<Longrightarrow> derives L atomLevel (BoolLit (tokPos t) True) [t]"
| false_: "tType t = TOKEN_FALSE \<Longrightarrow> derives L atomLevel (BoolLit (tokPos t) False) [t]"
| null_: "tType t = TOKEN_NULL \<Longrightarrow> derives L atomLevel (NullLit (tokPos t)) [t]"
| len_: "tType t = TOKEN_LEN \<Longrightarrow> enclosed TOKEN_LPAREN (derives L rangeLevel e) TOKEN_RPAREN u us \<Longrightarrow> derives L atomLevel (LenExpr (tokPos t) e) (t # u # us)"
| spawn_: "tType t = TOKEN_SPAWN \<Longrightarrow> enclosed TOKEN_LBRACE (\<lambda>_. True) TOKEN_RBRACE u us \<Longrightarrow> derives L atomLevel (SpawnExpr (tokPos t) sts) (t # u # us)"
| var: "tType t = TOKEN_VARREF \<Longrightarrow> derives L atomLevel (VarExpr (tokPos t) (Lexeme t) (- 1) (- 1) False) [t]"
| constRef: "tType t = TOKEN_IDENT \<Longrightarrow> derives L atomLevel (ConstRefExpr (tokPos t) (Lexeme t) (- 1) (- 1)) [t]"
| call: "tType t = TOKEN_IDENT \<Longrightarrow> \<not> containsUnderscore (Lexeme t) \<Longrightarrow> enclosed TOKEN_LPAREN (items False (derives L rangeLevel) es) TOKEN_RPAREN u us \<Longrightarrow>
    derives L atomLevel (CallExpr (tokPos t) (Lexeme t) es None 0 []) (t # u # us)"
| structLit: "tType t = TOKEN_IDENT \<Longrightarrow> enclosed TOKEN_LBRACE (items True (fieldItem (derives L rangeLevel)) fs) TOKEN_RBRACE u us \<Longrightarrow>
    derives L atomLevel (StructLit (tokPos t) [] [] (Lexeme t) False fs) (t # u # us)"
| prefixed: "tType t = TOKEN_IDENT \<and> pre = Lexeme t \<or> tType t = TOKEN_TASK \<and> pre = ''task'' \<Longrightarrow> tType d = TOKEN_DOT \<Longrightarrow>
    derivesName L pre (tokPos t) e ts \<Longrightarrow> derives L atomLevel e (t # d # ts)"
| paren: "enclosed TOKEN_LPAREN (derives L rangeLevel e) TOKEN_RPAREN t us \<Longrightarrow> derives L atomLevel e (t # us)"
| list_: "enclosed TOKEN_LBRACKET (items True (derives L rangeLevel) es) TOKEN_RBRACKET t us \<Longrightarrow> derives L atomLevel (ListLit (tokPos t) es) (t # us)"
| map_: "enclosed TOKEN_LBRACE (items True (paired (derives L rangeLevel) (derives L rangeLevel)) kvs) TOKEN_RBRACE t us \<Longrightarrow> derives L atomLevel (MapLit (tokPos t) kvs) (t # us)"
| name_call: "isPostDotName n \<Longrightarrow> \<not> containsUnderscore (Lexeme n) \<Longrightarrow> enclosed TOKEN_LPAREN (items False (derives L rangeLevel) es) TOKEN_RPAREN u us \<Longrightarrow>
    derivesName L pre p (QualifiedCallExpr p pre (Lexeme n) es 0 []) (n # u # us)"
| name_struct: "isPostDotName n \<Longrightarrow> enclosed TOKEN_LBRACE (items True (fieldItem (derives L rangeLevel)) fs) TOKEN_RBRACE u us \<Longrightarrow>
    derivesName L pre p (StructLit p pre [] (Lexeme n) False fs) (n # u # us)"
| name_field: "isPostDotName n \<Longrightarrow> isValidConstName pre \<Longrightarrow> \<not> isValidConstName (Lexeme n) \<Longrightarrow>
    derivesName L pre p (FieldAccessExpr p (ConstRefExpr p pre (- 1) (- 1)) (Lexeme n)) [n]"
| name_const: "isPostDotName n \<Longrightarrow> isValidConstName (Lexeme n) \<or> \<not> isValidConstName pre \<Longrightarrow> derivesName L pre p (QualifiedConstRefExpr p pre (Lexeme n)) [n]"
| name_variant: "isPostDotName n \<Longrightarrow> isPostDotName v \<Longrightarrow> tType d = TOKEN_DOT \<Longrightarrow> \<not> isValidConstName pre \<Longrightarrow> \<not> isValidConstName (Lexeme n) \<Longrightarrow>
    enclosed TOKEN_LBRACE (items True (fieldItem (derives L rangeLevel)) fs) TOKEN_RBRACE u us \<Longrightarrow>
    derivesName L pre p (StructLit p pre (Lexeme n) (Lexeme v) False fs) (n # d # v # u # us)"
| name_bare: "isPostDotName n \<Longrightarrow> isPostDotName v \<Longrightarrow> tType d = TOKEN_DOT \<Longrightarrow> \<not> isValidConstName pre \<Longrightarrow> \<not> isValidConstName (Lexeme n) \<Longrightarrow>
    derivesName L pre p (StructLit p pre (Lexeme n) (Lexeme v) True []) [n, d, v]"

lemma derives_below:
  assumes "derives L k e ts" "j \<le> k" "k \<le> atomLevel"
  shows "derives L j e ts"
proof (rule inc_induct [OF assms(2)])
  fix i
  assume "i < k" "derives L (Suc i) e ts"
  then show "derives L i e ts" using assms(3) sub [of L i e ts] by simp
qed (rule assms(1))

section \<open>Steps that only go forward\<close>

text \<open>Whatever a step reads, it reads from the front, and it leaves no seed behind where there was none.\<close>

definition forward :: "'a P \<Rightarrow> bool" where
  "forward m \<longleftrightarrow> (\<forall>s x s'. m s = Some (Inr (x, s')) \<longrightarrow> suffix (p_toks s') (p_toks s) \<and> (p_seed s = None \<longrightarrow> p_seed s' = None))"

text \<open>And takes up a seed that was there.\<close>

definition takesSeed :: "'a P \<Rightarrow> bool" where
  "takesSeed m \<longleftrightarrow> (\<forall>s x s'. m s = Some (Inr (x, s')) \<longrightarrow> suffix (p_toks s') (p_toks s) \<and> p_seed s' = None)"

lemma takesSeed_forward: "takesSeed m \<Longrightarrow> forward m"
  by (auto simp: takesSeed_def forward_def)

named_theorems forward_rules

lemma forward_ret [forward_rules]: "forward (retP x)"
  by (simp add: forward_def retP_def)

lemma forward_fail [forward_rules]: "forward (failP e)" "forward (errAt t f args)" "forward outP"
  by (simp_all add: forward_def failP_def errAt_def outP_def)

lemma bindP_Inr: "bindP m f s = Some (Inr (y, s2)) \<longleftrightarrow> (\<exists>x s1. m s = Some (Inr (x, s1)) \<and> f x s1 = Some (Inr (y, s2)))"
  by (auto simp: bindP_def split: option.splits sum.splits)

lemma forward_bind [forward_rules]: "forward m \<Longrightarrow> (\<And>x. forward (f x)) \<Longrightarrow> forward (bindP m f)"
  unfolding forward_def bindP_Inr by (meson suffix_order.trans)

lemma takesSeed_bind: "takesSeed m \<Longrightarrow> (\<And>x. forward (f x)) \<Longrightarrow> takesSeed (bindP m f)"
  unfolding forward_def takesSeed_def bindP_Inr by (meson suffix_order.trans)

lemma forward_then [forward_rules]: "forward m \<Longrightarrow> forward n \<Longrightarrow> forward (thenP m n)"
  unfolding thenP_def by (intro forward_rules)

lemma forward_if [forward_rules]: "forward m \<Longrightarrow> forward m' \<Longrightarrow> forward (if b then m else m')"
  by simp

lemma forward_case [forward_rules]:
  "(\<And>x. forward (f x)) \<Longrightarrow> forward m \<Longrightarrow> forward (case r of Some x \<Rightarrow> f x | None \<Rightarrow> m)"
  "(\<And>x. forward (g x)) \<Longrightarrow> (\<And>x. forward (h x)) \<Longrightarrow> forward (case q of Inl x \<Rightarrow> g x | Inr x \<Rightarrow> h x)"
  "(\<And>x y. forward (k x y)) \<Longrightarrow> forward (case p of (x, y) \<Rightarrow> k x y)"
  by (auto split: option.split sum.split prod.split)

lemma forward_prims [forward_rules]: "forward (getsP g)" "forward (peekN n)" "forward peekP" "forward advanceP"
  by (auto simp: forward_def getsP_def peekP_def peekN_def advanceP_def suffix_def split: list.splits if_splits)

lemma forward_tokens [forward_rules]: "forward (checkP tt)" "forward (matchP tt)" "forward (takeP tt)" "forward (expectP tt ctx)"
  "forward (expectFieldName ctx)" "forward (postDotName ctx)" "forward structBrace"
  unfolding checkP_def matchP_def takeP_def expectP_def expectFieldName_def postDotName_def structBrace_def Let_def by (intro forward_rules)+

lemma forward_within:
  assumes "forward m" "\<And>s. p_toks (enter s) = p_toks s \<and> p_seed (enter s) = p_seed s" "\<And>s0 s. p_toks (leave s0 s) = p_toks s \<and> p_seed (leave s0 s) = p_seed s"
  shows "forward (withinP enter leave m)"
  using assms unfolding forward_def withinP_def bindP_Inr by (fastforce simp: modP_def retP_def)

lemma forward_passes: "(\<And>a. forward (f a)) \<Longrightarrow> forward (passesP k f a)"
  by (induction k arbitrary: a) (simp_all add: forward_rules)

lemma forward_loop [forward_rules]: "(\<And>a. forward (f a)) \<Longrightarrow> forward (loopP f a)"
  using forward_passes [of f] unfolding loopP_def forward_def by blast

lemma forward_allow [forward_rules]: "forward m \<Longrightarrow> forward (allowStructLit m)"
  unfolding allowStructLit_def by (rule forward_within) auto

lemma forward_plainName [forward_rules]: "forward m \<Longrightarrow> forward (plainName t msg m)"
  unfolding plainName_def by (intro forward_rules)

lemma forward_depth [forward_rules]: "forward (modP (\<lambda>s. s\<lparr>p_exprDepth := g s\<rparr>))" "forward (deepenExpr L)"
proof -
  show *: "forward (modP (\<lambda>s. s\<lparr>p_exprDepth := g s\<rparr>))" for g by (auto simp: forward_def modP_def)
  show "forward (deepenExpr L)" unfolding deepenExpr_def by (intro forward_rules *)
qed


definition forwardR :: "parsers \<Rightarrow> bool" where
  "forwardR R \<longleftrightarrow> forward (rExpr R) \<and> forward (rOr R) \<and> forward (rNot R) \<and> forward (rUnary R) \<and> forward (rBlock R) \<and> forward (rType R)"

lemma forward_R [forward_rules]: "forwardR R \<Longrightarrow> forward (rExpr R)" "forwardR R \<Longrightarrow> forward (rOr R)" "forwardR R \<Longrightarrow> forward (rNot R)"
  "forwardR R \<Longrightarrow> forward (rUnary R)" "forwardR R \<Longrightarrow> forward (rBlock R)" "forwardR R \<Longrightarrow> forward (rType R)"
  by (auto simp: forwardR_def)

lemma forward_type [forward_rules]: "forwardR R \<Longrightarrow> forward (parseType L R)"
  unfolding parseType_def parseTypeBody_def by (intro forward_rules forward_within) auto

lemma forward_interp [forward_rules]: "forward (buildInterpString L R t)"
  by (auto simp: forward_def buildInterpString_def split: option.splits sum.splits if_splits)

lemma forward_args [forward_rules]: "forwardR R \<Longrightarrow> forward (argsP R ctx)" "forwardR R \<Longrightarrow> forward (structLitFields R)"
  unfolding argsP_def exprsP_def structLitFields_def structLitPass_def Let_def by (intro forward_rules; assumption)+

lemma forward_atom [forward_rules]:
  assumes "forwardR R"
  shows "forward (atomAt L R t)"
  unfolding atomAt_def intAtom_def floatAtom_def identAtom_def taskAtom_def lenAtom_def spawnAtom_def groupAtom_def typeNameError_def parseQualifiedTail_def
    qualifiedRest_def parseStructLitTail_def parseCallTail_def parseParenArgs_def parseListLit_def parseMapLit_def Let_def
  by (intro forward_rules assms)

lemma forward_suffix [forward_rules]: "forwardR R \<Longrightarrow> forward (parseBracketSuffix R e)" "forward (fieldSuffix e)" "forwardR R \<Longrightarrow> forward (suffixPass R e)"
proof -
  show "forwardR R \<Longrightarrow> forward (parseBracketSuffix R e)"
    unfolding parseBracketSuffix_def sliceHi_def by (intro forward_rules)
  moreover show "forward (fieldSuffix e)" unfolding fieldSuffix_def by (intro forward_rules)
  ultimately show "forwardR R \<Longrightarrow> forward (suffixPass R e)" unfolding suffixPass_def callSuffix_def parseParenArgs_def by (intro forward_rules)
qed

lemma seed_primary:
  assumes "forwardR R"
  shows "takesSeed (parsePrimary L R)"
  unfolding parsePrimary_def
proof (rule takesSeed_bind)
  have "forward (bindP peekP (atomAt L R))" using assms by (intro forward_rules)
  then show "takesSeed (parsePrimaryAtom L R)"
    unfolding parsePrimaryAtom_def takesSeed_def forward_def bindP_Inr thenP_def
    by (auto simp: getsP_def modP_def retP_def bindP_Inr split: option.splits)
qed (use assms in \<open>intro forward_rules\<close>)

lemma seed_unless:
  assumes "takesSeed p" "forward q"
  shows "takesSeed (bindP (getsP p_seed) (\<lambda>seed. if seed \<noteq> None then p else q))"
  using assms unfolding takesSeed_def forward_def bindP_Inr by (auto simp: getsP_def split: if_splits)

lemma forward_prefix [forward_rules]: "forward p \<Longrightarrow> forward (prefixP L t op p)"
  unfolding prefixP_def by (intro forward_rules)

lemma seed_unary:
  assumes "forwardR R"
  shows "takesSeed (parseUnaryMinus L R)"
  unfolding parseUnaryMinus_def minusP_def foldMostNegativeInt_def
  by (rule seed_unless [OF seed_primary [OF assms]]) (intro forward_rules assms takesSeed_forward [OF seed_primary [OF assms]])

lemma seed_binary:
  assumes "takesSeed p"
  shows "takesSeed (binaryP L ops p)"
  unfolding binaryP_def binaryPass_def
  by (rule takesSeed_bind [OF assms], rule forward_within) (auto intro!: forward_rules takesSeed_forward [OF assms])

lemma seed_comparison: "forwardR R \<Longrightarrow> takesSeed (parseComparison L R)"
  unfolding parseMul_def parseAdd_def parseShift_def parseBitAnd_def parseBitXor_def parseBitOr_def parseComparison_def by (intro seed_binary seed_unary)

lemma seed_or:
  assumes "forwardR R"
  shows "takesSeed (parseNot L R)" "takesSeed (parseOr L R)"
proof -
  show "takesSeed (parseNot L R)" unfolding parseNot_def
    by (rule seed_unless [OF seed_comparison [OF assms]]) (intro forward_rules assms takesSeed_forward [OF seed_comparison [OF assms]])
  then show "takesSeed (parseOr L R)" unfolding parseOr_def parseAnd_def by (intro seed_binary)
qed

lemma seed_expr:
  assumes "forwardR R"
  shows "takesSeed (parseExpr L R)"
proof -
  have "takesSeed (parseRange L R)" unfolding parseRange_def
    by (rule takesSeed_bind [OF seed_or(2) [OF assms]]) (intro forward_rules takesSeed_forward [OF seed_or(2) [OF assms]])
  then show ?thesis unfolding parseExpr_def takesSeed_def withinP_def bindP_Inr
    by (fastforce simp: getsP_def modP_def retP_def bindP_Inr errAt_def failP_def split: if_splits)
qed

lemma forward_expr [forward_rules]: "forwardR R \<Longrightarrow> forward (parseExpr L R)"
  by (rule takesSeed_forward [OF seed_expr])

lemma forward_exprFrom [forward_rules]:
  assumes "forwardR R"
  shows "forward (parseExprFrom L R e)"
  unfolding forward_def
proof (intro allI impI)
  fix s x s'
  assume "parseExprFrom L R e s = Some (Inr (x, s'))"
  then have "parseExpr L R (s\<lparr>p_seed := Some e\<rparr>) = Some (Inr (x, s'))" by (auto simp: parseExprFrom_def thenP_def bindP_Inr modP_def)
  with seed_expr [OF assms, of L] have "suffix (p_toks s') (p_toks (s\<lparr>p_seed := Some e\<rparr>)) \<and> p_seed s' = None"
    unfolding takesSeed_def by blast
  then show "suffix (p_toks s') (p_toks s) \<and> (p_seed s = None \<longrightarrow> p_seed s' = None)" by simp
qed

lemma forward_chainAssign [forward_rules]: "forward (chainAssign vref e v)"
  by (cases e) (auto simp: chainAssign_def intro!: forward_rules)

lemma forward_define [forward_rules]: "forwardR R \<Longrightarrow> forward (parseDefineLike L R)" "forwardR R \<Longrightarrow> forward (parseAssign L R b)"
  unfolding parseDefineLike_def constDefine_def varDefine_def parseAssign_def by (intro forward_rules; assumption)+

lemma forward_statement:
  assumes "forwardR R"
  shows "forward (parseStatement L R)"
proof -
  have w: "forward (whenValues L R)" unfolding whenValues_def
    by (rule forward_within) (auto intro!: forward_rules assms)
  show ?thesis
    unfolding parseStatement_def parseIf_def parseWhile_def parseFor_def parseRepeat_def parseMatch_def parseBreak_def parseContinue_def
      parseReturn_def parseExit_def parseTry_def parseThrow_def parseDefer_def varStatement_def exprStatement_def optionalExpr_def
      parseParenCond_def elseIfPass_def parseElse_def matchPass_def whenArm_def parseForEachTail_def atForEach_def forInit_def forStep_def atAssign_def
      tryParseIndexAssign_def chainPass_def chainEnd_def parseAppend_def Let_def
    by (intro forward_rules assms w)
qed

lemma forward_block [forward_rules]: "forwardR R \<Longrightarrow> forward (parseBlock L R)"
  unfolding parseBlock_def blockPass_def by (intro forward_rules forward_within forward_statement) auto

lemma forward_step: "forwardR R \<Longrightarrow> forwardR (parserStep L R)"
  unfolding forwardR_def [of "parserStep L R"] unfolding parserStep_def parsers.simps
  by (intro conjI forward_rules takesSeed_forward [OF seed_or(1)] takesSeed_forward [OF seed_or(2)] takesSeed_forward [OF seed_unary])

lemma forward_parser [forward_rules]: "forwardR (parserN L n)"
  by (induction n) (simp_all add: forward_step, simp add: forwardR_def forward_fail)

section \<open>What a step reads\<close>

text \<open>Where nothing is seeded and the current token is \<open>c\<close>, if that is given: a step that succeeds has read
  some tokens off the front, and they and its result are related by \<open>A\<close>.\<close>

definition begins :: "token option \<Rightarrow> pstate \<Rightarrow> bool" where
  "begins c s \<longleftrightarrow> p_seed s = None \<and> list_all goodTok (p_toks s) \<and> (case c of None \<Rightarrow> True | Some t \<Rightarrow> \<exists>ts. p_toks s = t # ts)"

definition readsAs :: "token option \<Rightarrow> (token list \<Rightarrow> 'a \<Rightarrow> bool) \<Rightarrow> 'a P \<Rightarrow> bool" where
  "readsAs c A m \<longleftrightarrow> (\<forall>s x s'. begins c s \<longrightarrow> m s = Some (Inr (x, s')) \<longrightarrow> p_seed s' = None \<and> (\<exists>ts. p_toks s = ts @ p_toks s' \<and> A ts x))"

named_theorems reads_rules

lemma readsAsD:
  assumes "readsAs c A m" "begins c s" "m s = Some (Inr (x, s'))"
  obtains ts where "p_toks s = ts @ p_toks s'" "A ts x" "p_seed s' = None" "begins None s'"
proof -
  from assms obtain ts where "p_toks s = ts @ p_toks s'" "A ts x" "p_seed s' = None" unfolding readsAs_def by blast
  with assms(2) show thesis by (intro that) (auto simp: begins_def)
qed

lemma reads_any: "readsAs None A m \<Longrightarrow> readsAs c A m"
  by (auto simp: readsAs_def begins_def)

lemma reads_weaken: "readsAs c A m \<Longrightarrow> (\<And>ts x. A ts x \<Longrightarrow> B ts x) \<Longrightarrow> readsAs c B m"
  unfolding readsAs_def by blast

lemma reads_ret: "A [] x \<Longrightarrow> readsAs c A (retP x)"
  by (auto simp: readsAs_def retP_def begins_def)

lemma reads_fail [reads_rules]: "readsAs c A (failP e)" "readsAs c A (errAt t f args)" "readsAs c A outP"
  by (simp_all add: readsAs_def failP_def errAt_def outP_def)

lemma reads_bind:
  assumes "readsAs c B m" "\<And>ts x. B ts x \<Longrightarrow> readsAs None (\<lambda>us. A (ts @ us)) (f x)"
  shows "readsAs c A (bindP m f)"
  unfolding readsAs_def bindP_Inr
proof (intro allI impI, elim exE conjE)
  fix s y s2 x s1
  assume s: "begins c s" and m: "m s = Some (Inr (x, s1))" and f: "f x s1 = Some (Inr (y, s2))"
  from assms(1) s m obtain ts where ts: "p_toks s = ts @ p_toks s1" "B ts x" "begins None s1" by (rule readsAsD)
  from assms(2) [OF ts(2)] ts(3) f obtain us where "p_toks s1 = us @ p_toks s2" "A (ts @ us) y" "p_seed s2 = None" by (rule readsAsD)
  with ts(1) show "p_seed s2 = None \<and> (\<exists>ts. p_toks s = ts @ p_toks s2 \<and> A ts y)" by auto
qed

lemma reads_bind_ret [reads_rules]: "readsAs c A (f x) \<Longrightarrow> readsAs c A (bindP (retP x) f)"
  by (simp add: bindP_def retP_def)

lemma reads_bind_assoc [reads_rules]: "readsAs c A (bindP m (\<lambda>x. bindP (f x) g)) \<Longrightarrow> readsAs c A (bindP (bindP m f) g)"
  by (simp add: bindP_assoc)

lemma reads_then [reads_rules]: "readsAs c A (bindP m (\<lambda>_. n)) \<Longrightarrow> readsAs c A (thenP m n)"
  by (simp add: thenP_def)

lemma reads_bind_then [reads_rules]: "readsAs c A (bindP m (\<lambda>_. bindP n g)) \<Longrightarrow> readsAs c A (bindP (thenP m n) g)"
  by (simp add: thenP_def bindP_assoc)

lemma reads_if [reads_rules]: "(b \<Longrightarrow> readsAs c A m) \<Longrightarrow> (\<not> b \<Longrightarrow> readsAs c A m') \<Longrightarrow> readsAs c A (if b then m else m')"
  by simp

lemma reads_bind_if [reads_rules]:
  "(b \<Longrightarrow> readsAs c A (bindP m f)) \<Longrightarrow> (\<not> b \<Longrightarrow> readsAs c A (bindP m' f)) \<Longrightarrow> readsAs c A (bindP (if b then m else m') f)"
  by simp

lemma reads_case [reads_rules]:
  "(\<And>x. r = Some x \<Longrightarrow> readsAs c A (f x)) \<Longrightarrow> (r = None \<Longrightarrow> readsAs c A m) \<Longrightarrow> readsAs c A (case r of Some x \<Rightarrow> f x | None \<Rightarrow> m)"
  "(\<And>x. q = Inl x \<Longrightarrow> readsAs c A (g x)) \<Longrightarrow> (\<And>x. q = Inr x \<Longrightarrow> readsAs c A (h x)) \<Longrightarrow> readsAs c A (case q of Inl x \<Rightarrow> g x | Inr x \<Rightarrow> h x)"
  by (auto split: option.split sum.split)

lemma reads_gets [reads_rules]: "(\<And>x. readsAs c A (f x)) \<Longrightarrow> readsAs c A (bindP (getsP g) f)"
  by (simp add: readsAs_def bindP_Inr getsP_def)

lemma reads_seed: "readsAs c A (f None) \<Longrightarrow> readsAs c A (bindP (getsP p_seed) f)"
proof -
  have "bindP (getsP p_seed) f s = f None s" if "begins c s" for s using that by (simp add: bindP_def getsP_def begins_def)
  then show "readsAs c A (f None) \<Longrightarrow> readsAs c A (bindP (getsP p_seed) f)" by (simp add: readsAs_def)
qed

lemma reads_peekN [reads_rules]: "(\<And>t. readsAs c A (f t)) \<Longrightarrow> readsAs c A (bindP (peekN k) f)"
  by (auto simp: readsAs_def bindP_Inr peekN_def split: if_splits)

lemma reads_peek [reads_rules]: "(\<And>t. goodTok t \<Longrightarrow> readsAs (Some t) A (f t)) \<Longrightarrow> readsAs None A (bindP peekP f)"
  unfolding readsAs_def bindP_Inr
proof (intro allI impI, elim exE conjE)
  fix s y s2 t s1
  assume f: "\<And>t. goodTok t \<Longrightarrow> \<forall>s x s'. begins (Some t) s \<longrightarrow> f t s = Some (Inr (x, s')) \<longrightarrow> p_seed s' = None \<and> (\<exists>ts. p_toks s = ts @ p_toks s' \<and> A ts x)"
    and s: "begins None s" "peekP s = Some (Inr (t, s1))" "f t s1 = Some (Inr (y, s2))"
  from s(1,2) have "begins (Some t) s" "goodTok t" "s1 = s" by (cases "p_toks s"; auto simp: begins_def peekP_def peekN_def)+
  with f s(3) show "p_seed s2 = None \<and> (\<exists>ts. p_toks s = ts @ p_toks s2 \<and> A ts y)" by blast
qed

lemma reads_peek_at [reads_rules]: "readsAs (Some t) A (f t) \<Longrightarrow> readsAs (Some t) A (bindP peekP f)"
  by (auto simp: readsAs_def bindP_Inr peekP_def peekN_def begins_def split: if_splits)

lemma reads_check [reads_rules]:
  "(\<And>t. goodTok t \<Longrightarrow> readsAs (Some t) A (f (tType t = tt))) \<Longrightarrow> readsAs None A (bindP (checkP tt) f)"
  "readsAs (Some t) A (f (tType t = tt)) \<Longrightarrow> readsAs (Some t) A (bindP (checkP tt) f)"
  unfolding bind_check by (rule reads_peek reads_peek_at; blast)+

lemma reads_advance [reads_rules]:
  assumes "tType t \<noteq> TOKEN_EOF" "readsAs None (\<lambda>us. A (t # us)) (f t)"
  shows "readsAs (Some t) A (bindP advanceP f)"
proof (rule reads_bind [where B = "\<lambda>ts x. x = t \<and> ts = [t]"])
  show "readsAs (Some t) (\<lambda>ts x. x = t \<and> ts = [t]) advanceP"
    using assms(1) by (auto simp: readsAs_def advanceP_def begins_def)
qed (use assms(2) in auto)

lemma reads_match [reads_rules]:
  assumes "tt \<noteq> TOKEN_EOF" "\<And>t. tType t = tt \<Longrightarrow> readsAs None (\<lambda>us. A (t # us)) (f (Some t))" "readsAs None A (f None)"
  shows "readsAs c A (bindP (matchP tt) f)"
  by (rule reads_any, unfold matchP_def bindP_assoc, intro reads_rules) (use assms in \<open>auto intro: reads_any\<close>)

lemma reads_take [reads_rules]:
  assumes "tType t = tt" "tt \<noteq> TOKEN_EOF" "readsAs None (\<lambda>us. A (t # us)) (f t)"
  shows "readsAs (Some t) A (bindP (takeP tt) f)"
proof -
  have *: "readsAs (Some t) A (bindP advanceP f)" using assms by (intro reads_advance) auto
  show ?thesis unfolding takeP_def matchP_def bindP_assoc by (rule reads_check(2)) (use assms(1) * in \<open>simp add: bindP_assoc\<close>)
qed

lemma reads_expect [reads_rules]:
  assumes "tt \<noteq> TOKEN_EOF" "\<And>t. tType t = tt \<Longrightarrow> readsAs None (\<lambda>us. A (t # us)) (f t)"
  shows "readsAs c A (bindP (expectP tt ctx) f)"
  by (rule reads_any, unfold expectP_def Let_def bindP_assoc, intro reads_rules) (use assms in \<open>auto simp: bindP_def errAt_def failP_def readsAs_def\<close>)

lemma reads_fieldName [reads_rules]:
  assumes "\<And>t. isPostDotName t \<Longrightarrow> readsAs None (\<lambda>us. A (t # us)) (f t)"
  shows "readsAs c A (bindP (expectFieldName ctx) f)" "readsAs c A (bindP (postDotName ctx) f)"
proof -
  have e: "readsAs c A (bindP (errAt t g args) f)" for c t g args by (simp add: bindP_def errAt_def failP_def readsAs_def)
  have *: "tType t = TOKEN_IDENT \<Longrightarrow> isPostDotName t" for t by (simp add: isPostDotName_def)
  show "readsAs c A (bindP (expectFieldName ctx) f)"
    by (rule reads_any, unfold expectFieldName_def bindP_assoc, intro reads_rules e) (use assms postDot_not_EOF in auto)
  show "readsAs c A (bindP (postDotName ctx) f)"
    by (rule reads_any, unfold postDotName_def bindP_assoc, intro reads_rules assms) (use postDot_not_EOF * in auto)
qed

lemma reads_structBrace [reads_rules]:
  assumes "\<And>t b. (b \<longrightarrow> tType t = TOKEN_LBRACE) \<Longrightarrow> readsAs (Some t) A (f b)"
  shows "readsAs (Some t) A (bindP structBrace f)"
  unfolding structBrace_def bindP_assoc
  by (rule reads_gets, rule reads_bind_if, rule reads_bind_ret, rule assms, simp, rule reads_check, rule assms, simp)

lemma reads_structBrace_any [reads_rules]:
  assumes "\<And>t. tType t = TOKEN_LBRACE \<Longrightarrow> readsAs (Some t) A (f True)" "readsAs None A (f False)"
  shows "readsAs None A (bindP structBrace f)"
  unfolding structBrace_def bindP_assoc
proof (rule reads_gets, rule reads_bind_if, rule reads_bind_ret, rule assms, rule reads_check)
  show "readsAs (Some t) A (f (tType t = TOKEN_LBRACE))" for t using assms reads_any [of A "f False"] by (cases "tType t = TOKEN_LBRACE") auto
qed

lemma reads_within:
  assumes "readsAs c A m" "\<And>s. p_toks (enter s) = p_toks s \<and> p_seed (enter s) = p_seed s" "\<And>s0 s. p_toks (leave s0 s) = p_toks s \<and> p_seed (leave s0 s) = p_seed s"
  shows "readsAs c A (withinP enter leave m)"
  unfolding readsAs_def withinP_def bindP_Inr
proof (intro allI impI, elim exE conjE)
  fix s y s3 x s1 u s2
  assume s: "begins c s" "m (enter s) = Some (Inr (x, s1))" "modP (leave s) s1 = Some (Inr (u, s2))" "retP x s2 = Some (Inr (y, s3))"
  have "begins c (enter s)" using s(1) assms(2) [of s] by (simp add: begins_def split: option.splits)
  from readsAsD [OF assms(1) this s(2)] obtain ts where "p_toks (enter s) = ts @ p_toks s1" "A ts x" "p_seed s1 = None" by blast
  with s(3,4) assms(2) [of s] assms(3) [of s s1] show "p_seed s3 = None \<and> (\<exists>ts. p_toks s = ts @ p_toks s3 \<and> A ts y)"
    by (intro conjI exI [of _ ts]) (auto simp: modP_def retP_def)
qed

lemma reads_allow [reads_rules]: "readsAs c A m \<Longrightarrow> readsAs c A (allowStructLit m)"
  unfolding allowStructLit_def by (rule reads_within) auto

lemma reads_depth [reads_rules]:
  assumes "readsAs c A (f ())"
  shows "readsAs c A (bindP (modP (\<lambda>s. s\<lparr>p_exprDepth := g s\<rparr>)) f)" "readsAs c A (bindP (deepenExpr L) f)"
proof -
  have *: "p_seed s' = None \<and> (\<exists>ts. p_toks s = ts @ p_toks s' \<and> A ts x)"
    if "begins c s" "f () (s\<lparr>p_exprDepth := d\<rparr>) = Some (Inr (x, s'))" for s d x s'
  proof -
    have "begins c (s\<lparr>p_exprDepth := d\<rparr>)" using that(1) by (simp add: begins_def split: option.splits)
    from readsAsD [OF assms this that(2)] obtain ts where "p_toks (s\<lparr>p_exprDepth := d\<rparr>) = ts @ p_toks s'" "A ts x" "p_seed s' = None" .
    then show ?thesis by (intro conjI exI [of _ ts]) simp_all
  qed
  then show "readsAs c A (bindP (modP (\<lambda>s. s\<lparr>p_exprDepth := g s\<rparr>)) f)" by (simp add: readsAs_def bindP_Inr modP_def)
  show "readsAs c A (bindP (deepenExpr L) f)" using *
    by (fastforce simp: readsAs_def bindP_Inr deepenExpr_def getsP_def modP_def errAt_def failP_def split: if_splits)
qed

lemma reads_prefix:
  assumes "readsAs None (\<lambda>ts e. derives L k e ts) p" "\<And>ts e. derives L k e ts \<Longrightarrow> A ts (UnaryExpr (tokPos t) op e None)"
  shows "readsAs c A (prefixP L t op p)"
  unfolding prefixP_def by (intro reads_rules reads_bind [OF reads_any [OF assms(1)]] reads_ret) (use assms(2) in simp)

lemma reads_loop:
  assumes "I [] a" "\<And>ts a. I ts a \<Longrightarrow> readsAs None (\<lambda>us r. case r of Inl a' \<Rightarrow> I (ts @ us) a' | Inr x \<Rightarrow> A (ts @ us) x) (f a)"
  shows "readsAs c A (loopP f a)"
proof -
  have "readsAs None (\<lambda>us. A (ts @ us)) (passesP k f a)" if "I ts a" for k ts a
    using that
  proof (induction k arbitrary: ts a)
    case (Suc k)
    show ?case unfolding passesP.simps
    proof (rule reads_bind [OF assms(2) [OF Suc.prems]])
      fix us r
      assume "case r of Inl a' \<Rightarrow> I (ts @ us) a' | Inr x \<Rightarrow> A (ts @ us) x"
      then show "readsAs None (\<lambda>vs. A (ts @ us @ vs)) (case r of Inl a' \<Rightarrow> passesP k f a' | Inr b \<Rightarrow> retP b)"
        using Suc.IH [of "ts @ us"] by (cases r) (auto intro: reads_ret)
    qed
  qed (simp add: reads_fail)
  from this [OF assms(1)] have "readsAs None A (passesP k f a)" for k by simp
  then have "readsAs None A (loopP f a)" unfolding readsAs_def loopP_def by blast
  then show ?thesis by (rule reads_any)
qed

lemma reads_forward: "forward m \<Longrightarrow> readsAs c (\<lambda>_ _. True) m"
  unfolding forward_def readsAs_def begins_def by (meson suffixE)

section \<open>The parser keeps to the grammar\<close>

lemma items_last: "listed P xs us \<Longrightarrow> P x ts \<Longrightarrow> items tr P (xs @ [x]) (us @ ts)"
  unfolding items_def by blast

lemma items_trailing: "listed P xs us \<Longrightarrow> items True P xs us"
  unfolding items_def by blast

lemma reads_block:
  assumes "forwardR R"
  shows "readsAs None (\<lambda>ts b. \<exists>t us. ts = t # us \<and> enclosed TOKEN_LBRACE (\<lambda>_. True) TOKEN_RBRACE t us) (parseBlock L R)"
proof -
  have "forward (loopP (blockPass L R) [])" unfolding blockPass_def by (intro forward_rules forward_statement [OF assms])
  note loop = reads_bind [OF reads_forward [OF this]]
  show ?thesis unfolding parseBlock_def by (intro reads_rules reads_within loop reads_ret) (auto simp: enclosed_def)
qed

text \<open>What the parsers that the grammar re-enters promise.\<close>

locale descent =
  fixes L :: limits and R :: parsers
  assumes expr: "readsAs None (\<lambda>ts e. derives L rangeLevel e ts) (rExpr R)"
    and or_: "readsAs None (\<lambda>ts e. derives L orLevel e ts) (rOr R)"
    and not_: "readsAs None (\<lambda>ts e. derives L notLevel e ts) (rNot R)"
    and unary: "readsAs None (\<lambda>ts e. derives L unaryLevel e ts) (rUnary R)"
    and block: "readsAs None (\<lambda>ts b. \<exists>t us. ts = t # us \<and> enclosed TOKEN_LBRACE (\<lambda>_. True) TOKEN_RBRACE t us) (rBlock R)"
begin

lemmas calls = reads_bind [OF reads_any [OF expr]] reads_bind [OF reads_any [OF or_]] reads_bind [OF reads_any [OF block]]
  reads_bind [OF reads_allow [OF reads_any [OF expr]]]

lemma exprs: "readsAs c (\<lambda>ts es. items False (derives L rangeLevel) es ts) (exprsP R)"
  unfolding exprsP_def
  by (rule reads_loop [where I = "\<lambda>ts es. listed (derives L rangeLevel) es ts"])
    (auto intro!: reads_rules calls reads_ret listed_Nil listed_snoc items_last)

lemma args:
  assumes "tType t = TOKEN_LPAREN"
  shows "readsAs (Some t) (\<lambda>ts es. \<exists>us. ts = t # us \<and> enclosed TOKEN_LPAREN (items False (derives L rangeLevel) es) TOKEN_RPAREN t us) (argsP R ctx)"
  unfolding argsP_def by (intro reads_rules reads_bind [OF exprs] reads_ret) (use assms in \<open>auto simp: enclosed_def items_def\<close>)

lemma fieldPass:
  assumes "listed (fieldItem (derives L rangeLevel)) fs ts"
  shows "readsAs None (\<lambda>us r. case r of Inl x \<Rightarrow> listed (fieldItem (derives L rangeLevel)) x (ts @ us) | Inr x \<Rightarrow> items True (fieldItem (derives L rangeLevel)) x (ts @ us))
    (structLitPass R fs)"
proof -
  have f: "fieldItem (derives L rangeLevel) (Lexeme n, tokPos n, e) (n # c # us)"
    if "isPostDotName n" "tType c = TOKEN_COLON" "derives L rangeLevel e us" for n c e us using that by (simp add: fieldItem_def)
  have l: "listed (fieldItem (derives L rangeLevel)) (fs @ [(Lexeme n, tokPos n, e)]) (ts @ n # c # us @ [d])"
    if "isPostDotName n" "tType c = TOKEN_COLON" "derives L rangeLevel e us" "tType d = TOKEN_COMMA" for n c e us d
    using listed_snoc [OF assms f [OF that(1-3)] that(4)] by simp
  show ?thesis unfolding structLitPass_def Let_def
    by (intro reads_rules calls reads_ret) (auto intro: items_trailing l items_last [OF assms f] split: if_splits)
qed

lemma structFields:
  assumes "tType t = TOKEN_LBRACE"
  shows "readsAs (Some t) (\<lambda>ts fs. \<exists>us. ts = t # us \<and> enclosed TOKEN_LBRACE (items True (fieldItem (derives L rangeLevel)) fs) TOKEN_RBRACE t us) (structLitFields R)"
  unfolding structLitFields_def
  by (intro reads_rules reads_bind [OF reads_loop [where I = "\<lambda>ts fs. listed (fieldItem (derives L rangeLevel)) fs ts", OF listed_Nil fieldPass]] reads_ret)
    (use assms in \<open>auto simp: enclosed_def items_def\<close>)

lemma listLit:
  assumes "tType t = TOKEN_LBRACKET"
  shows "readsAs (Some t) (\<lambda>ts e. derives L atomLevel e ts) (parseListLit R)"
proof -
  have loop: "readsAs c (\<lambda>ts es. items True (derives L rangeLevel) es ts) (loopP (\<lambda>es. bindP (checkP TOKEN_RBRACKET) (\<lambda>closed.
        if closed then retP (Inr es)
        else bindP (rExpr R) (\<lambda>e. bindP (matchP TOKEN_COMMA) (\<lambda>c.
          retP (if c \<noteq> None then Inl (es @ [e]) else Inr (es @ [e])))))) [])" for c
    by (rule reads_loop [where I = "\<lambda>ts es. listed (derives L rangeLevel) es ts"])
      (auto intro!: reads_rules calls reads_ret listed_Nil listed_snoc intro: items_last items_trailing)
  show ?thesis unfolding parseListLit_def
    by (intro reads_rules reads_bind [OF loop] reads_ret) (use assms in \<open>auto simp: enclosed_def intro!: list_\<close>)
qed

lemma mapLit:
  assumes "tType t = TOKEN_LBRACE"
  shows "readsAs (Some t) (\<lambda>ts e. derives L atomLevel e ts) (parseMapLit R)"
proof -
  let ?P = "paired (derives L rangeLevel) (derives L rangeLevel)"
  have p: "?P (k, v) (us @ c # vs)" if "derives L rangeLevel k us" "tType c = TOKEN_COLON" "derives L rangeLevel v vs" for k v us c vs
    using that by (auto simp: paired_def)
  have l: "listed ?P (kvs @ [(k, v)]) (ts @ us @ c # vs @ [d])"
    if "listed ?P kvs ts" "derives L rangeLevel k us" "tType c = TOKEN_COLON" "derives L rangeLevel v vs" "tType d = TOKEN_COMMA" for kvs k v ts us c vs d
    using listed_snoc [OF that(1) p [OF that(2-4)] that(5)] by simp
  have loop: "readsAs c (\<lambda>ts es. items True ?P es ts) (loopP (\<lambda>kvs. bindP (checkP TOKEN_RBRACE) (\<lambda>closed.
        if closed then retP (Inr kvs)
        else bindP (rExpr R) (\<lambda>k. thenP (expectP TOKEN_COLON ''between map key and value'') (bindP (rExpr R) (\<lambda>v.
          bindP (matchP TOKEN_COMMA) (\<lambda>c. retP (if c \<noteq> None then Inl (kvs @ [(k, v)]) else Inr (kvs @ [(k, v)]))))))))  [])" for c
    by (rule reads_loop [where I = "\<lambda>ts es. listed ?P es ts"])
      (auto intro!: reads_rules calls reads_ret listed_Nil l p intro: items_last items_trailing)
  show ?thesis unfolding parseMapLit_def
    by (intro reads_rules reads_bind [OF loop] reads_ret) (use assms in \<open>auto simp: enclosed_def intro!: map_\<close>)
qed

lemmas bracketed = reads_bind [OF args] reads_bind [OF structFields]

lemma qualRest:
  assumes "isPostDotName n"
  shows "readsAs c (\<lambda>us e. derivesName L (Lexeme pre) (tokPos pre) e (n # us)) (qualifiedRest R pre n)"
  unfolding qualifiedRest_def Let_def
  by (rule reads_any, intro reads_rules bracketed reads_ret) (use assms in \<open>auto intro: name_call name_struct name_field name_const\<close>)

lemma qualifiedTail:
  assumes "tType d = TOKEN_DOT"
  shows "readsAs (Some d) (\<lambda>ts e. \<exists>us. ts = d # us \<and> derivesName L (Lexeme pre) (tokPos pre) e us) (parseQualifiedTail R pre)"
  unfolding parseQualifiedTail_def
  by (intro reads_rules bracketed reads_ret reads_weaken [OF qualRest]) (use assms in \<open>auto intro: name_variant name_bare\<close>)

lemma slot:
  assumes "slotExpr L R t d sp b = Some (Inr (e, b'))"
  shows "\<exists>toks ts eof rest. TokenizeAt L (Text sp) (tFile t) (pLine sp) (pCol sp) = Inr toks \<and> stripTrivia toks = ts @ eof # rest \<and>
       tType eof = TOKEN_EOF \<and> derives L rangeLevel e ts"
proof -
  obtain toks where toks: "TokenizeAt L (Text sp) (tFile t) (pLine sp) (pCol sp) = Inr toks"
    using assms by (auto simp: slotExpr_def split: if_splits sum.splits)
  let ?s = "\<lparr>p_toks = stripTrivia toks, p_seed = None, p_exprDepth = d, p_stmtDepth = 0, p_typeDepth = 0,
    p_budget = Some (b - int (length (Text sp))), p_noStructLit = False\<rparr>"
  have s: "begins None ?s" using TokenizeAt_stream [OF toks] by (simp add: begins_def stream_def)
  obtain s' where r: "rExpr R ?s = Some (Inr (e, s'))" and p: "p_toks s' \<noteq> []" "tType (hd (p_toks s')) = TOKEN_EOF"
    using assms toks by (auto simp: slotExpr_def bindP_Inr peekP_def peekN_def getsP_def retP_def errAt_def failP_def hd_conv_nth split: if_splits option.splits sum.splits)
  from readsAsD [OF expr s r] obtain ts where "stripTrivia toks = ts @ p_toks s'" "derives L rangeLevel e ts" by auto
  with toks p show ?thesis by (cases "p_toks s'") auto
qed

lemma slots: "interpParts L R t d sps b = Some (Inr (ps, b')) \<Longrightarrow> list_all2 (slotPart L (derives L rangeLevel) t) sps ps"
proof (induction sps arbitrary: b ps)
  case (Cons sp sps)
  show ?case
  proof (cases "IsExpr sp")
    case True
    with Cons.prems obtain e b1 ps' where "slotExpr L R t d sp b = Some (Inr (e, b1))" "interpParts L R t d sps b1 = Some (Inr (ps', b'))" "ps = Inr e # ps'"
      by (auto simp: map_sum_def split: option.splits sum.splits)
    with True Cons.IH slot show ?thesis by (auto simp: slotPart_def)
  next
    case False
    with Cons.prems obtain ps' where "interpParts L R t d sps b = Some (Inr (ps', b'))" "ps = Inl (Text sp) # ps'"
      by (cases "interpParts L R t d sps b"; cases "the (interpParts L R t d sps b)") auto
    with False Cons.IH show ?thesis by (auto simp: slotPart_def)
  qed
qed simp

lemma interp:
  "tType t = TOKEN_STRING_INTERP \<Longrightarrow> readsAs c (\<lambda>ts e. derives L atomLevel e (t # ts)) (buildInterpString L R t)"
  by (auto simp: readsAs_def buildInterpString_def begins_def split: option.splits sum.splits if_splits intro!: interp_ slots)

lemma atom: "readsAs (Some t) (\<lambda>ts e. derives L atomLevel e ts) (atomAt L R t)"
proof -
  have ident: "readsAs (Some t) (\<lambda>ts e. derives L atomLevel e ts) (identAtom R t)" if "tType t = TOKEN_IDENT"
    unfolding identAtom_def parseStructLitTail_def parseCallTail_def parseParenArgs_def
    by (intro reads_rules bracketed reads_ret reads_weaken [OF qualifiedTail]) (use that in \<open>auto intro: prefixed structLit constRef call\<close>)
  have task: "readsAs (Some t) (\<lambda>ts e. derives L atomLevel e ts) (taskAtom R t)" if "tType t = TOKEN_TASK"
    unfolding taskAtom_def by (intro reads_rules reads_weaken [OF qualifiedTail]) (use that in \<open>auto simp: tokPos_def mkToken_def intro!: prefixed\<close>)
  show ?thesis
    unfolding atomAt_def intAtom_def floatAtom_def lenAtom_def spawnAtom_def groupAtom_def typeNameError_def
    by (intro reads_rules ident task calls reads_ret listLit mapLit interp)
      (auto simp: enclosed_def intro: int_ float_ string_ true_ false_ null_ len_ spawn_ var paren)
qed

lemma primaryAtom: "readsAs None (\<lambda>ts e. derives L atomLevel e ts) (parsePrimaryAtom L R)"
  unfolding parsePrimaryAtom_def by (rule reads_seed) (simp, rule reads_peek, rule atom)

lemma bracketSuffix:
  assumes "derives L chainLevel e ts" "tType t = TOKEN_LBRACKET"
  shows "readsAs (Some t) (\<lambda>us e'. derives L chainLevel e' (ts @ us)) (parseBracketSuffix R e)"
proof -
  have s: "derives L chainLevel (SliceExpr (tokPos t) e lo hi) (ts @ t # vs @ d # ws @ [u])"
    if "optional (derives L orLevel) lo vs" "tType d = TOKEN_DOTDOT" "optional (derives L orLevel) hi ws" "tType u = TOKEN_RBRACKET" for lo vs d hi ws u
    using that assms(2) by (intro slice [OF assms(1)]) (auto simp: enclosed_def)
  note slices = s [of None "[]" _ None "[]"] s [of None "[]" _ "Some y" for y] s [of "Some x" _ _ None "[]" for x] s [of "Some x" _ _ "Some y" for x y]
  have i: "derives L chainLevel (IndexExpr (tokPos t) e x) (ts @ t # us @ [u])" if "derives L orLevel x us" "tType u = TOKEN_RBRACKET" for x us u
    using that assms(2) by (intro index [OF assms(1)]) (auto simp: enclosed_def)
  show ?thesis unfolding parseBracketSuffix_def sliceHi_def
    by (intro reads_rules calls reads_ret) (use assms(2) i in \<open>auto simp: optional_def intro: slices [simplified optional_def, simplified]\<close>)
qed

lemma suffixes:
  assumes "derives L chainLevel e ts"
  shows "readsAs None (\<lambda>us r. case r of Inl x \<Rightarrow> derives L chainLevel x (ts @ us) | Inr x \<Rightarrow> derives L chainLevel x (ts @ us)) (suffixPass R e)"
  unfolding suffixPass_def fieldSuffix_def callSuffix_def parseParenArgs_def
  by (intro reads_rules reads_bind [OF bracketSuffix [OF assms]] bracketed reads_ret) (use assms in \<open>auto intro: field callValue\<close>)

lemma primary: "readsAs c (\<lambda>ts e. derives L chainLevel e ts) (parsePrimary L R)"
proof (rule reads_any, unfold parsePrimary_def, rule reads_bind [OF primaryAtom])
  fix ts e
  assume e: "derives L atomLevel e ts"
  show "readsAs None (\<lambda>us e. derives L chainLevel e (ts @ us)) (loopP (suffixPass R) e)"
  proof (rule reads_loop [where I = "\<lambda>us e. derives L chainLevel e (ts @ us)"])
    show "derives L chainLevel e (ts @ [])" using derives_below [OF e, of chainLevel] by simp
    show "readsAs None (\<lambda>vs r. case r of Inl x \<Rightarrow> derives L chainLevel x (ts @ us @ vs) | Inr x \<Rightarrow> derives L chainLevel x (ts @ us @ vs)) (suffixPass R a)"
      if "derives L chainLevel a (ts @ us)" for us a using suffixes [OF that] unfolding append_assoc .
  qed
qed

lemma unaryMinus: "readsAs c (\<lambda>ts e. derives L unaryLevel e ts) (parseUnaryMinus L R)"
proof -
  have p: "readsAs c (\<lambda>ts e. derives L unaryLevel e ts) (parsePrimary L R)" for c
    by (rule reads_weaken [OF primary]) (rule derives_below, auto)
  show ?thesis unfolding parseUnaryMinus_def minusP_def foldMostNegativeInt_def
    by (rule reads_seed) (auto intro!: reads_rules p reads_ret reads_prefix [OF unary] neg bitnot minint)
qed

end

lemma reads_binary:
  assumes "\<And>c. readsAs c (\<lambda>ts e. derives L (Suc k) e ts) p" "ops = levelOps k" "k < atomLevel"
  shows "readsAs c (\<lambda>ts e. derives L k e ts) (binaryP L ops p)"
  unfolding binaryP_def
proof (rule reads_bind [OF assms(1)], rule reads_within)
  fix ts e
  assume e: "derives L (Suc k) e ts"
  show "readsAs None (\<lambda>us e. derives L k e (ts @ us)) (loopP (binaryPass L ops p) e)"
  proof (rule reads_loop [where I = "\<lambda>us e. derives L k e (ts @ us)"])
    show "derives L k e (ts @ [])" using sub [OF e assms(3)] by simp
    fix us l
    assume l: "derives L k l (ts @ us)"
    have b: "derives L k (BinaryExpr (exprPos l) op l r None) (ts @ us @ t # vs)"
      if "map_of ops (tType t) = Some op" "derives L (Suc k) r vs" for t op r vs
      using binary [OF l that [unfolded assms(2)]] by simp
    have n: "tType t \<noteq> TOKEN_EOF" if "map_of ops (tType t) = Some op" for t op
      using that assms(2) by (auto simp: levelOps_def split: if_splits)
    show "readsAs None (\<lambda>vs r. case r of Inl x \<Rightarrow> derives L k x (ts @ us @ vs) | Inr x \<Rightarrow> derives L k x (ts @ us @ vs)) (binaryPass L ops p l)"
      unfolding binaryPass_def by (intro reads_rules reads_bind [OF assms(1)] reads_ret) (use l b n in auto)
  qed
qed auto

context descent
begin

lemma comparison: "readsAs c (\<lambda>ts e. derives L 4 e ts) (parseComparison L R)"
  unfolding parseComparison_def parseBitOr_def parseBitXor_def parseBitAnd_def parseShift_def parseAdd_def parseMul_def
  by (intro reads_binary) (simp_all add: unaryMinus levelOps_def)

lemma not': "readsAs c (\<lambda>ts e. derives L notLevel e ts) (parseNot L R)"
proof -
  have "readsAs c (\<lambda>ts e. derives L notLevel e ts) (parseComparison L R)" for c
    by (rule reads_weaken [OF comparison]) (rule derives_below, auto)
  then show ?thesis unfolding parseNot_def
    by (intro reads_seed) (auto intro!: reads_rules reads_prefix [OF not_] derives_derivesName.not_)
qed

lemma or': "readsAs c (\<lambda>ts e. derives L orLevel e ts) (parseOr L R)"
proof -
  have "readsAs c (\<lambda>ts e. derives L 2 e ts) (parseAnd L R)" for c unfolding parseAnd_def by (intro reads_binary) (simp_all add: not' levelOps_def)
  then show ?thesis unfolding parseOr_def by (intro reads_binary) (simp_all add: levelOps_def numeral_2_eq_2)
qed

lemma expr': "readsAs None (\<lambda>ts e. derives L rangeLevel e ts) (parseExpr L R)"
proof -
  have s: "derives L rangeLevel e ts" if "derives L orLevel e ts" for e ts using sub [of L 0 e ts] that by simp
  have "readsAs c (\<lambda>ts e. derives L rangeLevel e ts) (parseRange L R)" for c unfolding parseRange_def
    by (intro reads_rules reads_bind [OF or'] reads_ret) (auto intro: s range)
  then have w: "readsAs None (\<lambda>ts e. derives L rangeLevel e ts)
      (withinP (\<lambda>s. s\<lparr>p_exprDepth := Suc (p_exprDepth s)\<rparr>) (\<lambda>_ s. s\<lparr>p_exprDepth := p_exprDepth s - 1\<rparr>) (parseRange L R))"
    by (rule reads_within) auto
  show ?thesis unfolding parseExpr_def by (intro reads_rules w)
qed

lemma step: "descent L (parserStep L R)" if "forwardR R"
  using that by unfold_locales (simp_all add: parserStep_def expr' or' [unfolded One_nat_def] not' unaryMinus reads_block)

end

lemma descent_parser: "descent L (parserN L n)"
proof (induction n)
  case 0
  then show ?case by unfold_locales (simp_all add: reads_fail forward_fail)
next
  case (Suc n)
  then show ?case using descent.step [of L "parserN L n"] forward_parser by simp
qed

interpretation grammar: descent L "parserN L n" for L n
  by (rule descent_parser)

lemma parser_reads:
  assumes "parseExpr L (parserN L n) s = Some (Inr (e, s'))" "p_seed s = None" "stream (p_toks s)"
  shows "\<exists>ts. p_toks s = ts @ p_toks s' \<and> derives L rangeLevel e ts"
proof -
  have "begins None s" using assms(2,3) by (simp add: begins_def stream_def)
  from readsAsD [OF grammar.expr' this assms(1)] show ?thesis by blast
qed

section \<open>Runs on concrete tokens\<close>

text \<open>A variable, where an operand starts, and a token behind an operand that no rung takes.\<close>

lemma var_run: "p_toks s = t # us \<Longrightarrow> tType t = TOKEN_VARREF \<Longrightarrow> p_seed s = None \<Longrightarrow>
    parsePrimaryAtom L R s = Some (Inr (VarExpr (tokPos t) (Lexeme t) (- 1) (- 1) False, s\<lparr>p_toks := us\<rparr>))"
  by (simp add: monad_run token_run parsePrimaryAtom_def atomAt_def)

lemma chain_ends: "tType u = TOKEN_RBRACKET \<or> tType u = TOKEN_SEMI \<Longrightarrow> p_toks s = u # us \<Longrightarrow> suffixPass R e s = Some (Inr (Inr e, s))"
  by (auto simp: monad_run token_run suffixPass_def)

lemma ladder_ends:
  assumes "parsePrimary L R s = Some (Inr (e, s'))" "p_toks s = t # ts" "tType t = TOKEN_VARREF" "p_seed s = None"
    "p_toks s' = u # us" "tType u = TOKEN_RBRACKET \<or> tType u = TOKEN_SEMI"
  shows "parseOr L R s = Some (Inr (e, s'))"
proof -
  have b: "binaryP L ops p s = Some (Inr (e, s'))" if "p s = Some (Inr (e, s'))" "map_of ops TOKEN_RBRACKET = None" "map_of ops TOKEN_SEMI = None" for ops p
    using that assms(5,6) by (auto simp: monad_run token_run binaryP_def binaryPass_def)
  have "parseUnaryMinus L R s = Some (Inr (e, s'))" using assms by (auto simp: monad_run token_run parseUnaryMinus_def)
  then have "parseComparison L R s = Some (Inr (e, s'))"
    unfolding parseComparison_def parseBitOr_def parseBitXor_def parseBitAnd_def parseShift_def parseAdd_def parseMul_def by (intro b) simp_all
  with assms have "parseNot L R s = Some (Inr (e, s'))" by (simp add: monad_run token_run parseNot_def)
  then show ?thesis unfolding parseOr_def parseAnd_def by (intro b) simp_all
qed

end
