(* ===== verification/Resolver.thy ===== *)
theory Resolver
  imports ParseBase Folding
begin

text \<open>
  The resolver (\<open>internal/parser/resolver.go\<close>): scope analysis that gives every reference its coordinates, pre-resolves
  calls, folds constants, checks enum matches and rejects undefined and shadowed names. The tree is
  rebuilt with its annotations; after an error nothing reads it. The scope stack is a list with the innermost
  frame first, so the depth of a reference is a position in it.
\<close>

section \<open>State\<close>

record slotInfo =
  siSlot :: nat
  siConst :: bool
  siType :: "ty option"
  siPos :: pos

record scopeFrame =
  frameSlots :: "string \<Rightarrow> slotInfo option"
  frameCount :: nat
  isRoot :: bool

record rstate =
  scopes :: "scopeFrame list"
  pendings :: "pendingMatch list"

text \<open>What does not change while a statement is resolved: the hoisted declarations, the enums in source order, and the top-level
  constants still to come.\<close>

record rctx =
  rMethods :: "string list"
  rStructs :: "string \<Rightarrow> structDef option"
  rEnums :: "enumDef list"
  laterConsts :: "string \<Rightarrow> pos option"

type_synonym 'a R = "rstate \<Rightarrow> parseError + 'a \<times> rstate"

definition retR :: "'a \<Rightarrow> 'a R" where
  "retR x = (\<lambda>s. Inr (x, s))"

definition failR :: "string \<Rightarrow> parseArg list \<Rightarrow> pos \<Rightarrow> 'a R" where
  "failR f args p = (\<lambda>s. Inl (ParseError f args p))"

definition bindR :: "'a R \<Rightarrow> ('a \<Rightarrow> 'b R) \<Rightarrow> 'b R" where
  "bindR m f = (\<lambda>s. case m s of Inl e \<Rightarrow> Inl e | Inr (x, s') \<Rightarrow> f x s')"

definition getsR :: "(rstate \<Rightarrow> 'a) \<Rightarrow> 'a R" where
  "getsR f = (\<lambda>s. Inr (f s, s))"

definition resultR :: "parseError + 'a \<Rightarrow> 'a R" where
  "resultR r = (\<lambda>s. case r of Inl e \<Rightarrow> Inl e | Inr x \<Rightarrow> Inr (x, s))"

fun seqR :: "'a R list \<Rightarrow> 'a list R" where
  "seqR [] = retR []"
| "seqR (m # ms) = bindR m (\<lambda>x. bindR (seqR ms) (\<lambda>xs. retR (x # xs)))"

definition optR :: "'a R option \<Rightarrow> 'a option R" where
  "optR r = (case r of None \<Rightarrow> retR None | Some m \<Rightarrow> bindR m (\<lambda>x. retR (Some x)))"

definition pairR :: "'a R \<Rightarrow> 'b R \<Rightarrow> ('a \<times> 'b) R" where
  "pairR m n = bindR m (\<lambda>x. bindR n (\<lambda>y. retR (x, y)))"

text \<open>\<open>push\<close>, a body, \<open>pop\<close>.\<close>

definition freshFrame :: scopeFrame where
  "freshFrame = \<lparr>frameSlots = \<lambda>_. None, frameCount = 0, isRoot = False\<rparr>"

definition inFrame :: "scopeFrame \<Rightarrow> 'a R \<Rightarrow> 'a R" where
  "inFrame f m = (\<lambda>s. case m (s\<lparr>scopes := f # scopes s\<rparr>) of Inl e \<Rightarrow> Inl e | Inr (x, s') \<Rightarrow> Inr (x, s'\<lparr>scopes := tl (scopes s')\<rparr>))"

definition currentCount :: "rstate \<Rightarrow> nat" where
  "currentCount s = frameCount (hd (scopes s))"

section \<open>Names\<close>

definition namedTypeOf :: "ty \<Rightarrow> ty option" where
  "namedTypeOf t = (case t of TypeStruct _ _ _ \<Rightarrow> Some t | _ \<Rightarrow> None)"

definition isLocalNamed :: "ty option \<Rightarrow> bool" where
  "isLocalNamed t \<longleftrightarrow> (case t of Some (TypeStruct n ns mp) \<Rightarrow> ns = [] \<and> mp = [] | _ \<Rightarrow> False)"

definition deferrableEnumType :: "ty option \<Rightarrow> bool" where
  "deferrableEnumType t \<longleftrightarrow> (case t of Some (TypeStruct n ns mp) \<Rightarrow> ns \<noteq> [] \<or> mp \<noteq> [] | _ \<Rightarrow> False)"

text \<open>The walk outwards stops at the first root frame; the globals, the outermost frame, are looked at last.\<close>

fun lookupWalk :: "string \<Rightarrow> scopeFrame list \<Rightarrow> slotInfo option" where
  "lookupWalk name [] = None"
| "lookupWalk name (f # fs) = (case frameSlots f name of Some i \<Rightarrow> Some i | None \<Rightarrow> if isRoot f then None else lookupWalk name fs)"

definition lookupChain :: "string \<Rightarrow> scopeFrame list \<Rightarrow> slotInfo option" where
  "lookupChain name fs = (case lookupWalk name fs of Some i \<Rightarrow> Some i
   | None \<Rightarrow> if fs = [] then None else frameSlots (last fs) name)"

definition boundInChain :: "string \<Rightarrow> scopeFrame list \<Rightarrow> bool" where
  "boundInChain name fs \<longleftrightarrow> lookupChain name fs \<noteq> None"

fun lookupFrom :: "string \<Rightarrow> nat \<Rightarrow> scopeFrame list \<Rightarrow> (nat \<times> slotInfo) option" where
  "lookupFrom name depth [] = None"
| "lookupFrom name depth (f # fs) = (case frameSlots f name of Some i \<Rightarrow> Some (depth, i)
   | None \<Rightarrow> if isRoot f \<and> fs \<noteq> [] then map_option (Pair (Suc depth)) (frameSlots (last fs) name) else lookupFrom name (Suc depth) fs)"

text \<open>\<open>lookup\<close>.\<close>

definition lookupName :: "string \<Rightarrow> scopeFrame list \<Rightarrow> (nat \<times> slotInfo) option" where
  "lookupName name fs = lookupFrom name 0 fs"

fun bindingType :: "string \<Rightarrow> scopeFrame list \<Rightarrow> ty option" where
  "bindingType name [] = None"
| "bindingType name (f # fs) = (case frameSlots f name of Some i \<Rightarrow> siType i
   | None \<Rightarrow> if isRoot f \<and> fs \<noteq> [] then (case frameSlots (last fs) name of Some i \<Rightarrow> siType i | None \<Rightarrow> None) else bindingType name fs)"

definition bindSlot :: "string \<Rightarrow> slotInfo \<Rightarrow> scopeFrame list \<Rightarrow> scopeFrame list" where
  "bindSlot name i fs = (case fs of [] \<Rightarrow> [] | f # fs' \<Rightarrow> f\<lparr>frameSlots := (frameSlots f)(name \<mapsto> i), frameCount := Suc (frameCount f)\<rparr> # fs')"

text \<open>\<open>define\<close>.\<close>

definition defineName :: "string \<Rightarrow> bool \<Rightarrow> ty option \<Rightarrow> pos \<Rightarrow> nat R" where
  "defineName name isConst declType p = (\<lambda>s. case lookupChain name (scopes s) of
     Some prev \<Rightarrow>
       if File (siPos prev) \<noteq> [] \<and> siPos prev = p
       then failR ''name %q is already defined; %s:%d:%d was spliced more than once by `include` (include a shared file from exactly one place, or use `import` for run-once loading)''
         [PStr name, PStr (File p), PNum (nat (Line p)), PNum (nat (Col p))] p s
       else failR ''name %q is already defined in an enclosing scope'' [PStr name] p s
   | None \<Rightarrow> Inr (currentCount s, s\<lparr>scopes := bindSlot name \<lparr>siSlot = currentCount s, siConst = isConst, siType = declType, siPos = p\<rparr> (scopes s)\<rparr>))"

definition noDefPos :: pos where
  "noDefPos = \<lparr>File = [], Line = 0, Col = 0\<rparr>"

text \<open>The first binding of a frame, of a for-each iterator or a caught value.\<close>

definition bindFirst :: "string \<Rightarrow> string \<Rightarrow> pos \<Rightarrow> unit R" where
  "bindFirst msg name p = (\<lambda>s. if boundInChain name (scopes s) then failR msg [PStr name] p s
     else Inr ((), s\<lparr>scopes := bindSlot name \<lparr>siSlot = 0, siConst = False, siType = None, siPos = noDefPos\<rparr> (scopes s)\<rparr>))"

definition undefinedVariable :: "string \<Rightarrow> pos \<Rightarrow> 'a R" where
  "undefinedVariable name p = failR ''undefined variable %q'' [PStr name] p"

section \<open>Match subjects and patterns\<close>

definition fieldType :: "rctx \<Rightarrow> ty option \<Rightarrow> string \<Rightarrow> ty option" where
  "fieldType c parent f = (if \<not> isLocalNamed parent then None
     else case rStructs c (tyName (the parent)) of
       None \<Rightarrow> None
     | Some sd \<Rightarrow> (case find (\<lambda>d. fName d = f) (sFields sd) of None \<Rightarrow> None | Some d \<Rightarrow> namedTypeOf (fType d)))"

fun subjectType :: "rctx \<Rightarrow> (string \<Rightarrow> ty option) \<Rightarrow> expr \<Rightarrow> ty option" where
  "subjectType c types (VarExpr _ n _ _ _) = types n"
| "subjectType c types (ConstRefExpr _ n _ _) = types n"
| "subjectType c types (FieldAccessExpr _ t f) = fieldType c (subjectType c types t) f"
| "subjectType c types _ = None"

definition localEnumOf :: "rctx \<Rightarrow> ty option \<Rightarrow> enumDef option" where
  "localEnumOf c t = (if \<not> isLocalNamed t then None else find (\<lambda>d. edName d = tyName (the t)) (rEnums c))"

definition isConstRef :: "expr \<Rightarrow> bool" where
  "isConstRef e \<longleftrightarrow> (case e of ConstRefExpr _ _ _ _ \<Rightarrow> True | _ \<Rightarrow> False)"

text \<open>Where several enums have the variant, the source names any of them (the order of a Go map); here the first.\<close>

definition rejectBinderPatternOnUntypedSubject :: "rctx \<Rightarrow> expr \<Rightarrow> unit R" where
  "rejectBinderPatternOnUntypedSubject c v = (case v of
     CallExpr p callee [a] _ _ _ \<Rightarrow>
       if \<not> isConstRef a then retR ()
       else (case find (\<lambda>d. callee \<in> evName ` set (edVariants d)) (rEnums c) of
           None \<Rightarrow> retR ()
         | Some d \<Rightarrow> failR ''`when %s(...)` destructures enum %s, but this `match` subject is not statically an enum type; assign the subject to a variable first (`def s as %s init ...;` then `match ($s)`)''
             [PStr callee, PStr (edName d), PStr (edName d)] p)
   | _ \<Rightarrow> retR ())"

definition variantShapedArm :: "expr \<Rightarrow> bool" where
  "variantShapedArm e \<longleftrightarrow> (case e of
     ConstRefExpr _ n _ _ \<Rightarrow> \<not> isValidConstName n
   | CallExpr _ callee args _ _ _ \<Rightarrow> length args = 1 \<and> \<not> isValidConstName callee \<and> isConstRef (hd args)
   | _ \<Rightarrow> False)"

fun armValues :: "matchArm \<Rightarrow> expr list" where
  "armValues (MatchArm _ vals _ _ _ _) = vals"

fun armPos :: "matchArm \<Rightarrow> pos" where
  "armPos (MatchArm p _ _ _ _ _) = p"

definition allArmsVariantShaped :: "matchArm list \<Rightarrow> bool" where
  "allArmsVariantShaped arms \<longleftrightarrow> list_all (\<lambda>a. length (armValues a) = 1 \<and> variantShapedArm (hd (armValues a))) arms"

text \<open>An arm head as a pattern: variant and binder, nothing when it has another shape, or an error.\<close>

definition patternExpr :: "expr \<Rightarrow> parseError + (string \<times> string) option" where
  "patternExpr e = (case e of
     ConstRefExpr _ n _ _ \<Rightarrow> Inr (Some (n, []))
   | CallExpr p callee args _ _ _ \<Rightarrow>
       if args = [] then Inl (ParseError ''payload-less variant pattern is written `when %s`, without `()`'' [PStr callee] p)
       else if length args \<noteq> 1 then Inl (ParseError ''variant pattern `%s(...)` binds exactly one payload name'' [PStr callee] p)
       else (case hd args of
           ConstRefExpr _ b _ _ \<Rightarrow> Inr (Some (callee, b))
         | a \<Rightarrow> Inl (ParseError ''a variant pattern binder is a bare name (write `when Circle(c)`, not `$c`)'' [] (exprPos a)))
   | _ \<Rightarrow> Inr None)"

fun joinNames :: "string list \<Rightarrow> string" where
  "joinNames [] = []"
| "joinNames [n] = n"
| "joinNames (n # ns) = n @ '', '' @ joinNames ns"

text \<open>The checks of one arm against the enum, given the variants covered so far.\<close>

definition armError :: "enumDef \<Rightarrow> string \<Rightarrow> string list \<Rightarrow> pos \<Rightarrow> string \<Rightarrow> string \<Rightarrow> parseError option" where
  "armError ed typeName covered p variant bind = (case find (\<lambda>v. evName v = variant) (rev (edVariants ed)) of
     None \<Rightarrow> Some (ParseError ''%q is not a variant of enum %s'' [PStr variant, PStr typeName] p)
   | Some vdef \<Rightarrow>
       if variant \<in> set covered then Some (ParseError ''variant %s is covered more than once in this `match`'' [PStr variant] p)
       else if bind \<noteq> [] \<and> evFields vdef = [] then Some (ParseError ''variant %s has no payload to bind (write `when %s`)'' [PStr variant, PStr variant] p)
       else None)"

definition exhaustiveError :: "enumDef \<Rightarrow> string \<Rightarrow> string list \<Rightarrow> pos \<Rightarrow> parseError option" where
  "exhaustiveError ed typeName covered p = (let missing = filter (\<lambda>n. n \<notin> set covered) (map evName (edVariants ed)) in
     if missing = [] then None
     else Some (ParseError ''`match` on enum %s is not exhaustive: missing %s (cover every variant or add an `else`)'' [PStr typeName, PStr (joinNames missing)] p))"

fun checkEnumMatchArms :: "enumDef \<Rightarrow> string \<Rightarrow> pos \<Rightarrow> bool \<Rightarrow> string list \<Rightarrow> (pos \<times> string \<times> string) list \<Rightarrow> parseError option" where
  "checkEnumMatchArms ed typeName p hasElse covered [] = (if hasElse then None else exhaustiveError ed typeName covered p)"
| "checkEnumMatchArms ed typeName p hasElse covered ((ap, variant, bind) # arms) = (case armError ed typeName covered ap variant bind of
     Some e \<Rightarrow> Some e
   | None \<Rightarrow> checkEnumMatchArms ed typeName p hasElse (variant # covered) arms)"

definition pendingOf :: "pos \<Rightarrow> ty \<Rightarrow> (pos \<times> string \<times> string) list \<Rightarrow> bool \<Rightarrow> pendingMatch" where
  "pendingOf p t arms hasElse = \<lparr>pmPos = p, pmType = t, pmArms = arms, pmElse = hasElse\<rparr>"

definition addPending :: "pendingMatch \<Rightarrow> unit R" where
  "addPending m = (\<lambda>s. Inr ((), s\<lparr>pendings := pendings s @ [m]\<rparr>))"

section \<open>Spawn bodies\<close>

text \<open>A spawn body gets no slots; only its enum matches are checked and tagged, with the declared types of its own
  definitions layered over those of the enclosing scopes. Tags already made stay when a later arm turns out
  to be no pattern.\<close>

fun tagArms :: "matchArm list \<Rightarrow> parseError + bool \<times> (string \<times> string) option list" where
  "tagArms [] = Inr (True, [])"
| "tagArms (a # as) =
     (if length (armValues a) \<noteq> 1 then Inr (False, map (\<lambda>_. None) (a # as))
      else case patternExpr (hd (armValues a)) of
        Inl e \<Rightarrow> Inl e
      | Inr None \<Rightarrow> Inr (False, map (\<lambda>_. None) (a # as))
      | Inr (Some t) \<Rightarrow> map_sum id (apsnd ((#) (Some t))) (tagArms as))"

fun armTag :: "matchArm \<Rightarrow> (string \<times> string) option \<Rightarrow> pos \<times> string \<times> string" where
  "armTag (MatchArm p vals b v bd sl) None = (p, v, bd)"
| "armTag (MatchArm p vals b v bd sl) (Some (v', bd')) = (p, v', bd')"

type_synonym typeScopes = "(string \<Rightarrow> ty option) list"

fun spawnLookup :: "scopeFrame list \<Rightarrow> typeScopes \<Rightarrow> string \<Rightarrow> ty option" where
  "spawnLookup fs [] name = bindingType name fs"
| "spawnLookup fs (ts # tss) name = (case ts name of Some t \<Rightarrow> Some t | None \<Rightarrow> spawnLookup fs tss name)"

definition addType :: "string \<Rightarrow> ty \<Rightarrow> typeScopes \<Rightarrow> typeScopes" where
  "addType name t tss = (case (namedTypeOf t, tss) of (Some u, ts # tss') \<Rightarrow> ts(name \<mapsto> u) # tss' | _ \<Rightarrow> tss)"

text \<open>\<open>walkMatch\<close>: the tags of the arms, and the \<open>EnumType\<close>.\<close>

definition walkMatch :: "rctx \<Rightarrow> typeScopes \<Rightarrow> pos \<Rightarrow> expr \<Rightarrow> matchArm list \<Rightarrow> bool \<Rightarrow> ty option \<Rightarrow> ((string \<times> string) option list \<times> ty option) R" where
  "walkMatch c tss p subject arms hasElse et = (\<lambda>s.
     let t = subjectType c (spawnLookup (scopes s) tss) subject; keep = (map (\<lambda>_. None) arms, et)
     in if arms = [] then Inr (keep, s)
        else case localEnumOf c t of
          Some ed \<Rightarrow> (case tagArms arms of
              Inl e \<Rightarrow> Inl e
            | Inr (False, tags) \<Rightarrow> Inr ((tags, et), s)
            | Inr (True, tags) \<Rightarrow> (case checkEnumMatchArms ed (edName ed) p hasElse [] (map2 armTag arms tags) of
                Some e \<Rightarrow> Inl e
              | None \<Rightarrow> Inr ((tags, et), s)))
        | None \<Rightarrow>
            if deferrableEnumType t \<and> allArmsVariantShaped arms
            then (case tagArms arms of
                Inl e \<Rightarrow> Inl e
              | Inr (False, tags) \<Rightarrow> Inr ((tags, et), s)
              | Inr (True, tags) \<Rightarrow> bindR (addPending (pendingOf p (the t) (map2 armTag arms tags) hasElse)) (\<lambda>_. retR (tags, t)) s)
            else Inr (keep, s))"

text \<open>Statements in order, each with the types the ones before it leave.\<close>

fun threadR :: "('t \<Rightarrow> ('a \<times> 't) R) list \<Rightarrow> 't \<Rightarrow> 'a list R" where
  "threadR [] t = retR []"
| "threadR (m # ms) t = bindR (m t) (\<lambda>(x, t'). bindR (threadR ms t') (\<lambda>xs. retR (x # xs)))"

definition keepTypes :: "typeScopes \<Rightarrow> 'a R \<Rightarrow> ('a \<times> typeScopes) R" where
  "keepTypes tss m = bindR m (\<lambda>x. retR (x, tss))"

primrec spawnExpr :: "rctx \<Rightarrow> expr \<Rightarrow> expr R"
  and spawnStmt :: "rctx \<Rightarrow> stmt \<Rightarrow> typeScopes \<Rightarrow> (stmt \<times> typeScopes) R"
  and spawnBlock :: "rctx \<Rightarrow> block \<Rightarrow> typeScopes \<Rightarrow> block R"
  and spawnArm :: "rctx \<Rightarrow> matchArm \<Rightarrow> typeScopes \<Rightarrow> (string \<times> string) option \<Rightarrow> matchArm R" where
  "spawnExpr c (IntLit p n) = retR (IntLit p n)"
| "spawnExpr c (FloatLit p f) = retR (FloatLit p f)"
| "spawnExpr c (StringLit p s) = retR (StringLit p s)"
| "spawnExpr c (InterpStringExpr p ps) = retR (InterpStringExpr p ps)"
| "spawnExpr c (BoolLit p b) = retR (BoolLit p b)"
| "spawnExpr c (NullLit p) = retR (NullLit p)"
| "spawnExpr c (ListLit p es) = retR (ListLit p es)"
| "spawnExpr c (MapLit p kvs) = retR (MapLit p kvs)"
| "spawnExpr c (IndexExpr p t i) = retR (IndexExpr p t i)"
| "spawnExpr c (RangeExpr p lo hi) = retR (RangeExpr p lo hi)"
| "spawnExpr c (SliceExpr p t lo hi) = retR (SliceExpr p t lo hi)"
| "spawnExpr c (StructLit p ns en n bare fs) = retR (StructLit p ns en n bare fs)"
| "spawnExpr c (FieldAccessExpr p t f) = retR (FieldAccessExpr p t f)"
| "spawnExpr c (VarExpr p n d sl m) = retR (VarExpr p n d sl m)"
| "spawnExpr c (ConstRefExpr p n d sl) = retR (ConstRefExpr p n d sl)"
| "spawnExpr c (CallExpr p n args m mv snap) = retR (CallExpr p n args m mv snap)"
| "spawnExpr c (CallValueExpr p e args snap) = retR (CallValueExpr p e args snap)"
| "spawnExpr c (LenExpr p e) = retR (LenExpr p e)"
| "spawnExpr c (SpawnExpr p sts) = bindR (threadR (map (spawnStmt c) sts) [\<lambda>_. None]) (\<lambda>sts'. retR (SpawnExpr p sts'))"
| "spawnExpr c (QualifiedCallExpr p pre n args mv snap) = retR (QualifiedCallExpr p pre n args mv snap)"
| "spawnExpr c (QualifiedConstRefExpr p pre n) = retR (QualifiedConstRefExpr p pre n)"
| "spawnExpr c (UnaryExpr p op e f) = retR (UnaryExpr p op e f)"
| "spawnExpr c (BinaryExpr p op l r f) = retR (BinaryExpr p op l r f)"
| "spawnExpr c (PreEval p v) = retR (PreEval p v)"
| "spawnStmt c (DefineStmt p k n t e sl b) = (\<lambda>tss. bindR (optR (map_option (spawnExpr c) e)) (\<lambda>e'. retR (DefineStmt p k n t e' sl b, addType n t tss)))"
| "spawnStmt c (AssignStmt p n e d sl) = (\<lambda>tss. retR (AssignStmt p n e d sl, tss))"
| "spawnStmt c (IndexAssignStmt p t e) = (\<lambda>tss. retR (IndexAssignStmt p t e, tss))"
| "spawnStmt c (AppendStmt p t e) = (\<lambda>tss. retR (AppendStmt p t e, tss))"
| "spawnStmt c (FieldAssignStmt p t e) = (\<lambda>tss. retR (FieldAssignStmt p t e, tss))"
| "spawnStmt c (IfStmt p e b eis els) = (\<lambda>tss. keepTypes tss (bindR (spawnBlock c b tss) (\<lambda>b'.
     bindR (seqR (map (\<lambda>(x, f). bindR (f tss) (\<lambda>y. retR (x, y))) (map (map_prod id (spawnBlock c)) eis))) (\<lambda>eis'.
     bindR (optR (map_option (\<lambda>f. f tss) (map_option (spawnBlock c) els))) (\<lambda>els'. retR (IfStmt p e b' eis' els'))))))"
| "spawnStmt c (MatchStmt p e arms els et) = (\<lambda>tss. keepTypes tss (bindR (walkMatch c tss p e arms (els \<noteq> None) et) (\<lambda>(tags, et').
     bindR (seqR (map2 (\<lambda>f tag. f tss tag) (map (spawnArm c) arms) tags)) (\<lambda>arms'.
     bindR (optR (map_option (\<lambda>f. f tss) (map_option (spawnBlock c) els))) (\<lambda>els'. retR (MatchStmt p e arms' els' et'))))))"
| "spawnStmt c (WhileStmt p e b) = (\<lambda>tss. keepTypes tss (bindR (spawnBlock c b tss) (\<lambda>b'. retR (WhileStmt p e b'))))"
| "spawnStmt c (ForStmt p i e s b h) = (\<lambda>tss. keepTypes tss (bindR
     (spawnBlock c b (case i of Some (DefineStmt _ _ n t _ _ _) \<Rightarrow> addType n t ((\<lambda>_. None) # tss) | _ \<Rightarrow> (\<lambda>_. None) # tss))
     (\<lambda>b'. retR (ForStmt p i e s b' h))))"
| "spawnStmt c (ForEachStmt p n e b sl) = (\<lambda>tss. keepTypes tss (bindR (spawnBlock c b tss) (\<lambda>b'. retR (ForEachStmt p n e b' sl))))"
| "spawnStmt c (ReturnStmt p e) = (\<lambda>tss. retR (ReturnStmt p e, tss))"
| "spawnStmt c (BreakStmt p) = (\<lambda>tss. retR (BreakStmt p, tss))"
| "spawnStmt c (ContinueStmt p) = (\<lambda>tss. retR (ContinueStmt p, tss))"
| "spawnStmt c (RepeatStmt p b e) = (\<lambda>tss. keepTypes tss (bindR (spawnBlock c b tss) (\<lambda>b'. retR (RepeatStmt p b' e))))"
| "spawnStmt c (ExitStmt p e) = (\<lambda>tss. retR (ExitStmt p e, tss))"
| "spawnStmt c (TryStmt p b n cb cp sl) = (\<lambda>tss. keepTypes tss (bindR (spawnBlock c b tss) (\<lambda>b'.
     bindR (spawnBlock c cb tss) (\<lambda>cb'. retR (TryStmt p b' n cb' cp sl)))))"
| "spawnStmt c (ThrowStmt p e) = (\<lambda>tss. retR (ThrowStmt p e, tss))"
| "spawnStmt c (DeferStmt p e oe) = (\<lambda>tss. retR (DeferStmt p e oe, tss))"
| "spawnStmt c (ExprStmt p e) = (\<lambda>tss. keepTypes tss (bindR (spawnExpr c e) (\<lambda>e'. retR (ExprStmt p e'))))"
| "spawnBlock c (Block p sts n) = (\<lambda>tss. bindR (threadR (map (spawnStmt c) sts) ((\<lambda>_. None) # tss)) (\<lambda>sts'. retR (Block p sts' n)))"
| "spawnArm c (MatchArm p vals b v bd sl) = (\<lambda>tss tag. bindR (spawnBlock c b tss) (\<lambda>b'.
     retR (MatchArm p vals b' (fst (snd (armTag (MatchArm p vals b v bd sl) tag))) (snd (snd (armTag (MatchArm p vals b v bd sl) tag))) sl)))"

definition checkSpawnEnums :: "rctx \<Rightarrow> stmt list \<Rightarrow> stmt list R" where
  "checkSpawnEnums c body = threadR (map (spawnStmt c) body) [\<lambda>_. None]"

section \<open>Move on last use\<close>

text \<open>The first read of the assigned variable in a movable position of a fresh literal, marked.\<close>

fun moveCandidate :: "string \<Rightarrow> expr \<Rightarrow> expr option"
  and moveExprs :: "string \<Rightarrow> expr list \<Rightarrow> expr list option"
  and moveValues :: "string \<Rightarrow> (expr \<times> expr) list \<Rightarrow> (expr \<times> expr) list option"
  and moveFields :: "string \<Rightarrow> (string \<times> pos \<times> expr) list \<Rightarrow> (string \<times> pos \<times> expr) list option" where
  "moveCandidate name (VarExpr p n d sl m) = (if n = name then Some (VarExpr p n d sl True) else None)"
| "moveCandidate name (ListLit p es) = map_option (ListLit p) (moveExprs name es)"
| "moveCandidate name (MapLit p kvs) = map_option (MapLit p) (moveValues name kvs)"
| "moveCandidate name (StructLit p ns en n bare fs) = map_option (StructLit p ns en n bare) (moveFields name fs)"
| "moveCandidate name _ = None"
| "moveExprs name [] = None"
| "moveExprs name (e # es) = (case moveCandidate name e of Some e' \<Rightarrow> Some (e' # es) | None \<Rightarrow> map_option ((#) e) (moveExprs name es))"
| "moveValues name [] = None"
| "moveValues name ((k, v) # kvs) = (case moveCandidate name v of Some v' \<Rightarrow> Some ((k, v') # kvs) | None \<Rightarrow> map_option ((#) (k, v)) (moveValues name kvs))"
| "moveFields name [] = None"
| "moveFields name ((f, q, e) # fs) = (case moveCandidate name e of Some e' \<Rightarrow> Some ((f, q, e') # fs) | None \<Rightarrow> map_option ((#) (f, q, e)) (moveFields name fs))"

fun firstMoveable :: "string \<Rightarrow> expr \<Rightarrow> expr option" where
  "firstMoveable name (ListLit p es) = map_option (ListLit p) (moveExprs name es)"
| "firstMoveable name (MapLit p kvs) = map_option (MapLit p) (moveValues name kvs)"
| "firstMoveable name (StructLit p ns en n bare fs) = map_option (StructLit p ns en n bare) (moveFields name fs)"
| "firstMoveable name _ = None"

fun freshLiteralRHS :: "expr \<Rightarrow> bool" where
  "freshLiteralRHS (ListLit _ _) = True"
| "freshLiteralRHS (MapLit _ _) = True"
| "freshLiteralRHS (StructLit _ _ _ _ _ _) = True"
| "freshLiteralRHS (RangeExpr _ _ _) = True"
| "freshLiteralRHS (SliceExpr _ _ _ _) = True"
| "freshLiteralRHS _ = False"

definition markMoveableAssign :: "string \<Rightarrow> expr \<Rightarrow> expr" where
  "markMoveableAssign name v = (if \<not> freshLiteralRHS v then v else case firstMoveable name v of Some v' \<Rightarrow> v' | None \<Rightarrow> v)"

section \<open>Expressions and statements\<close>

definition readsR :: "(bool \<Rightarrow> 'a R) list \<Rightarrow> 'a list R" where
  "readsR fs = seqR (map (\<lambda>f. f False) fs)"

definition namedTypeString :: "ty \<Rightarrow> string" where
  "namedTypeString t = (if tyName t = [] then ''struct'' else if tyNS t \<noteq> [] then tyNS t @ ''.'' @ tyName t else tyName t)"

text \<open>The arms of a match on a local enum, with the variants covered so far; and of a match on a type of a module.\<close>

fun enumArms :: "enumDef \<Rightarrow> string list \<Rightarrow> (matchArm \<times> ((string \<times> string) option \<Rightarrow> matchArm R)) list \<Rightarrow> (matchArm list \<times> string list) R" where
  "enumArms ed covered [] = retR ([], covered)"
| "enumArms ed covered ((a, f) # afs) =
     (if length (armValues a) \<noteq> 1
      then failR ''a `match` arm on enum %s matches one variant pattern (no comma-separated value list)'' [PStr (edName ed)] (armPos a)
      else bindR (resultR (patternExpr (hd (armValues a)))) (\<lambda>r. case r of
        None \<Rightarrow> failR ''`match` on enum %s expects variant patterns (`when Circle(c)` or `when Empty`)'' [PStr (edName ed)] (armPos a)
      | Some (variant, bind) \<Rightarrow> (case armError ed (edName ed) covered (armPos a) variant bind of
          Some e \<Rightarrow> (\<lambda>s. Inl e)
        | None \<Rightarrow> bindR (f (Some (variant, bind))) (\<lambda>a'. bindR (enumArms ed (variant # covered) afs) (\<lambda>(as, cov). retR (a' # as, cov))))))"

fun deferredArms :: "ty \<Rightarrow> (matchArm \<times> ((string \<times> string) option \<Rightarrow> matchArm R)) list \<Rightarrow> matchArm list R" where
  "deferredArms t [] = retR []"
| "deferredArms t ((a, f) # afs) =
     (if length (armValues a) \<noteq> 1
      then failR ''a `match` arm on %s matches one variant pattern (no comma-separated value list)'' [PStr (namedTypeString t)] (armPos a)
      else bindR (resultR (patternExpr (hd (armValues a)))) (\<lambda>r. case r of
        None \<Rightarrow> failR ''`match` on %s expects variant patterns (`when Circle(c)` or `when Empty`)'' [PStr (namedTypeString t)] (armPos a)
      | Some tag \<Rightarrow> bindR (f (Some tag)) (\<lambda>a'. bindR (deferredArms t afs) (\<lambda>as. retR (a' # as)))))"

definition exhaustiveR :: "enumDef \<Rightarrow> string list \<Rightarrow> pos \<Rightarrow> unit R" where
  "exhaustiveR ed covered p = (\<lambda>s. case exhaustiveError ed (edName ed) covered p of Some e \<Rightarrow> Inl e | None \<Rightarrow> Inr ((), s))"

text \<open>A reference: to a variable, which as the target of a write may be a constant (the run time reports that), and by a bare
  name, which is left alone when it is no binding.\<close>

definition resolveVar :: "pos \<Rightarrow> string \<Rightarrow> bool \<Rightarrow> bool \<Rightarrow> expr R" where
  "resolveVar p n m target = (\<lambda>s. case lookupName n (scopes s) of
     None \<Rightarrow> undefinedVariable n p s
   | Some (d, i) \<Rightarrow>
       if siConst i \<and> \<not> target then failR ''constant %q is referenced with `$`; drop the sigil (constants are referenced bare)'' [PStr n] p s
       else Inr (VarExpr p n (int d) (int (siSlot i)) m, s))"

definition resolveConstRef :: "rctx \<Rightarrow> pos \<Rightarrow> string \<Rightarrow> int \<Rightarrow> int \<Rightarrow> expr R" where
  "resolveConstRef c p n d0 sl0 = (\<lambda>s. case lookupName n (scopes s) of
     Some (d, i) \<Rightarrow> Inr (ConstRefExpr p n (int d) (int (siSlot i)), s)
   | None \<Rightarrow> (case laterConsts c n of
       Some q \<Rightarrow>
         if n \<in> set (rMethods c) then Inr (ConstRefExpr p n d0 sl0, s)
         else failR ''constant %s is used before its definition on %s; top-level code runs in source order, so move the `def const` above its first use''
           (PStr n # (if File q \<noteq> File p then [PStr (File q), PNum (nat (Line q))] else [PStr ''line'', PNum (nat (Line q))])) p s
     | None \<Rightarrow> Inr (ConstRefExpr p n d0 sl0, s)))"

definition assignTarget :: "pos \<Rightarrow> string \<Rightarrow> expr \<Rightarrow> stmt R" where
  "assignTarget p n v = (\<lambda>s. case lookupName n (scopes s) of
     None \<Rightarrow> undefinedVariable n p s
   | Some (d, i) \<Rightarrow>
       if siConst i then failR ''cannot assign to constant %q'' [PStr n] p s
       else Inr (AssignStmt p n (markMoveableAssign n v) (int d) (int (siSlot i)), s))"

definition armFrame :: "pos \<Rightarrow> string \<Rightarrow> int R" where
  "armFrame p bind = (if bind = [] then retR (- 1) else bindR (defineName bind False None p) (\<lambda>sl. retR (int sl)))"

text \<open>The flag of \<open>resolveExpr\<close> tells the target of a write (\<open>resolveTarget\<close>). \<open>resolveBody\<close> resolves the statements of a block in the
  current frame and records the slots of that frame on it. An arm is resolved as a value arm, or as a
  pattern with its variant and binder.\<close>

primrec resolveExpr :: "rctx \<Rightarrow> expr \<Rightarrow> bool \<Rightarrow> expr R"
  and resolveStmt :: "rctx \<Rightarrow> stmt \<Rightarrow> stmt R"
  and resolveBody :: "rctx \<Rightarrow> block \<Rightarrow> block R"
  and resolveArm :: "rctx \<Rightarrow> matchArm \<Rightarrow> (string \<times> string) option \<Rightarrow> matchArm R" where
  "resolveExpr c (IntLit p n) = (\<lambda>_. retR (IntLit p n))"
| "resolveExpr c (FloatLit p f) = (\<lambda>_. retR (FloatLit p f))"
| "resolveExpr c (StringLit p s) = (\<lambda>_. retR (StringLit p s))"
| "resolveExpr c (InterpStringExpr p ps) = (\<lambda>_. bindR (seqR (map (case_sum (\<lambda>t. retR (Inl t)) (\<lambda>f. bindR (f False) (\<lambda>e. retR (Inr e)))) (map (map_sum id (resolveExpr c)) ps)))
     (\<lambda>ps'. retR (InterpStringExpr p ps')))"
| "resolveExpr c (BoolLit p b) = (\<lambda>_. retR (BoolLit p b))"
| "resolveExpr c (NullLit p) = (\<lambda>_. retR (NullLit p))"
| "resolveExpr c (ListLit p es) = (\<lambda>_. bindR (readsR (map (resolveExpr c) es)) (\<lambda>es'. retR (ListLit p es')))"
| "resolveExpr c (MapLit p kvs) = (\<lambda>_. bindR (seqR (map (\<lambda>(f, g). pairR (f False) (g False)) (map (map_prod (resolveExpr c) (resolveExpr c)) kvs))) (\<lambda>kvs'. retR (MapLit p kvs')))"
| "resolveExpr c (IndexExpr p t i) = (\<lambda>target. bindR (resolveExpr c t target) (\<lambda>t'. bindR (resolveExpr c i False) (\<lambda>i'. retR (IndexExpr p t' i'))))"
| "resolveExpr c (RangeExpr p lo hi) = (\<lambda>_. bindR (resolveExpr c lo False) (\<lambda>lo'. bindR (resolveExpr c hi False) (\<lambda>hi'. retR (RangeExpr p lo' hi'))))"
| "resolveExpr c (SliceExpr p t lo hi) = (\<lambda>_. bindR (resolveExpr c t False) (\<lambda>t'.
     bindR (optR (map_option (\<lambda>f. f False) (map_option (resolveExpr c) lo))) (\<lambda>lo'.
     bindR (optR (map_option (\<lambda>f. f False) (map_option (resolveExpr c) hi))) (\<lambda>hi'. retR (SliceExpr p t' lo' hi')))))"
| "resolveExpr c (StructLit p ns en n bare fs) = (\<lambda>_. bindR (seqR (map (\<lambda>(fn, q, f). bindR (f False) (\<lambda>e. retR (fn, q, e))) (map (map_prod id (map_prod id (resolveExpr c))) fs)))
     (\<lambda>fs'. retR (StructLit p ns en n bare fs')))"
| "resolveExpr c (FieldAccessExpr p t f) = (\<lambda>target. bindR (resolveExpr c t target) (\<lambda>t'. retR (FieldAccessExpr p t' f)))"
| "resolveExpr c (VarExpr p n d sl m) = resolveVar p n m"
| "resolveExpr c (ConstRefExpr p n d sl) = (\<lambda>_. resolveConstRef c p n d sl)"
| "resolveExpr c (CallExpr p n args m mv snap) = (\<lambda>_. bindR (readsR (map (resolveExpr c) args))
     (\<lambda>args'. retR (CallExpr p n args' (if n \<in> set (rMethods c) then Some n else m) mv snap)))"
| "resolveExpr c (CallValueExpr p e args snap) = (\<lambda>_. bindR (resolveExpr c e False) (\<lambda>e'. bindR (readsR (map (resolveExpr c) args)) (\<lambda>args'. retR (CallValueExpr p e' args' snap))))"
| "resolveExpr c (LenExpr p e) = (\<lambda>_. bindR (resolveExpr c e False) (\<lambda>e'. retR (LenExpr p e')))"
| "resolveExpr c (SpawnExpr p sts) = (\<lambda>_. bindR (checkSpawnEnums c sts) (\<lambda>sts'. retR (SpawnExpr p sts')))"
| "resolveExpr c (QualifiedCallExpr p pre n args mv snap) = (\<lambda>_. bindR (readsR (map (resolveExpr c) args)) (\<lambda>args'. retR (QualifiedCallExpr p pre n args' mv snap)))"
| "resolveExpr c (QualifiedConstRefExpr p pre n) = (\<lambda>_. retR (QualifiedConstRefExpr p pre n))"
| "resolveExpr c (UnaryExpr p op e f) = (\<lambda>_. bindR (resolveExpr c e False) (\<lambda>e'. retR (UnaryExpr p op e' (tryFoldUnary p op e'))))"
| "resolveExpr c (BinaryExpr p op l r f) = (\<lambda>_. bindR (resolveExpr c l False) (\<lambda>l'. bindR (resolveExpr c r False) (\<lambda>r'. retR (BinaryExpr p op l' r' (tryFoldBinary p op l' r')))))"
| "resolveExpr c (PreEval p v) = (\<lambda>_. retR (PreEval p v))"
| "resolveStmt c (DefineStmt p k n t e sl b) = bindR (optR (map_option (\<lambda>f. f False) (map_option (resolveExpr c) e))) (\<lambda>e'.
     bindR (defineName n k (namedTypeOf t) p) (\<lambda>slot. retR (DefineStmt p k n t e' (int slot) b)))"
| "resolveStmt c (AssignStmt p n e d sl) = bindR (resolveExpr c e False) (assignTarget p n)"
| "resolveStmt c (IndexAssignStmt p t e) = bindR (resolveExpr c t True) (\<lambda>t'. bindR (resolveExpr c e False) (\<lambda>e'. retR (IndexAssignStmt p t' e')))"
| "resolveStmt c (AppendStmt p t e) = bindR (resolveExpr c t True) (\<lambda>t'. bindR (resolveExpr c e False) (\<lambda>e'. retR (AppendStmt p t' e')))"
| "resolveStmt c (FieldAssignStmt p t e) = bindR (resolveExpr c t True) (\<lambda>t'. bindR (resolveExpr c e False) (\<lambda>e'. retR (FieldAssignStmt p t' e')))"
| "resolveStmt c (IfStmt p e b eis els) = bindR (resolveExpr c e False) (\<lambda>e'. bindR (inFrame freshFrame (resolveBody c b)) (\<lambda>b'.
     bindR (seqR (map (\<lambda>(f, g). pairR (f False) (inFrame freshFrame g)) (map (map_prod (resolveExpr c) (resolveBody c)) eis))) (\<lambda>eis'.
     bindR (optR (map_option (inFrame freshFrame) (map_option (resolveBody c) els))) (\<lambda>els'. retR (IfStmt p e' b' eis' els')))))"
| "resolveStmt c (MatchStmt p e arms els et) = bindR (resolveExpr c e False) (\<lambda>e'.
     bindR (getsR (\<lambda>s. subjectType c (\<lambda>n. bindingType n (scopes s)) e)) (\<lambda>t. case localEnumOf c t of
       Some ed \<Rightarrow> bindR (enumArms ed [] (zip arms (map (resolveArm c) arms))) (\<lambda>(arms', covered).
         bindR (if els = None then exhaustiveR ed covered p else retR ()) (\<lambda>_.
         bindR (optR (map_option (inFrame freshFrame) (map_option (resolveBody c) els))) (\<lambda>els'. retR (MatchStmt p e' arms' els' et))))
     | None \<Rightarrow>
         if deferrableEnumType t \<and> arms \<noteq> [] \<and> allArmsVariantShaped arms
         then bindR (deferredArms (the t) (zip arms (map (resolveArm c) arms))) (\<lambda>arms'.
           bindR (addPending (pendingOf p (the t) (map (\<lambda>a. armTag a None) arms') (els \<noteq> None))) (\<lambda>_.
           bindR (optR (map_option (inFrame freshFrame) (map_option (resolveBody c) els))) (\<lambda>els'. retR (MatchStmt p e' arms' els' t))))
         else bindR (seqR (map (\<lambda>f. f None) (map (resolveArm c) arms))) (\<lambda>arms'.
           bindR (optR (map_option (inFrame freshFrame) (map_option (resolveBody c) els))) (\<lambda>els'. retR (MatchStmt p e' arms' els' et)))))"
| "resolveStmt c (WhileStmt p e b) = bindR (resolveExpr c e False) (\<lambda>e'. bindR (inFrame freshFrame (resolveBody c b)) (\<lambda>b'. retR (WhileStmt p e' b')))"
| "resolveStmt c (ForStmt p i e st b h) = inFrame freshFrame (bindR (optR (map_option (resolveStmt c) i)) (\<lambda>i'.
     bindR (optR (map_option (\<lambda>f. f False) (map_option (resolveExpr c) e))) (\<lambda>e'. bindR (optR (map_option (resolveStmt c) st)) (\<lambda>st'.
     bindR (inFrame freshFrame (resolveBody c b)) (\<lambda>b'. bindR (getsR currentCount) (\<lambda>h'. retR (ForStmt p i' e' st' b' h')))))))"
| "resolveStmt c (ForEachStmt p n e b sl) = bindR (resolveExpr c e False) (\<lambda>e'.
     bindR (inFrame freshFrame (bindR (bindFirst ''for-each iterator %q shadows an enclosing binding'' n p) (\<lambda>_. resolveBody c b))) (\<lambda>b'. retR (ForEachStmt p n e' b' 0)))"
| "resolveStmt c (ReturnStmt p e) = bindR (optR (map_option (\<lambda>f. f False) (map_option (resolveExpr c) e))) (\<lambda>e'. retR (ReturnStmt p e'))"
| "resolveStmt c (BreakStmt p) = retR (BreakStmt p)"
| "resolveStmt c (ContinueStmt p) = retR (ContinueStmt p)"
| "resolveStmt c (RepeatStmt p b e) = bindR (inFrame freshFrame (resolveBody c b)) (\<lambda>b'. bindR (resolveExpr c e False) (\<lambda>e'. retR (RepeatStmt p b' e')))"
| "resolveStmt c (ExitStmt p e) = bindR (optR (map_option (\<lambda>f. f False) (map_option (resolveExpr c) e))) (\<lambda>e'. retR (ExitStmt p e'))"
| "resolveStmt c (TryStmt p b n cb cp sl) = bindR (inFrame freshFrame (resolveBody c b)) (\<lambda>b'.
     bindR (inFrame freshFrame (bindR (bindFirst ''catch binding %q shadows an enclosing binding'' n cp) (\<lambda>_. resolveBody c cb))) (\<lambda>cb'. retR (TryStmt p b' n cb' cp 0)))"
| "resolveStmt c (ThrowStmt p e) = bindR (resolveExpr c e False) (\<lambda>e'. retR (ThrowStmt p e'))"
| "resolveStmt c (DeferStmt p e oe) = bindR (resolveExpr c e False) (\<lambda>e'. retR (DeferStmt p e' oe))"
| "resolveStmt c (ExprStmt p e) = bindR (resolveExpr c e False) (\<lambda>e'. retR (ExprStmt p e'))"
| "resolveBody c (Block p sts n) = bindR (seqR (map (resolveStmt c) sts)) (\<lambda>sts'. bindR (getsR currentCount) (\<lambda>k. retR (Block p sts' k)))"
| "resolveArm c (MatchArm p vals b v bd sl) = (\<lambda>tag. case tag of
     None \<Rightarrow> bindR (if length vals = 1 then rejectBinderPatternOnUntypedSubject c (hd vals) else retR ()) (\<lambda>_.
       bindR (readsR (map (resolveExpr c) vals)) (\<lambda>vals'. bindR (inFrame freshFrame (resolveBody c b)) (\<lambda>b'. retR (MatchArm p vals' b' v bd (- 1)))))
   | Some (variant, bind) \<Rightarrow> bindR (inFrame freshFrame (bindR (armFrame p bind) (\<lambda>slot. bindR (resolveBody c b) (\<lambda>b'. retR (slot, b')))))
       (\<lambda>(slot, b'). retR (MatchArm p vals b' variant bind slot)))"

definition resolveTarget :: "rctx \<Rightarrow> expr \<Rightarrow> expr R" where
  "resolveTarget c e = resolveExpr c e True"

definition resolveBlock :: "rctx \<Rightarrow> block \<Rightarrow> block R" where
  "resolveBlock c b = inFrame freshFrame (resolveBody c b)"

end
