(* ===== verification/Ownership.thy ===== *)
theory Ownership
  imports Resolver
begin

text \<open>
  The copy elisions decided on resolved trees: which parameters and definitions may be borrowed (\<open>resolver.go\<close>), which
  methods return values they solely own and which arguments may move (\<open>internal/parser/ownership.go\<close>); and the
  resolver as a whole, \<open>Resolve\<close>, which runs them last.
\<close>

section \<open>Writes\<close>

fun lvalueRootName :: "expr \<Rightarrow> string" where
  "lvalueRootName (VarExpr _ n _ _ _) = n"
| "lvalueRootName (IndexExpr _ t _) = lvalueRootName t"
| "lvalueRootName (FieldAccessExpr _ t _) = lvalueRootName t"
| "lvalueRootName _ = []"

text \<open>The names written, and whether a write was met whose root has no name.\<close>

type_synonym writeScan = "string list \<times> bool"

definition writeRoot :: "string \<Rightarrow> writeScan" where
  "writeRoot r = (if r = [] then ([], True) else ([r], False))"

definition joinScans :: "writeScan list \<Rightarrow> writeScan" where
  "joinScans ws = (concat (map fst ws), list_ex snd ws)"

definition optList :: "'a option \<Rightarrow> 'a list" where
  "optList x = (case x of None \<Rightarrow> [] | Some y \<Rightarrow> [y])"

primrec scanStmt :: "stmt \<Rightarrow> writeScan" and scanBlock :: "block \<Rightarrow> writeScan" and scanArm :: "matchArm \<Rightarrow> writeScan" where
  "scanStmt (DefineStmt p k n t e sl b) = ([], False)"
| "scanStmt (AssignStmt p n e d sl) = ([n], False)"
| "scanStmt (IndexAssignStmt p t e) = writeRoot (lvalueRootName t)"
| "scanStmt (AppendStmt p t e) = writeRoot (lvalueRootName t)"
| "scanStmt (FieldAssignStmt p t e) = writeRoot (lvalueRootName t)"
| "scanStmt (IfStmt p e b eis els) = joinScans (scanBlock b # map snd (map (map_prod id scanBlock) eis) @ optList (map_option scanBlock els))"
| "scanStmt (MatchStmt p e arms els et) = joinScans (map scanArm arms @ optList (map_option scanBlock els))"
| "scanStmt (WhileStmt p e b) = scanBlock b"
| "scanStmt (ForStmt p i e st b h) = joinScans (optList (map_option scanStmt i) @ optList (map_option scanStmt st) @ [scanBlock b])"
| "scanStmt (ForEachStmt p n e b sl) = scanBlock b"
| "scanStmt (ReturnStmt p e) = ([], False)"
| "scanStmt (BreakStmt p) = ([], False)"
| "scanStmt (ContinueStmt p) = ([], False)"
| "scanStmt (RepeatStmt p b e) = scanBlock b"
| "scanStmt (ExitStmt p e) = ([], False)"
| "scanStmt (TryStmt p b n cb cp sl) = joinScans [scanBlock b, scanBlock cb]"
| "scanStmt (ThrowStmt p e) = ([], False)"
| "scanStmt (DeferStmt p e oe) = ([], False)"
| "scanStmt (ExprStmt p e) = ([], False)"
| "scanBlock (Block p sts n) = joinScans (map scanStmt sts)"
| "scanArm (MatchArm p vals b v bd sl) = scanBlock b"

section \<open>Borrowing\<close>

definition isListOrMap :: "ty option \<Rightarrow> bool" where
  "isListOrMap t \<longleftrightarrow> (case t of Some (TypeList _) \<Rightarrow> True | Some (TypeMap _ _) \<Rightarrow> True | _ \<Rightarrow> False)"

definition borrowSafeType :: "ty \<Rightarrow> bool" where
  "borrowSafeType t \<longleftrightarrow> (case t of
     TypeList e \<Rightarrow> \<not> isListOrMap e
   | TypeMap k v \<Rightarrow> \<not> isListOrMap v
   | TypeStruct _ _ _ \<Rightarrow> True
   | TypeBytes \<Rightarrow> True
   | _ \<Rightarrow> False)"

text \<open>The bindings a value may alias, if they are bounded.\<close>

fun collectAliasRoots :: "expr \<Rightarrow> string list option" and aliasArgs :: "expr list \<Rightarrow> string list option" where
  "collectAliasRoots (IntLit _ _) = Some []"
| "collectAliasRoots (FloatLit _ _) = Some []"
| "collectAliasRoots (StringLit _ _) = Some []"
| "collectAliasRoots (BoolLit _ _) = Some []"
| "collectAliasRoots (NullLit _) = Some []"
| "collectAliasRoots (ListLit _ _) = Some []"
| "collectAliasRoots (MapLit _ _) = Some []"
| "collectAliasRoots (StructLit _ _ _ _ _ _) = Some []"
| "collectAliasRoots (RangeExpr _ _ _) = Some []"
| "collectAliasRoots (SliceExpr _ _ _ _) = Some []"
| "collectAliasRoots (InterpStringExpr _ _) = Some []"
| "collectAliasRoots (PreEval _ _) = Some []"
| "collectAliasRoots (BinaryExpr _ _ _ _ _) = Some []"
| "collectAliasRoots (UnaryExpr _ _ _ _) = Some []"
| "collectAliasRoots (LenExpr _ _) = Some []"
| "collectAliasRoots (VarExpr _ n _ _ _) = Some [n]"
| "collectAliasRoots (ConstRefExpr _ n _ _) = Some [n]"
| "collectAliasRoots (IndexExpr _ t _) = collectAliasRoots t"
| "collectAliasRoots (FieldAccessExpr _ t _) = collectAliasRoots t"
| "collectAliasRoots (CallExpr _ _ args m _ _) = (if m = None then None else aliasArgs args)"
| "collectAliasRoots _ = None"
| "aliasArgs [] = Some []"
| "aliasArgs (e # es) = (case collectAliasRoots e of None \<Rightarrow> None | Some rs \<Rightarrow> map_option ((@) rs) (aliasArgs es))"

definition markOneDef :: "writeScan \<Rightarrow> bool \<Rightarrow> string \<Rightarrow> ty \<Rightarrow> expr option \<Rightarrow> bool \<Rightarrow> bool" where
  "markOneDef w isConst n t e borrow = (case e of
     None \<Rightarrow> borrow
   | Some x \<Rightarrow>
       if isConst \<or> \<not> borrowSafeType t \<or> n \<in> set (fst w) then borrow
       else (case collectAliasRoots x of None \<Rightarrow> borrow | Some roots \<Rightarrow> if set roots \<inter> set (fst w) = {} then True else borrow))"

definition forStmt :: "pos \<Rightarrow> expr option \<Rightarrow> stmt option \<Rightarrow> nat \<Rightarrow> stmt option \<Rightarrow> block \<Rightarrow> stmt" where
  "forStmt p e st h i b = ForStmt p i e st b h"

primrec markStmt :: "writeScan \<Rightarrow> stmt \<Rightarrow> stmt" and markBlock :: "writeScan \<Rightarrow> block \<Rightarrow> block" and markArm :: "writeScan \<Rightarrow> matchArm \<Rightarrow> matchArm" where
  "markStmt w (DefineStmt p k n t e sl b) = DefineStmt p k n t e sl (markOneDef w k n t e b)"
| "markStmt w (AssignStmt p n e d sl) = AssignStmt p n e d sl"
| "markStmt w (IndexAssignStmt p t e) = IndexAssignStmt p t e"
| "markStmt w (AppendStmt p t e) = AppendStmt p t e"
| "markStmt w (FieldAssignStmt p t e) = FieldAssignStmt p t e"
| "markStmt w (IfStmt p e b eis els) = IfStmt p e (markBlock w b) (map (map_prod id (markBlock w)) eis) (map_option (markBlock w) els)"
| "markStmt w (MatchStmt p e arms els et) = MatchStmt p e (map (markArm w) arms) (map_option (markBlock w) els) et"
| "markStmt w (WhileStmt p e b) = WhileStmt p e (markBlock w b)"
| "markStmt w (ForStmt p i e st b h) = forStmt p e st h (map_option (markStmt w) i) (markBlock w b)"
| "markStmt w (ForEachStmt p n e b sl) = ForEachStmt p n e (markBlock w b) sl"
| "markStmt w (ReturnStmt p e) = ReturnStmt p e"
| "markStmt w (BreakStmt p) = BreakStmt p"
| "markStmt w (ContinueStmt p) = ContinueStmt p"
| "markStmt w (RepeatStmt p b e) = RepeatStmt p (markBlock w b) e"
| "markStmt w (ExitStmt p e) = ExitStmt p e"
| "markStmt w (TryStmt p b n cb cp sl) = TryStmt p (markBlock w b) n (markBlock w cb) cp sl"
| "markStmt w (ThrowStmt p e) = ThrowStmt p e"
| "markStmt w (DeferStmt p e oe) = DeferStmt p e oe"
| "markStmt w (ExprStmt p e) = ExprStmt p e"
| "markBlock w (Block p sts n) = Block p (map (markStmt w) sts) n"
| "markArm w (MatchArm p vals b v bd sl) = MatchArm p vals (markBlock w b) v bd sl"

definition markBorrowableParams :: "methodDef \<Rightarrow> methodDef" where
  "markBorrowableParams m = (let w = scanBlock (mBody m) in
     m\<lparr>mParams := map (\<lambda>p. p\<lparr>pBorrow := \<not> snd w \<and> borrowSafeType (pType p) \<and> pName p \<notin> set (fst w)\<rparr>) (mParams m)\<rparr>)"

definition markBorrowableDefs :: "methodDef \<Rightarrow> methodDef" where
  "markBorrowableDefs m = (let w = scanBlock (mBody m) in if snd w then m else m\<lparr>mBody := markBlock w (mBody m)\<rparr>)"

section \<open>Ownership\<close>

text \<open>\<open>walkStmtTree\<close>: a statement and those in the blocks nested in it.\<close>

primrec treeStmt :: "stmt \<Rightarrow> stmt list" and treeBlock :: "block \<Rightarrow> stmt list" and treeArm :: "matchArm \<Rightarrow> stmt list" where
  "treeStmt (DefineStmt p k n t e sl b) = [DefineStmt p k n t e sl b]"
| "treeStmt (AssignStmt p n e d sl) = [AssignStmt p n e d sl]"
| "treeStmt (IndexAssignStmt p t e) = [IndexAssignStmt p t e]"
| "treeStmt (AppendStmt p t e) = [AppendStmt p t e]"
| "treeStmt (FieldAssignStmt p t e) = [FieldAssignStmt p t e]"
| "treeStmt (IfStmt p e b eis els) = IfStmt p e b eis els # treeBlock b @ concat (map snd (map (map_prod id treeBlock) eis)) @ concat (optList (map_option treeBlock els))"
| "treeStmt (MatchStmt p e arms els et) = MatchStmt p e arms els et # concat (map treeArm arms) @ concat (optList (map_option treeBlock els))"
| "treeStmt (WhileStmt p e b) = WhileStmt p e b # treeBlock b"
| "treeStmt (ForStmt p i e st b h) = ForStmt p i e st b h # concat (optList (map_option treeStmt i)) @ concat (optList (map_option treeStmt st)) @ treeBlock b"
| "treeStmt (ForEachStmt p n e b sl) = ForEachStmt p n e b sl # treeBlock b"
| "treeStmt (ReturnStmt p e) = [ReturnStmt p e]"
| "treeStmt (BreakStmt p) = [BreakStmt p]"
| "treeStmt (ContinueStmt p) = [ContinueStmt p]"
| "treeStmt (RepeatStmt p b e) = RepeatStmt p b e # treeBlock b"
| "treeStmt (ExitStmt p e) = [ExitStmt p e]"
| "treeStmt (TryStmt p b n cb cp sl) = TryStmt p b n cb cp sl # treeBlock b @ treeBlock cb"
| "treeStmt (ThrowStmt p e) = [ThrowStmt p e]"
| "treeStmt (DeferStmt p e oe) = [DeferStmt p e oe]"
| "treeStmt (ExprStmt p e) = [ExprStmt p e]"
| "treeBlock (Block p sts n) = concat (map treeStmt sts)"
| "treeArm (MatchArm p vals b v bd sl) = treeBlock b"

text \<open>\<open>ReturnsOwned\<close> of the methods, by name.\<close>

type_synonym ownFlags = "string \<Rightarrow> bool"

fun ownsCall :: "ownFlags \<Rightarrow> expr \<Rightarrow> bool" where
  "ownsCall F (CallExpr _ _ _ (Some m) _ _) = F m"
| "ownsCall F _ = False"

definition freshOrOwnedInit :: "ownFlags \<Rightarrow> expr option \<Rightarrow> bool" where
  "freshOrOwnedInit F e \<longleftrightarrow> (case e of None \<Rightarrow> False | Some x \<Rightarrow> freshLiteralRHS x \<or> ownsCall F x)"

text \<open>The names a statement binds: owning (left), or not (right).\<close>

fun bindsOwned :: "ownFlags \<Rightarrow> stmt \<Rightarrow> string list \<times> string list" where
  "bindsOwned F (DefineStmt _ k n _ e _ b) = (if k \<or> b \<and> \<not> freshOrOwnedInit F e then ([], [n]) else ([n], []))"
| "bindsOwned F (ForEachStmt _ n _ _ _) = ([], [n])"
| "bindsOwned F (TryStmt _ _ n _ _ _) = ([], [n])"
| "bindsOwned F (MatchStmt _ _ arms _ _) = ([], filter (\<lambda>n. n \<noteq> []) (map armBind arms))"
| "bindsOwned F _ = ([], [])"

definition ownedLocals :: "ownFlags \<Rightarrow> methodDef \<Rightarrow> string list" where
  "ownedLocals F m = (let bs = map (\<lambda>p. if pBorrow p then ([], [pName p]) else ([pName p], [])) (mParams m) @ map (bindsOwned F) (treeBlock (mBody m))
     in filter (\<lambda>n. n \<notin> set (concat (map snd bs))) (concat (map fst bs)))"

fun returnValue :: "stmt \<Rightarrow> expr option list" where
  "returnValue (ReturnStmt _ e) = [e]"
| "returnValue _ = []"

definition returnValues :: "block \<Rightarrow> expr option list" where
  "returnValues b = concat (map returnValue (treeBlock b))"

fun isOwnedRoot :: "string list \<Rightarrow> expr \<Rightarrow> bool" where
  "isOwnedRoot owned (VarExpr _ n _ _ _) \<longleftrightarrow> n \<in> set owned"
| "isOwnedRoot owned (IndexExpr _ t _) \<longleftrightarrow> isOwnedRoot owned t"
| "isOwnedRoot owned (FieldAccessExpr _ t _) \<longleftrightarrow> isOwnedRoot owned t"
| "isOwnedRoot owned _ \<longleftrightarrow> False"

definition ownedExpr :: "ownFlags \<Rightarrow> string list \<Rightarrow> expr option \<Rightarrow> bool" where
  "ownedExpr F owned e \<longleftrightarrow> (case e of
     None \<Rightarrow> True
   | Some x \<Rightarrow> (case x of
       IntLit _ _ \<Rightarrow> True | FloatLit _ _ \<Rightarrow> True | StringLit _ _ \<Rightarrow> True | BoolLit _ _ \<Rightarrow> True | NullLit _ \<Rightarrow> True | InterpStringExpr _ _ \<Rightarrow> True
     | BinaryExpr _ _ _ _ _ \<Rightarrow> True | UnaryExpr _ _ _ _ \<Rightarrow> True | LenExpr _ _ \<Rightarrow> True
     | VarExpr _ n _ _ _ \<Rightarrow> n \<in> set owned
     | IndexExpr _ _ _ \<Rightarrow> isOwnedRoot owned x
     | FieldAccessExpr _ _ _ \<Rightarrow> isOwnedRoot owned x
     | CallExpr _ _ _ _ _ _ \<Rightarrow> ownsCall F x
     | _ \<Rightarrow> freshLiteralRHS x))"

definition returnsOwn :: "ownFlags \<Rightarrow> methodDef \<Rightarrow> bool" where
  "returnsOwn F m \<longleftrightarrow> list_all (ownedExpr F (ownedLocals F m)) (returnValues (mBody m))"

text \<open>One pass over the methods: a flag is cleared where a return is not owned; and the passes, until one changes nothing.\<close>

fun ownPass :: "methodDef list \<Rightarrow> ownFlags \<Rightarrow> ownFlags \<times> bool" where
  "ownPass [] F = (F, False)"
| "ownPass (m # ms) F = (if F (mName m) \<and> \<not> returnsOwn F m then (fst (ownPass ms (F(mName m := False))), True) else ownPass ms F)"

lemma ownPass_below: "fst (ownPass ms F) n \<Longrightarrow> F n"
proof (induction ms arbitrary: F)
  case (Cons m ms)
  show ?case
  proof (cases "F (mName m) \<and> \<not> returnsOwn F m")
    case True
    then have "fst (ownPass ms (F(mName m := False))) n" using Cons.prems by simp
    from Cons.IH [OF this] show ?thesis by (simp split: if_splits)
  next
    case False
    then have "fst (ownPass ms F) n" using Cons.prems by auto
    from Cons.IH [OF this] show ?thesis .
  qed
qed simp

lemma ownPass_clears: "snd (ownPass ms F) \<Longrightarrow> \<exists>m \<in> set ms. F (mName m) \<and> \<not> fst (ownPass ms F) (mName m)"
proof (induction ms arbitrary: F)
  case (Cons m ms)
  show ?case
  proof (cases "F (mName m) \<and> \<not> returnsOwn F m")
    case True
    then show ?thesis using ownPass_below [of ms "F(mName m := False)" "mName m"] by auto
  next
    case False
    then show ?thesis using Cons by auto
  qed
qed simp

function ownLoop :: "methodDef list \<Rightarrow> ownFlags \<Rightarrow> ownFlags" where
  "ownLoop ms F = (if snd (ownPass ms F) then ownLoop ms (fst (ownPass ms F)) else fst (ownPass ms F))"
  by pat_completeness auto
termination
proof (relation "measure (\<lambda>(ms, F). card {n \<in> set (map mName ms). F n})")
  fix ms F
  assume "snd (ownPass ms F)"
  from ownPass_clears [OF this] obtain m where "m \<in> set ms" "F (mName m)" "\<not> fst (ownPass ms F) (mName m)" by blast
  then have "{n \<in> set (map mName ms). fst (ownPass ms F) n} \<subset> {n \<in> set (map mName ms). F n}" using ownPass_below [of ms F] by auto
  then have "card {n \<in> set (map mName ms). fst (ownPass ms F) n} < card {n \<in> set (map mName ms). F n}" by (rule psubset_card_mono [rotated]) simp
  then show "((ms, fst (ownPass ms F)), ms, F) \<in> measure (\<lambda>(ms, F). card {n \<in> set (map mName ms). F n})" by simp
qed simp

declare ownLoop.simps [simp del]

section \<open>The flags are the greatest consistent ones\<close>

lemma ownsCall_mono: "F \<le> F' \<Longrightarrow> ownsCall F e \<Longrightarrow> ownsCall F' e"
  by (cases "(F, e)" rule: ownsCall.cases) auto

lemma freshOrOwned_mono: "F \<le> F' \<Longrightarrow> freshOrOwnedInit F e \<Longrightarrow> freshOrOwnedInit F' e"
  using ownsCall_mono [of F F'] by (auto simp: freshOrOwnedInit_def split: option.splits)

lemma bindsOwned_mono: "F \<le> F' \<Longrightarrow> set (fst (bindsOwned F st)) \<subseteq> set (fst (bindsOwned F' st)) \<and> set (snd (bindsOwned F' st)) \<subseteq> set (snd (bindsOwned F st))"
proof (cases st)
  case (DefineStmt p k n t e sl b)
  then show "F \<le> F' \<Longrightarrow> ?thesis" using freshOrOwned_mono [of F F' e] by auto
qed auto

lemma ownedLocals_mono:
  assumes "F \<le> F'"
  shows "set (ownedLocals F m) \<subseteq> set (ownedLocals F' m)"
proof -
  have "set (concat (map fst (map (bindsOwned F) sts))) \<subseteq> set (concat (map fst (map (bindsOwned F') sts))) \<and>
      set (concat (map snd (map (bindsOwned F') sts))) \<subseteq> set (concat (map snd (map (bindsOwned F) sts)))" for sts
    using bindsOwned_mono [OF assms] by (induction sts) auto
  from this [of "treeBlock (mBody m)"] show ?thesis unfolding ownedLocals_def Let_def map_append concat_append set_append set_filter by blast
qed

lemma isOwnedRoot_mono: "set ow \<subseteq> set ow' \<Longrightarrow> isOwnedRoot ow e \<Longrightarrow> isOwnedRoot ow' e"
  by (induction ow e rule: isOwnedRoot.induct) auto

lemma ownedExpr_mono:
  assumes "F \<le> F'" "set ow \<subseteq> set ow'" "ownedExpr F ow e"
  shows "ownedExpr F' ow' e"
proof (cases e)
  case (Some x)
  then show ?thesis using assms(3) isOwnedRoot_mono [OF assms(2), of x] ownsCall_mono [OF assms(1), of x] assms(2) by (cases x) (auto simp: ownedExpr_def)
qed (simp add: ownedExpr_def)

lemma returnsOwn_mono: "F \<le> F' \<Longrightarrow> returnsOwn F m \<Longrightarrow> returnsOwn F' m"
  unfolding returnsOwn_def using ownedExpr_mono [OF _ ownedLocals_mono, of F F'] by (auto simp: list_all_iff)

lemma ownPass_still:
  "\<not> snd (ownPass ms F) \<Longrightarrow> fst (ownPass ms F) = F \<and> (\<forall>m \<in> set ms. F (mName m) \<longrightarrow> returnsOwn F m)"
  by (induction ms) (auto split: if_splits)

lemma ownPass_above:
  assumes "\<And>m. m \<in> set ms \<Longrightarrow> H (mName m) \<Longrightarrow> returnsOwn H m" "H \<le> F"
  shows "H \<le> fst (ownPass ms F)"
  using assms
proof (induction ms arbitrary: F)
  case (Cons m ms)
  show ?case
  proof (cases "F (mName m) \<and> \<not> returnsOwn F m")
    case True
    then have "\<not> H (mName m)" using Cons.prems(1) [of m] returnsOwn_mono [OF Cons.prems(2)] by auto
    then have "H \<le> F(mName m := False)" using Cons.prems(2) by (auto simp: le_fun_def)
    then have "H \<le> fst (ownPass ms (F(mName m := False)))" using Cons.IH Cons.prems(1) by simp
    then show ?thesis using True by simp
  next
    case False
    then have "ownPass (m # ms) F = ownPass ms F" by auto
    then show ?thesis using Cons by simp
  qed
qed simp

lemma ownLoop_consistent: "m \<in> set ms \<Longrightarrow> ownLoop ms F (mName m) \<Longrightarrow> returnsOwn (ownLoop ms F) m"
proof (induction ms F rule: ownLoop.induct)
  case (1 ms F)
  then show ?case using ownPass_still [of ms F] by (cases "snd (ownPass ms F)") (simp_all add: ownLoop.simps [of ms F])
qed

lemma ownLoop_greatest:
  assumes "\<And>m. m \<in> set ms \<Longrightarrow> H (mName m) \<Longrightarrow> returnsOwn H m"
  shows "H \<le> F \<Longrightarrow> H \<le> ownLoop ms F"
  using assms
proof (induction ms F rule: ownLoop.induct)
  case (1 ms F)
  then have "H \<le> fst (ownPass ms F)" using ownPass_above by blast
  then show ?case using 1 by (cases "snd (ownPass ms F)") (simp_all add: ownLoop.simps [of ms F])
qed

section \<open>Moved arguments\<close>

definition sumRefs :: "nat option list \<Rightarrow> nat option" where
  "sumRefs ns = (if None \<in> set ns then None else Some (sum_list (map the ns)))"

text \<open>The references to a variable in an expression; none when a node is unknown.\<close>

primrec countVarRefs :: "string \<Rightarrow> expr \<Rightarrow> nat option" where
  "countVarRefs x (IntLit p n) = Some 0"
| "countVarRefs x (FloatLit p f) = Some 0"
| "countVarRefs x (StringLit p s) = Some 0"
| "countVarRefs x (InterpStringExpr p ps) = sumRefs (map (case_sum (\<lambda>_. Some 0) id) (map (map_sum id (countVarRefs x)) ps))"
| "countVarRefs x (BoolLit p b) = Some 0"
| "countVarRefs x (NullLit p) = Some 0"
| "countVarRefs x (ListLit p es) = sumRefs (map (countVarRefs x) es)"
| "countVarRefs x (MapLit p kvs) = sumRefs (map (\<lambda>(k, v). sumRefs [k, v]) (map (map_prod (countVarRefs x) (countVarRefs x)) kvs))"
| "countVarRefs x (IndexExpr p t i) = sumRefs [countVarRefs x t, countVarRefs x i]"
| "countVarRefs x (RangeExpr p lo hi) = sumRefs [countVarRefs x lo, countVarRefs x hi]"
| "countVarRefs x (SliceExpr p t lo hi) = sumRefs (countVarRefs x t # optList (map_option (countVarRefs x) lo) @ optList (map_option (countVarRefs x) hi))"
| "countVarRefs x (StructLit p ns en n bare fs) = sumRefs (map (\<lambda>(f, q, k). k) (map (map_prod id (map_prod id (countVarRefs x))) fs))"
| "countVarRefs x (FieldAccessExpr p t f) = countVarRefs x t"
| "countVarRefs x (VarExpr p n d sl m) = Some (if n = x then 1 else 0)"
| "countVarRefs x (ConstRefExpr p n d sl) = Some 0"
| "countVarRefs x (CallExpr p n args m mv snap) = sumRefs (map (countVarRefs x) args)"
| "countVarRefs x (CallValueExpr p e args snap) = sumRefs (countVarRefs x e # map (countVarRefs x) args)"
| "countVarRefs x (LenExpr p e) = countVarRefs x e"
| "countVarRefs x (SpawnExpr p sts) = None"
| "countVarRefs x (QualifiedCallExpr p pre n args mv snap) = sumRefs (map (countVarRefs x) args)"
| "countVarRefs x (QualifiedConstRefExpr p pre n) = Some 0"
| "countVarRefs x (UnaryExpr p op e f) = countVarRefs x e"
| "countVarRefs x (BinaryExpr p op l r f) = sumRefs [countVarRefs x l, countVarRefs x r]"
| "countVarRefs x (PreEval p v) = Some 0"

fun isVar :: "string \<Rightarrow> expr \<Rightarrow> bool" where
  "isVar x (VarExpr _ n _ _ _) \<longleftrightarrow> n = x"
| "isVar x _ \<longleftrightarrow> False"

definition moveIndex :: "string \<Rightarrow> expr list \<Rightarrow> nat" where
  "moveIndex x args = (let k = length (takeWhile (\<lambda>a. \<not> isVar x a) args) in if k < length args then Suc k else 0)"

definition markMoveAssign :: "string list \<Rightarrow> bool \<Rightarrow> string \<Rightarrow> expr \<Rightarrow> expr" where
  "markMoveAssign owned inTry x v = (let movable = (\<not> inTry \<and> x \<in> set owned \<and> countVarRefs x v = Some 1) in case v of
     CallExpr p n args m _ snap \<Rightarrow> CallExpr p n args m (if movable then moveIndex x args else 0) snap
   | QualifiedCallExpr p pre n args _ snap \<Rightarrow> QualifiedCallExpr p pre n args (if movable then moveIndex x args else 0) snap
   | _ \<Rightarrow> v)"

definition forParts :: "pos \<Rightarrow> expr option \<Rightarrow> nat \<Rightarrow> stmt option \<Rightarrow> stmt option \<Rightarrow> block \<Rightarrow> stmt" where
  "forParts p e h i st b = ForStmt p i e st b h"

primrec moveStmt :: "string list \<Rightarrow> stmt \<Rightarrow> bool \<Rightarrow> stmt" and moveBlock :: "string list \<Rightarrow> block \<Rightarrow> bool \<Rightarrow> block"
  and moveArm :: "string list \<Rightarrow> matchArm \<Rightarrow> bool \<Rightarrow> matchArm" where
  "moveStmt ow (DefineStmt p k n t e sl b) = (\<lambda>_. DefineStmt p k n t e sl b)"
| "moveStmt ow (AssignStmt p n e d sl) = (\<lambda>inTry. AssignStmt p n (markMoveAssign ow inTry n e) d sl)"
| "moveStmt ow (IndexAssignStmt p t e) = (\<lambda>_. IndexAssignStmt p t e)"
| "moveStmt ow (AppendStmt p t e) = (\<lambda>_. AppendStmt p t e)"
| "moveStmt ow (FieldAssignStmt p t e) = (\<lambda>_. FieldAssignStmt p t e)"
| "moveStmt ow (IfStmt p e b eis els) = (\<lambda>inTry. IfStmt p e (moveBlock ow b inTry) (map (apsnd (\<lambda>f. f inTry)) (map (map_prod id (moveBlock ow)) eis))
     (map_option (\<lambda>f. f inTry) (map_option (moveBlock ow) els)))"
| "moveStmt ow (MatchStmt p e arms els et) = (\<lambda>inTry. MatchStmt p e (map (\<lambda>f. f inTry) (map (moveArm ow) arms)) (map_option (\<lambda>f. f inTry) (map_option (moveBlock ow) els)) et)"
| "moveStmt ow (WhileStmt p e b) = (\<lambda>inTry. WhileStmt p e (moveBlock ow b inTry))"
| "moveStmt ow (ForStmt p i e st b h) = (\<lambda>inTry. forParts p e h (map_option (\<lambda>f. f inTry) (map_option (moveStmt ow) i))
     (map_option (\<lambda>f. f inTry) (map_option (moveStmt ow) st)) (moveBlock ow b inTry))"
| "moveStmt ow (ForEachStmt p n e b sl) = (\<lambda>inTry. ForEachStmt p n e (moveBlock ow b inTry) sl)"
| "moveStmt ow (ReturnStmt p e) = (\<lambda>_. ReturnStmt p e)"
| "moveStmt ow (BreakStmt p) = (\<lambda>_. BreakStmt p)"
| "moveStmt ow (ContinueStmt p) = (\<lambda>_. ContinueStmt p)"
| "moveStmt ow (RepeatStmt p b e) = (\<lambda>inTry. RepeatStmt p (moveBlock ow b inTry) e)"
| "moveStmt ow (ExitStmt p e) = (\<lambda>_. ExitStmt p e)"
| "moveStmt ow (TryStmt p b n cb cp sl) = (\<lambda>inTry. TryStmt p (moveBlock ow b True) n (moveBlock ow cb inTry) cp sl)"
| "moveStmt ow (ThrowStmt p e) = (\<lambda>_. ThrowStmt p e)"
| "moveStmt ow (DeferStmt p e oe) = (\<lambda>_. DeferStmt p e oe)"
| "moveStmt ow (ExprStmt p e) = (\<lambda>_. ExprStmt p e)"
| "moveBlock ow (Block p sts n) = (\<lambda>inTry. Block p (map (\<lambda>f. f inTry) (map (moveStmt ow) sts)) n)"
| "moveArm ow (MatchArm p vals b v bd sl) = (\<lambda>inTry. MatchArm p vals (moveBlock ow b inTry) v bd sl)"

definition markOwnership :: "methodDef list \<Rightarrow> methodDef list" where
  "markOwnership ms = (let F = ownLoop ms (\<lambda>_. True)
     in map (\<lambda>m. m\<lparr>mReturnsOwned := F (mName m), mBody := moveBlock (ownedLocals F m) (mBody m) False\<rparr>) ms)"

section \<open>Methods and programs\<close>

fun bindParams :: "string \<Rightarrow> nat \<Rightarrow> param list \<Rightarrow> scopeFrame \<Rightarrow> parseError + scopeFrame" where
  "bindParams m i [] f = Inr f"
| "bindParams m i (p # ps) f =
     (if frameSlots f (pName p) \<noteq> None then Inl (ParseError ''parameter %q duplicated in function %q'' [PStr (pName p), PStr m] (pPos p))
      else bindParams m (Suc i) ps (f\<lparr>frameSlots := (frameSlots f)(pName p \<mapsto> \<lparr>siSlot = i, siConst = False, siType = namedTypeOf (pType p), siPos = noDefPos\<rparr>),
        frameCount := Suc i\<rparr>))"

definition rootFrame :: scopeFrame where
  "rootFrame = \<lparr>frameSlots = \<lambda>_. None, frameCount = 0, isRoot = True\<rparr>"

definition resolveMethod :: "rctx \<Rightarrow> scopeFrame \<Rightarrow> methodDef \<Rightarrow> methodDef R" where
  "resolveMethod c globals m = (\<lambda>s. case bindParams (mName m) 0 (mParams m) rootFrame of
     Inl e \<Rightarrow> Inl e
   | Inr callFrame \<Rightarrow> (case resolveBlock c (mBody m) (s\<lparr>scopes := [callFrame, globals]\<rparr>) of
       Inl e \<Rightarrow> Inl e
     | Inr (b, s') \<Rightarrow> Inr (markBorrowableDefs (markBorrowableParams (m\<lparr>mBody := b\<rparr>)), s'\<lparr>scopes := scopes s\<rparr>)))"

definition dupDeclError :: "string \<Rightarrow> string \<Rightarrow> pos \<Rightarrow> pos \<Rightarrow> parseError" where
  "dupDeclError kind name p1 p2 = ParseError ''%s %q is defined more than once%s'' ([PStr kind, PStr name] @
     (if File p1 \<noteq> [] \<and> p1 = p2 then [PStr ''spliced'', PStr (File p1), PNum (nat (Line p1)), PNum (nat (Col p1))]
      else if File p1 \<noteq> [] then [PStr ''first defined at'', PStr (File p1), PNum (nat (Line p1)), PNum (nat (Col p1))] else [])) p2"

fun hoistNames :: "string \<Rightarrow> (string \<Rightarrow> pos option) \<Rightarrow> (string \<times> pos) list \<Rightarrow> parseError option" where
  "hoistNames kind T [] = None"
| "hoistNames kind T ((n, p) # ds) = (case T n of Some q \<Rightarrow> Some (dupDeclError kind n q p) | None \<Rightarrow> hoistNames kind (T(n \<mapsto> p)) ds)"

fun hoistEnumNames :: "string list \<Rightarrow> (string \<Rightarrow> pos option) \<Rightarrow> (string \<times> pos) list \<Rightarrow> parseError option" where
  "hoistEnumNames ss T [] = None"
| "hoistEnumNames ss T ((n, p) # ds) =
     (if n \<in> set ss then Some (ParseError ''enum %q collides with a struct of the same name'' [PStr n] p)
      else case T n of Some q \<Rightarrow> Some (dupDeclError ''enum'' n q p) | None \<Rightarrow> hoistEnumNames ss (T(n \<mapsto> p)) ds)"

fun constDefs :: "(bool \<times> stmt) list \<Rightarrow> string \<Rightarrow> pos option" where
  "constDefs [] = (\<lambda>_. None)"
| "constDefs ((_, DefineStmt p True n _ _ _ _) # ss) = (\<lambda>x. case constDefs ss x of Some q \<Rightarrow> Some q | None \<Rightarrow> if x = n then Some p else None)"
| "constDefs (_ # ss) = constDefs ss"

fun passConst :: "stmt \<Rightarrow> rctx \<Rightarrow> rctx" where
  "passConst (DefineStmt _ True n _ _ _ _) c = c\<lparr>laterConsts := (laterConsts c)(n := None)\<rparr>"
| "passConst _ c = c"

fun resolveTop :: "rctx \<Rightarrow> (bool \<times> stmt) list \<Rightarrow> (bool \<times> stmt) list R" where
  "resolveTop c [] = retR []"
| "resolveTop c ((x, st) # sts) = bindR (resolveStmt c st) (\<lambda>st'. bindR (resolveTop (passConst st c) sts) (\<lambda>sts'. retR ((x, st') # sts')))"

definition hoistError :: "program \<Rightarrow> parseError option" where
  "hoistError prog = (case hoistNames ''function'' (\<lambda>_. None) (map (\<lambda>m. (mName m, mPos m)) (Methods prog)) of
     Some e \<Rightarrow> Some e
   | None \<Rightarrow> (case hoistNames ''struct'' (\<lambda>_. None) (map (\<lambda>d. (sName d, sPos d)) (Structs prog)) of
       Some e \<Rightarrow> Some e
     | None \<Rightarrow> hoistEnumNames (map sName (Structs prog)) (\<lambda>_. None) (map (\<lambda>d. (edName d, edPos d)) (Enums prog))))"

definition programCtx :: "program \<Rightarrow> rctx" where
  "programCtx prog = \<lparr>rMethods = map mName (Methods prog), rStructs = map_of (map (\<lambda>d. (sName d, d)) (Structs prog)), rEnums = Enums prog, laterConsts = \<lambda>_. None\<rparr>"

definition methodClash :: "scopeFrame \<Rightarrow> methodDef list \<Rightarrow> parseError option" where
  "methodClash globals ms = (case find (\<lambda>m. frameSlots globals (mName m) \<noteq> None) ms of
     None \<Rightarrow> None
   | Some m \<Rightarrow> Some (ParseError ''function %q shares its name with a top-level variable or constant'' [PStr (mName m)] (mPos m)))"

definition resolveProgram :: "program \<Rightarrow> parseError + program" where
  "resolveProgram prog = (case hoistError prog of
     Some e \<Rightarrow> Inl e
   | None \<Rightarrow> (let c = programCtx prog in
       case resolveTop (c\<lparr>laterConsts := constDefs (TopLevel prog)\<rparr>) (TopLevel prog) \<lparr>scopes = [rootFrame], pendings = []\<rparr> of
         Inl e \<Rightarrow> Inl e
       | Inr (sts, s) \<Rightarrow> (let globals = hd (scopes s) in
           case methodClash globals (Methods prog) of
             Some e \<Rightarrow> Inl e
           | None \<Rightarrow> (case seqR (map (resolveMethod c globals) (Methods prog)) (s\<lparr>scopes := []\<rparr>) of
               Inl e \<Rightarrow> Inl e
             | Inr (ms, s') \<Rightarrow> Inr (prog\<lparr>TopLevel := sts, Methods := markOwnership ms, NumGlobals := frameCount globals, PendingEnumMatches := pendings s'\<rparr>)))))"

definition Resolve :: "program \<Rightarrow> parseError + program" where
  "Resolve prog = resolveProgram prog"

end
