(* ===== verification/ResolveSafe.thy ===== *)
theory ResolveSafe
  imports Ownership
begin

text \<open>
  What the resolver guarantees. Coordinates are right: in the frames that the statements of a program build, listed as
  the names in slot order, the frame at a reference's depth has the referenced name in the referenced slot,
  and no name is bound twice in sight. And nothing but annotations changes.
\<close>

section \<open>Trees without annotations\<close>

primrec eraseE :: "expr \<Rightarrow> expr" and eraseS :: "stmt \<Rightarrow> stmt" and eraseB :: "block \<Rightarrow> block" and eraseA :: "matchArm \<Rightarrow> matchArm" where
  "eraseE (IntLit p n) = IntLit p n"
| "eraseE (FloatLit p f) = FloatLit p f"
| "eraseE (StringLit p s) = StringLit p s"
| "eraseE (InterpStringExpr p ps) = InterpStringExpr p (map (map_sum id eraseE) ps)"
| "eraseE (BoolLit p b) = BoolLit p b"
| "eraseE (NullLit p) = NullLit p"
| "eraseE (ListLit p es) = ListLit p (map eraseE es)"
| "eraseE (MapLit p kvs) = MapLit p (map (map_prod eraseE eraseE) kvs)"
| "eraseE (IndexExpr p t i) = IndexExpr p (eraseE t) (eraseE i)"
| "eraseE (RangeExpr p lo hi) = RangeExpr p (eraseE lo) (eraseE hi)"
| "eraseE (SliceExpr p t lo hi) = SliceExpr p (eraseE t) (map_option eraseE lo) (map_option eraseE hi)"
| "eraseE (StructLit p ns en n bare fs) = StructLit p ns en n bare (map (map_prod id (map_prod id eraseE)) fs)"
| "eraseE (FieldAccessExpr p t f) = FieldAccessExpr p (eraseE t) f"
| "eraseE (VarExpr p n d sl m) = VarExpr p n (- 1) (- 1) False"
| "eraseE (ConstRefExpr p n d sl) = ConstRefExpr p n (- 1) (- 1)"
| "eraseE (CallExpr p n args m mv snap) = CallExpr p n (map eraseE args) None 0 snap"
| "eraseE (CallValueExpr p e args snap) = CallValueExpr p (eraseE e) (map eraseE args) snap"
| "eraseE (LenExpr p e) = LenExpr p (eraseE e)"
| "eraseE (SpawnExpr p sts) = SpawnExpr p (map eraseS sts)"
| "eraseE (QualifiedCallExpr p pre n args mv snap) = QualifiedCallExpr p pre n (map eraseE args) 0 snap"
| "eraseE (QualifiedConstRefExpr p pre n) = QualifiedConstRefExpr p pre n"
| "eraseE (UnaryExpr p op e f) = UnaryExpr p op (eraseE e) None"
| "eraseE (BinaryExpr p op l r f) = BinaryExpr p op (eraseE l) (eraseE r) None"
| "eraseE (PreEval p v) = PreEval p v"
| "eraseS (DefineStmt p k n t e sl b) = DefineStmt p k n t (map_option eraseE e) (- 1) False"
| "eraseS (AssignStmt p n e d sl) = AssignStmt p n (eraseE e) (- 1) (- 1)"
| "eraseS (IndexAssignStmt p t e) = IndexAssignStmt p (eraseE t) (eraseE e)"
| "eraseS (AppendStmt p t e) = AppendStmt p (eraseE t) (eraseE e)"
| "eraseS (FieldAssignStmt p t e) = FieldAssignStmt p (eraseE t) (eraseE e)"
| "eraseS (IfStmt p e b eis els) = IfStmt p (eraseE e) (eraseB b) (map (map_prod eraseE eraseB) eis) (map_option eraseB els)"
| "eraseS (MatchStmt p e arms els et) = MatchStmt p (eraseE e) (map eraseA arms) (map_option eraseB els) None"
| "eraseS (WhileStmt p e b) = WhileStmt p (eraseE e) (eraseB b)"
| "eraseS (ForStmt p i e st b h) = ForStmt p (map_option eraseS i) (map_option eraseE e) (map_option eraseS st) (eraseB b) 0"
| "eraseS (ForEachStmt p n e b sl) = ForEachStmt p n (eraseE e) (eraseB b) 0"
| "eraseS (ReturnStmt p e) = ReturnStmt p (map_option eraseE e)"
| "eraseS (BreakStmt p) = BreakStmt p"
| "eraseS (ContinueStmt p) = ContinueStmt p"
| "eraseS (RepeatStmt p b e) = RepeatStmt p (eraseB b) (eraseE e)"
| "eraseS (ExitStmt p e) = ExitStmt p (map_option eraseE e)"
| "eraseS (TryStmt p b n cb cp sl) = TryStmt p (eraseB b) n (eraseB cb) cp 0"
| "eraseS (ThrowStmt p e) = ThrowStmt p (eraseE e)"
| "eraseS (DeferStmt p e oe) = DeferStmt p (eraseE e) oe"
| "eraseS (ExprStmt p e) = ExprStmt p (eraseE e)"
| "eraseB (Block p sts n) = Block p (map eraseS sts) 0"
| "eraseA (MatchArm p vals b v bd sl) = MatchArm p (map eraseE vals) (eraseB b) [] [] (- 1)"

section \<open>Scopes\<close>

text \<open>The frames as lists of names, innermost first, names in slot order.\<close>

type_synonym frames = "string list list"

definition refers :: "frames \<Rightarrow> string \<Rightarrow> int \<Rightarrow> int \<Rightarrow> bool" where
  "refers G n d sl \<longleftrightarrow> 0 \<le> d \<and> nat d < length G \<and> 0 \<le> sl \<and> nat sl < length (G ! nat d) \<and> G ! nat d ! nat sl = n"

definition unbound :: "frames \<Rightarrow> string \<Rightarrow> bool" where
  "unbound G n \<longleftrightarrow> n \<notin> set (concat G)"

text \<open>What a statement adds to the innermost frame.\<close>

fun bindStmt :: "stmt \<Rightarrow> frames \<Rightarrow> frames" where
  "bindStmt (DefineStmt _ _ n _ _ _ _) (ns # G) = (ns @ [n]) # G"
| "bindStmt _ G = G"

fun inOrder :: "(stmt \<times> (frames \<Rightarrow> bool)) list \<Rightarrow> frames \<Rightarrow> bool" where
  "inOrder [] G \<longleftrightarrow> True"
| "inOrder ((st, ok) # sts) G \<longleftrightarrow> ok G \<and> inOrder sts (bindStmt st G)"

definition bindAll :: "stmt list \<Rightarrow> frames \<Rightarrow> frames" where
  "bindAll sts G = foldl (\<lambda>G st. bindStmt st G) G sts"

definition allIn :: "frames \<Rightarrow> (frames \<Rightarrow> bool) list \<Rightarrow> bool" where
  "allIn G oks \<longleftrightarrow> list_all (\<lambda>ok. ok G) oks"

text \<open>Every reference stands for the slot of its name (a bare name may be no binding at all), every binding is new and gets the next
  slot, and blocks, loop headers and arms record the slots of their frame; operations carry the constant they fold to. The body of a spawn is run by name
  and not constrained; a pattern head is not a value.\<close>

primrec scopedE :: "expr \<Rightarrow> frames \<Rightarrow> bool" and scopedS :: "stmt \<Rightarrow> frames \<Rightarrow> bool" and scopedB :: "block \<Rightarrow> frames \<Rightarrow> bool" and scopedA :: "matchArm \<Rightarrow> frames \<Rightarrow> bool" where
  "scopedE (IntLit p n) = (\<lambda>G. True)"
| "scopedE (FloatLit p f) = (\<lambda>G. True)"
| "scopedE (StringLit p s) = (\<lambda>G. True)"
| "scopedE (InterpStringExpr p ps) = (\<lambda>G. allIn G (map (case_sum (\<lambda>_ _. True) id) (map (map_sum id scopedE) ps)))"
| "scopedE (BoolLit p b) = (\<lambda>G. True)"
| "scopedE (NullLit p) = (\<lambda>G. True)"
| "scopedE (ListLit p es) = (\<lambda>G. allIn G (map scopedE es))"
| "scopedE (MapLit p kvs) = (\<lambda>G. allIn G (map fst (map (map_prod scopedE scopedE) kvs)) \<and> allIn G (map snd (map (map_prod scopedE scopedE) kvs)))"
| "scopedE (IndexExpr p t i) = (\<lambda>G. scopedE t G \<and> scopedE i G)"
| "scopedE (RangeExpr p lo hi) = (\<lambda>G. scopedE lo G \<and> scopedE hi G)"
| "scopedE (SliceExpr p t lo hi) = (\<lambda>G. scopedE t G \<and> allIn G (optList (map_option scopedE lo)) \<and> allIn G (optList (map_option scopedE hi)))"
| "scopedE (StructLit p ns en n bare fs) = (\<lambda>G. allIn G (map (\<lambda>x. snd (snd x)) (map (map_prod id (map_prod id scopedE)) fs)))"
| "scopedE (FieldAccessExpr p t f) = (\<lambda>G. scopedE t G)"
| "scopedE (VarExpr p n d sl m) = (\<lambda>G. refers G n d sl)"
| "scopedE (ConstRefExpr p n d sl) = (\<lambda>G. refers G n d sl \<or> unbound G n)"
| "scopedE (CallExpr p n args m mv snap) = (\<lambda>G. allIn G (map scopedE args))"
| "scopedE (CallValueExpr p e args snap) = (\<lambda>G. scopedE e G \<and> allIn G (map scopedE args))"
| "scopedE (LenExpr p e) = (\<lambda>G. scopedE e G)"
| "scopedE (SpawnExpr p sts) = (\<lambda>G. True)"
| "scopedE (QualifiedCallExpr p pre n args mv snap) = (\<lambda>G. allIn G (map scopedE args))"
| "scopedE (QualifiedConstRefExpr p pre n) = (\<lambda>G. True)"
| "scopedE (UnaryExpr p op e f) = (\<lambda>G. scopedE e G \<and> f = tryFoldUnary p op e)"
| "scopedE (BinaryExpr p op l r f) = (\<lambda>G. scopedE l G \<and> scopedE r G \<and> f = tryFoldBinary p op l r)"
| "scopedE (PreEval p v) = (\<lambda>G. True)"
| "scopedS (DefineStmt p k n t e sl b) = (\<lambda>G. allIn G (optList (map_option scopedE e)) \<and> unbound G n \<and> sl = int (length (hd G)))"
| "scopedS (AssignStmt p n e d sl) = (\<lambda>G. scopedE e G \<and> refers G n d sl)"
| "scopedS (IndexAssignStmt p t e) = (\<lambda>G. scopedE t G \<and> scopedE e G)"
| "scopedS (AppendStmt p t e) = (\<lambda>G. scopedE t G \<and> scopedE e G)"
| "scopedS (FieldAssignStmt p t e) = (\<lambda>G. scopedE t G \<and> scopedE e G)"
| "scopedS (IfStmt p e b eis els) = (\<lambda>G. scopedE e G \<and> scopedB b ([] # G) \<and> allIn G (map fst (map (map_prod scopedE scopedB) eis)) \<and>
     allIn ([] # G) (map snd (map (map_prod scopedE scopedB) eis)) \<and> allIn ([] # G) (optList (map_option scopedB els)))"
| "scopedS (MatchStmt p e arms els et) = (\<lambda>G. scopedE e G \<and> allIn G (map scopedA arms) \<and> allIn ([] # G) (optList (map_option scopedB els)))"
| "scopedS (WhileStmt p e b) = (\<lambda>G. scopedE e G \<and> scopedB b ([] # G))"
| "scopedS (ForStmt p i e st b h) = (\<lambda>G. let G1 = bindAll (optList i) ([] # G); G2 = bindAll (optList st) G1 in
     allIn ([] # G) (optList (map_option scopedS i)) \<and> allIn G1 (optList (map_option scopedE e)) \<and> allIn G1 (optList (map_option scopedS st)) \<and>
     scopedB b ([] # G2) \<and> h = length (hd G2))"
| "scopedS (ForEachStmt p n e b sl) = (\<lambda>G. scopedE e G \<and> unbound G n \<and> sl = 0 \<and> scopedB b ([n] # G))"
| "scopedS (ReturnStmt p e) = (\<lambda>G. allIn G (optList (map_option scopedE e)))"
| "scopedS (BreakStmt p) = (\<lambda>G. True)"
| "scopedS (ContinueStmt p) = (\<lambda>G. True)"
| "scopedS (RepeatStmt p b e) = (\<lambda>G. scopedB b ([] # G) \<and> scopedE e G)"
| "scopedS (ExitStmt p e) = (\<lambda>G. allIn G (optList (map_option scopedE e)))"
| "scopedS (TryStmt p b n cb cp sl) = (\<lambda>G. scopedB b ([] # G) \<and> unbound G n \<and> sl = 0 \<and> scopedB cb ([n] # G))"
| "scopedS (ThrowStmt p e) = (\<lambda>G. scopedE e G)"
| "scopedS (DeferStmt p e oe) = (\<lambda>G. scopedE e G)"
| "scopedS (ExprStmt p e) = (\<lambda>G. scopedE e G)"
| "scopedB (Block p sts n) = (\<lambda>G. inOrder (zip sts (map scopedS sts)) G \<and> n = length (hd (bindAll sts G)))"
| "scopedA (MatchArm p vals b v bd sl) = (\<lambda>G. (allIn G (map scopedE vals) \<or> length vals = 1 \<and> patternExpr (hd vals) = Inr (Some (v, bd))) \<and>
     (sl = - 1 \<and> scopedB b ([] # G) \<or> sl = 0 \<and> unbound G bd \<and> scopedB b ([bd] # G)))"

section \<open>The scope stack\<close>

definition frameNames :: "scopeFrame \<Rightarrow> string list \<Rightarrow> bool" where
  "frameNames f ns \<longleftrightarrow> frameCount f = length ns \<and> (\<forall>n i. frameSlots f n = Some i \<longrightarrow> siSlot i < length ns \<and> ns ! siSlot i = n) \<and>
     (\<forall>n. frameSlots f n = None \<longleftrightarrow> n \<notin> set ns)"

text \<open>Root frames are the globals and, in a method, the frame of its parameters next to them.\<close>

fun rootsLast :: "scopeFrame list \<Rightarrow> bool" where
  "rootsLast [] \<longleftrightarrow> False"
| "rootsLast (f # fs) \<longleftrightarrow> (isRoot f \<longrightarrow> length fs \<le> 1) \<and> (fs = [] \<or> rootsLast fs)"

definition stack :: "scopeFrame list \<Rightarrow> frames \<Rightarrow> bool" where
  "stack fs G \<longleftrightarrow> rootsLast fs \<and> list_all2 frameNames fs G"

lemma stack_Cons: "stack (f # fs) G \<Longrightarrow> \<exists>ns G'. G = ns # G' \<and> frameNames f ns \<and> list_all2 frameNames fs G' \<and> (isRoot f \<longrightarrow> length fs \<le> 1) \<and> (fs \<noteq> [] \<longrightarrow> stack fs G')"
  by (auto simp: stack_def list_all2_Cons1)

lemma frame_None: "frameNames f ns \<Longrightarrow> frameSlots f n = None \<longleftrightarrow> n \<notin> set ns"
  by (simp add: frameNames_def)

lemma lookupFrom_refers:
  "stack fs G \<Longrightarrow> lookupFrom n d fs = Some (k, i) \<Longrightarrow> \<exists>j. k = d + j \<and> j < length G \<and> siSlot i < length (G ! j) \<and> G ! j ! siSlot i = n"
proof (induction fs arbitrary: d G)
  case (Cons f fs)
  from stack_Cons [OF Cons.prems(1)] obtain ns G' where G: "G = ns # G'" "frameNames f ns" "list_all2 frameNames fs G'" "isRoot f \<longrightarrow> length fs \<le> 1"
    "fs \<noteq> [] \<longrightarrow> stack fs G'" by blast
  consider (here) "frameSlots f n = Some i" "k = d" | (globals) g ms where "fs = [g]" "G' = [ms]" "frameNames g ms" "frameSlots g n = Some i" "k = Suc d"
    | (out) "lookupFrom n (Suc d) fs = Some (k, i)" "fs \<noteq> []"
  proof (cases "frameSlots f n")
    case None
    show thesis
    proof (cases "isRoot f \<and> fs \<noteq> []")
      case True
      then obtain g where "fs = [g]" using G(4) by (cases fs) auto
      with True None Cons.prems(2) G(3) show thesis by (auto simp: list_all2_Cons1 intro: globals)
    qed (use None Cons.prems(2) out in \<open>cases fs; auto\<close>)
  qed (use Cons.prems(2) here in auto)
  then show ?case
  proof cases
    case here
    then show ?thesis using G(1,2) by (intro exI [of _ 0]) (auto simp: frameNames_def)
  next
    case globals
    then show ?thesis using G(1) by (intro exI [of _ 1]) (auto simp: frameNames_def)
  next
    case out
    from Cons.IH [OF _ out(1)] out(2) G(5) obtain j where "k = Suc d + j \<and> j < length G' \<and> siSlot i < length (G' ! j) \<and> G' ! j ! siSlot i = n" by blast
    then show ?thesis using G(1) by (intro exI [of _ "Suc j"]) auto
  qed
qed simp

lemma lookupName_refers: "stack fs G \<Longrightarrow> lookupName n fs = Some (d, i) \<Longrightarrow> refers G n (int d) (int (siSlot i))"
  using lookupFrom_refers [of fs G n 0 d i] by (auto simp: lookupName_def refers_def)

lemma lookup_globals: "list_all2 frameNames fs G \<Longrightarrow> fs \<noteq> [] \<Longrightarrow> length fs \<le> 1 \<Longrightarrow> frameSlots (last fs) n = None \<longleftrightarrow> unbound G n"
  by (cases fs) (auto simp: list_all2_Cons1 unbound_def frame_None)

lemma lookupFrom_None: "stack fs G \<Longrightarrow> lookupFrom n d fs = None \<longleftrightarrow> unbound G n"
proof (induction fs arbitrary: d G)
  case (Cons f fs)
  from stack_Cons [OF Cons.prems(1)] obtain ns G' where G: "G = ns # G'" "frameNames f ns" "list_all2 frameNames fs G'" "isRoot f \<longrightarrow> length fs \<le> 1"
    "fs \<noteq> [] \<longrightarrow> stack fs G'" by blast
  have u: "unbound G n \<longleftrightarrow> frameSlots f n = None \<and> unbound G' n" using frame_None [OF G(2), of n] by (auto simp: unbound_def G(1))
  show ?case
  proof (cases "fs = []")
    case True
    then show ?thesis using u G(3) by (auto simp: unbound_def split: option.splits)
  next
    case False
    then have "lookupFrom n (Suc d) fs = None \<longleftrightarrow> unbound G' n" using Cons.IH G(5) by simp
    then show ?thesis using u lookup_globals [OF G(3) False, of n] G(4) False by (auto split: option.splits)
  qed
qed (simp add: stack_def)

lemma lookupWalk_None: "stack fs G \<Longrightarrow> lookupWalk n fs = None \<and> frameSlots (last fs) n = None \<longleftrightarrow> unbound G n"
proof (induction fs arbitrary: G)
  case (Cons f fs)
  from stack_Cons [OF Cons.prems(1)] obtain ns G' where G: "G = ns # G'" "frameNames f ns" "list_all2 frameNames fs G'" "isRoot f \<longrightarrow> length fs \<le> 1"
    "fs \<noteq> [] \<longrightarrow> stack fs G'" by blast
  have u: "unbound G n \<longleftrightarrow> frameSlots f n = None \<and> unbound G' n" using frame_None [OF G(2), of n] by (auto simp: unbound_def G(1))
  show ?case
  proof (cases "fs = []")
    case True
    then show ?thesis using u G(3) by (auto simp: unbound_def split: option.splits)
  next
    case False
    then have "lookupWalk n fs = None \<and> frameSlots (last fs) n = None \<longleftrightarrow> unbound G' n" using Cons.IH G(5) by simp
    then show ?thesis using u lookup_globals [OF G(3) False, of n] G(4) False by (auto split: option.splits)
  qed
qed (simp add: stack_def)

lemma lookupChain_None: "stack fs G \<Longrightarrow> lookupChain n fs = None \<longleftrightarrow> unbound G n"
  using lookupWalk_None [of fs G n] by (auto simp: lookupChain_def stack_def split: option.splits)

lemma stack_fresh: "stack fs G \<Longrightarrow> stack (freshFrame # fs) ([] # G)"
  by (auto simp: stack_def freshFrame_def frameNames_def)

lemma stack_bind:
  assumes "stack fs G" "unbound G n" "siSlot i = frameCount (hd fs)"
  shows "\<exists>ns G'. G = ns # G' \<and> frameCount (hd fs) = length ns \<and> stack (bindSlot n i fs) ((ns @ [n]) # G')"
proof -
  obtain f fs' where fs: "fs = f # fs'" using assms(1) by (cases fs) (auto simp: stack_def)
  from stack_Cons [OF assms(1) [unfolded fs]] obtain ns G' where G: "G = ns # G'" "frameNames f ns" by blast
  have old: "siSlot j < length ns \<and> ns ! siSlot j = m" if "frameSlots f m = Some j" for m j using G(2) that by (simp add: frameNames_def)
  have "frameNames (f\<lparr>frameSlots := (frameSlots f)(n \<mapsto> i), frameCount := Suc (frameCount f)\<rparr>) (ns @ [n])"
    using G(2) assms(2,3) old by (fastforce simp: frameNames_def unbound_def G(1) fs nth_append split: if_splits)
  then show ?thesis using assms(1) G by (auto simp: stack_def fs bindSlot_def frameNames_def)
qed

section \<open>Steps that keep the scopes, and steps that bind\<close>

definition reading :: "frames \<Rightarrow> 'a R \<Rightarrow> ('a \<Rightarrow> bool) \<Rightarrow> bool" where
  "reading G m Q \<longleftrightarrow> (\<forall>s x s'. stack (scopes s) G \<longrightarrow> m s = Inr (x, s') \<longrightarrow> scopes s' = scopes s \<and> Q x)"

definition extending :: "frames \<Rightarrow> 'a R \<Rightarrow> ('a \<Rightarrow> frames \<Rightarrow> bool) \<Rightarrow> bool" where
  "extending G m Q \<longleftrightarrow> (\<forall>s x s'. stack (scopes s) G \<longrightarrow> m s = Inr (x, s') \<longrightarrow> tl (scopes s') = tl (scopes s) \<and> (\<exists>G'. stack (scopes s') G' \<and> Q x G'))"

named_theorems scope_rules

lemma reading_ret [scope_rules]: "Q x \<Longrightarrow> reading G (retR x) Q"
  by (simp add: reading_def retR_def)

lemma reading_fail [scope_rules]: "reading G (failR f args p) Q" "reading G (\<lambda>s. Inl e) Q" "reading G (undefinedVariable n p) Q"
  by (simp_all add: reading_def failR_def undefinedVariable_def)

lemma bindR_Inr: "bindR m f s = Inr (y, s2) \<longleftrightarrow> (\<exists>x s1. m s = Inr (x, s1) \<and> f x s1 = Inr (y, s2))"
  by (auto simp: bindR_def split: sum.splits)

lemma reading_bind: "reading G m P \<Longrightarrow> (\<And>x. P x \<Longrightarrow> reading G (f x) Q) \<Longrightarrow> reading G (bindR m f) Q"
  unfolding reading_def bindR_Inr by (metis (no_types, lifting))

lemma readingD: "reading G m Q \<Longrightarrow> stack (scopes s) G \<Longrightarrow> m s = Inr (x, s') \<Longrightarrow> scopes s' = scopes s \<and> Q x"
  unfolding reading_def by blast

lemma extendingD: "extending G m Q \<Longrightarrow> stack (scopes s) G \<Longrightarrow> m s = Inr (x, s') \<Longrightarrow> tl (scopes s') = tl (scopes s) \<and> (\<exists>G'. stack (scopes s') G' \<and> Q x G')"
  unfolding extending_def by blast

lemma reading_if: "(b \<Longrightarrow> reading G m Q) \<Longrightarrow> (\<not> b \<Longrightarrow> reading G m' Q) \<Longrightarrow> reading G (if b then m else m') Q"
  by simp

lemma reading_weaken: "reading G m P \<Longrightarrow> (\<And>x. P x \<Longrightarrow> Q x) \<Longrightarrow> reading G m Q"
  unfolding reading_def by blast

lemma reading_prims: "reading G (getsR g) (\<lambda>_. True)" "reading G (resultR r) (\<lambda>x. r = Inr x)" "reading G (addPending m) (\<lambda>_. True)"
  by (auto simp: reading_def getsR_def resultR_def addPending_def split: sum.splits)

lemma reading_gets [scope_rules]: "(\<And>x. reading G (f x) Q) \<Longrightarrow> reading G (bindR (getsR g) f) Q"
  by (rule reading_bind [OF reading_prims(1)])

lemma reading_lift [scope_rules]: "(\<And>x. r = Inr x \<Longrightarrow> reading G (f x) Q) \<Longrightarrow> reading G (bindR (resultR r) f) Q"
  by (rule reading_bind [OF reading_prims(2)])

lemma reading_pending [scope_rules]: "reading G (f ()) Q \<Longrightarrow> reading G (bindR (addPending m) f) Q"
  by (rule reading_bind [OF reading_prims(3)]) simp

lemma reading_seq:
  assumes "\<And>x. x \<in> set xs \<Longrightarrow> reading G (f x) (Q x)"
  shows "reading G (seqR (map f xs)) (list_all2 Q xs)"
  using assms
proof (induction xs)
  case (Cons x xs)
  then have xs: "reading G (seqR (map f xs)) (list_all2 Q xs)" by simp
  have "reading G (f x) (Q x)" using Cons.prems by simp
  then show ?case unfolding list.map seqR.simps
    by (rule reading_bind, intro reading_bind [OF xs] reading_ret) auto
qed (auto intro: reading_ret)

lemma reading_opt:
  assumes "\<And>x. x \<in> set_option r \<Longrightarrow> reading G (f x) (Q x)"
  shows "reading G (optR (map_option f r)) (rel_option Q r)"
proof (cases r)
  case (Some x)
  then have "reading G (f x) (Q x)" using assms by simp
  then show ?thesis unfolding Some optR_def option.map option.case by (rule reading_bind) (auto intro: reading_ret)
qed (auto simp: optR_def intro: reading_ret)

lemma extending_ret: "Q x G \<Longrightarrow> extending G (retR x) Q"
  by (auto simp: extending_def retR_def)

lemma extending_reading: "reading G m (\<lambda>x. Q x G) \<Longrightarrow> extending G m Q"
  unfolding reading_def extending_def by metis

lemma extending_bind:
  assumes "extending G m P" "\<And>x G'. P x G' \<Longrightarrow> extending G' (f x) Q"
  shows "extending G (bindR m f) Q"
  unfolding extending_def bindR_Inr
proof (intro allI impI, elim exE conjE)
  fix s y s2 x s1
  assume s: "stack (scopes s) G" "m s = Inr (x, s1)" "f x s1 = Inr (y, s2)"
  with assms(1) obtain G1 where G1: "tl (scopes s1) = tl (scopes s)" "stack (scopes s1) G1" "P x G1" unfolding extending_def by blast
  with assms(2) [OF G1(3)] s(3) obtain G2 where "tl (scopes s2) = tl (scopes s1)" "stack (scopes s2) G2" "Q y G2" unfolding extending_def by blast
  then show "tl (scopes s2) = tl (scopes s) \<and> (\<exists>G'. stack (scopes s2) G' \<and> Q y G')" using G1(1) by auto
qed

lemma extending_bind_reading: "reading G m P \<Longrightarrow> (\<And>x. P x \<Longrightarrow> extending G (f x) Q) \<Longrightarrow> extending G (bindR m f) Q"
  by (rule extending_bind [where P = "\<lambda>x G'. P x \<and> G' = G"]) (auto intro: extending_reading reading_weaken)

text \<open>A frame of its own for a step that binds.\<close>

lemma reading_frame:
  assumes "extending ([] # G) m (\<lambda>x G'. Q x)"
  shows "reading G (inFrame freshFrame m) Q"
  unfolding reading_def
proof (intro allI impI)
  fix s x s'
  assume s: "stack (scopes s) G" "inFrame freshFrame m s = Inr (x, s')"
  then obtain s1 where s1: "m (s\<lparr>scopes := freshFrame # scopes s\<rparr>) = Inr (x, s1)" "s' = s1\<lparr>scopes := tl (scopes s1)\<rparr>"
    by (auto simp: inFrame_def split: sum.splits)
  have "stack (scopes (s\<lparr>scopes := freshFrame # scopes s\<rparr>)) ([] # G)" using stack_fresh [OF s(1)] by simp
  with assms s1(1) have "tl (scopes s1) = scopes s \<and> Q x" unfolding extending_def by fastforce
  then show "scopes s' = scopes s \<and> Q x" by (simp add: s1(2))
qed

lemma extending_define:
  assumes "\<And>ns G'. G = ns # G' \<Longrightarrow> unbound G n \<Longrightarrow> extending ((ns @ [n]) # G') (f (length ns)) Q"
  shows "extending G (bindR (defineName n k t p) f) Q"
proof (rule extending_bind [where P = "\<lambda>sl H. \<exists>ns G'. G = ns # G' \<and> sl = length ns \<and> unbound G n \<and> H = (ns @ [n]) # G'"])
  show "extending G (defineName n k t p) (\<lambda>sl H. \<exists>ns G'. G = ns # G' \<and> sl = length ns \<and> unbound G n \<and> H = (ns @ [n]) # G')"
    unfolding extending_def
  proof (intro allI impI)
    fix s sl s'
    assume s: "stack (scopes s) G" "defineName n k t p s = Inr (sl, s')"
    then have u: "unbound G n" "sl = currentCount s"
      "s' = s\<lparr>scopes := bindSlot n \<lparr>siSlot = currentCount s, siConst = k, siType = t, siPos = p\<rparr> (scopes s)\<rparr>"
      using lookupChain_None [OF s(1), of n] by (auto simp: defineName_def failR_def split: option.splits if_splits)
    from stack_bind [OF s(1) u(1), of "\<lparr>siSlot = currentCount s, siConst = k, siType = t, siPos = p\<rparr>"] u
    show "tl (scopes s') = tl (scopes s) \<and> (\<exists>H. stack (scopes s') H \<and> (\<exists>ns G'. G = ns # G' \<and> sl = length ns \<and> unbound G n \<and> H = (ns @ [n]) # G'))"
      by (auto simp: currentCount_def bindSlot_def split: list.splits)
  qed
qed (use assms in blast)

lemma extending_first:
  assumes "unbound G n \<Longrightarrow> extending ([n] # G) (f ()) Q"
  shows "extending ([] # G) (bindR (bindFirst msg n p) f) Q"
proof (rule extending_bind [where P = "\<lambda>_ H. unbound G n \<and> H = [n] # G"])
  show "extending ([] # G) (bindFirst msg n p) (\<lambda>_ H. unbound G n \<and> H = [n] # G)"
    unfolding extending_def
  proof (intro allI impI)
    fix s x s'
    assume s: "stack (scopes s) ([] # G)" "bindFirst msg n p s = Inr (x, s')"
    then have u: "unbound ([] # G) n" "s' = s\<lparr>scopes := bindSlot n \<lparr>siSlot = 0, siConst = False, siType = None, siPos = noDefPos\<rparr> (scopes s)\<rparr>"
      using lookupChain_None [OF s(1), of n] by (auto simp: bindFirst_def boundInChain_def failR_def split: if_splits)
    have "frameCount (hd (scopes s)) = 0" using s(1) by (auto simp: stack_def list_all2_Cons2 frameNames_def)
    with stack_bind [OF s(1) u(1), of "\<lparr>siSlot = 0, siConst = False, siType = None, siPos = noDefPos\<rparr>"] u
    show "tl (scopes s') = tl (scopes s) \<and> (\<exists>H. stack (scopes s') H \<and> unbound G n \<and> H = [n] # G)"
      by (auto simp: bindSlot_def unbound_def split: list.splits)
  qed
qed (use assms in simp)

section \<open>Spawn bodies\<close>

lemma reading_then: "reading G m P \<Longrightarrow> (\<And>x. P x \<Longrightarrow> Q (g x)) \<Longrightarrow> reading G (bindR m (\<lambda>x. retR (g x))) Q"
  by (erule reading_bind) (rule reading_ret, blast)

lemma reading_seq2:
  assumes "\<And>x. x \<in> set xs \<Longrightarrow> reading G (g (h x)) (Q x)" "\<And>ys. list_all2 Q xs ys \<Longrightarrow> reading G (k ys) R"
  shows "reading G (bindR (seqR (map g (map h xs))) k) R"
proof (rule reading_bind [OF _ assms(2)])
  show "reading G (seqR (map g (map h xs))) (list_all2 Q xs)" unfolding map_map by (rule reading_seq) (simp add: assms(1))
qed

lemma reading_opt2:
  assumes "\<And>x. x \<in> set_option r \<Longrightarrow> reading G (g (h x)) (Q x)" "\<And>y. rel_option Q r y \<Longrightarrow> reading G (k y) R"
  shows "reading G (bindR (optR (map_option g (map_option h r))) k) R"
proof (rule reading_bind [OF _ assms(2)])
  show "reading G (optR (map_option g (map_option h r))) (rel_option Q r)" unfolding option.map_comp by (rule reading_opt) (simp add: assms(1))
qed

lemma reading_opt1:
  assumes "\<And>x. x \<in> set_option r \<Longrightarrow> reading G (h x) (Q x)" "\<And>y. rel_option Q r y \<Longrightarrow> reading G (k y) R"
  shows "reading G (bindR (optR (map_option h r)) k) R"
  by (rule reading_bind [OF reading_opt assms(2)]) (rule assms(1))

lemma reading_thread:
  fixes f :: "'x \<Rightarrow> 't \<Rightarrow> ('y \<times> 't) R"
  assumes "\<And>x t. x \<in> set xs \<Longrightarrow> reading G (f x t) (\<lambda>(y, t'). Q x y)"
  shows "reading G (threadR (map f xs) t) (list_all2 Q xs)"
  using assms
proof (induction xs arbitrary: t)
  case (Cons x xs)
  have "reading G (f x t) (\<lambda>(y, t'). Q x y)" using Cons.prems by simp
  then show ?case unfolding list.map threadR.simps
  proof (rule reading_bind)
    fix yt :: "'y \<times> 't"
    assume "case yt of (y, t') \<Rightarrow> Q x y"
    then obtain y t' where y: "yt = (y, t')" "Q x y" by (cases yt) auto
    have "reading G (threadR (map f xs) t') (list_all2 Q xs)" using Cons by simp
    then have "reading G (bindR (threadR (map f xs) t') (\<lambda>ys. retR (y # ys))) (list_all2 Q (x # xs))"
      by (rule reading_then) (simp add: y(2))
    then show "reading G (case yt of (y, t') \<Rightarrow> bindR (threadR (map f xs) t') (\<lambda>ys. retR (y # ys))) (list_all2 Q (x # xs))" by (simp add: y(1))
  qed
qed (auto intro: reading_ret)

lemma reading_map2:
  assumes "\<And>a t. a \<in> set as \<Longrightarrow> reading G (f a ts t) (Q a)" "length tags = length as"
  shows "reading G (seqR (map2 (\<lambda>g t. g ts t) (map f as) tags)) (list_all2 Q as)"
  using assms(2,1)
proof (induction tags as rule: list_induct2)
  case (Cons t tags a as)
  have "reading G (f a ts t) (Q a)" using Cons.prems by simp
  moreover have "reading G (seqR (map2 (\<lambda>g t. g ts t) (map f as) tags)) (list_all2 Q as)" using Cons by simp
  ultimately show ?case by simp (rule reading_bind, assumption, rule reading_then, assumption, simp)
qed (auto intro: reading_ret)

lemma tagArms_length: "tagArms arms = Inr (ok, tags) \<Longrightarrow> length tags = length arms"
  by (induction arms arbitrary: ok tags) (auto simp: map_sum_def split: if_splits sum.splits option.splits)

lemma reading_walkMatch: "reading G (walkMatch c tss p e arms els et) (\<lambda>(tags, et'). length tags = length arms)"
  unfolding reading_def walkMatch_def Let_def
  by (auto simp: bindR_Inr addPending_def retR_def tagArms_length split: if_splits option.splits sum.splits bool.splits prod.splits)

lemma erase_list: "list_all2 (\<lambda>x y. h y = h x) xs ys \<Longrightarrow> map h ys = map h xs"
  by (induction rule: list_all2_induct) auto

lemma erase_option: "rel_option (\<lambda>x y. h y = h x) r r' \<Longrightarrow> map_option h r' = map_option h r"
  by (cases r; cases r') auto

lemmas erase_lists = erase_list erase_option

lemma reading_types: "reading G m Q \<Longrightarrow> reading G (keepTypes tss m) (\<lambda>(x, t). Q x)"
  unfolding keepTypes_def by (rule reading_then) auto

lemma spawn_keeps:
  "\<And>G. reading G (spawnExpr c e) (\<lambda>e'. eraseE e' = eraseE e)"
  "\<And>G tss. reading G (spawnStmt c st tss) (\<lambda>(st', tss'). eraseS st' = eraseS st)"
  "\<And>G tss. reading G (spawnBlock c b tss) (\<lambda>b'. eraseB b' = eraseB b)"
  "\<And>G tss tag. reading G (spawnArm c a tss tag) (\<lambda>a'. eraseA a' = eraseA a)"
proof (induction e and st and b and a)
  case (SpawnExpr p sts)
  then have "reading G (threadR (map (spawnStmt c) sts) t) (list_all2 (\<lambda>st st'. eraseS st' = eraseS st) sts)" for t by (intro reading_thread) blast
  then show ?case unfolding spawnExpr.simps by (rule reading_then) (auto dest: erase_lists)
next
  case (DefineStmt p k n t e sl b)
  then show ?case unfolding spawnStmt.simps
    by (intro reading_opt1 [where Q = "\<lambda>e e'. eraseE e' = eraseE e"] reading_ret) (auto dest: erase_lists)
next
  case (IfStmt p e b eis els)
  have "reading G (bindR (spawnBlock c (snd x) tss) (\<lambda>y. retR (fst x, y))) (\<lambda>y. map_prod eraseE eraseB y = map_prod eraseE eraseB x)"
    if "x \<in> set eis" for x G tss
    by (rule reading_then [OF IfStmt(4) [OF that]]) (simp_all add: snds.intros map_prod_def split_beta)
  then show ?case unfolding spawnStmt.simps
    by (intro reading_types reading_bind [OF IfStmt(2)] reading_seq2 [where Q = "\<lambda>x y. map_prod eraseE eraseB y = map_prod eraseE eraseB x"]
        reading_opt2 [where Q = "\<lambda>b b'. eraseB b' = eraseB b"] reading_ret IfStmt(5)) (auto simp: split_beta dest: erase_lists)
next
  case (MatchStmt p e arms els et)
  have "reading G (seqR (map2 (\<lambda>f tag. f tss tag) (map (spawnArm c) arms) tags)) (list_all2 (\<lambda>a a'. eraseA a' = eraseA a) arms)"
    if "length tags = length arms" for tags G tss by (rule reading_map2 [OF _ that]) (rule MatchStmt(2))
  then have arms: "reading G (case x of (tags, et') \<Rightarrow> bindR (seqR (map2 (\<lambda>f tag. f tss tag) (map (spawnArm c) arms) tags)) (\<lambda>arms'.
      bindR (optR (map_option (\<lambda>f. f tss) (map_option (spawnBlock c) els))) (\<lambda>els'. retR (MatchStmt p e arms' els' et'))))
      (\<lambda>st'. eraseS st' = eraseS (MatchStmt p e arms els et))" if "case x of (tags, et') \<Rightarrow> length tags = length arms" for x G tss
    using that by (cases x) (auto intro!: reading_bind [of _ _ "list_all2 (\<lambda>a a'. eraseA a' = eraseA a) arms"]
        reading_opt2 [where Q = "\<lambda>b b'. eraseB b' = eraseB b"] reading_ret MatchStmt(3) dest: erase_lists)
  show ?case unfolding spawnStmt.simps by (intro reading_types reading_bind [OF reading_walkMatch]) (rule arms)
next
  case (ForStmt p i e st b h)
  show ?case unfolding spawnStmt.simps by (rule reading_types, rule reading_then [OF ForStmt(4)]) simp
next
  case (WhileStmt p e b)
  show ?case unfolding spawnStmt.simps by (rule reading_types, rule reading_then [OF WhileStmt(2)]) simp
next
  case (ForEachStmt p n e b sl)
  show ?case unfolding spawnStmt.simps by (rule reading_types, rule reading_then [OF ForEachStmt(2)]) simp
next
  case (RepeatStmt p b e)
  show ?case unfolding spawnStmt.simps by (rule reading_types, rule reading_then [OF RepeatStmt(1)]) simp
next
  case (ExprStmt p e)
  show ?case unfolding spawnStmt.simps by (rule reading_types, rule reading_then [OF ExprStmt]) simp
next
  case (MatchArm p vals b v bd sl)
  show ?case unfolding spawnArm.simps by (rule reading_then [OF MatchArm(2)]) simp
next
  case (TryStmt p b n cb cp sl)
  show ?case unfolding spawnStmt.simps by (intro reading_types reading_bind [OF TryStmt(1)] reading_then [OF TryStmt(2)]) simp
next
  case (Block p sts n)
  then have "reading G (threadR (map (spawnStmt c) sts) t) (list_all2 (\<lambda>st st'. eraseS st' = eraseS st) sts)" for t by (intro reading_thread) blast
  then show ?case unfolding spawnBlock.simps by (rule reading_then) (auto dest: erase_lists)
qed (auto intro!: reading_ret)

section \<open>Expressions and statements\<close>

abbreviation okE :: "frames \<Rightarrow> expr \<Rightarrow> expr \<Rightarrow> bool" where
  "okE G e e' \<equiv> scopedE e' G \<and> eraseE e' = eraseE e"

abbreviation okS :: "frames \<Rightarrow> stmt \<Rightarrow> stmt \<Rightarrow> frames \<Rightarrow> bool" where
  "okS G st st' G' \<equiv> scopedS st' G \<and> eraseS st' = eraseS st \<and> G' = bindStmt st' G"

abbreviation okB :: "frames \<Rightarrow> block \<Rightarrow> block \<Rightarrow> bool" where
  "okB G b b' \<equiv> scopedB b' G \<and> eraseB b' = eraseB b"

abbreviation okA :: "frames \<Rightarrow> matchArm \<Rightarrow> matchArm \<Rightarrow> bool" where
  "okA G a a' \<equiv> scopedA a' G \<and> eraseA a' = eraseA a"

text \<open>The mark of a moved variable is all that \<open>markMoveableAssign\<close> changes.\<close>

lemma move_ok:
  "moveCandidate n e = Some e' \<Longrightarrow> eraseE e' = eraseE e \<and> (scopedE e' G \<longleftrightarrow> scopedE e G)"
  "moveExprs n es = Some es' \<Longrightarrow> map eraseE es' = map eraseE es \<and> (allIn G (map scopedE es') \<longleftrightarrow> allIn G (map scopedE es))"
  "moveValues n kvs = Some kvs' \<Longrightarrow> map (map_prod eraseE eraseE) kvs' = map (map_prod eraseE eraseE) kvs \<and>
     (allIn G (map (scopedE \<circ> fst) kvs') \<longleftrightarrow> allIn G (map (scopedE \<circ> fst) kvs)) \<and> (allIn G (map (scopedE \<circ> snd) kvs') \<longleftrightarrow> allIn G (map (scopedE \<circ> snd) kvs))"
  "moveFields n fs = Some fs' \<Longrightarrow> map (map_prod id (map_prod id eraseE)) fs' = map (map_prod id (map_prod id eraseE)) fs \<and>
     (allIn G (map (\<lambda>x. scopedE (snd (snd x))) fs') \<longleftrightarrow> allIn G (map (\<lambda>x. scopedE (snd (snd x))) fs))"
  by (induction n e and n es and n kvs and n fs arbitrary: e' and es' and kvs' and fs' rule: moveCandidate_moveExprs_moveValues_moveFields.induct)
    (auto simp: allIn_def comp_def split: if_splits option.splits)

lemma firstMoveable_candidate: "firstMoveable n e = Some e' \<Longrightarrow> moveCandidate n e = Some e'"
  by (cases e) auto

lemma markMoveable_ok: "okE G v e \<Longrightarrow> scopedE (markMoveableAssign n e) G \<and> eraseE (markMoveableAssign n e) = eraseE v"
  using move_ok(1) [OF firstMoveable_candidate, of n e _ G] by (simp add: markMoveableAssign_def split: option.splits)

lemma lookupName_None: "lookupName n fs = None \<Longrightarrow> stack fs G \<Longrightarrow> unbound G n"
  using lookupFrom_None [of fs G n 0] by (simp add: lookupName_def)

lemma reading_var: "reading G (resolveVar p n m target) (\<lambda>e'. okE G (VarExpr p n d sl m) e')"
  unfolding reading_def resolveVar_def using lookupName_refers by (auto simp: undefinedVariable_def failR_def split: option.splits if_splits)

lemma reading_constRef: "reading G (resolveConstRef c p n d sl) (\<lambda>e'. okE G (ConstRefExpr p n d sl) e')"
  unfolding reading_def resolveConstRef_def
  by (auto simp: failR_def dest: lookupName_refers lookupName_None split: option.splits if_splits)

lemma reading_assign: "okE G v e \<Longrightarrow> reading G (assignTarget p n e) (\<lambda>st'. okS G (AssignStmt p n v d sl) st' G)"
  unfolding reading_def assignTarget_def using lookupName_refers markMoveable_ok [of e G v n]
  by (auto simp: undefinedVariable_def failR_def split: option.splits if_splits)

lemma ok_lists:
  "list_all2 (\<lambda>x y. P y \<and> h y = h x) xs ys \<Longrightarrow> list_all P ys \<and> map h ys = map h xs"
  by (induction rule: list_all2_induct) auto

lemma ok_option: "rel_option (\<lambda>x y. P y \<and> h y = h x) r r' \<Longrightarrow> pred_option P r' \<and> map_option h r' = map_option h r"
  by (cases r; cases r') auto

definition partIn :: "frames \<Rightarrow> string + expr \<Rightarrow> bool" where
  "partIn G y \<longleftrightarrow> (case y of Inl _ \<Rightarrow> True | Inr e \<Rightarrow> scopedE e G)"

lemma partIn_all: "list_all (partIn G) ys \<Longrightarrow> allIn G (map (case_sum (\<lambda>_ _. True) id \<circ> map_sum id scopedE) ys)"
  by (induction ys) (auto simp: allIn_def partIn_def split: sum.splits)

definition pairIn :: "('a \<Rightarrow> bool) \<Rightarrow> ('b \<Rightarrow> bool) \<Rightarrow> 'a \<times> 'b \<Rightarrow> bool" where
  "pairIn P Q y \<longleftrightarrow> P (fst y) \<and> Q (snd y)"

lemma pairIn_all: "list_all (pairIn P Q) ys \<longleftrightarrow> list_all (\<lambda>y. P (fst y)) ys \<and> list_all (\<lambda>y. Q (snd y)) ys"
  by (auto simp: pairIn_def list_all_iff)

lemma allIn_map: "allIn G (map f xs) \<longleftrightarrow> list_all (\<lambda>x. f x G) xs"
  by (simp add: allIn_def list.pred_map comp_def)

lemma allIn_opt: "allIn G (optList (map_option f r)) \<longleftrightarrow> pred_option (\<lambda>x. f x G) r"
  by (cases r) (auto simp: allIn_def optList_def)

text \<open>Arms are resolved as patterns only by the head they have.\<close>

definition tagged :: "matchArm \<Rightarrow> (string \<times> string) option \<Rightarrow> bool" where
  "tagged a tag \<longleftrightarrow> (case tag of None \<Rightarrow> True | Some t \<Rightarrow> length (armValues a) = 1 \<and> patternExpr (hd (armValues a)) = Inr (Some t))"

lemma reading_enumArms:
  assumes "\<And>a tag. a \<in> set as \<Longrightarrow> tagged a tag \<Longrightarrow> reading G (f a tag) (Q a)"
  shows "reading G (enumArms ed covered (zip as (map f as))) (\<lambda>(as', cov). list_all2 Q as as')"
  using assms
proof (induction as arbitrary: covered)
  case (Cons a as)
  have a: "reading G (f a (Some t)) (Q a)" if "length (armValues a) = 1" "patternExpr (hd (armValues a)) = Inr (Some t)" for t
    using Cons.prems [of a "Some t"] that by (simp add: tagged_def)
  have "reading G (bindR (enumArms ed cov (zip as (map f as))) (\<lambda>(as', cov). retR (a' # as', cov))) (\<lambda>(as', cov). list_all2 Q (a # as) as')" if "Q a a'" for cov a'
    by (rule reading_bind [OF Cons.IH]) (use Cons.prems that in \<open>auto intro: reading_ret\<close>)
  then show ?case by (auto intro!: scope_rules reading_bind [OF a] split: option.split)
qed (auto intro: reading_ret)

lemma reading_deferredArms:
  assumes "\<And>a tag. a \<in> set as \<Longrightarrow> tagged a tag \<Longrightarrow> reading G (f a tag) (Q a)"
  shows "reading G (deferredArms t (zip as (map f as))) (list_all2 Q as)"
  using assms
proof (induction as)
  case (Cons a as)
  have a: "reading G (f a (Some t)) (Q a)" if "length (armValues a) = 1" "patternExpr (hd (armValues a)) = Inr (Some t)" for t
    using Cons.prems [of a "Some t"] that by (simp add: tagged_def)
  have "reading G (bindR (deferredArms t (zip as (map f as))) (\<lambda>as'. retR (a' # as'))) (list_all2 Q (a # as))" if "Q a a'" for a'
    by (rule reading_then [OF Cons.IH]) (use Cons.prems that in auto)
  then show ?case by (auto intro!: scope_rules reading_bind [OF a] split: option.split)
qed (auto intro: reading_ret)

lemma reading_misc: "reading G (exhaustiveR ed cov p) (\<lambda>_. True)" "reading G (rejectBinderPatternOnUntypedSubject c v) (\<lambda>_. True)"
  by (auto simp: reading_def exhaustiveR_def rejectBinderPatternOnUntypedSubject_def retR_def failR_def split: option.splits expr.splits list.splits if_splits)

lemma extending_seq:
  assumes "\<And>x G. x \<in> set xs \<Longrightarrow> extending G (resolveStmt c x) (okS G x)"
  shows "extending G (seqR (map (resolveStmt c) xs)) (\<lambda>ys G'. inOrder (zip ys (map scopedS ys)) G \<and> map eraseS ys = map eraseS xs \<and> G' = bindAll ys G)"
  using assms
proof (induction xs arbitrary: G)
  case (Cons x xs)
  have x: "extending G (resolveStmt c x) (okS G x)" using Cons.prems by simp
  show ?case unfolding list.map seqR.simps
  proof (rule extending_bind [OF x])
    fix y G1
    assume y: "okS G x y G1"
    have "extending G1 (seqR (map (resolveStmt c) xs)) (\<lambda>ys G'. inOrder (zip ys (map scopedS ys)) G1 \<and> map eraseS ys = map eraseS xs \<and> G' = bindAll ys G1)"
      using Cons by simp
    then show "extending G1 (bindR (seqR (map (resolveStmt c) xs)) (\<lambda>ys. retR (y # ys)))
        (\<lambda>ys G'. inOrder (zip ys (map scopedS ys)) G \<and> map eraseS ys = eraseS x # map eraseS xs \<and> G' = bindAll ys G)"
      by (rule extending_bind) (use y in \<open>auto simp: bindAll_def intro!: extending_ret\<close>)
  qed
qed (auto simp: bindAll_def intro: extending_ret)

lemma extending_count:
  assumes "extending G (f (length (hd G))) Q"
  shows "extending G (bindR (getsR currentCount) f) Q"
proof -
  have "currentCount s = length (hd G)" if "stack (scopes s) G" for s
    using that by (cases "scopes s") (auto simp: stack_def list_all2_Cons1 frameNames_def currentCount_def)
  with assms show ?thesis by (simp add: extending_def bindR_Inr getsR_def)
qed

lemma extending_optS:
  assumes "\<And>x G. x \<in> set_option r \<Longrightarrow> extending G (resolveStmt c x) (okS G x)"
  shows "extending G (optR (map_option (resolveStmt c) r)) (\<lambda>r' G'. allIn G (optList (map_option scopedS r')) \<and> map_option eraseS r' = map_option eraseS r \<and> G' = bindAll (optList r') G)"
proof (cases r)
  case (Some x)
  then have "extending G (resolveStmt c x) (okS G x)" using assms by simp
  then show ?thesis unfolding Some optR_def option.map option.case
    by (rule extending_bind) (auto simp: allIn_def optList_def bindAll_def intro!: extending_ret)
qed (auto simp: optR_def allIn_def optList_def bindAll_def intro: extending_ret)

lemmas extending_read = extending_reading [OF reading_weaken]

lemma resolve_ok:
  "\<And>G target. reading G (resolveExpr c e target) (okE G e)"
  "\<And>G. extending G (resolveStmt c st) (okS G st)"
  "\<And>G. extending G (resolveBody c b) (\<lambda>b' G'. okB G b b')"
  "\<And>G tag. tagged a tag \<Longrightarrow> reading G (resolveArm c a tag) (okA G a)"
proof (induction e and st and b and a)
  case (InterpStringExpr p ps)
  have "reading G (case_sum (\<lambda>t. retR (Inl t)) (\<lambda>f. bindR (f False) (\<lambda>e. retR (Inr e))) (map_sum id (resolveExpr c) x))
      (\<lambda>y. partIn G y \<and> map_sum id eraseE y = map_sum id eraseE x)" if "x \<in> set ps" for x
  proof (cases x)
    case (Inr e)
    then have "reading G (resolveExpr c e False) (okE G e)" using InterpStringExpr [OF that] by (simp add: setr.simps)
    then show ?thesis unfolding Inr by simp (erule reading_then, simp add: partIn_def)
  qed (simp add: reading_ret partIn_def)
  then show ?case unfolding resolveExpr.simps
    by (intro reading_seq2 [where Q = "\<lambda>x y. partIn G y \<and> map_sum id eraseE y = map_sum id eraseE x"] reading_ret)
      (auto dest!: ok_lists simp: partIn_all)
next
  case (ListLit p es)
  then show ?case unfolding resolveExpr.simps readsR_def
    by (intro reading_seq2 [where Q = "okE G"] reading_ret) (auto dest: ok_lists simp: allIn_map)
next
  case (MapLit p kvs)
  have "reading G (pairR (resolveExpr c (fst x) False) (resolveExpr c (snd x) False))
      (\<lambda>y. pairIn (\<lambda>e. scopedE e G) (\<lambda>e. scopedE e G) y \<and> map_prod eraseE eraseE y = map_prod eraseE eraseE x)" if "x \<in> set kvs" for x
    unfolding pairR_def
    by (intro reading_bind [OF MapLit(1) [OF that]] reading_then [OF MapLit(2) [OF that]]) (auto simp: pairIn_def fsts.intros snds.intros map_prod_def split_beta)
  then show ?case unfolding resolveExpr.simps
    by (intro reading_seq2 [where Q = "\<lambda>x y. pairIn (\<lambda>e. scopedE e G) (\<lambda>e. scopedE e G) y \<and> map_prod eraseE eraseE y = map_prod eraseE eraseE x"] reading_ret)
      (auto dest!: ok_lists simp: pairIn_all split_beta allIn_def list.pred_map comp_def)
next
  case (IndexExpr p t i)
  show ?case unfolding resolveExpr.simps by (intro reading_bind [OF IndexExpr(1)] reading_then [OF IndexExpr(2)]) simp
next
  case (RangeExpr p t i)
  show ?case unfolding resolveExpr.simps by (intro reading_bind [OF RangeExpr(1)] reading_then [OF RangeExpr(2)]) simp
next
  case (SliceExpr p t lo hi)
  show ?case unfolding resolveExpr.simps
    by (intro reading_bind [OF SliceExpr(1)] reading_opt2 [where Q = "okE G"] reading_ret SliceExpr) (auto dest: ok_option simp: allIn_opt)
next
  case (StructLit p ns en n bare fs)
  have "reading G (bindR (resolveExpr c (snd (snd x)) False) (\<lambda>e. retR (fst x, fst (snd x), e)))
      (\<lambda>y. scopedE (snd (snd y)) G \<and> map_prod id (map_prod id eraseE) y = map_prod id (map_prod id eraseE) x)" if "x \<in> set fs" for x
    by (intro reading_then [OF StructLit [OF that snds.intros snds.intros]]) (auto simp: snds.intros map_prod_def split_beta)
  then show ?case unfolding resolveExpr.simps
    by (intro reading_seq2 [where Q = "\<lambda>x y. scopedE (snd (snd y)) G \<and> map_prod id (map_prod id eraseE) y = map_prod id (map_prod id eraseE) x"] reading_ret)
      (auto dest!: ok_lists simp: split_beta allIn_def list.pred_map comp_def)
next
  case (FieldAccessExpr p t f)
  show ?case unfolding resolveExpr.simps by (intro reading_then [OF FieldAccessExpr]) simp
next
  case (VarExpr p n d sl m)
  show ?case unfolding resolveExpr.simps by (rule reading_var)
next
  case (ConstRefExpr p n d sl)
  show ?case unfolding resolveExpr.simps by (rule reading_constRef)
next
  case (CallExpr p n args m mv snap)
  then show ?case unfolding resolveExpr.simps readsR_def
    by (intro reading_seq2 [where Q = "okE G"] reading_ret) (auto dest: ok_lists simp: allIn_map)
next
  case (CallValueExpr p e args snap)
  show ?case unfolding resolveExpr.simps readsR_def
    by (intro reading_bind [OF CallValueExpr(1)] reading_seq2 [where Q = "okE G"] reading_ret CallValueExpr) (auto dest: ok_lists simp: allIn_map)
next
  case (LenExpr p e)
  show ?case unfolding resolveExpr.simps by (rule reading_then [OF LenExpr]) simp
next
  case (SpawnExpr p sts)
  have "reading G (checkSpawnEnums c sts) (list_all2 (\<lambda>st st'. eraseS st' = eraseS st) sts)"
    unfolding checkSpawnEnums_def by (rule reading_thread) (rule spawn_keeps(2))
  then show ?case unfolding resolveExpr.simps by (rule reading_then) (auto dest: erase_lists)
next
  case (QualifiedCallExpr p pre n args mv snap)
  then show ?case unfolding resolveExpr.simps readsR_def
    by (intro reading_seq2 [where Q = "okE G"] reading_ret) (auto dest: ok_lists simp: allIn_map)
next
  case (UnaryExpr p op e f)
  show ?case unfolding resolveExpr.simps by (rule reading_then [OF UnaryExpr(1)]) simp
next
  case (BinaryExpr p op l r f)
  show ?case unfolding resolveExpr.simps by (intro reading_bind [OF BinaryExpr(1)] reading_then [OF BinaryExpr(2)]) simp
next
  case (DefineStmt p k n t e sl b)
  have e: "reading G (optR (map_option (\<lambda>f. f False) (map_option (resolveExpr c) e))) (rel_option (okE G) e)"
    unfolding option.map_comp by (rule reading_opt) (simp add: DefineStmt)
  show ?case unfolding resolveStmt.simps
    by (intro extending_bind_reading [OF e] extending_define extending_ret) (auto dest!: ok_option simp: allIn_opt unbound_def)
next
  case (AssignStmt p n e d sl)
  show ?case unfolding resolveStmt.simps
    by (intro extending_reading reading_bind [OF AssignStmt]) (rule reading_weaken [OF reading_assign], auto)
next
  case (IndexAssignStmt p t e)
  show ?case unfolding resolveStmt.simps by (intro extending_reading reading_bind [OF IndexAssignStmt(1)] reading_then [OF IndexAssignStmt(2)]) simp
next
  case (AppendStmt p t e)
  show ?case unfolding resolveStmt.simps by (intro extending_reading reading_bind [OF AppendStmt(1)] reading_then [OF AppendStmt(2)]) simp
next
  case (FieldAssignStmt p t e)
  show ?case unfolding resolveStmt.simps by (intro extending_reading reading_bind [OF FieldAssignStmt(1)] reading_then [OF FieldAssignStmt(2)]) simp
next
  case (IfStmt p e b eis els)
  have "reading G (pairR (resolveExpr c (fst x) False) (inFrame freshFrame (resolveBody c (snd x))))
      (\<lambda>y. pairIn (\<lambda>e. scopedE e G) (\<lambda>b. scopedB b ([] # G)) y \<and> map_prod eraseE eraseB y = map_prod eraseE eraseB x)" if "x \<in> set eis" for x
    unfolding pairR_def
    by (intro reading_bind [OF IfStmt(3) [OF that]] reading_then [OF reading_frame [OF IfStmt(4) [OF that]]])
      (auto simp: pairIn_def fsts.intros snds.intros map_prod_def split_beta)
  moreover have "reading G (inFrame freshFrame (resolveBody c x)) (\<lambda>y. okB ([] # G) x y)" if "x \<in> set_option els" for x
    by (rule reading_frame [OF IfStmt(5) [OF that]])
  ultimately show ?case unfolding resolveStmt.simps
    by (intro extending_reading reading_bind [OF IfStmt(1)] reading_bind [OF reading_frame [OF IfStmt(2)]] reading_ret
        reading_seq2 [where Q = "\<lambda>x y. pairIn (\<lambda>e. scopedE e G) (\<lambda>b. scopedB b ([] # G)) y \<and> map_prod eraseE eraseB y = map_prod eraseE eraseB x"]
        reading_opt2 [where Q = "\<lambda>x y. okB ([] # G) x y"])
      (auto dest!: ok_lists ok_option simp: pairIn_all split_beta allIn_opt allIn_map comp_def)
next
  case (MatchStmt p e arms els et)
  have els: "reading G (optR (map_option (inFrame freshFrame) (map_option (resolveBody c) els))) (rel_option (okB ([] # G)) els)"
    unfolding option.map_comp by (rule reading_opt) (simp add: reading_frame [OF MatchStmt(3)])
  note arms = reading_enumArms [of arms G "resolveArm c" "okA G", OF MatchStmt(2)] reading_deferredArms [of arms G "resolveArm c" "okA G", OF MatchStmt(2)]
  have plain: "reading G (seqR (map (\<lambda>f. f None) (map (resolveArm c) arms))) (list_all2 (okA G) arms)"
    unfolding map_map by (rule reading_seq) (simp add: MatchStmt(2) tagged_def)
  have fin: "reading G (bindR (optR (map_option (inFrame freshFrame) (map_option (resolveBody c) els))) (\<lambda>els'. retR (MatchStmt p e' arms' els' t)))
      (\<lambda>st'. okS G (MatchStmt p e arms els et) st' G)" if "okE G e e'" "list_all2 (okA G) arms arms'" for e' arms' t
    by (rule reading_then [OF els]) (use that in \<open>auto dest!: ok_lists ok_option simp: allIn_map allIn_opt\<close>)
  have exh: "reading G (if els = None then exhaustiveR ed cov p else retR ()) (\<lambda>_. True)" for ed cov by (auto intro: reading_misc reading_ret)
  show ?case unfolding resolveStmt.simps
  proof (intro extending_reading reading_bind [OF MatchStmt(1)] reading_gets)
    fix e' t
    assume e': "okE G e e'"
    show "reading G (case localEnumOf c t of
         Some ed \<Rightarrow> bindR (enumArms ed [] (zip arms (map (resolveArm c) arms))) (\<lambda>(arms', covered).
           bindR (if els = None then exhaustiveR ed covered p else retR ()) (\<lambda>_.
           bindR (optR (map_option (inFrame freshFrame) (map_option (resolveBody c) els))) (\<lambda>els'. retR (MatchStmt p e' arms' els' et))))
       | None \<Rightarrow>
           if deferrableEnumType t \<and> arms \<noteq> [] \<and> allArmsVariantShaped arms
           then bindR (deferredArms (the t) (zip arms (map (resolveArm c) arms))) (\<lambda>arms'.
             bindR (addPending (pendingOf p (the t) (map (\<lambda>a. armTag a None) arms') (els \<noteq> None))) (\<lambda>_.
             bindR (optR (map_option (inFrame freshFrame) (map_option (resolveBody c) els))) (\<lambda>els'. retR (MatchStmt p e' arms' els' t))))
           else bindR (seqR (map (\<lambda>f. f None) (map (resolveArm c) arms))) (\<lambda>arms'.
             bindR (optR (map_option (inFrame freshFrame) (map_option (resolveBody c) els))) (\<lambda>els'. retR (MatchStmt p e' arms' els' et))))
       (\<lambda>st'. okS G (MatchStmt p e arms els et) st' G)"
    proof (cases "localEnumOf c t")
      case None
      show ?thesis unfolding None option.case by (intro reading_if reading_bind [OF arms(2)] reading_pending fin [OF e'] reading_bind [OF plain])
    next
      case (Some ed)
      have "reading G (case x of (arms', covered) \<Rightarrow> bindR (if els = None then exhaustiveR ed covered p else retR ()) (\<lambda>_.
          bindR (optR (map_option (inFrame freshFrame) (map_option (resolveBody c) els))) (\<lambda>els'. retR (MatchStmt p e' arms' els' et))))
        (\<lambda>st'. okS G (MatchStmt p e arms els et) st' G)" if "case x of (arms', cov) \<Rightarrow> list_all2 (okA G) arms arms'" for x
        using that by (cases x) (simp only: prod.case, intro reading_bind [OF exh] fin [OF e'])
      note en = this
      show ?thesis unfolding Some option.case by (rule reading_bind [OF arms(1)], assumption, assumption, rule en)
    qed
  qed
next
  case (WhileStmt p e b)
  show ?case unfolding resolveStmt.simps
    by (intro extending_reading reading_bind [OF WhileStmt(1)] reading_then [OF reading_frame [OF WhileStmt(2)]]) simp
next
  case (ForStmt p i e st b h)
  note i = extending_optS [OF ForStmt(1)] and st = extending_optS [OF ForStmt(3)]
  have e: "reading G (optR (map_option (\<lambda>f. f False) (map_option (resolveExpr c) e))) (rel_option (okE G) e)" for G
    unfolding option.map_comp by (rule reading_opt) (simp add: ForStmt(2))
  show ?case unfolding resolveStmt.simps
    by (rule extending_reading, rule reading_frame)
      (intro extending_bind [OF i] extending_bind_reading [OF e] extending_bind [OF st] extending_bind_reading [OF reading_frame [OF ForStmt(4)]] extending_count extending_ret,
        auto dest!: ok_option simp: Let_def allIn_opt)
next
  case (ForEachStmt p n e b sl)
  have b: "reading G (inFrame freshFrame (bindR (bindFirst m n p) (\<lambda>_. resolveBody c b))) (\<lambda>b'. unbound G n \<and> okB ([n] # G) b b')" for m G
    by (intro reading_frame extending_first) (use ForEachStmt(2) [of "[n] # G"] in \<open>auto simp: extending_def\<close>)
  show ?case unfolding resolveStmt.simps by (intro extending_reading reading_bind [OF ForEachStmt(1)] reading_then [OF b]) simp
next
  case (ReturnStmt p e)
  show ?case unfolding resolveStmt.simps
    by (intro extending_reading reading_opt2 [where Q = "okE G"] reading_ret ReturnStmt) (auto dest: ok_option simp: allIn_opt)
next
  case (RepeatStmt p b e)
  show ?case unfolding resolveStmt.simps
    by (intro extending_reading reading_bind [OF reading_frame [OF RepeatStmt(1)]] reading_then [OF RepeatStmt(2)]) simp
next
  case (ExitStmt p e)
  show ?case unfolding resolveStmt.simps
    by (intro extending_reading reading_opt2 [where Q = "okE G"] reading_ret ExitStmt) (auto dest: ok_option simp: allIn_opt)
next
  case (TryStmt p b n cb cp sl)
  have cb: "reading G (inFrame freshFrame (bindR (bindFirst m n cp) (\<lambda>_. resolveBody c cb))) (\<lambda>b'. unbound G n \<and> okB ([n] # G) cb b')" for m G
    by (intro reading_frame extending_first) (use TryStmt(2) [of "[n] # G"] in \<open>auto simp: extending_def\<close>)
  show ?case unfolding resolveStmt.simps
    by (intro extending_reading reading_bind [OF reading_frame [OF TryStmt(1)]] reading_then [OF cb]) simp
next
  case (ThrowStmt p e)
  show ?case unfolding resolveStmt.simps by (intro extending_reading reading_then [OF ThrowStmt]) simp
next
  case (DeferStmt p e oe)
  show ?case unfolding resolveStmt.simps by (intro extending_reading reading_then [OF DeferStmt]) simp
next
  case (ExprStmt p e)
  show ?case unfolding resolveStmt.simps by (intro extending_reading reading_then [OF ExprStmt]) simp
next
  case (Block p sts n)
  show ?case unfolding resolveBody.simps
    by (rule extending_bind [OF extending_seq [OF Block]], assumption) (auto intro!: extending_count extending_ret)
next
  case (MatchArm p vals b v bd sl)
  show ?case
  proof (cases tag)
    case None
    have "reading G (if length vals = 1 then rejectBinderPatternOnUntypedSubject c (hd vals) else retR ()) (\<lambda>_. True)"
      by (auto intro: reading_misc reading_ret)
    then show ?thesis unfolding None resolveArm.simps readsR_def option.case
      by (rule reading_bind, intro reading_seq2 [where Q = "okE G"] reading_then [OF reading_frame [OF MatchArm(2)]] MatchArm(1))
        (auto dest!: ok_lists simp: allIn_map)
  next
    case (Some vb)
    obtain w n where vb: "vb = (w, n)" by (cases vb)
    have "extending ([] # G) (bindR (armFrame p n) (\<lambda>slot. bindR (resolveBody c b) (\<lambda>b'. retR (slot, b'))))
        (\<lambda>x G'. case x of (slot, b') \<Rightarrow> (slot = - 1 \<and> okB ([] # G) b b') \<or> (slot = 0 \<and> unbound G n \<and> okB ([n] # G) b b'))"
    proof (cases "n = []")
      case True
      have "extending ([] # G) (armFrame p n) (\<lambda>slot G'. slot = - 1 \<and> G' = [] # G)" by (simp add: armFrame_def True extending_ret)
      then show ?thesis by (rule extending_bind) (auto intro!: extending_bind [OF MatchArm(2)] extending_ret)
    next
      case False
      have "extending ([] # G) (armFrame p n) (\<lambda>slot G'. slot = 0 \<and> unbound G n \<and> G' = [n] # G)"
        unfolding armFrame_def using False by (auto simp: unbound_def intro!: extending_define extending_ret)
      then show ?thesis by (rule extending_bind) (auto intro!: extending_bind [OF MatchArm(2)] extending_ret)
    qed
    from reading_frame [OF this] show ?thesis unfolding Some vb resolveArm.simps option.case prod.case
      by (rule reading_bind) (use MatchArm.prems in \<open>auto simp: tagged_def Some vb intro!: reading_ret\<close>)
  qed
qed (auto intro!: reading_ret extending_ret)

section \<open>Marks\<close>

text \<open>The marks of borrowed definitions and moved arguments are annotations too, and no coordinates.\<close>

lemma inOrder_map:
  "(\<And>x. x \<in> set xs \<Longrightarrow> scopedS (f x) = scopedS x \<and> bindStmt (f x) = bindStmt x) \<Longrightarrow> inOrder (zip (map f xs) (map (\<lambda>x. scopedS (f x)) xs)) G = inOrder (zip xs (map scopedS xs)) G"
  by (induction xs arbitrary: G) auto

lemma bindAll_map: "(\<And>x. x \<in> set xs \<Longrightarrow> bindStmt (f x) = bindStmt x) \<Longrightarrow> bindAll (map f xs) G = bindAll xs G"
  by (induction xs arbitrary: G) (auto simp: bindAll_def)

lemma optList_map: "optList (map_option f r) = map f (optList r)"
  by (cases r) (auto simp: optList_def)

lemma set_optList: "set (optList r) = set_option r"
  by (cases r) (auto simp: optList_def)

lemma markMove_ok: "eraseE (markMoveAssign ow t n e) = eraseE e" "scopedE (markMoveAssign ow t n e) = scopedE e"
  by (cases e; simp add: markMoveAssign_def)+

lemma bindStmt_Define: "bindStmt (DefineStmt p k n t e sl b) G = (case G of [] \<Rightarrow> [] | ns # G' \<Rightarrow> (ns @ [n]) # G')"
  by (cases G) auto

lemma marks_ok:
  "eraseE e = eraseE e"
  "(eraseS (markStmt w st) = eraseS st \<and> scopedS (markStmt w st) = scopedS st \<and> bindStmt (markStmt w st) = bindStmt st) \<and>
    (\<forall>t. eraseS (moveStmt ow st t) = eraseS st \<and> scopedS (moveStmt ow st t) = scopedS st \<and> bindStmt (moveStmt ow st t) = bindStmt st)"
  "(eraseB (markBlock w b) = eraseB b \<and> scopedB (markBlock w b) = scopedB b) \<and>
    (\<forall>t. eraseB (moveBlock ow b t) = eraseB b \<and> scopedB (moveBlock ow b t) = scopedB b)"
  "(eraseA (markArm w a) = eraseA a \<and> scopedA (markArm w a) = scopedA a) \<and>
    (\<forall>t. eraseA (moveArm ow a t) = eraseA a \<and> scopedA (moveArm ow a t) = scopedA a)"
proof (induction e and st and b and a)
  case (IfStmt p e b eis els)
  note eis = IfStmt(4) [OF _ snds.intros]
  have "map (map_prod eraseE eraseB) (map (map_prod id (markBlock w)) eis) = map (map_prod eraseE eraseB) eis"
    "map (map_prod eraseE eraseB) (map (apsnd (\<lambda>f. f t)) (map (map_prod id (moveBlock ow)) eis)) = map (map_prod eraseE eraseB) eis"
    "map (map_prod scopedE scopedB) (map (map_prod id (markBlock w)) eis) = map (map_prod scopedE scopedB) eis"
    "map (map_prod scopedE scopedB) (map (apsnd (\<lambda>f. f t)) (map (map_prod id (moveBlock ow)) eis)) = map (map_prod scopedE scopedB) eis" for t
    by (auto simp: map_prod_def apsnd_def split_beta eis)
  then show ?case using IfStmt(2,5) by (cases els) (simp_all add: optList_def del: map_map)
next
  case (MatchStmt p e arms els et)
  then have "map eraseA (map (markArm w) arms) = map eraseA arms" "map eraseA (map (\<lambda>f. f t) (map (moveArm ow) arms)) = map eraseA arms"
    "map scopedA (map (markArm w) arms) = map scopedA arms" "map scopedA (map (\<lambda>f. f t) (map (moveArm ow) arms)) = map scopedA arms" for t by auto
  then show ?case using MatchStmt(3) by (cases els) (simp_all add: optList_def del: map_map map_eq_conv)
next
  case (ForStmt p i e st b h)
  then show ?case by (cases i; cases st) (simp_all add: forStmt_def forParts_def optList_def bindAll_def)
next
  case (Block p sts n)
  then have "map eraseS (map (markStmt w) sts) = map eraseS sts" "map eraseS (map (\<lambda>f. f t) (map (moveStmt ow) sts)) = map eraseS sts" for t by auto
  moreover have "inOrder (zip (map (markStmt w) sts) (map (\<lambda>x. scopedS (markStmt w x)) sts)) G = inOrder (zip sts (map scopedS sts)) G"
    "inOrder (zip (map (\<lambda>x. moveStmt ow x t) sts) (map (\<lambda>x. scopedS (moveStmt ow x t)) sts)) G = inOrder (zip sts (map scopedS sts)) G" for t G
    by (rule inOrder_map; use Block in simp)+
  moreover have "bindAll (map (markStmt w) sts) G = bindAll sts G" "bindAll (map (\<lambda>x. moveStmt ow x t) sts) G = bindAll sts G" for t G
    by (rule bindAll_map; use Block in simp)+
  ultimately show ?case by (simp add: fun_eq_iff comp_def)
qed (simp_all add: markMove_ok fun_eq_iff bindStmt_Define)

section \<open>Programs\<close>

definition scopedMethod :: "frames \<Rightarrow> methodDef \<Rightarrow> bool" where
  "scopedMethod G m \<longleftrightarrow> unbound G (mName m) \<and> distinct (map pName (mParams m)) \<and> scopedB (mBody m) ([] # map pName (mParams m) # G)"

definition scopedProgram :: "program \<Rightarrow> bool" where
  "scopedProgram prog \<longleftrightarrow> (let sts = map snd (TopLevel prog); G = bindAll sts [[]] in
     inOrder (zip sts (map scopedS sts)) [[]] \<and> NumGlobals prog = length (hd G) \<and> list_all (scopedMethod G) (Methods prog))"

definition eraseMethod :: "methodDef \<Rightarrow> methodDef" where
  "eraseMethod m = m\<lparr>mBody := eraseB (mBody m), mParams := map (\<lambda>p. p\<lparr>pBorrow := False\<rparr>) (mParams m), mReturnsOwned := False\<rparr>"

definition eraseProgram :: "program \<Rightarrow> program" where
  "eraseProgram prog = prog\<lparr>TopLevel := map (map_prod id eraseS) (TopLevel prog), Methods := map eraseMethod (Methods prog), NumGlobals := 0, PendingEnumMatches := []\<rparr>"

lemma bindParams_names:
  "bindParams m i ps f = Inr f' \<Longrightarrow> frameNames f ns \<Longrightarrow> length ns = i \<Longrightarrow> distinct ns \<Longrightarrow>
    frameNames f' (ns @ map pName ps) \<and> distinct (ns @ map pName ps) \<and> isRoot f' = isRoot f"
proof (induction m i ps f arbitrary: ns rule: bindParams.induct)
  case (2 m i p ps f)
  let ?f = "f\<lparr>frameSlots := (frameSlots f)(pName p \<mapsto> \<lparr>siSlot = i, siConst = False, siType = namedTypeOf (pType p), siPos = noDefPos\<rparr>), frameCount := Suc i\<rparr>"
  from 2(2) have n: "frameSlots f (pName p) = None" and r: "bindParams m (Suc i) ps ?f = Inr f'" by (auto split: if_splits)
  have fresh: "pName p \<notin> set ns" using n frame_None [OF 2(3)] by simp
  have old: "siSlot j < length ns \<and> ns ! siSlot j = x" if "frameSlots f x = Some j" for x j using 2(3) that by (simp add: frameNames_def)
  have "frameNames ?f (ns @ [pName p])" using 2(3,4) old fresh by (fastforce simp: frameNames_def nth_append split: if_splits)
  from 2(1) [OF _ r this] n 2(4,5) fresh show ?case by simp
qed simp

lemma top_ok: "extending G (resolveTop c sts) (\<lambda>sts' G'. inOrder (zip (map snd sts') (map scopedS (map snd sts'))) G \<and>
    map (map_prod id eraseS) sts' = map (map_prod id eraseS) sts \<and> G' = bindAll (map snd sts') G)"
proof (induction sts arbitrary: G c)
  case (Cons x sts)
  obtain ex st where x: "x = (ex, st)" by (cases x)
  show ?case unfolding x resolveTop.simps
    by (intro extending_bind [OF resolve_ok(2)] extending_bind [OF Cons.IH] extending_ret) (auto simp: bindAll_def)
qed (auto simp: bindAll_def intro: extending_ret)

lemma method_ok:
  assumes "resolveMethod c globals m s = Inr (m', s')" "stack [globals] G"
  shows "distinct (map pName (mParams m')) \<and> scopedB (mBody m') ([] # map pName (mParams m') # G) \<and> mName m' = mName m \<and> eraseMethod m' = eraseMethod m"
proof -
  obtain f b s1 where f: "bindParams (mName m) 0 (mParams m) rootFrame = Inr f"
    and b: "resolveBlock c (mBody m) (s\<lparr>scopes := [f, globals]\<rparr>) = Inr (b, s1)" and m': "m' = markBorrowableDefs (markBorrowableParams (m\<lparr>mBody := b\<rparr>))"
    using assms(1) by (auto simp: resolveMethod_def split: sum.splits)
  have "frameNames rootFrame []" by (simp add: frameNames_def rootFrame_def)
  from bindParams_names [OF f this] have ps: "frameNames f (map pName (mParams m))" "distinct (map pName (mParams m))" "isRoot f" by (simp_all add: rootFrame_def)
  let ?G = "map pName (mParams m) # G"
  have "stack (scopes (s\<lparr>scopes := [f, globals]\<rparr>)) ?G" using assms(2) ps by (simp add: stack_def)
  with readingD [OF reading_frame [OF resolve_ok(3)] _ b [unfolded resolveBlock_def]] have "okB ([] # ?G) (mBody m) b" by blast
  then show ?thesis using ps(2) marks_ok(3)
    by (auto simp: m' markBorrowableDefs_def markBorrowableParams_def eraseMethod_def Let_def comp_def)
qed

lemma methods_ok:
  assumes "stack [globals] G"
  shows "seqR (map (resolveMethod c globals) ms) s = Inr (ms', s') \<Longrightarrow>
    list_all2 (\<lambda>m m'. distinct (map pName (mParams m')) \<and> scopedB (mBody m') ([] # map pName (mParams m') # G) \<and> mName m' = mName m \<and> eraseMethod m' = eraseMethod m) ms ms'"
proof (induction ms arbitrary: s ms')
  case (Cons m ms)
  then obtain m1 s1 ms1 where "resolveMethod c globals m s = Inr (m1, s1)" "seqR (map (resolveMethod c globals) ms) s1 = Inr (ms1, s')" "ms' = m1 # ms1"
    by (auto simp: bindR_Inr retR_def)
  with Cons.IH method_ok [OF _ assms] show ?case by blast
qed (simp add: retR_def)

lemma ownership_ok:
  "list_all (\<lambda>m. mName m \<in> N \<and> distinct (map pName (mParams m)) \<and> scopedB (mBody m) ([] # map pName (mParams m) # G)) ms \<Longrightarrow>
    list_all (\<lambda>m. mName m \<in> N \<and> distinct (map pName (mParams m)) \<and> scopedB (mBody m) ([] # map pName (mParams m) # G)) (markOwnership ms)"
  "map eraseMethod (markOwnership ms) = map eraseMethod ms"
  using marks_ok(3) by (auto simp: markOwnership_def Let_def list_all_iff eraseMethod_def)

lemma resolved:
  assumes "Resolve prog = Inr prog'"
  shows "scopedProgram prog' \<and> eraseProgram prog' = eraseProgram prog"
proof -
  obtain sts s ms s' where t: "resolveTop ((programCtx prog)\<lparr>laterConsts := constDefs (TopLevel prog)\<rparr>) (TopLevel prog) \<lparr>scopes = [rootFrame], pendings = []\<rparr> = Inr (sts, s)"
    and clash: "methodClash (hd (scopes s)) (Methods prog) = None"
    and ms: "seqR (map (resolveMethod (programCtx prog) (hd (scopes s))) (Methods prog)) (s\<lparr>scopes := []\<rparr>) = Inr (ms, s')"
    and prog': "prog' = prog\<lparr>TopLevel := sts, Methods := markOwnership ms, NumGlobals := frameCount (hd (scopes s)), PendingEnumMatches := pendings s'\<rparr>"
    using assms by (auto simp: Resolve_def resolveProgram_def Let_def split: option.splits sum.splits)
  let ?G = "bindAll (map snd sts) [[]]"
  have "stack [rootFrame] [[]]" by (simp add: stack_def rootFrame_def frameNames_def)
  then have "stack (scopes \<lparr>scopes = [rootFrame], pendings = []\<rparr>) [[]]" by simp
  from extendingD [OF top_ok this t] have sts: "inOrder (zip (map snd sts) (map scopedS (map snd sts))) [[]]" "map (map_prod id eraseS) sts = map (map_prod id eraseS) (TopLevel prog)"
    "tl (scopes s) = []" "stack (scopes s) ?G" by auto
  then have g: "scopes s = [hd (scopes s)]" by (cases "scopes s") (auto simp: stack_def)
  with sts(4) have G: "stack [hd (scopes s)] ?G" by simp
  then obtain ns where ns: "?G = [ns]" "frameNames (hd (scopes s)) ns" by (auto simp: stack_def list_all2_Cons1)
  have names: "mName m \<in> {n. unbound ?G n}" if "m \<in> set (Methods prog)" for m
    using clash that frame_None [OF ns(2), of "mName m"] by (auto simp: methodClash_def find_None_iff unbound_def ns(1) split: option.splits)
  note M = methods_ok [OF G ms]
  have "list_all (\<lambda>m. mName m \<in> {n. unbound ?G n} \<and> distinct (map pName (mParams m)) \<and> scopedB (mBody m) ([] # map pName (mParams m) # ?G)) ms"
    using M names by (auto simp: list_all_length list_all2_conv_all_nth)
  from ownership_ok(1) [OF this] have "list_all (scopedMethod ?G) (markOwnership ms)" by (simp add: scopedMethod_def list_all_iff)
  moreover have "map eraseMethod ms = map eraseMethod (Methods prog)" using M by (auto simp: list_all2_conv_all_nth list_eq_iff_nth_eq)
  ultimately show ?thesis using sts ns ownership_ok(2) [of ms]
    by (simp add: scopedProgram_def eraseProgram_def prog' Let_def frameNames_def)
qed

end
