(* ===== verification/Pipeline.thy ===== *)
theory Pipeline
  imports ResolveSafe ParseSafe Load TypeSound
begin

text \<open>
  The passes composed. What the parser returns and the resolver annotates has the form the evaluator's invariants
  rely on, and loading it keeps the interpreter's tables in order; so the theorems on the evaluator hold for
  every program that comes from source text.
\<close>

section \<open>Declared types\<close>

text \<open>The parser accepts any type as the key of a map, lists and maps too, whose element types the evaluator does not record in
  keys. A program without them has only types the evaluator's invariant covers.\<close>

fun scalarKeys :: "ty \<Rightarrow> bool" where
  "scalarKeys (TypeList t) \<longleftrightarrow> (case t of None \<Rightarrow> True | Some u \<Rightarrow> scalarKeys u)"
| "scalarKeys (TypeTask t) \<longleftrightarrow> (case t of None \<Rightarrow> True | Some u \<Rightarrow> scalarKeys u)"
| "scalarKeys (TypeChannel t) \<longleftrightarrow> (case t of None \<Rightarrow> True | Some u \<Rightarrow> scalarKeys u)"
| "scalarKeys (TypeMap k v) \<longleftrightarrow>
     (case k of None \<Rightarrow> True | Some u \<Rightarrow> scalarKeys u \<and> \<not> is_compound_ty u) \<and> (case v of None \<Rightarrow> True | Some u \<Rightarrow> scalarKeys u)"
| "scalarKeys _ \<longleftrightarrow> True"

lemma parsedTy_ok: "parsedTy d t \<Longrightarrow> scalarKeys t \<Longrightarrow> wf_ty t \<and> t \<noteq> TypeInvalid \<and> noModPath t"
  by (induction d t rule: parsedTy.induct) (auto simp: noModPath_def split: option.splits)

fun definedType :: "stmt \<Rightarrow> ty list" where
  "definedType (DefineStmt _ _ _ t _ _ _) = [t]"
| "definedType _ = []"

definition declaredTypes :: "program \<Rightarrow> ty list" where
  "declaredTypes prog = concat (map (\<lambda>x. concat (map definedType (treeStmt (snd x)))) (TopLevel prog)) @
     concat (map (\<lambda>m. map pType (mParams m) @ concat (map definedType (treeBlock (mBody m)))) (Methods prog)) @
     concat (map (\<lambda>d. map fType (sFields d)) (Structs prog)) @
     concat (map (\<lambda>d. concat (map (\<lambda>v. map fType (evFields v)) (edVariants d))) (Enums prog))"

section \<open>Resolved trees are well-formed\<close>

abbreviation keyed :: "stmt list \<Rightarrow> bool" where
  "keyed sts \<equiv> list_all (\<lambda>st. list_all scalarKeys (definedType st)) sts"

lemma parsed_plain:
  "parsedE M e \<Longrightarrow> wfE (eraseE e)"
  "parsedS M st \<Longrightarrow> keyed (treeStmt st) \<Longrightarrow> wfS (eraseS st)"
  "parsedB M b \<Longrightarrow> keyed (treeBlock b) \<Longrightarrow> wfB (eraseB b)"
  "parsedA M a \<Longrightarrow> keyed (treeArm a) \<Longrightarrow> wfA (eraseA a)"
proof (induction e and st and b and a)
  case (InterpStringExpr p ps)
  have "case_sum (\<lambda>_. True) id (map_sum id wfE (map_sum id eraseE x))" if "x \<in> set ps" for x
    using InterpStringExpr that by (cases x) (force simp: list_all_iff setr.simps)+
  then show ?case by (simp add: list_all_iff)
next
  case (IfStmt p e b eis els)
  note eis = IfStmt(3) [OF _ fsts.intros] IfStmt(4) [OF _ snds.intros]
  have "wfE (eraseE c) \<and> wfB (eraseB d)" if "(c, d) \<in> set eis" for c d
  proof
    have "parsedE M c" "parsedB M d" using IfStmt.prems that by (auto simp: list_all_iff)
    moreover have "set (treeBlock d) \<subseteq> set (treeStmt (IfStmt p e b eis els))" using that by force
    then have "keyed (treeBlock d)" using IfStmt.prems(2) unfolding list_all_iff by blast
    ultimately show "wfE (eraseE c)" "wfB (eraseB d)" using eis(1) [OF that] eis(2) [OF that] by simp_all
  qed
  then show ?case using IfStmt(1,2,5-) by (cases els) (auto simp: list_all_iff optList_def)
next
  case (MapLit p kvs)
  then show ?case by (auto simp: list_all_iff)
next
  case (StructLit p ns en n bare fs)
  then show ?case by (auto simp: list_all_iff)
next
  case (MatchStmt p e arms els et)
  have "wfA (eraseA a)" if "a \<in> set arms" for a using MatchStmt(2) [OF that] MatchStmt.prems that by (auto simp: list_all_iff)
  then show ?case using MatchStmt(1,3-) by (cases els) (auto simp: list_all_iff optList_def)
next
  case (ForStmt p i e st b h)
  then show ?case by (cases i; cases e; cases st) (simp_all add: optList_def)
next
  case (DefineStmt p k n t e sl b)
  then have "wf_ty t \<and> t \<noteq> TypeInvalid \<and> noModPath t" by (intro parsedTy_ok [of M]) auto
  then show ?case using DefineStmt by (cases e) simp_all
next
  case (SliceExpr p t lo hi)
  then show ?case by (cases lo; cases hi) simp_all
next
  case (ReturnStmt p e)
  then show ?case by (cases e) simp_all
next
  case (ExitStmt p e)
  then show ?case by (cases e) simp_all
next
  case (TryStmt p b n cb cp sl)
  then show ?case by simp
qed (simp_all add: list_all_iff)

lemma tryFold_wf: "pred_option wfE (tryFoldUnary p op e)" "pred_option wfE (tryFoldBinary p bop l r)"
proof -
  have lit: "litValue f = Some v \<Longrightarrow> wfE f" for f v by (cases f) auto
  show "pred_option wfE (tryFoldUnary p op e)"
  proof (cases "tryFoldUnary p op e")
    case (Some f)
    then obtain x lv where "asLit e = Some x" "litValue x = Some lv" using asLit_is_lit by (fastforce simp: tryFoldUnary_def split: option.splits)
    from tryFoldUnary_sound [OF Some this] show ?thesis using Some lit by auto
  qed simp
  show "pred_option wfE (tryFoldBinary p bop l r)"
  proof (cases "tryFoldBinary p bop l r")
    case (Some f)
    then obtain x y lv rv where "asLit l = Some x" "litValue x = Some lv" "asLit r = Some y" "litValue y = Some rv" "foldLits p bop x y = Some f"
      using asLit_is_lit by (fastforce simp: tryFoldBinary_def split: option.splits)
    from foldLits_sound [OF this(5,2,4), of undefined noPos noPos] show ?thesis using Some lit by auto
  qed simp
qed

lemma pattern_wf: "length vals = 1 \<Longrightarrow> patternExpr (hd vals) = Inr (Some vb) \<Longrightarrow> list_all wfE vals"
  by (cases vals; cases "hd vals") (auto simp: patternExpr_def length_Suc_conv split: if_splits expr.splits)

lemma inOrder_each: "inOrder (zip sts (map scopedS sts)) G \<Longrightarrow> st \<in> set sts \<Longrightarrow> \<exists>G. scopedS st G"
  by (induction sts arbitrary: G) auto

lemma scoped_wf:
  "wfE (eraseE e) \<Longrightarrow> scopedE e G \<Longrightarrow> wfE e"
  "wfS (eraseS st) \<Longrightarrow> scopedS st G \<Longrightarrow> wfS st"
  "wfB (eraseB b) \<Longrightarrow> scopedB b G \<Longrightarrow> wfB b"
  "wfA (eraseA a) \<Longrightarrow> scopedA a G \<Longrightarrow> wfA a"
proof (induction e and st and b and a arbitrary: G and G and G and G)
  case (InterpStringExpr p ps)
  have "case_sum (\<lambda>_. True) id (map_sum id wfE x)" if "x \<in> set ps" for x
    using InterpStringExpr that by (cases x) (force simp: list_all_iff allIn_def setr.simps)+
  then show ?case by (simp add: list_all_iff)
next
  case (IfStmt p e b eis els)
  note eis = IfStmt(3) [OF _ fsts.intros] IfStmt(4) [OF _ snds.intros]
  show ?case using IfStmt(1,2,5-) eis by (cases els) (auto simp: list_all_iff allIn_def optList_def)
next
  case (MapLit p kvs)
  note kvs = MapLit(1) [OF _ fsts.intros] MapLit(2) [OF _ snds.intros]
  show ?case using MapLit(3-) kvs by (fastforce simp: list_all_iff allIn_def)
next
  case (StructLit p ns en n bare fs)
  note fs = StructLit(1) [OF _ snds.intros snds.intros]
  show ?case using StructLit(2-) fs by (fastforce simp: list_all_iff allIn_def)
next
  case (ForStmt p i e st b h)
  then show ?case by (auto simp: allIn_def optList_def option.pred_set Let_def split: option.splits)
next
  case (UnaryExpr p op e f)
  then show ?case using tryFold_wf(1) [of p op e] by (auto simp: option.pred_map)
next
  case (BinaryExpr p op l r f)
  then show ?case using tryFold_wf(2) [of p op l r] by (auto simp: option.pred_map)
next
  case (Block p sts n)
  then show ?case by (auto simp: list_all_iff dest: inOrder_each)
next
  case (MatchArm p vals b v bd sl)
  have "list_all wfE vals"
  proof (cases "allIn G (map scopedE vals)")
    case True
    then show ?thesis using MatchArm by (auto simp: list_all_iff allIn_def)
  next
    case False
    with MatchArm.prems show ?thesis by (simp add: pattern_wf)
  qed
  then show ?case using MatchArm by (auto simp: list.pred_map)
qed (auto simp: list_all_iff allIn_def optList_def option.pred_set split: option.splits)

section \<open>Programs from source\<close>

lemma resolved_program_wf:
  assumes "parsedProgram M prog" "list_all scalarKeys (declaredTypes prog)" "Resolve prog = Inr prog'"
  shows "list_all wfS (map snd (TopLevel prog'))" "list_all method_ok (Methods prog')"
    "Structs prog' = Structs prog" "Enums prog' = Enums prog"
proof -
  from resolved [OF assms(3)] have sc: "scopedProgram prog'" and er: "eraseProgram prog' = eraseProgram prog" by simp_all
  from arg_cong [OF er, of TopLevel] have top: "map (map_prod id eraseS) (TopLevel prog') = map (map_prod id eraseS) (TopLevel prog)"
    by (simp add: eraseProgram_def)
  from arg_cong [OF er, of Methods] have ms: "map eraseMethod (Methods prog') = map eraseMethod (Methods prog)" by (simp add: eraseProgram_def)
  from arg_cong [OF er, of Structs] arg_cong [OF er, of Enums] show "Structs prog' = Structs prog" "Enums prog' = Enums prog" by (simp_all add: eraseProgram_def)
  have "wfS st" if "(x, st) \<in> set (TopLevel prog')" for x st
  proof -
    have "map_prod id eraseS (x, st) \<in> set (map (map_prod id eraseS) (TopLevel prog))" using that unfolding top [symmetric] by force
    then obtain st0 where st0: "(x, st0) \<in> set (TopLevel prog)" "eraseS st0 = eraseS st" by auto
    have "parsedS M st0" "keyed (treeStmt st0)" using assms(1,2) st0(1) by (fastforce simp: parsedProgram_def declaredTypes_def list_all_iff)+
    with parsed_plain(2) st0(2) have "wfS (eraseS st)" by metis
    moreover have "inOrder (zip (map snd (TopLevel prog')) (map scopedS (map snd (TopLevel prog')))) [[]]" using sc by (simp add: scopedProgram_def Let_def)
    then have "\<exists>G. scopedS st G" by (rule inOrder_each) (use that in force)
    ultimately show ?thesis using scoped_wf(2) by blast
  qed
  then show "list_all wfS (map snd (TopLevel prog'))" by (auto simp: list_all_iff)
  have "method_ok m" if "m \<in> set (Methods prog')" for m
  proof -
    have "eraseMethod m \<in> set (map eraseMethod (Methods prog))" using that unfolding ms [symmetric] by simp
    then obtain m0 where m0: "m0 \<in> set (Methods prog)" "eraseMethod m0 = eraseMethod m" by auto
    have b: "eraseB (mBody m0) = eraseB (mBody m)" using arg_cong [OF m0(2), of mBody] by (simp add: eraseMethod_def)
    have ps: "map pType (mParams m0) = map pType (mParams m)"
      using arg_cong [OF m0(2), of "\<lambda>m. map pType (mParams m)"] by (simp add: eraseMethod_def comp_def del: map_eq_conv)
    have "parsedB M (mBody m0)" "keyed (treeBlock (mBody m0))" "list_all (\<lambda>t. parsedTy M t \<and> scalarKeys t) (map pType (mParams m0))"
      using assms(1,2) m0(1) by (fastforce simp: parsedProgram_def parsedMethod_def declaredTypes_def list_all_iff)+
    then have "wfB (eraseB (mBody m))" "list_all (\<lambda>t. wf_ty t) (map pType (mParams m))"
      using parsed_plain(3) b ps by (metis, auto simp: list_all_iff parsedTy_ok)
    moreover have "\<exists>G. scopedB (mBody m) G" using sc that by (auto simp: scopedProgram_def scopedMethod_def list_all_iff Let_def)
    ultimately show ?thesis using scoped_wf(3) by (auto simp: method_ok_def list.pred_map comp_def)
  qed
  then show "list_all method_ok (Methods prog')" by (simp add: list_all_iff)
qed

lemma parsed_fields_ok: "parsedFields M fs \<Longrightarrow> list_all scalarKeys (map fType fs) \<Longrightarrow> fields_ok fs"
  by (auto simp: parsedFields_def fields_ok_def list_all_iff parsedTy_ok)

lemma loaded_program_ok:
  assumes "parsedProgram M prog" "list_all scalarKeys (declaredTypes prog)" "Resolve prog = Inr prog'"
    "loadProgram I isModule prog' = Some (Inr I')" "interp_ok I"
  shows "interp_ok I'"
proof -
  note wf = resolved_program_wf [OF assms(1-3)]
  from assms(4) obtain T where T: "hoistMethods I (Methods prog') Map.empty = Inr T"
    and I': "I' = I\<lparr>structs := programStructs prog', enums := programEnums prog', methods := T, entryGlobalsImmutable := \<not> isModule \<and> \<not> hasMutableTopLevelGlobal prog'\<rparr>"
    by (auto simp: loadProgram_Inr)
  have "method_ok m" if "T n = Some m" for n m
    using T that wf(2) by (auto simp: hoistMethods_builds builds_lookup list_all_iff)
  moreover have "fields_ok (sFields d)" if "d \<in> set (Structs prog)" for d
    using assms(1,2) that by (intro parsed_fields_ok [of M]) (auto simp: parsedProgram_def parsedStruct_def declaredTypes_def list_all_iff)
  then have "fields_ok (sFields d)" if "programStructs prog' n = Some d" for n d
    using that wf(3) by (auto simp: programStructs_def tableOf_def canonicalErrorStructDef_def fields_ok_def dest!: map_of_SomeD split: if_splits)
  moreover have "fields_ok (evFields v)" if "d \<in> set (Enums prog)" "v \<in> set (edVariants d)" for d v
    using assms(1,2) that by (intro parsed_fields_ok [of M]) (fastforce simp: parsedProgram_def parsedEnum_def declaredTypes_def list_all_iff)+
  then have "list_all (\<lambda>v. fields_ok (evFields v)) (edVariants d)" if "programEnums prog' n = Some d" for n d
    using that wf(4) by (auto simp: programEnums_def tableOf_def list_all_iff dest!: map_of_SomeD)
  ultimately show ?thesis using assms(5) unfolding interp_ok_def I' by simp
qed

end
