(* ===== verification/Spec2Isabelle.thy ===== *)
theory Spec2Isabelle
  imports Control TypeSound Reference Load Grammar Pipeline
begin

text \<open>
  A verification development of the Jennifer interpreter (\<open>src/internal/lexer\<close>, \<open>src/internal/parser\<close>,
  \<open>src/internal/interpreter\<close>).

  \<^bold>\<open>The program.\<close> A source text is tokenised (\<open>lexer.Tokenize\<close>), parsed into a tree (\<open>parser.Parse\<close>),
  annotated by the resolver (slots, folded constants, borrow and move marks), loaded (\<open>Interpreter.Run\<close> up to its
  first statement: hoisting and the declaration checks) and executed by a tree-walking evaluator. The
  evaluator works on tagged values with declared types, keeps variables in frames that are addressed by
  slot or by name, and runs loops, \<open>try\<close>, \<open>defer\<close> and calls under limits on depth and memory.

  \<^bold>\<open>The theories, by component.\<close> Definitions carry the names of the Go functions they translate.

  \<^item> \<open>Prelude\<close>: generic lemmas, the collections shared by the components, \<open>int64\<close>. \<open>Float64\<close>: the IEEE binary64
    values with correctly rounded arithmetic, as Go's \<open>float64\<close> has them.
  \<^item> \<open>Types\<close>, \<open>Values\<close>, \<open>TypeCheck\<close>, \<open>MapIndex\<close> (\<open>parser/ast.go\<close>, \<open>interpreter/value.go\<close>): declared types; the
    value sum type with equality, exact int/float comparison, deep copies and display; \<open>MatchesDeclared\<close>,
    \<open>stampDeclaredType\<close> and zero values; the insertion-ordered map with its lazily built hash index.
    The locale \<open>keyed_store\<close> is what clients of a map rely on, interpreted on the indexed operations.
  \<^item> \<open>Errors\<close>, \<open>Arith\<close> (\<open>interpreter/interpreter.go\<close>): errors as values, with the message kept as format and
    arguments; the operators, where nothing wraps and no float result is infinite.
  \<^item> \<open>Utf8\<close> (\<open>value.go\<close> and the decoder of the Go library): runes, slices by rune.
  \<^item> \<open>Token\<close>, \<open>Lexer\<close> (\<open>lexer/token.go\<close>, \<open>lexer/lexer.go\<close>): the scanner. Its state is the runes still to read with line
    and column; every loop is a terminating function on their number.
  \<^item> \<open>Ast\<close>, \<open>Folding\<close> (\<open>parser/ast.go\<close>, \<open>parser/fold.go\<close>): the tree with the resolver's annotations, and the folder.
  \<^item> \<open>ParseBase\<close>, \<open>ParseExpr\<close>, \<open>ParseStmt\<close> (\<open>parser/parser.go\<close>): the parser as steps from a state to an error or a
    result; reading past the end of the tokens is the error value \<open>Panic\<close>. Grammar functions that re-enter one
    another do so through the record \<open>parsers\<close>; \<open>parserN L n\<close> unrolls it \<open>n\<close> times.
    \<open>ParseSafe\<close> has the well-formed trees and a judgement with one rule per combinator, \<open>TokenStream\<close> what the lexer
    guarantees, \<open>ParseTotal\<close> the locale \<open>reentry\<close> (the contract of the functions re-entered), its lemmas for every
    grammar function, and its interpretation on \<open>parserN\<close> itself. \<open>Grammar\<close> has the grammar of expressions as an
    inductive relation between trees and tokens, and the locale \<open>descent\<close>, the contract that keeps the parser to
    it, interpreted on \<open>parserN\<close> too.
  \<^item> \<open>Resolver\<close>, \<open>Ownership\<close> (\<open>parser/resolver.go\<close>, \<open>parser/ownership.go\<close>): the scope analysis that annotates the tree, as
    steps from a scope stack to an error or the annotated tree; the analyses that mark borrowed and moved values;
    and \<open>Resolve\<close>. \<open>ResolveSafe\<close> has trees without annotations, correct coordinates over lists of names, and two
    judgements on the resolver's steps, of those that only read the scopes and those that bind in the
    innermost one. \<open>Pipeline\<close> composes parser, resolver, loading and evaluator.
  \<^item> \<open>Environ\<close>, \<open>IntFast\<close>, \<open>Lvalue\<close> (\<open>interpreter/environment.go\<close>, \<open>intfast.go\<close>, \<open>interpreter.go\<close>): frames, the
    integer fast paths, and writes through chains of indices and fields. The locale \<open>variable_store\<close> is the
    contract of an assignable store, interpreted on access by slot and by name.
  \<^item> \<open>Exec\<close>, \<open>Eval\<close>, \<open>Interp\<close> (\<open>interpreter.go\<close>): the state (scope chain, depth and memory counters, handle types,
    world) and one definition per \<open>eval\<close> and \<open>exec\<close> function, deferred calls and method calls included;
    \<open>run I n\<close> is the evaluator with \<open>n\<close> levels of recursion and \<open>runProgram\<close> the run of the top level.
  \<^item> \<open>Load\<close> (\<open>interpreter.go\<close>, \<open>module.go\<close>): \<open>loadProgram\<close>, everything \<open>Run\<close> does to a program without modules before
    its first statement, with both searches for types that contain themselves.

  \<^bold>\<open>What the lemmas show.\<close>

  \<^item> Type soundness (\<open>Soundness\<close>, \<open>TypeSound\<close>): however a program ends, a variable with a declared type holds a
    coherent value of that type; expressions yield coherent values.
  \<^item> Scopes (\<open>Frames\<close>, \<open>Discipline\<close>): expressions and statements restore frames and counters and account for every
    byte. Slots agree with names when the resolver's coordinates are right (\<open>Environ\<close>).
  \<^item> Equivalences: the evaluator with folding and fast paths computes a reference semantics (\<open>Reference\<close>,
    \<open>Folding\<close>, \<open>IntFast\<close>); the map index agrees with the scan (\<open>MapIndex\<close>); lazy ranges agree with lists and
    byte slices with rune slices.
  \<^item> Control flow (\<open>Control\<close>): loops consume \<open>break\<close> and \<open>continue\<close>, deferred calls run in order, \<open>try\<close> catches all but
    \<open>exit\<close>, call limits are enforced.
  \<^item> Numbers (\<open>Arith\<close>): exact or raised, never wrapped; finite or raised.
  \<^item> Loading (\<open>Load\<close>): the accepted programs are exactly those the rules describe, and their types have zero values.
  \<^item> Lexing (\<open>Lexer\<close>): the tokens spell the source and stand where they say.
  \<^item> Parsing (\<open>ParseSafe\<close>, \<open>TokenStream\<close>, \<open>ParseTotal\<close>): every source is parsed or refused, never forever and never
    past its tokens, and the trees are well-formed.
  \<^item> Grammar (\<open>Grammar\<close>): the tree of an expression derives, by the levels of the grammar, exactly the tokens read.
  \<^item> Resolving (\<open>ResolveSafe\<close>, \<open>Ownership\<close>): coordinates, slot counts and folded constants are right, nothing but annotations
    changes, and the methods marked as returning owned values are the greatest consistent set.
  \<^item> From source text (\<open>Pipeline\<close>): parsed and resolved trees have the form the evaluator's invariants rely on and loading
    keeps the tables in order, so type soundness holds for every source text without lists or maps as map keys.

  \<^bold>\<open>Fuel.\<close> A Jennifer program may run forever, so the evaluator takes a number of recursion levels and has no outcome
  (\<open>None\<close>) when they are used up. An outcome does not depend on the number (\<open>Fuel\<close>), so theorems about
  outcomes hold for every number; where a result is claimed to exist, enough fuel is shown to give it. The zero
  values of \<open>Load\<close> are shown to exist at the bound the interpreter uses. The parser always ends: its bound
  is the weight of the tokens, each counted once and an interpolated string once more with two
  for every rune of its slots, which the recursion cannot exceed because every level has read a token.

  \<^bold>\<open>Parameters.\<close> Library functions, the formatting of floats and quoted strings, native objects and the limits of the
  build are arguments of the definitions (the records \<open>interp\<close>, \<open>displayer\<close> and \<open>limits\<close>). The theorems that need it
  assume that registered types are complete and library results coherent (\<open>interp_ok\<close>, \<open>builtin_ok\<close>), that library
  types are registered in some order of dependency (\<open>libRank\<close>), and that enum variants belong to their enum
  (\<open>variants_ok\<close>). The functions of Go's standard library in use (\<open>strconv\<close>, \<open>utf8\<close>, maps, slices) are written out.

  \<^bold>\<open>Not modelled.\<close> That the evaluator may skip a copy where the ownership analysis says so; module loading and cross-module types
  (\<open>module.go\<close> but for the export check); spawned tasks, channels and cancellation, which are concurrent: evaluating
  a \<open>spawn\<close> has no outcome in the model; the whole-program analyses behind the \<open>GlobalSafe\<close> and argument-snapshot marks;
  profiling; the standard library packages; the linter, the formatter and the command line, which are
  input and output around the interpreter.
\<close>

section \<open>A small program for the witnesses\<close>

definition sampleDisp :: displayer where
  "sampleDisp = \<lparr>FormatFloat = \<lambda>_. ''f'', Quote = \<lambda>s. s, taskLabel = \<lambda>_. [], chanClosed = \<lambda>_. False,
     displayNative = \<lambda>_. [], objectDisplayer = \<lambda>_ _. None\<rparr>"

definition sampleInterp :: "unit interp" where
  "sampleInterp = \<lparr>methods = \<lambda>_. None, structs = \<lambda>_. None, enums = \<lambda>_. None, NSStructs = \<lambda>_. None,
     objectTypes = \<lambda>_. False, objectZeros = \<lambda>_. None, Builtins = \<lambda>_. None, imported = \<lambda>_. False,
     LibConstants = \<lambda>_. None, NSBuiltins = \<lambda>_. None, NSConstants = \<lambda>_. None, nsPrefixes = \<lambda>_. None,
     nsAliasedAway = \<lambda>_. None, knownNamespaces = \<lambda>_. False, entryGlobalsImmutable = False, spawnReentry = False,
     disp = sampleDisp, eqNative = \<lambda>_ _. False, MaxCallDepth = 100, copyChainBudget = 1000, MaxRangeElements = 100,
     valueCellBytes = 8\<rparr>"

text \<open>\<open>def x as list of int init [1]; $x[] = 2;\<close>\<close>

definition sampleProgram :: "stmt list" where
  "sampleProgram =
     [DefineStmt noPos False ''x'' (TypeList (Some TypeInt)) (Some (ListLit noPos [IntLit noPos 1])) 0 False,
      AppendStmt noPos (VarExpr noPos ''x'' 0 0 False) (IntLit noPos 2)]"

lemma sampleInterp_ok: "interp_ok sampleInterp"
  by (simp add: interp_ok_def sampleInterp_def)

lemma sampleProgram_wf: "list_all wfS sampleProgram"
  by (simp add: sampleProgram_def noModPath_def)

lemma sampleProgram_run:
  "\<exists>s' b. runProgram sampleInterp 4 1 sampleProgram () = Some (Inr (), s') \<and> getBindingRoot (st_env s') ''x'' 0 0 = Inr b \<and>
     bType b = TypeList (Some TypeInt)"
proof -
  have "(case runProgram sampleInterp 4 1 sampleProgram () of
     Some (Inr _, s') \<Rightarrow> (case getBindingRoot (st_env s') ''x'' 0 0 of
         Inr b \<Rightarrow> bValue b = VList [VInt 1, VInt 2] (Some TypeInt) \<and> bType b = TypeList (Some TypeInt)
       | _ \<Rightarrow> False)
   | _ \<Rightarrow> False)"
    by code_simp
  moreover obtain a s' where a: "runProgram sampleInterp 4 1 sampleProgram () = Some (a, s')"
    using calculation by (cases "runProgram sampleInterp 4 1 sampleProgram ()") auto
  ultimately show ?thesis by (cases a; cases "getBindingRoot (st_env s') ''x'' 0 0") simp_all
qed

lemma globalState_sound: "sound (globalState n w)"
  by (simp add: sound_def globalState_def)

lemma sampleStmt_run: "\<exists>r s'. evS (run sampleInterp 3) (hd sampleProgram) (globalState 1 ()) = Some (r, s')"
proof -
  have "evS (run sampleInterp 3) (hd sampleProgram) (globalState 1 ()) \<noteq> None"
    unfolding Option.is_none_def [symmetric] by code_simp
  then show ?thesis by auto
qed

section \<open>Programs\<close>

text \<open>
  Type soundness. However a well-formed program ends, in an error, an exit or regularly, every variable
  that has a declared type holds a coherent value of that type, with the declared element types
  recorded throughout. The two exceptions are part of the language: a task or channel variable that
  was never initialised holds null, and a caught struct named Error of some other namespace is bound
  at the type of the builtin Error.
\<close>

theorem program_variables_typed:
  assumes "interp_ok I" "list_all wfS topLevel" "runProgram I n globals topLevel w = Some (r, s')"
    "getBindingRoot (st_env s') x d sl = Inr b" "bType b \<noteq> TypeInvalid"
  shows "coherent (bValue b) \<and>
    (typed (bValue b) (bType b) \<or> nullHandle (bValue b) (bType b) \<or> caughtError (bValue b) (bType b))"
proof -
  have "soundM (\<lambda>_. True) (runTopLevel (run I n) topLevel)" by (rule sound_runTopLevel [OF run_sound]) fact+
  from soundMD [OF this globalState_sound] have "sound s'" using assms(3) by (auto simp: runProgram_def)
  then show ?thesis using getBindingRoot_ok [OF _ assms(4)] assms(5) by (auto simp: sound_def binding_ok_def holds_def)
qed

theorem program_variables_typed_witness:
  "\<exists>s' b. runProgram sampleInterp 4 1 sampleProgram () = Some (Inr (), s') \<and> getBindingRoot (st_env s') ''x'' 0 0 = Inr b \<and>
     coherent (bValue b)"
proof -
  obtain s' b where r: "runProgram sampleInterp 4 1 sampleProgram () = Some (Inr (), s')"
      "getBindingRoot (st_env s') ''x'' 0 0 = Inr b" "bType b = TypeList (Some TypeInt)"
    using sampleProgram_run by blast
  from program_variables_typed [OF sampleInterp_ok sampleProgram_wf r(1,2)] r show ?thesis by simp
qed

text \<open>
  C2. The same invariant, statement by statement and from any state that has it: a statement of a
  well-formed program, run to any outcome, leaves every variable in scope with a value of its
  declared type; the value it returns, or the value of the error it raises, is coherent.
\<close>

theorem statements_keep_types:
  assumes "interp_ok I" "wfS st" "sound s" "evS (run I n) st s = Some (r, s')"
  shows "sound s' \<and> okR flow_ok r"
  using soundMD [OF ev_soundD(2) [OF run_sound [OF assms(1)] assms(2)] assms(3,4)] .

theorem statements_keep_types_witness:
  "\<exists>r s'. evS (run sampleInterp 3) (hd sampleProgram) (globalState 1 ()) = Some (r, s') \<and> sound s' \<and> okR flow_ok r"
proof -
  obtain r s' where r: "evS (run sampleInterp 3) (hd sampleProgram) (globalState 1 ()) = Some (r, s')" using sampleStmt_run by blast
  have "wfS (hd sampleProgram)" using sampleProgram_wf by (simp add: sampleProgram_def)
  from statements_keep_types [OF sampleInterp_ok this globalState_sound r] r show ?thesis by blast
qed



text \<open>
  C4. The evaluator computes the reference semantics of side-effect-free expressions, errors included, with
  any fuel above the size of the expression: constants folded by the parser and the fast paths for
  ints and conditions change neither the value, nor the error, nor the state.
\<close>

theorem evaluator_computes_reference:
  assumes "pureExpr e" "wellFolded e" "size e < n"
  shows "evE (run I n) e s = Some (refE (eqNative I) (disp I) (st_env s) e, s)"
  using run_computes [OF assms, of I] by (simp add: computes_def)

theorem evaluator_computes_reference_witness:
  "evE (run sampleInterp 10) (UnaryExpr noPos OpNeg (IntLit noPos 3) (Some (IntLit noPos (- 3)))) (globalState 0 ())
     = Some (Inr (VInt (- 3)), globalState 0 ())"
proof -
  let ?e = "UnaryExpr noPos OpNeg (IntLit noPos 3) (Some (IntLit noPos (- 3)))"
  have w: "wellFolded ?e" by (simp add: tryFoldUnary_def minInt64_def)
  from evaluator_computes_reference [of ?e 10 sampleInterp "globalState 0 ()", OF _ w] folded_lit(1) [OF w]
  show ?thesis by simp
qed



text \<open>
  C6. Evaluating an expression, whatever it calls and however it ends, gives back the scopes it was given:
  the same frames with the same variables at the same coordinates, each with its type, its constants
  with their values; the nesting counter and the counter of live copies are back where they were; and
  no handle changes an element type it was given.
\<close>

theorem expressions_keep_scopes:
  assumes "st_env s \<noteq> []" "evE (run I n) e s = Some (r, s')"
  shows "st_depth s' = st_depth s \<and> st_chain s' = st_chain s \<and> length (st_env s') = length (st_env s) \<and>
    st_het s \<subseteq>\<^sub>m st_het s' \<and>
    (\<forall>x d sl b. getBindingRoot (st_env s) x d sl = Inr b \<longrightarrow> (\<exists>b'. getBindingRoot (st_env s') x d sl = Inr b' \<and>
       bType b' = bType b \<and> bConst b' = bConst b \<and> (bConst b \<longrightarrow> bValue b' = bValue b)))"
proof -
  have k: "keptE s s'" using keepsMD [OF ev_keepsD(1) [OF run_keeps] assms(1) TrueI assms(2)] .
  then have e: "env_kept (st_env s) (st_env s')" by (simp add: keptE_def)
  have "\<exists>b'. getBindingRoot (st_env s') x d sl = Inr b' \<and> binding_kept b b'"
    if "getBindingRoot (st_env s) x d sl = Inr b" for x d sl b
    using that GetBinding_kept [OF e] GetBindingAt_kept [OF e] by (simp add: getBindingRoot_def split: if_splits)
  then show ?thesis using k list_all2_lengthD [OF e] by (fastforce simp: keptE_def binding_kept_def)
qed

theorem expressions_keep_scopes_witness:
  "\<exists>r s'. evE (run sampleInterp 1) (IntLit noPos 3) (globalState 1 ()) = Some (r, s') \<and> st_depth s' = 0"
proof -
  have r: "evE (run sampleInterp 1) (IntLit noPos 3) (globalState 1 ()) = Some (Inr (VInt 3), globalState 1 ())"
    by (simp add: evalExpr_def retM_def)
  have "st_env (globalState 1 ()) \<noteq> []" by (simp add: globalState_def)
  from expressions_keep_scopes [OF this r] r show ?thesis by (auto simp: globalState_def)
qed

text \<open>
  C7. A statement may change the innermost frame (new variables, deferred calls), but the frames around it
  keep their variables, types and constants, the nesting counter is restored, and the bytes it adds
  to the copy counter are exactly those it adds to the innermost frame, which gives them back when it
  is released.
\<close>

theorem statements_keep_outer_scopes:
  assumes "st_env s \<noteq> []" "evS (run I n) st s = Some (r, s')"
  shows "st_env s' \<noteq> [] \<and> env_kept (tl (st_env s)) (tl (st_env s')) \<and> st_depth s' = st_depth s \<and>
    st_chain s' - frameBytes (hd (st_env s')) = st_chain s - frameBytes (hd (st_env s)) \<and> st_het s \<subseteq>\<^sub>m st_het s'"
  using keepsMD [OF ev_keepsD(2) [OF run_keeps] assms(1) TrueI assms(2)] by (auto simp: keptS_def)

theorem statements_keep_outer_scopes_witness:
  "\<exists>r s'. evS (run sampleInterp 3) (hd sampleProgram) (globalState 1 ()) = Some (r, s') \<and> st_depth s' = 0"
proof -
  obtain r s' where r: "evS (run sampleInterp 3) (hd sampleProgram) (globalState 1 ()) = Some (r, s')" using sampleStmt_run by blast
  have "st_env (globalState 1 ()) \<noteq> []" by (simp add: globalState_def)
  from statements_keep_outer_scopes [OF this r] r show ?thesis by (auto simp: globalState_def)
qed

section \<open>Operators\<close>

text \<open>
  C8. On two ints, \<open>+\<close>, \<open>-\<close>, \<open>*\<close>, \<open>//\<close> and \<open>%\<close> give the mathematical result (floored for the last two)
  whenever it is an int64 and the divisor is not zero; in every other case they raise the overflow or
  division error at the operator's position. Nothing wraps.
\<close>

theorem int_arithmetic_exact:
  "evalArithmetic OpAdd (VInt a) (VInt b) p =
     (if in_int64 (sint a + sint b) then Inr (VInt (word_of_int (sint a + sint b)))
      else Inl (intOverflowError ''integer overflow: %d + %d'' a b p))
   \<and> evalArithmetic OpSub (VInt a) (VInt b) p =
     (if in_int64 (sint a - sint b) then Inr (VInt (word_of_int (sint a - sint b)))
      else Inl (intOverflowError ''integer overflow: %d - %d'' a b p))
   \<and> evalArithmetic OpMul (VInt a) (VInt b) p =
     (if in_int64 (sint a * sint b) then Inr (VInt (word_of_int (sint a * sint b)))
      else Inl (intOverflowError ''integer overflow: %d * %d'' a b p))
   \<and> evalArithmetic OpFloorDiv (VInt a) (VInt b) p =
     (if b = 0 then Inl (rtMsg ''integer division by zero'' p)
      else if in_int64 (sint a div sint b) then Inr (VInt (word_of_int (sint a div sint b)))
      else Inl (intOverflowError ''integer overflow: %d // %d'' a b p))
   \<and> evalArithmetic OpMod (VInt a) (VInt b) p =
     (if b = 0 then Inl (rtMsg ''integer modulo by zero'' p)
      else Inr (VInt (word_of_int (sint a mod sint b))))"
  using int_add_exact int_sub_exact int_mul_exact int_div_exact int_mod_exact by simp



text \<open>
  C10. No arithmetic operator returns an infinity or a NaN, from any operands: a float result is finite, or
  the operation raises.
\<close>

theorem float_results_finite:
  "evalArithmetic op lv rv p = Inr (VFloat r) \<Longrightarrow> is_fin r"
proof -
  have "is_fin r" if "floatSection op lv rv p = Inr (VFloat r)"
    using that by (cases "floatArithmetic op (the (AsFloat lv)) (the (AsFloat rv)) p")
      (auto simp: floatSection_def feq_self_diff split: option.splits if_splits)
  moreover have "intArithmetic op a b p \<noteq> Some (Inr (VFloat r))" for a b
    by (cases op) (auto split: if_splits prod.splits)
  ultimately show "evalArithmetic op lv rv p = Inr (VFloat r) \<Longrightarrow> is_fin r"
    by (auto simp: evalArithmetic_def split: Value.splits option.splits if_splits)
qed

theorem float_results_finite_witness:
  "\<exists>r. evalArithmetic OpSub (VFloat fzero) (VFloat fzero) noPos = Inr (VFloat r) \<and> is_fin r"
proof -
  have "feq (fsub fzero fzero) fzero" by (simp add: feq_self_diff)
  then have "is_fin (fsub fzero fzero)"
    by (cases "fdec (fsub fzero fzero)") (auto simp: feq_def is_fin_dec is_nan_def frank_def fdec_fzero split: if_splits)
  then have "evalArithmetic OpSub (VFloat fzero) (VFloat fzero) noPos = Inr (VFloat (fsub fzero fzero))"
    by (simp add: evalArithmetic_def floatSection_def feq_self_diff)
  with float_results_finite [OF this] show ?thesis by blast
qed

text \<open>
  C11. Constant folding is sound: whatever literal the folder replaces an operation on literals by, the
  operator applied to the same operands at run time gives its value and raises nothing.
\<close>

theorem constant_folding_sound:
  assumes "tryFoldBinary p op l r = Some e" "asLit l = Some l'" "asLit r = Some r'" "litValue l' = Some lv" "litValue r' = Some rv"
  shows "\<exists>v. litValue e = Some v \<and> runtimeOp N op lv rv p (exprPos l) (exprPos r) = Inr v"
  using foldLits_sound [of p op l' r' e lv rv] assms by (auto simp: tryFoldBinary_def)

theorem constant_folding_sound_witness:
  "\<exists>e v. tryFoldBinary noPos OpAdd (StringLit noPos ''a'') (StringLit noPos ''b'') = Some e \<and> litValue e = Some v \<and>
     runtimeOp (\<lambda>_ _. False) OpAdd (VString ''a'') (VString ''b'') noPos noPos noPos = Inr v"
proof -
  obtain e where e: "tryFoldBinary noPos OpAdd (StringLit noPos ''a'') (StringLit noPos ''b'') = Some e"
    by (simp add: tryFoldBinary_def foldLits_def maxFoldStringBytes_def)
  from constant_folding_sound [OF this, of "StringLit noPos ''a''" "StringLit noPos ''b''" "VString ''a''" "VString ''b''" "\<lambda>_ _. False"] e
  show ?thesis by simp
qed

text \<open>
  C12. The fast paths are sound: an int operand or a condition evaluated in place, from the slots of the
  environment, has the value of the reference semantics, so skipping the evaluator is not observable.
\<close>

theorem fast_paths_sound:
  assumes "wellFolded e"
  shows "(intOperand e en = Some n \<longrightarrow> refE N D en e = Inr (VInt n)) \<and> (fastCondition e en = Some b \<longrightarrow> refE N D en e = Inr (VBool b))"
  using intOperand_ref [OF assms] fastCondition_ref [OF assms] by blast

theorem fast_paths_sound_witness:
  "intOperand (IntLit noPos 4) [] = Some 4 \<and> refE (\<lambda>_ _. False) sampleDisp [] (IntLit noPos 4) = Inr (VInt 4)"
  using fast_paths_sound [of "IntLit noPos 4" "[]" 4 "\<lambda>_ _. False" sampleDisp True] by simp

section \<open>Variables\<close>

text \<open>
  C13. The coordinates the resolver gives a variable are an optimisation only: when they point where the
  name is found, reading and assigning through the slot is reading and assigning by name.
\<close>

theorem slots_agree_with_names:
  assumes "resolves_to e x d i"
  shows "GetAt e (int d) (int i) x = Get e x \<and> AssignAt het e (int d) (int i) x v = Assign het e x v"
  using resolved_Get [OF assms] resolved_Assign [OF assms] by simp

theorem slots_agree_with_names_witness:
  "let e = [(newFrame [] 0)\<lparr>slots := [\<lparr>bValue = VInt 1, bType = TypeInt, bConst = False, bSlot = 0, bName = ''x''\<rparr>]\<rparr>] in
     GetAt e 0 0 ''x'' = Get e ''x'' \<and> resolves_to e ''x'' 0 0"
  using slots_agree_with_names [of "[(newFrame [] 0)\<lparr>slots := [\<lparr>bValue = VInt 1, bType = TypeInt, bConst = False, bSlot = 0, bName = ''x''\<rparr>]\<rparr>]" "''x''" 0 0]
  by (simp add: resolves_to_def)

text \<open>
  Through any sequence of assignments by slot, accepted or refused, a constant keeps its binding and a
  variable whose value matched its declared type still holds a value that does.
\<close>

theorem slot_assignments_typed:
  assumes "\<forall>k b. lookSlot e k = Some b \<longrightarrow> MatchesDeclared het (bValue b) (bType b)" "lookSlot e k = Some c"
  shows "\<exists>b. lookSlot (slot_store.assigns x het e as) k = Some b \<and> MatchesDeclared het (bValue b) (bType b) \<and>
    bType b = bType c \<and> (bConst c \<longrightarrow> b = c)"
proof -
  obtain v where v: "lookSlot (slot_store.assigns x het e as) k = Some (c\<lparr>bValue := v\<rparr>)"
    using slot_store.assigns_meta [OF assms(2)] by blast
  have "MatchesDeclared het (bValue (c\<lparr>bValue := v\<rparr>)) (bType (c\<lparr>bValue := v\<rparr>))"
    by (rule slot_store.assigns_typed [where e = e, OF _ v]) (use assms(1) in blast)
  moreover have "bConst c \<Longrightarrow> c\<lparr>bValue := v\<rparr> = c" using slot_store.assigns_const [OF assms(2)] v by fastforce
  ultimately show ?thesis using v by auto
qed

theorem slot_assignments_typed_witness:
  "let e = [(newFrame [] 0)\<lparr>slots := [\<lparr>bValue = VInt 1, bType = TypeInt, bConst = True, bSlot = 0, bName = ''x''\<rparr>]\<rparr>] in
     \<exists>b. lookSlot (slot_store.assigns ''x'' Map.empty e [((0, 0), VBool True)]) (0, 0) = Some b \<and> bType b = TypeInt"
proof -
  let ?c = "\<lparr>bValue = VInt 1, bType = TypeInt, bConst = True, bSlot = 0, bName = ''x''\<rparr>"
  let ?e = "[(newFrame [] 0)\<lparr>slots := [?c]\<rparr>]"
  have t: "\<forall>k b. lookSlot ?e k = Some b \<longrightarrow> MatchesDeclared Map.empty (bValue b) (bType b)"
    by (auto simp: lookSlot_def split: if_splits)
  have c: "lookSlot ?e (0, 0) = Some ?c" by (simp add: lookSlot_def)
  obtain b where "lookSlot (slot_store.assigns ''x'' Map.empty ?e [((0, 0), VBool True)]) (0, 0) = Some b" "bType b = bType ?c"
    using slot_assignments_typed [OF t c] by blast
  then show ?thesis unfolding Let_def by auto
qed

section \<open>Values\<close>

text \<open>
  C15. A write through any chain of fields and indices into a coherent value leaves a coherent value of the
  same type; a refused write raises before anything is stored.
\<close>

theorem chained_writes_keep_type:
  assumes "interp_ok I" "coherent rt" "coherent v" "list_all step_ok steps" "typed rt t" "wf_ty t"
    "applyLvalueWrite N d (lookupStructDef I) het rt steps v p = Inr (rt', het')"
  shows "coherent rt' \<and> typed rt' t"
proof -
  have "coherent rt' \<and> same_header rt rt'"
    using applyLvalueWrite_ok [OF assms(1,3,4)] assms(2,7) unfolding write_ok_def by blast
  then show ?thesis using same_header_typed [OF _ assms(5,6)] by blast
qed

theorem chained_writes_keep_type_witness:
  "\<exists>rt' het'. applyLvalueWrite (\<lambda>_ _. False) sampleDisp (lookupStructDef sampleInterp) Map.empty (VList [VInt 1] (Some TypeInt))
       [IndexStep (VInt 0) noPos] (VInt 5) noPos = Inr (rt', het') \<and> typed rt' (TypeList (Some TypeInt))"
proof -
  have r: "applyLvalueWrite (\<lambda>_ _. False) sampleDisp (lookupStructDef sampleInterp) Map.empty (VList [VInt 1] (Some TypeInt))
       [IndexStep (VInt 0) noPos] (VInt 5) noPos = Inr (VList [VInt 5] (Some TypeInt), Map.empty)"
    by (simp add: applyLvalueWrite_def writeIndexedSlot_def indexListPos_def matchesOpt_def storedValue_def stampDeclaredType_def
        stampHandle_def)
  from chained_writes_keep_type [OF sampleInterp_ok _ _ _ _ _ r, of "TypeList (Some TypeInt)"] r show ?thesis by (auto simp: stamped_def)
qed

text \<open>
  C16. A copy is the value it was made from in everything but the caches of its maps, it is coherent when
  the original is, it matches the same declared types, and copying a copy changes nothing.
\<close>

theorem deep_copy_faithful:
  "stripIdx (DeepCopy v) = stripIdx v \<and> DeepCopy (DeepCopy v) = DeepCopy v \<and>
   (MatchesDeclared het (DeepCopy v) t \<longleftrightarrow> MatchesDeclared het v t) \<and> (\<not> coherent v \<or> coherent (DeepCopy v))"
  using DeepCopy_strip DeepCopy_idem shape_DeepCopy DeepCopy_coherent by blast

theorem deep_copy_faithful_witness: "coherent (DeepCopy (VList [VInt 1] None))"
  using deep_copy_faithful [of "VList [VInt 1] None" Map.empty TypeInt] by simp

text \<open>
  Binding an argument to a parameter that passed the check of its declared type gives the parameter a
  coherent value of that type with its element types recorded, whether it is copied or, for scalars,
  taken as it is.
\<close>

theorem bound_parameters_typed:
  assumes "wf_ty t" "coherent v" "MatchesDeclared het v t"
  shows "coherent (fst (bindParamValue het v t)) \<and> typed (fst (bindParamValue het v t)) t"
  using bindParamValue_sound [OF assms] .

theorem bound_parameters_typed_witness: "typed (fst (bindParamValue Map.empty (VList [] None) (TypeList (Some TypeInt)))) (TypeList (Some TypeInt))"
  using bound_parameters_typed [of "TypeList (Some TypeInt)" "VList [] None" Map.empty] by simp



text \<open>
  C19. A slice of a string is the slice of its runes, also on the byte-offset path taken when every rune is
  one byte and for strings that are not valid UTF-8.
\<close>

theorem string_slices_by_rune:
  "toRunes (sliceString s lo hi) = take (hi - lo) (drop lo (toRunes s))"
  by (rule toRunes_slice)

section \<open>Maps\<close>

text \<open>
  C20. A lookup through the hash index of a map finds what the linear scan with \<open>==\<close> finds, for every key,
  hashable or not, as long as the index is sound for the entries; the index the runtime builds always
  is.
\<close>

theorem map_index_lookup_is_scan:
  "(idx_inv es idx \<longrightarrow> LookupKey N es idx key = scanKey N key es) \<and> idx_inv es (buildMapIndex es)"
  by (simp add: LookupKey_scan idx_inv_build)

theorem map_index_lookup_is_scan_witness:
  "LookupKey (\<lambda>_ _. False) [(VInt 1, VBool True)] None (VInt 1) = scanKey (\<lambda>_ _. False) (VInt 1) [(VInt 1, VBool True)]"
  using map_index_lookup_is_scan [of "[(VInt 1, VBool True)]" None "\<lambda>_ _. False" "VInt 1"] by simp

text \<open>
  C21. After an upsert, the map with its index holds the value under every spelling of the key (an int and
  the float equal to it are one key) and everything else as before, and it is again a map with a sound
  index and pairwise different keys.
\<close>

theorem map_upsert_lookup:
  "omap_ok m \<Longrightarrow> mapKeyEncode k \<noteq> None \<Longrightarrow> mapKeyEncode k' \<noteq> None \<Longrightarrow>
    omap_ok (omap_upsert N m k v) \<and>
    omap_look N (omap_upsert N m k v) k' = (if mapKeyEncode k' = mapKeyEncode k then Some v else omap_look N m k')"
  using omap.ups_ok omap.look_ups by blast

theorem map_upsert_lookup_witness:
  "omap_look (\<lambda>_ _. False) (omap_upsert (\<lambda>_ _. False) ([], None) (VBool True) (VInt 7)) (VBool True) = Some (VInt 7)"
  using map_upsert_lookup [of "([], None)" "VBool True" "VBool True" "\<lambda>_ _. False" "VInt 7"]
  by (simp add: omap_ok_def indexable_def)

text \<open>
  C22. A map literal that evaluates has one entry per pair, in order, no two of them under the same hashable
  key, and the index built for it.
\<close>

theorem map_literal_keys_distinct:
  assumes "evalMapLit I ev kvs s = Some (Inr v, s')"
  shows "\<exists>es. v = VMap es None None (buildMapIndex es) \<and> length es = length kvs \<and> distinct (keyCodes es)"
  using evalMapLit_distinct [OF assms] .

theorem map_literal_keys_distinct_witness:
  "\<exists>es. length es = 1 \<and> distinct (keyCodes es) \<and>
     evalMapLit sampleInterp (run sampleInterp 1) [(IntLit noPos 1, IntLit noPos 2)] (globalState 0 ()) =
       Some (Inr (VMap es None None (buildMapIndex es)), globalState 0 ())"
proof -
  have "evalMapLit sampleInterp (run sampleInterp 1) [(IntLit noPos 1, IntLit noPos 2)] (globalState 0 ())
      = Some (Inr (VMap [(VInt 1, VInt 2)] None None (buildMapIndex [(VInt 1, VInt 2)])), globalState 0 ())"
    by (simp add: evalMapLit_def bindM_def retM_def evalExpr_def split: option.split)
  with map_literal_keys_distinct [OF this] show ?thesis by auto
qed

section \<open>Control flow\<close>

text \<open>
  C23. A \<open>break\<close> or \<open>continue\<close> never leaves the loop it belongs to: every kind of loop ends with nothing to
  hand on or with a \<open>return\<close>.
\<close>

theorem loops_consume_loop_control:
  "evS (run I n) (WhileStmt p c b) s \<noteq> Some (Inr (FBreak q), s') \<and> evS (run I n) (WhileStmt p c b) s \<noteq> Some (Inr (FContinue q), s')
   \<and> evS (run I n) (RepeatStmt p b c) s \<noteq> Some (Inr (FBreak q), s') \<and> evS (run I n) (RepeatStmt p b c) s \<noteq> Some (Inr (FContinue q), s')
   \<and> evS (run I n) (ForStmt p i oc st b h) s \<noteq> Some (Inr (FBreak q), s') \<and> evS (run I n) (ForStmt p i oc st b h) s \<noteq> Some (Inr (FContinue q), s')
   \<and> evS (run I n) (ForEachStmt p x c b sl) s \<noteq> Some (Inr (FBreak q), s') \<and> evS (run I n) (ForEachStmt p x c b sl) s \<noteq> Some (Inr (FContinue q), s')"
proof (cases n)
  case (Suc k)
  have "settledM m \<Longrightarrow> m s \<noteq> Some (Inr (FBreak q), s') \<and> m s \<noteq> Some (Inr (FContinue q), s')" for m
    by (fastforce simp: settledM_def)
  note out = this [OF settled_execWhile] this [OF settled_execRepeat] this [OF settled_execFor] this [OF settled_execForEach]
  show ?thesis by (simp add: Suc execStmt_def out)
qed (simp add: outOfFuel_def)

text \<open>
  C24. Iterating over a range without building it does what iterating over the list of its ints does, pass by
  pass, whenever that list may be built at all.
\<close>

theorem lazy_range_iteration:
  assumes "\<And>l h s'. rangeBounds ev lo hi q s = Some (Inr (l, h), s') \<Longrightarrow> \<exists>v. rangeList I l h q = Inr v"
  shows "execForEach ev p x (RangeExpr q lo hi) b sl s = bindM (evalRange I ev q lo hi) (eachItems ev p x b sl) s"
  using lazy_range_list [OF assms] by (simp add: execForEach_def)

theorem lazy_range_iteration_witness:
  "execForEach (run sampleInterp 1) noPos ''i'' (RangeExpr noPos (IntLit noPos 0) (IntLit noPos 2)) (Block noPos [] 1) 0 (globalState 0 ())
   = bindM (evalRange sampleInterp (run sampleInterp 1) noPos (IntLit noPos 0) (IntLit noPos 2))
       (eachItems (run sampleInterp 1) noPos ''i'' (Block noPos [] 1) 0) (globalState 0 ())"
proof -
  have "rangeBounds (run sampleInterp 1) (IntLit noPos 0) (IntLit noPos 2) noPos (globalState 0 ()) = Some (Inr (0, 2), globalState 0 ())"
    by (simp add: rangeBounds_def rangeCheck_def bindM_def evalExpr_def retM_def liftR_def word_sless_alt)
  moreover have "\<exists>v. rangeList sampleInterp 0 2 noPos = Inr v" by (simp add: rangeList_def sampleInterp_def word_sless_alt)
  ultimately show ?thesis by (intro lazy_range_iteration) simp
qed












text \<open>\<open>def struct Tree { kids as list of Tree, tag as Tag }; def enum Tag { None, One { of as Tree } };\<close>\<close>

definition loadSample :: program where
  "loadSample = \<lparr>Imports = [], ModuleImports = [], Methods = [],
     Structs = [\<lparr>sPos = noPos, sName = ''Tree'', sFields = [\<lparr>fName = ''kids'', fType = TypeList (Some (TypeStruct ''Tree'' [] [])), fPos = noPos\<rparr>,
       \<lparr>fName = ''tag'', fType = TypeStruct ''Tag'' [] [], fPos = noPos\<rparr>], sExported = False\<rparr>],
     Enums = [\<lparr>edPos = noPos, edName = ''Tag'', edVariants = [\<lparr>evName = ''None'', evFields = [], evPos = noPos\<rparr>,
       \<lparr>evName = ''One'', evFields = [\<lparr>fName = ''of'', fType = TypeStruct ''Tree'' [] [], fPos = noPos\<rparr>], evPos = noPos\<rparr>], edExported = False\<rparr>],
     TopLevel = [], NumGlobals = 0, PendingEnumMatches = []\<rparr>"

definition loads :: "'w interp result option \<Rightarrow> bool" where
  "loads r \<longleftrightarrow> (case r of Some (Inr _) \<Rightarrow> True | _ \<Rightarrow> False)"


text \<open>
  C31. A loaded program finds each of its functions, structs and enums under its own name, the \<open>Error\<close> struct
  among them, and nothing else.
\<close>

theorem declarations_found_by_name:
  assumes "loadProgram I isModule prog = Some (Inr I')"
  shows "(methods I' n = Some m \<longleftrightarrow> m \<in> set (Methods prog) \<and> mName m = n) \<and>
    (structs I' n = Some s \<longleftrightarrow> s \<in> set (canonicalErrorStructDef # Structs prog) \<and> sName s = n) \<and>
    (enums I' n = Some e \<longleftrightarrow> e \<in> set (Enums prog) \<and> edName e = n)"
  using loaded_lookup [OF assms] by simp

theorem declarations_found_by_name_witness:
  "\<exists>I'. loadProgram sampleInterp False loadSample = Some (Inr I') \<and> structs I' ''Error'' = Some canonicalErrorStructDef \<and>
     enums I' ''Tag'' = Some (hd (Enums loadSample))"
proof -
  have "loads (loadProgram sampleInterp False loadSample)" by code_simp
  then obtain I' where I': "loadProgram sampleInterp False loadSample = Some (Inr I')" by (auto simp: loads_def split: option.splits sum.splits)
  show ?thesis using I' declarations_found_by_name [OF I']
    by (auto simp: canonicalErrorStructDef_def canonicalErrorStructName_def loadSample_def)
qed

text \<open>
  Every type of a loaded program has a zero value: the recursive construction ends, whatever structs and
  enums the program declares, when the struct tables of the libraries are themselves free of by-value
  cycles and every enum has a variant.
\<close>

theorem loaded_types_have_zero:
  assumes "loadProgram I isModule prog = Some (Inr I')" "libRank I rank" "variants_ok (programEnums prog)"
  shows "\<exists>k. zeroField I' k p t \<noteq> None"
  using assms by (rule loaded_zero)

theorem loaded_types_have_zero_witness:
  "\<exists>I' k. loadProgram sampleInterp False loadSample = Some (Inr I') \<and> zeroField I' k noPos (TypeStruct ''Tree'' [] []) \<noteq> None"
proof -
  have "loads (loadProgram sampleInterp False loadSample)" by code_simp
  then obtain I' where I': "loadProgram sampleInterp False loadSample = Some (Inr I')" by (auto simp: loads_def split: option.splits sum.splits)
  have "libRank sampleInterp (\<lambda>_. 0)" by (simp add: libRank_def sampleInterp_def)
  moreover have "variants_ok (programEnums loadSample)" by (simp add: variants_ok_def programEnums_def tableOf_def loadSample_def)
  ultimately show ?thesis using loaded_types_have_zero [OF I'] I' by blast
qed

text \<open>
  C33. The tokens of a source, comments and blank lines among them, spell it: it is the concatenation of their
  spellings with white space between, and nothing else is dropped or invented. The stream ends with its
  only \<open>EOF\<close> and keeps to the token budget.
\<close>

theorem tokens_spell_source:
  assumes "TokenizeWithFile L source file = Inr ts"
  shows "\<exists>gaps. length gaps = length ts \<and> (\<forall>g \<in> set gaps. \<forall>r \<in> set g. r = 10 \<or> isSpace r) \<and>
      ofRunes (rest (newLexer source file)) = concat (map2 (\<lambda>g t. ofRunes g @ spelling t) gaps ts) \<and>
      ts \<noteq> [] \<and> (\<forall>i < length ts. tType (ts ! i) = TOKEN_EOF \<longleftrightarrow> Suc i = length ts) \<and> length ts \<le> maxTokens L"
proof -
  from tokenizeAll_layout [OF assms [unfolded TokenizeWithFile_def]] obtain cs where
    c: "layout (1, 1) (rest (newLexer source file)) cs ts" "length ts \<le> maxTokens L" by (auto simp: newLexer_def Let_def)
  have "map2 (\<lambda>(g, c) t. ofRunes g @ spelling t) cs ts = map2 (\<lambda>g t. ofRunes g @ spelling t) (map fst cs) ts"
    by (simp add: zip_map1 case_prod_beta')
  with layout_spells [OF c(1)] layout_source [OF c(1)] layout_positions [OF c(1)] c show ?thesis
    by (intro exI [of _ "map fst cs"]) (cases ts; fastforce)
qed

definition sampleLimits :: limits where
  "sampleLimits = \<lparr>maxTokens = 100, MaxNestingDepth = 10, MaxSourceBytes = 1000\<rparr>"

theorem tokens_spell_source_witness:
  "\<exists>ts gaps. TokenizeWithFile sampleLimits ''$x = 0x1_F; # end'' [] = Inr ts \<and> length ts = 6 \<and> length gaps = 6 \<and>
     ofRunes (rest (newLexer ''$x = 0x1_F; # end'' [])) = concat (map2 (\<lambda>g t. ofRunes g @ spelling t) gaps ts)"
proof -
  have "case TokenizeWithFile sampleLimits ''$x = 0x1_F; # end'' [] of Inr ts \<Rightarrow> length ts = 6 | Inl _ \<Rightarrow> False" by (simp add: sampleLimits_def lexer_run)
  then obtain ts where ts: "TokenizeWithFile sampleLimits ''$x = 0x1_F; # end'' [] = Inr ts" "length ts = 6" by (auto split: sum.splits)
  from tokens_spell_source [OF ts(1)] ts show ?thesis by auto
qed

text \<open>
  C34. Every token stands at its position: its line and column are those of the source text before it, and the
  text from there on begins with its spelling (a blank line is reported where the white space starts).
\<close>

theorem token_positions_exact:
  assumes "TokenizeWithFile L source file = Inr ts" "i < length ts" "tType (ts ! i) \<noteq> TOKEN_BLANK_LINE"
  shows "\<exists>pre c post. rest (newLexer source file) = pre @ c @ post \<and> (tLine (ts ! i), tCol (ts ! i)) = moved (1, 1) pre \<and>
      spelling (ts ! i) = ofRunes c"
proof -
  from tokenizeAll_layout [OF assms(1) [unfolded TokenizeWithFile_def]] obtain cs where
    "layout (1, 1) (rest (newLexer source file)) cs ts" by (auto simp: newLexer_def Let_def)
  from layout_positions [OF this assms(2)] assms(3) show ?thesis by blast
qed

theorem token_positions_exact_witness:
  "\<exists>ts pre c post. TokenizeWithFile sampleLimits ''$x = 0x1_F; # end'' [] = Inr ts \<and>
     rest (newLexer ''$x = 0x1_F; # end'' []) = pre @ c @ post \<and> (tLine (ts ! 2), tCol (ts ! 2)) = moved (1, 1) pre \<and> spelling (ts ! 2) = ofRunes c"
proof -
  have "case TokenizeWithFile sampleLimits ''$x = 0x1_F; # end'' [] of Inr ts \<Rightarrow> 2 < length ts \<and> tType (ts ! 2) \<noteq> TOKEN_BLANK_LINE | Inl _ \<Rightarrow> False" by (simp add: sampleLimits_def lexer_run)
  then obtain ts where ts: "TokenizeWithFile sampleLimits ''$x = 0x1_F; # end'' [] = Inr ts" "2 < length ts" "tType (ts ! 2) \<noteq> TOKEN_BLANK_LINE"
    by (auto split: sum.splits)
  from token_positions_exact [OF ts] ts(1) show ?thesis by blast
qed

text \<open>
  C35. Every text can be written as a string literal: quoted, with its quotes, backslashes and braces escaped,
  it is read back as one string token whose value is the text.
\<close>

theorem string_literals_round_trip:
  assumes "\<forall>r \<in> set rs. scalar r" "2 \<le> maxTokens L"
  shows "\<exists>t e. Tokenize L (ofRunes (cookedLiteral rs)) = Inr [t, e] \<and> tType t = TOKEN_STRING \<and> Lexeme t = ofRunes rs \<and> tType e = TOKEN_EOF"
proof -
  have "toRunes (ofRunes (cookedLiteral rs)) = cookedLiteral rs"
    using assms(1) by (intro toRunes_ofRunes) (auto simp: cookedLiteral_def escapeRune_def scalar_def)
  then have n: "rest (newLexer (ofRunes (cookedLiteral rs)) []) = cookedLiteral rs @ []" by (simp add: newLexer_def cookedLiteral_def)
  from Next_cookedLiteral [OF n, of L] obtain t l' where t: "Next L (newLexer (ofRunes (cookedLiteral rs)) []) = Inr (t, l')"
    "rest l' = []" "l_file l' = []" "tType t = TOKEN_STRING" "Lexeme t = ofRunes rs" by (auto simp: newLexer_def Let_def)
  have "Next L l' = Inr (mkToken TOKEN_EOF [] (l_line l') (l_col l'), l')" using t(2)
    by (simp add: Next_def nextTrivia_def skipSpace.simps)
  with t assms(2) have "Tokenize L (ofRunes (cookedLiteral rs)) = Inr [t, mkToken TOKEN_EOF [] (l_line l') (l_col l')]"
    by (simp add: Tokenize_def TokenizeWithFile_def tokenizeAll.simps newLexer_def Let_def)
  with t show ?thesis by auto
qed

theorem string_literals_round_trip_witness:
  "\<exists>t e. Tokenize sampleLimits (ofRunes (cookedLiteral [97, 34, 0x1F600])) = Inr [t, e] \<and> tType t = TOKEN_STRING \<and>
     Lexeme t = ofRunes [97, 34, 0x1F600] \<and> tType e = TOKEN_EOF"
  using string_literals_round_trip [of "[97, 34, 0x1F600]" sampleLimits] by (simp add: scalar_def sampleLimits_def)

text \<open>
  C36. Parsing always ends: every source text is turned into a program or a positioned error. No loop or
  recursion of the parser runs forever and no token is read past the end of the stream, which would panic.
\<close>

theorem parse_always_returns:
  "\<exists>r. Parse L source = Some r \<and> r \<noteq> Inl Panic"
proof (cases "Tokenize L source")
  case (Inr toks)
  then have "returns (parsedProgram (MaxNestingDepth L)) (Parse L source)"
    using runParser_returns Tokenize_stream [OF Inr] by (simp add: Parse_def)
  then show ?thesis by (auto simp: returns_def split: option.splits sum.splits)
qed (simp add: Parse_def)

lemma Parse_well_formed:
  assumes "Parse L source = Some (Inr prog)"
  shows "parsedProgram (MaxNestingDepth L) prog"
proof (cases "Tokenize L source")
  case (Inr toks)
  then have "returns (parsedProgram (MaxNestingDepth L)) (Parse L source)"
    using runParser_returns Tokenize_stream [OF Inr] by (simp add: Parse_def)
  then show ?thesis using assms by (simp add: returns_def)
qed (use assms in \<open>simp add: Parse_def\<close>)

text \<open>
  C37. What the parser returns is a well-formed program: names keep to the spelling rules, fields and variants are
  distinct, an enum has a variant, constants have an initializer, a deferred expression is a call, written
  chains start at a variable, declared types are complete and no deeper than the nesting limit, only
  constants carry \<open>export\<close> among the statements, and no slot or mark of a later pass is set.
\<close>

theorem parsed_programs_well_formed:
  assumes "Parse L source = Some (Inr prog)"
  shows "parsedProgram (MaxNestingDepth L) prog"
  using assms by (rule Parse_well_formed)

lemma assignValue:
  "p_toks s = t # u # us \<Longrightarrow> tType t = TOKEN_INT \<Longrightarrow> Lexeme t = ''1'' \<Longrightarrow> tType u = TOKEN_SEMI \<Longrightarrow> p_seed s = None \<Longrightarrow> p_exprDepth s = 0 \<Longrightarrow>
    parseExpr sampleLimits R s = Some (Inr (IntLit (tokPos t) 1, s\<lparr>p_toks := u # us\<rparr>))"
  by (simp add: sampleLimits_def monad_run token_run ladder_run intAtom_def ParseInt_def ParseUint_def numeralParts_def digitVal_def byte_def Let_def)

lemma sampleChars: "char_of (120 :: nat) = CHR ''x''" "char_of (61 :: nat) = CHR ''=''" "char_of (49 :: nat) = CHR ''1''" "char_of (59 :: nat) = CHR '';''"
  using char_of_byte [of "CHR ''x''"] char_of_byte [of "CHR ''=''"] char_of_byte [of "CHR ''1''"] char_of_byte [of "CHR '';''"]
  by (simp_all add: byte_def)

definition sampleParsed :: program where
  "sampleParsed = emptyProgram\<lparr>TopLevel := [(False,
     AssignStmt \<lparr>File = [], Line = 1, Col = 1\<rparr> ''x'' (IntLit \<lparr>File = [], Line = 1, Col = 6\<rparr> 1) (- 1) (- 1))]\<rparr>"

lemma sampleParse: "Parse sampleLimits ''$x = 1;'' = Some (Inr sampleParsed)"
proof -
  have t: "Tokenize sampleLimits ''$x = 1;'' = Inr [mkToken TOKEN_VARREF ''x'' 1 1, mkToken TOKEN_ASSIGN ''='' 1 4,
      (mkToken TOKEN_INT ''1'' 1 6)\<lparr>Raw := ''1''\<rparr>, mkToken TOKEN_SEMI '';'' 1 7, mkToken TOKEN_EOF [] 1 8]"
    by (simp add: Tokenize_def sampleLimits_def lexer_run sampleChars)
  then show ?thesis by (simp add: Parse_def parser_run mkToken_def varStatement_def parseAssign_def assignValue sampleParsed_def)
qed

theorem parsed_programs_well_formed_witness:
  "\<exists>prog. Parse sampleLimits ''$x = 1;'' = Some (Inr prog) \<and> length (TopLevel prog) = 1 \<and> parsedProgram 10 prog"
  using parsed_programs_well_formed [OF sampleParse] sampleParse by (simp add: sampleLimits_def sampleParsed_def)

text \<open>
  C38. The parser keeps to the expression grammar: the tree it returns derives, by the levels of the grammar, exactly the
  tokens it has read. So operators bind by level and to the left, ranges do not chain, brackets and
  commas stand where the grammar has them, and nothing is skipped or read twice.
\<close>

theorem parsed_expressions_follow_grammar:
  assumes "parseExpr L (parserN L n) s = Some (Inr (e, s'))" "p_seed s = None" "stream (p_toks s)"
  shows "\<exists>ts. p_toks s = ts @ p_toks s' \<and> derives L rangeLevel e ts"
  using assms by (rule parser_reads)

text \<open>\<open>$a - $b * $c;\<close>, where the product binds tighter.\<close>

definition sampleTokens :: "token list" where
  "sampleTokens = [mkToken TOKEN_VARREF ''a'' 1 1, mkToken TOKEN_MINUS ''-'' 1 4, mkToken TOKEN_VARREF ''b'' 1 6, mkToken TOKEN_STAR ''*'' 1 9,
     mkToken TOKEN_VARREF ''c'' 1 11, mkToken TOKEN_SEMI '';'' 1 13, mkToken TOKEN_EOF [] 1 14]"

theorem parsed_expressions_follow_grammar_witness:
  "\<exists>l r m s'. parseExpr sampleLimits (parserN sampleLimits 7) (newParser sampleTokens) = Some (Inr (BinaryExpr l OpSub r m None, s')) \<and>
     p_toks s' = drop 5 sampleTokens \<and> derives sampleLimits rangeLevel (BinaryExpr l OpSub r m None) (take 5 sampleTokens)"
proof -
  have p: "\<exists>l r m s'. parseExpr sampleLimits (parserN sampleLimits 7) (newParser sampleTokens) = Some (Inr (BinaryExpr l OpSub r m None, s')) \<and> p_toks s' = drop 5 sampleTokens"
    by (simp add: sampleTokens_def newParser_def sampleLimits_def mkToken_def monad_run token_run ladder_run del: parserN.simps)
  then obtain l r m s' where e: "parseExpr sampleLimits (parserN sampleLimits 7) (newParser sampleTokens) = Some (Inr (BinaryExpr l OpSub r m None, s'))"
    "p_toks s' = drop 5 sampleTokens" by blast
  have "stream sampleTokens" by (simp add: stream_def sampleTokens_def goodTok_def mkToken_def)
  then obtain ts where "sampleTokens = ts @ drop 5 sampleTokens" "derives sampleLimits rangeLevel (BinaryExpr l OpSub r m None) ts"
    using parsed_expressions_follow_grammar [OF e(1)] e(2) by (auto simp: newParser_def)
  moreover from this(1) have "ts = take 5 sampleTokens" by (metis append_take_drop_id append_same_eq)
  ultimately show ?thesis using e by blast
qed

text \<open>A program with a global, a loop whose body has a variable of its own, and three functions: one returns a new list, one
  what the first returns, one its parameter.\<close>

definition scopeBody :: block where
  "scopeBody = Block noPos [DefineStmt noPos False ''y'' TypeInt (Some (VarExpr noPos ''x'' (- 1) (- 1) False)) (- 1) False,
     AssignStmt noPos ''x'' (BinaryExpr noPos OpAdd (VarExpr noPos ''y'' (- 1) (- 1) False) (IntLit noPos 1) None) (- 1) (- 1)] 0"

definition listMethod :: "string \<Rightarrow> bool \<Rightarrow> expr \<Rightarrow> methodDef" where
  "listMethod f b e = \<lparr>mPos = noPos, mName = f, mParams = [\<lparr>pName = ''a'', pType = TypeList (Some TypeInt), pPos = noPos, pBorrow = b\<rparr>],
     mBody = Block noPos [ReturnStmt noPos (Some e)] 0, mGlobalSafe = False, mReturnsOwned = False, mExported = False\<rparr>"

definition scopeMethods :: "string option \<Rightarrow> bool \<Rightarrow> methodDef list" where
  "scopeMethods callee b = [listMethod ''fresh'' b (ListLit noPos [IntLit noPos 1]),
     listMethod ''again'' b (CallExpr noPos ''fresh'' [VarExpr noPos ''a'' (- 1) (- 1) False] callee 0 []),
     listMethod ''same'' b (VarExpr noPos ''a'' (- 1) (- 1) False)]"

definition scopeSample :: program where
  "scopeSample = emptyProgram\<lparr>TopLevel := [(False, DefineStmt noPos False ''x'' TypeInt (Some (IntLit noPos 1)) (- 1) False),
     (False, WhileStmt noPos (BoolLit noPos True) scopeBody)], Methods := scopeMethods None False\<rparr>"

text \<open>The slots of the assignment in the body, and the marks of the functions.\<close>

definition sampleFacts :: "parseError + program \<Rightarrow> bool" where
  "sampleFacts r = (case r of Inl _ \<Rightarrow> False | Inr prog \<Rightarrow> map mReturnsOwned (Methods prog) = [True, True, False] \<and>
     (case TopLevel prog of [_, (_, WhileStmt _ _ (Block _ [_, AssignStmt _ _ _ d sl] n))] \<Rightarrow> d = 1 \<and> sl = 0 \<and> n = 1 | _ \<Rightarrow> False))"

lemma scopeSample_facts: "sampleFacts (Resolve scopeSample)"
  by code_simp

lemma scopeSample_resolves: "\<exists>prog'. Resolve scopeSample = Inr prog' \<and> sampleFacts (Inr prog')"
  using scopeSample_facts by (cases "Resolve scopeSample") (auto simp: sampleFacts_def)



text \<open>
  C17. Resolving changes annotations and nothing else: without slots, folded constants, patterns and marks, the resolved program
  is the parsed one.
\<close>

theorem resolving_only_annotates:
  assumes "Resolve prog = Inr prog'"
  shows "eraseProgram prog' = eraseProgram prog"
  using resolved [OF assms] by simp

theorem resolving_only_annotates_witness:
  "\<exists>prog'. Resolve scopeSample = Inr prog' \<and> prog' \<noteq> scopeSample \<and> eraseProgram prog' = eraseProgram scopeSample"
proof -
  obtain prog' where r: "Resolve scopeSample = Inr prog'" "sampleFacts (Inr prog')" using scopeSample_resolves by blast
  have "\<not> sampleFacts (Inr scopeSample)" by code_simp
  then show ?thesis using r resolving_only_annotates [OF r(1)] by metis
qed

text \<open>
  C32. The methods marked as returning owned values are the most that can be: every return of a marked method is owned when
  the marks are right for the methods it calls, and any set of methods with that property is marked.
\<close>

theorem returns_owned_greatest:
  "(\<forall>m \<in> set ms. ownLoop ms (\<lambda>_. True) (mName m) \<longrightarrow> returnsOwn (ownLoop ms (\<lambda>_. True)) m) \<and>
   (\<forall>H. (\<forall>m \<in> set ms. H (mName m) \<longrightarrow> returnsOwn H m) \<longrightarrow> (\<forall>n. H n \<longrightarrow> ownLoop ms (\<lambda>_. True) n)) \<and>
   map (\<lambda>m. (mName m, mReturnsOwned m)) (markOwnership ms) = map (\<lambda>m. (mName m, ownLoop ms (\<lambda>_. True) (mName m))) ms"
proof (intro conjI allI impI ballI)
  show "returnsOwn (ownLoop ms (\<lambda>_. True)) m" if "m \<in> set ms" "ownLoop ms (\<lambda>_. True) (mName m)" for m using that by (rule ownLoop_consistent)
  show "ownLoop ms (\<lambda>_. True) n" if "\<forall>m \<in> set ms. H (mName m) \<longrightarrow> returnsOwn H m" "H n" for H n
    using ownLoop_greatest [of ms H "\<lambda>_. True"] that by (auto simp: le_fun_def)
qed (simp add: markOwnership_def Let_def comp_def)

theorem returns_owned_greatest_witness:
  "map (\<lambda>m. mReturnsOwned m) (markOwnership (scopeMethods (Some ''fresh'') True)) = [True, True, False] \<and>
   returnsOwn (ownLoop (scopeMethods (Some ''fresh'') True) (\<lambda>_. True)) (scopeMethods (Some ''fresh'') True ! 1)"
proof -
  let ?ms = "scopeMethods (Some ''fresh'') True"
  have F: "map (\<lambda>m. ownLoop ?ms (\<lambda>_. True) (mName m)) ?ms = [True, True, False]" by code_simp
  have "map snd (map (\<lambda>m. (mName m, mReturnsOwned m)) (markOwnership ?ms)) = map snd (map (\<lambda>m. (mName m, ownLoop ?ms (\<lambda>_. True) (mName m))) ?ms)"
    using returns_owned_greatest [of ?ms] by metis
  with F have "map (\<lambda>m. mReturnsOwned m) (markOwnership ?ms) = [True, True, False]" by (simp add: comp_def)
  moreover have "?ms ! 1 \<in> set ?ms" "ownLoop ?ms (\<lambda>_. True) (mName (?ms ! 1))" using F by (simp_all add: scopeMethods_def)
  ultimately show ?thesis using returns_owned_greatest [of ?ms] by (simp add: comp_def del: One_nat_def)
qed


text \<open>\<open>def x as int init 1;\<close> through the lexer, the parser and the resolver.\<close>

definition defineTokens :: "token list" where
  "defineTokens = [mkToken TOKEN_DEFINE ''def'' 1 1, mkToken TOKEN_IDENT ''x'' 1 5, mkToken TOKEN_AS ''as'' 1 7, mkToken TOKEN_INT_TYPE ''int'' 1 10,
     mkToken TOKEN_INIT ''init'' 1 14, (mkToken TOKEN_INT ''1'' 1 19)\<lparr>Raw := ''1''\<rparr>, mkToken TOKEN_SEMI '';'' 1 20, mkToken TOKEN_EOF [] 1 21]"

definition defineParsed :: "int \<Rightarrow> program" where
  "defineParsed sl = emptyProgram\<lparr>TopLevel := [(False,
     DefineStmt \<lparr>File = [], Line = 1, Col = 1\<rparr> False ''x'' TypeInt (Some (IntLit \<lparr>File = [], Line = 1, Col = 19\<rparr> 1)) sl False)]\<rparr>"

lemma wordChars:
  "char_of (100 :: nat) = CHR ''d''" "char_of (101 :: nat) = CHR ''e''" "char_of (102 :: nat) = CHR ''f''" "char_of (97 :: nat) = CHR ''a''"
  "char_of (115 :: nat) = CHR ''s''" "char_of (105 :: nat) = CHR ''i''" "char_of (110 :: nat) = CHR ''n''" "char_of (116 :: nat) = CHR ''t''"
  using char_of_byte [of "CHR ''d''"] char_of_byte [of "CHR ''e''"] char_of_byte [of "CHR ''f''"] char_of_byte [of "CHR ''a''"]
    char_of_byte [of "CHR ''s''"] char_of_byte [of "CHR ''i''"] char_of_byte [of "CHR ''n''"] char_of_byte [of "CHR ''t''"]
  by (simp_all add: byte_def)

lemma defineParse: "Parse sampleLimits ''def x as int init 1;'' = Some (Inr (defineParsed (- 1)))"
proof -
  have "Tokenize sampleLimits ''def x as int init 1;'' = Inr defineTokens"
    by (simp add: defineTokens_def Tokenize_def sampleLimits_def lexer_run sampleChars wordChars readIdentifierOrKeyword_def isIdentPartLoose_def
        lookupKeyword_def keywordTable_def)
  moreover have "MaxNestingDepth sampleLimits = 10" by (simp add: sampleLimits_def)
  ultimately show ?thesis
    by (simp add: Parse_def parser_run mkToken_def parseDefineLike_def varDefine_def assignValue plainName_def parseType_def parseTypeBody_def
        containsUnderscore_def defineTokens_def defineParsed_def)
qed

definition defineResolved :: program where
  "defineResolved = (defineParsed 0)\<lparr>NumGlobals := 1\<rparr>"

lemma defineResolve: "Resolve (defineParsed (- 1)) = Inr defineResolved"
  by (simp add: defineResolved_def defineParsed_def emptyProgram_def Resolve_def resolveProgram_def hoistError_def Let_def programCtx_def retR_def bindR_def
      rootFrame_def methodClash_def markOwnership_def optR_def defineName_def lookupChain_def namedTypeOf_def currentCount_def bindSlot_def)

lemma defineLoad: "\<exists>I'. loadProgram sampleInterp False defineResolved = Some (Inr I')"
proof -
  have "loads (loadProgram sampleInterp False defineResolved)" by code_simp
  then show ?thesis by (auto simp: loads_def split: option.splits sum.splits)
qed

definition definedInt :: "unit interp result option \<Rightarrow> bool" where
  "definedInt r = (case r of
     Some (Inr I') \<Rightarrow> (case runProgram I' 4 (NumGlobals defineResolved) (map snd (TopLevel defineResolved)) () of
         Some (Inr _, s') \<Rightarrow> (case getBindingRoot (st_env s') ''x'' 0 0 of Inr b \<Rightarrow> bType b = TypeInt | Inl _ \<Rightarrow> False)
       | _ \<Rightarrow> False)
   | _ \<Rightarrow> False)"


text \<open>
  C1. Type soundness, from source text. However a program ends, in an error, an exit or regularly, once its text is parsed, resolved and
  loaded, every variable that has a declared type holds a coherent value of that type, with the declared
  element types recorded throughout. The two exceptions are part of the language: a task or channel variable
  that was never initialised holds null, and a caught struct named Error of some other namespace is bound at
  the type of the builtin Error. The libraries are assumed to return coherent values, and no declared map has
  lists or maps as keys.
\<close>

theorem source_programs_type_safe:
  assumes "Parse L source = Some (Inr prog)" "list_all scalarKeys (declaredTypes prog)" "Resolve prog = Inr prog'"
    "loadProgram I isModule prog' = Some (Inr I')" "interp_ok I"
    "runProgram I' n (NumGlobals prog') (map snd (TopLevel prog')) w = Some (r, s')"
    "getBindingRoot (st_env s') x d sl = Inr b" "bType b \<noteq> TypeInvalid"
  shows "coherent (bValue b) \<and>
    (typed (bValue b) (bType b) \<or> nullHandle (bValue b) (bType b) \<or> caughtError (bValue b) (bType b))"
proof -
  note parsed = Parse_well_formed [OF assms(1)]
  show ?thesis
    by (rule program_variables_typed [OF loaded_program_ok [OF parsed assms(2-5)] resolved_program_wf(1) [OF parsed assms(2,3)] assms(6-8)])
qed

theorem source_programs_type_safe_witness:
  "\<exists>prog prog' I' s' b. Parse sampleLimits ''def x as int init 1;'' = Some (Inr prog) \<and> Resolve prog = Inr prog' \<and>
     loadProgram sampleInterp False prog' = Some (Inr I') \<and> runProgram I' 4 (NumGlobals prog') (map snd (TopLevel prog')) () = Some (Inr (), s') \<and>
     getBindingRoot (st_env s') ''x'' 0 0 = Inr b \<and> bType b = TypeInt \<and> typed (bValue b) TypeInt"
proof -
  obtain I' where I': "loadProgram sampleInterp False defineResolved = Some (Inr I')" using defineLoad by blast
  let ?run = "runProgram I' 4 (NumGlobals defineResolved) (map snd (TopLevel defineResolved)) ()"
  have "definedInt (loadProgram sampleInterp False defineResolved)" by code_simp
  then have ok: "definedInt (Some (Inr I'))" by (simp add: I')
  then obtain a s' where a: "?run = Some (a, s')" by (cases ?run) (auto simp: definedInt_def)
  obtain b where r: "?run = Some (Inr (), s')" "getBindingRoot (st_env s') ''x'' 0 0 = Inr b" "bType b = TypeInt"
    using ok a by (cases a; cases "getBindingRoot (st_env s') ''x'' 0 0") (simp_all add: definedInt_def)
  have t: "list_all scalarKeys (declaredTypes (defineParsed (- 1)))" by (simp add: declaredTypes_def defineParsed_def emptyProgram_def)
  from r(3) have "bType b \<noteq> TypeInvalid" by simp
  from source_programs_type_safe [OF defineParse t defineResolve I' sampleInterp_ok r(1,2) this] r(3)
  have "typed (bValue b) TypeInt" by (simp add: nullHandle_def caughtError_def)
  with defineParse defineResolve I' r show ?thesis by blast
qed





end
